(* ===== verification/Prelude.thy ===== *)
theory Prelude
  imports Complex_Main "HOL-Library.Char_ord" "HOL-Library.List_Lexorder"
begin

text \<open>
  Shared vocabulary of the development: the collections of facts the component theories fill, the
  result type for code that throws, and generic lemmas on lists and options that several components
  use. Strings are HOL strings ordered lexicographically by character code, which is how JavaScript
  compares strings of code units below U+0100.
\<close>

named_theorems js_simps \<open>evaluation rules of the JavaScript primitives\<close>
named_theorems js_string_simps \<open>evaluation rules of the string primitives\<close>

text \<open>A function that may throw: \<open>Inl\<close> is the thrown value, \<open>Inr\<close> the returned one.\<close>

type_synonym ('e, 'a) outcome = "'e + 'a"

definition outcome_bind :: "('e, 'a) outcome \<Rightarrow> ('a \<Rightarrow> ('e, 'b) outcome) \<Rightarrow> ('e, 'b) outcome" where
  "outcome_bind r f = (case r of Inl e \<Rightarrow> Inl e | Inr x \<Rightarrow> f x)"

lemma outcome_bind_simps [simp]:
  "outcome_bind (Inl e) f = Inl e"
  "outcome_bind (Inr x) f = f x"
  by (simp_all add: outcome_bind_def)

lemma outcome_bind_Inr_iff [simp]:
  "outcome_bind r f = Inr y \<longleftrightarrow> (\<exists>x. r = Inr x \<and> f x = Inr y)"
  by (cases r) auto

lemma outcome_bind_Inl_iff:
  "outcome_bind r f = Inl e \<longleftrightarrow> r = Inl e \<or> (\<exists>x. r = Inr x \<and> f x = Inl e)"
  by (cases r) auto

lemma outcome_bind_cong [fundef_cong]:
  "r = r' \<Longrightarrow> (\<And>x. r' = Inr x \<Longrightarrow> f x = g x) \<Longrightarrow> outcome_bind r f = outcome_bind r' g"
  by (cases r') auto

fun outcome_map :: "('a \<Rightarrow> ('e, 'b) outcome) \<Rightarrow> 'a list \<Rightarrow> ('e, 'b list) outcome" where
  "outcome_map f [] = Inr []"
| "outcome_map f (x # xs) =
     outcome_bind (f x) (\<lambda>y. outcome_bind (outcome_map f xs) (\<lambda>ys. Inr (y # ys)))"

lemma outcome_map_cong [fundef_cong]:
  "xs = ys \<Longrightarrow> (\<And>x. x \<in> set ys \<Longrightarrow> f x = g x) \<Longrightarrow> outcome_map f xs = outcome_map g ys"
  by (induction ys arbitrary: xs) auto

lemma outcome_map_length: "outcome_map f xs = Inr ys \<Longrightarrow> length ys = length xs"
  by (induction xs arbitrary: ys) auto

lemma outcome_map_Inr_iff:
  "outcome_map f xs = Inr ys \<longleftrightarrow> list_all2 (\<lambda>x y. f x = Inr y) xs ys"
proof (induction xs arbitrary: ys)
  case Nil
  then show ?case by auto
next
  case (Cons x xs)
  then show ?case by (auto simp: list_all2_Cons1)
qed

text \<open>A loop whose body may throw.\<close>

fun outcome_fold :: "('a \<Rightarrow> 'b \<Rightarrow> ('e, 'a) outcome) \<Rightarrow> 'a \<Rightarrow> 'b list \<Rightarrow> ('e, 'a) outcome" where
  "outcome_fold f a [] = Inr a"
| "outcome_fold f a (x # xs) = outcome_bind (f a x) (\<lambda>b. outcome_fold f b xs)"

lemma outcome_fold_invariant:
  assumes "outcome_fold f a xs = Inr b" and "Q a"
    and "\<And>a x b. Q a \<Longrightarrow> x \<in> set xs \<Longrightarrow> f a x = Inr b \<Longrightarrow> Q b"
  shows "Q b"
  using assms
proof (induction xs arbitrary: a)
  case (Cons x xs)
  from Cons.prems(1) obtain c where c: "f a x = Inr c" "outcome_fold f c xs = Inr b" by auto
  have "Q c" by (rule Cons.prems(3) [OF Cons.prems(2) _ c(1)]) simp
  with c(2) show ?case by (rule Cons.IH) (rule Cons.prems(3), simp_all)
qed simp

lemma outcome_fold_Inl:
  "outcome_fold f a xs = Inl e \<Longrightarrow> \<exists>b x. x \<in> set xs \<and> f b x = Inl e"
proof (induction xs arbitrary: a)
  case (Cons x xs)
  show ?case
  proof (cases "f a x")
    case (Inl e')
    with Cons.prems show ?thesis by (intro exI [of _ a] exI [of _ x]) simp
  next
    case (Inr b)
    with Cons.prems have "outcome_fold f b xs = Inl e" by simp
    from Cons.IH [OF this] show ?thesis by auto
  qed
qed simp

subsection \<open>Lists\<close>

fun find_first :: "('a \<Rightarrow> bool) \<Rightarrow> 'a list \<Rightarrow> 'a option" where
  "find_first p [] = None"
| "find_first p (x # xs) = (if p x then Some x else find_first p xs)"

lemma find_first_Some: "find_first p xs = Some x \<Longrightarrow> x \<in> set xs \<and> p x"
  by (induction xs) (auto split: if_splits)

lemma find_first_None_iff: "find_first p xs = None \<longleftrightarrow> (\<forall>x \<in> set xs. \<not> p x)"
  by (induction xs) auto

lemma find_first_cong:
  "(\<And>x. x \<in> set xs \<Longrightarrow> p x = q x) \<Longrightarrow> find_first p xs = find_first q xs"
  by (induction xs) auto

fun indexed :: "nat \<Rightarrow> 'a list \<Rightarrow> (nat \<times> 'a) list" where
  "indexed n [] = []"
| "indexed n (x # xs) = (n, x) # indexed (Suc n) xs"

lemma indexed_eq_zip: "indexed n xs = zip [n..<n + length xs] xs"
proof (induction xs arbitrary: n)
  case (Cons x xs)
  then show ?case by (simp add: upt_rec)
qed simp

lemma map_snd_indexed [simp]: "map snd (indexed n xs) = xs"
  by (induction xs arbitrary: n) auto

lemma set_indexed: "(i, x) \<in> set (indexed n xs) \<longleftrightarrow> n \<le> i \<and> i < n + length xs \<and> xs ! (i - n) = x"
proof (induction xs arbitrary: n)
  case (Cons y xs)
  then show ?case by (cases "i = n") (auto simp: nth_Cons')
qed simp

fun dedupe :: "'a list \<Rightarrow> 'a list" where
  "dedupe [] = []"
| "dedupe (x # xs) = x # filter (\<lambda>y. y \<noteq> x) (dedupe xs)"

lemma set_dedupe [simp]: "set (dedupe xs) = set xs"
  by (induction xs) auto

lemma distinct_dedupe [simp]: "distinct (dedupe xs)"
  by (induction xs) auto

lemma dedupe_distinct: "distinct xs \<Longrightarrow> dedupe xs = xs"
proof (induction xs)
  case (Cons x xs)
  then have "filter (\<lambda>y. y \<noteq> x) xs = xs" by (auto intro: filter_True)
  with Cons show ?case by simp
qed simp

subsection \<open>Association lists with distinct keys: the own properties of an object\<close>

fun aget :: "('k \<times> 'v) list \<Rightarrow> 'k \<Rightarrow> 'v option" where
  "aget [] k = None"
| "aget ((k', v) # kvs) k = (if k' = k then Some v else aget kvs k)"

fun aput :: "('k \<times> 'v) list \<Rightarrow> 'k \<Rightarrow> 'v \<Rightarrow> ('k \<times> 'v) list" where
  "aput [] k v = [(k, v)]"
| "aput ((k', v') # kvs) k v = (if k' = k then (k, v) # kvs else (k', v') # aput kvs k v)"

definition adel :: "('k \<times> 'v) list \<Rightarrow> 'k \<Rightarrow> ('k \<times> 'v) list" where
  "adel kvs k = filter (\<lambda>(k', _). k' \<noteq> k) kvs"

lemma aget_eq_map_of: "aget kvs k = map_of kvs k"
  by (induction kvs) auto

lemma aget_aput [simp]: "aget (aput kvs k v) k' = (if k' = k then Some v else aget kvs k')"
  by (induction kvs) auto

lemma aget_adel [simp]: "aget (adel kvs k) k' = (if k' = k then None else aget kvs k')"
  by (induction kvs) (auto simp: adel_def)

lemma keys_aput [simp]: "set (map fst (aput kvs k v)) = insert k (set (map fst kvs))"
proof (induction kvs)
  case (Cons kv kvs)
  then show ?case by (cases kv) (simp add: insert_commute)
qed simp

lemma distinct_aput: "distinct (map fst kvs) \<Longrightarrow> distinct (map fst (aput kvs k v))"
proof (induction kvs)
  case (Cons kv kvs)
  obtain k' v' where kv: "kv = (k', v')" by force
  show ?case
  proof (cases "k' = k")
    case False
    with Cons keys_aput [of kvs k v] show ?thesis by (simp add: kv del: keys_aput set_map)
  qed (use Cons in \<open>simp add: kv\<close>)
qed simp

lemma distinct_adel: "distinct (map fst kvs) \<Longrightarrow> distinct (map fst (adel kvs k))"
  by (simp add: adel_def distinct_map_filter)

lemma aget_Some_in: "aget kvs k = Some v \<Longrightarrow> (k, v) \<in> set kvs"
  by (induction kvs) (auto split: if_splits)

lemma aget_None_iff: "aget kvs k = None \<longleftrightarrow> k \<notin> fst ` set kvs"
proof (induction kvs)
  case (Cons kv kvs)
  then show ?case by (cases kv) simp
qed simp

lemma size_aget [termination_simp]:
  "aget kvs k = Some v \<Longrightarrow> size v \<le> size_list (size_prod f size) kvs"
  by (induction kvs) (auto split: if_splits)

lemma aput_not_Nil [simp]: "aput kvs k v \<noteq> []"
  by (cases kvs) (auto split: if_splits)

text \<open>A fold that only collects is empty exactly when nothing was to be collected.\<close>

lemma foldl_Nil_iff:
  assumes "\<And>a x. f a x = [] \<longleftrightarrow> a = [] \<and> P x"
  shows "foldl f a xs = [] \<longleftrightarrow> a = [] \<and> (\<forall>x \<in> set xs. P x)"
  by (induction xs arbitrary: a) (auto simp: assms)

lemma foldl_invariant:
  assumes "Q a" and "\<And>a x. Q a \<Longrightarrow> x \<in> set xs \<Longrightarrow> Q (f a x)"
  shows "Q (foldl f a xs)"
  using assms by (induction xs arbitrary: a) auto

subsection \<open>Stable sorting by a comparator\<close>

fun insert_by :: "('a \<Rightarrow> 'a \<Rightarrow> int) \<Rightarrow> 'a \<Rightarrow> 'a list \<Rightarrow> 'a list" where
  "insert_by cmp x [] = [x]"
| "insert_by cmp x (y # ys) = (if cmp x y \<le> 0 then x # y # ys else y # insert_by cmp x ys)"

definition sort_by :: "('a \<Rightarrow> 'a \<Rightarrow> int) \<Rightarrow> 'a list \<Rightarrow> 'a list" where
  "sort_by cmp xs = foldr (insert_by cmp) xs []"

lemma set_insert_by [simp]: "set (insert_by cmp x ys) = insert x (set ys)"
  by (induction ys) auto

lemma set_sort_by [simp]: "set (sort_by cmp xs) = set xs"
  unfolding sort_by_def by (induction xs) auto

lemma length_insert_by [simp]: "length (insert_by cmp x ys) = Suc (length ys)"
  by (induction ys) auto

lemma length_sort_by [simp]: "length (sort_by cmp xs) = length xs"
  unfolding sort_by_def by (induction xs) auto

lemma sort_by_Nil_iff [simp]: "sort_by cmp xs = [] \<longleftrightarrow> xs = []"
  by (metis length_0_conv length_sort_by)

text \<open>A comparator whose sign follows a key first sorts by that key.\<close>

lemma sorted_insert_by:
  fixes f :: "'a \<Rightarrow> 'b :: linorder"
  assumes "\<And>x y. cmp x y \<le> 0 \<Longrightarrow> f x \<le> f y" "\<And>x y. \<not> cmp x y \<le> 0 \<Longrightarrow> f y \<le> f x"
  shows "sorted (map f ys) \<Longrightarrow> sorted (map f (insert_by cmp x ys))"
  by (induction ys) (auto dest: assms order_trans)

lemma sorted_sort_by:
  fixes f :: "'a \<Rightarrow> 'b :: linorder"
  assumes "\<And>x y. cmp x y \<le> 0 \<Longrightarrow> f x \<le> f y" "\<And>x y. \<not> cmp x y \<le> 0 \<Longrightarrow> f y \<le> f x"
  shows "sorted (map f (sort_by cmp xs))"
  unfolding sort_by_def using sorted_insert_by [of cmp f, OF assms] by (induction xs) auto

end
