(* ===== verification/JsNumber.thy ===== *)
theory JsNumber
  imports Prelude
begin

text \<open>
  JavaScript numbers: IEEE 754 binary64 values. A finite number is the rational it denotes; the two
  zeros are one value (nothing the modelled code does tells them apart: it never divides by a zero).
  \<open>fl\<close> is rounding to nearest, ties to even, with 53 bits of precision, gradual underflow at
  \<open>2 ^ -1074\<close> and overflow to the infinities; each arithmetic operation is the exact rational
  operation followed by \<open>fl\<close>, as the standard prescribes. The lemmas show that \<open>fl\<close> is monotone,
  keeps signs and is exact on integers of at most 53 bits.
\<close>

datatype jnum = NaN | PInf | NInf | Fin rat

subsection \<open>Rounding\<close>

definition exp2 :: "int \<Rightarrow> rat" where
  "exp2 e = (if 0 \<le> e then 2 ^ nat e else 1 / 2 ^ nat (- e))"

function blen :: "int \<Rightarrow> int" where
  "blen n = (if n \<le> 0 then 0 else 1 + blen (n div 2))"
  by pat_completeness auto
termination
  by (relation "measure nat") auto

declare blen.simps [simp del]

text \<open>\<open>ilog2 x\<close> is the exponent \<open>e\<close> with \<open>2 ^ e \<le> x < 2 ^ (e + 1)\<close>, for a positive \<open>x\<close>.\<close>

definition ilog2 :: "rat \<Rightarrow> int" where
  "ilog2 x = (if 1 \<le> x then blen \<lfloor>x\<rfloor> - 1 else - blen (\<lceil>1 / x\<rceil> - 1))"

definition round_half_even :: "rat \<Rightarrow> int" where
  "round_half_even x =
     (let f = \<lfloor>x\<rfloor>; d = x - of_int f
      in if d < 1/2 then f else if 1/2 < d then f + 1 else if even f then f else f + 1)"

definition round53 :: "rat \<Rightarrow> rat" where
  "round53 x =
     (let u = exp2 (max (ilog2 x - 52) (- 1074)) in of_int (round_half_even (x / u)) * u)"

definition fl :: "rat \<Rightarrow> jnum" where
  "fl x = (if x = 0 then Fin 0
           else if 0 < x then (let r = round53 x in if 2 ^ 1024 \<le> r then PInf else Fin r)
           else (let r = round53 (- x) in if 2 ^ 1024 \<le> r then NInf else Fin (- r)))"

subsection \<open>Operations\<close>

fun jneg :: "jnum \<Rightarrow> jnum" where
  "jneg NaN = NaN" | "jneg PInf = NInf" | "jneg NInf = PInf" | "jneg (Fin x) = Fin (- x)"

fun jadd :: "jnum \<Rightarrow> jnum \<Rightarrow> jnum" where
  "jadd (Fin x) (Fin y) = fl (x + y)"
| "jadd NaN _ = NaN" | "jadd _ NaN = NaN"
| "jadd PInf NInf = NaN" | "jadd NInf PInf = NaN"
| "jadd PInf _ = PInf" | "jadd _ PInf = PInf"
| "jadd NInf _ = NInf" | "jadd _ NInf = NInf"

definition jsub :: "jnum \<Rightarrow> jnum \<Rightarrow> jnum" where
  "jsub a b = jadd a (jneg b)"

fun jsign :: "jnum \<Rightarrow> rat" where
  "jsign NaN = 0" | "jsign PInf = 1" | "jsign NInf = - 1" | "jsign (Fin x) = sgn x"

definition jinf :: "rat \<Rightarrow> jnum" where
  "jinf s = (if s = 0 then NaN else if 0 < s then PInf else NInf)"

fun jmul :: "jnum \<Rightarrow> jnum \<Rightarrow> jnum" where
  "jmul (Fin x) (Fin y) = fl (x * y)"
| "jmul NaN _ = NaN" | "jmul _ NaN = NaN"
| "jmul a b = jinf (jsign a * jsign b)"

text \<open>Division by zero takes the zero as positive.\<close>

fun jdiv :: "jnum \<Rightarrow> jnum \<Rightarrow> jnum" where
  "jdiv (Fin x) (Fin y) = (if y = 0 then jinf (sgn x) else fl (x / y))"
| "jdiv NaN _ = NaN" | "jdiv _ NaN = NaN"
| "jdiv (Fin x) b = Fin 0"
| "jdiv a (Fin y) = jinf (jsign a * (if y < 0 then - 1 else 1))"
| "jdiv a b = NaN"

fun jlt :: "jnum \<Rightarrow> jnum \<Rightarrow> bool" where
  "jlt (Fin x) (Fin y) = (x < y)"
| "jlt NaN _ = False" | "jlt _ NaN = False"
| "jlt NInf b = (b \<noteq> NInf)" | "jlt _ NInf = False"
| "jlt PInf _ = False" | "jlt _ PInf = True"

text \<open>The number operands of \<open>===\<close>: NaN is equal to nothing.\<close>

definition jeq :: "jnum \<Rightarrow> jnum \<Rightarrow> bool" where
  "jeq a b = (a \<noteq> NaN \<and> a = b)"

definition jle :: "jnum \<Rightarrow> jnum \<Rightarrow> bool" where
  "jle a b = (jlt a b \<or> jeq a b)"

fun is_finite :: "jnum \<Rightarrow> bool" where
  "is_finite (Fin _) = True" | "is_finite _ = False"

text \<open>\<open>Math.round\<close>, \<open>Math.floor\<close>, \<open>Math.trunc\<close>, \<open>Math.abs\<close>, \<open>Math.min\<close> and \<open>Math.max\<close>.\<close>

fun jround :: "jnum \<Rightarrow> jnum" where
  "jround (Fin x) = Fin (of_int \<lfloor>x + 1/2\<rfloor>)" | "jround a = a"

fun jfloor :: "jnum \<Rightarrow> jnum" where
  "jfloor (Fin x) = Fin (of_int \<lfloor>x\<rfloor>)" | "jfloor a = a"

fun jtrunc :: "jnum \<Rightarrow> jnum" where
  "jtrunc (Fin x) = Fin (if 0 \<le> x then of_int \<lfloor>x\<rfloor> else of_int \<lceil>x\<rceil>)" | "jtrunc a = a"

fun jabs :: "jnum \<Rightarrow> jnum" where
  "jabs (Fin x) = Fin \<bar>x\<bar>" | "jabs NInf = PInf" | "jabs a = a"

definition jmin :: "jnum \<Rightarrow> jnum \<Rightarrow> jnum" where
  "jmin a b = (if a = NaN \<or> b = NaN then NaN else if jlt b a then b else a)"

definition jmax :: "jnum \<Rightarrow> jnum \<Rightarrow> jnum" where
  "jmax a b = (if a = NaN \<or> b = NaN then NaN else if jlt a b then b else a)"

fun is_integer :: "jnum \<Rightarrow> bool" where
  "is_integer (Fin x) = (of_int \<lfloor>x\<rfloor> = x)" | "is_integer _ = False"

definition jint :: "int \<Rightarrow> jnum" where
  "jint n = Fin (of_int n)"

subsection \<open>Facts about rounding\<close>

lemma exp2_powi: "exp2 e = 2 powi e"
  by (simp add: exp2_def power_int_def power_one_over)

lemma exp2_pos [simp]: "0 < exp2 e"
  by (simp add: exp2_powi)

lemma exp2_nonneg [simp]: "0 \<le> exp2 e" "exp2 e \<noteq> 0"
  using exp2_pos [of e] by linarith+

lemma exp2_add: "exp2 (a + b) = exp2 a * exp2 b"
  by (simp add: exp2_powi power_int_add)

lemma exp2_nat: "exp2 (int n) = 2 ^ n"
  by (simp add: exp2_def)

lemma exp2_strict_mono: "a < b \<Longrightarrow> exp2 a < exp2 b"
  by (simp add: exp2_powi power_int_strict_increasing)

lemma exp2_less_iff [simp]: "exp2 a < exp2 b \<longleftrightarrow> a < b"
  using exp2_strict_mono [of a b] exp2_strict_mono [of b a] by (cases a b rule: linorder_cases) auto

lemma exp2_le_iff [simp]: "exp2 a \<le> exp2 b \<longleftrightarrow> a \<le> b"
  using exp2_less_iff [of b a] by linarith

lemma exp2_diff_int: "e \<le> k \<Longrightarrow> exp2 k / exp2 e = of_int (2 ^ nat (k - e))"
  using exp2_add [of "k - e" e] by (simp add: exp2_def)

lemma blen_bounds: "0 < n \<Longrightarrow> exp2 (blen n - 1) \<le> of_int n \<and> of_int n + 1 \<le> exp2 (blen n)"
proof (induction n rule: blen.induct)
  case (1 n)
  have eq: "blen n = 1 + blen (n div 2)" using 1 by (subst blen.simps) simp
  show ?case
  proof (cases "n = 1")
    case True
    moreover have "blen 1 = 1" by (simp add: blen.simps [of 1] blen.simps [of 0])
    ultimately show ?thesis by (simp add: exp2_def)
  next
    case False
    with 1 have ih: "exp2 (blen (n div 2) - 1) \<le> of_int (n div 2)" "of_int (n div 2) + 1 \<le> exp2 (blen (n div 2))"
      by auto
    have d: "2 * (of_int (n div 2) :: rat) \<le> of_int n" "(of_int n :: rat) + 1 \<le> 2 * of_int (n div 2) + 2"
    proof -
      have "2 * (n div 2) \<le> n" "n + 1 \<le> 2 * (n div 2) + 2" by linarith+
      then have "(of_int (2 * (n div 2)) :: rat) \<le> of_int n" "(of_int (n + 1) :: rat) \<le> of_int (2 * (n div 2) + 2)"
        by (simp_all only: of_int_le_iff)
      then show "2 * (of_int (n div 2) :: rat) \<le> of_int n" "(of_int n :: rat) + 1 \<le> 2 * of_int (n div 2) + 2"
        by simp_all
    qed
    have two: "exp2 1 = 2" by (simp add: exp2_def)
    have "exp2 (blen n - 1) = 2 * exp2 (blen (n div 2) - 1)" "exp2 (blen n) = 2 * exp2 (blen (n div 2))"
      using exp2_add [of 1 "blen (n div 2) - 1"] exp2_add [of 1 "blen (n div 2)"] by (simp_all add: eq two)
    with ih d show ?thesis by linarith
  qed
qed

lemma ilog2_bounds:
  assumes "0 < x"
  shows "exp2 (ilog2 x) \<le> x" "x < exp2 (ilog2 x + 1)"
proof -
  have "exp2 (ilog2 x) \<le> x \<and> x < exp2 (ilog2 x + 1)"
  proof (cases "1 \<le> x")
    case True
    then have "0 < \<lfloor>x\<rfloor>" by linarith
    note b = blen_bounds [OF this]
    have "of_int \<lfloor>x\<rfloor> \<le> x" "x < of_int \<lfloor>x\<rfloor> + 1" by linarith+
    with b have "exp2 (blen \<lfloor>x\<rfloor> - 1) \<le> x" "x < exp2 (blen \<lfloor>x\<rfloor>)" by linarith+
    with True show ?thesis by (simp add: ilog2_def)
  next
    case False
    define n where "n = \<lceil>1 / x\<rceil> - 1"
    from False assms have "1 < 1 / x" by simp
    then have "0 < n" unfolding n_def by linarith
    note b = blen_bounds [OF this]
    have "of_int n < 1 / x" "1 / x \<le> of_int n + 1" unfolding n_def by linarith+
    with b have lo: "exp2 (blen n - 1) < 1 / x" and hi: "1 / x \<le> exp2 (blen n)" by linarith+
    have inv: "exp2 (- k) * exp2 k = 1" for k using exp2_add [of "- k" k] by (simp add: exp2_def)
    have "exp2 (- blen n) * (1 / x) \<le> 1"
      using mult_left_mono [OF hi, of "exp2 (- blen n)"] inv [of "blen n"] by simp
    moreover have "1 < exp2 (- blen n + 1) * (1 / x)"
      using mult_strict_left_mono [OF lo, of "exp2 (- blen n + 1)"] inv [of "blen n - 1"] by simp
    moreover have "ilog2 x = - blen n" using False by (simp add: ilog2_def n_def)
    ultimately show ?thesis using assms by (simp add: field_simps)
  qed
  then show "exp2 (ilog2 x) \<le> x" "x < exp2 (ilog2 x + 1)" by auto
qed

lemma ilog2_less: "0 < x \<Longrightarrow> x < exp2 k \<Longrightarrow> ilog2 x < k"
  using ilog2_bounds(1) [of x] exp2_less_iff by (meson order_le_less_trans)

lemma ilog2_mono:
  assumes "0 < x" "x \<le> y"
  shows "ilog2 x \<le> ilog2 y"
proof -
  from assms have "exp2 (ilog2 x) < exp2 (ilog2 y + 1)"
    using ilog2_bounds(1) [of x] ilog2_bounds(2) [of y] by linarith
  then show ?thesis by simp
qed

lemma round_half_even_int [simp]: "round_half_even (of_int n) = n"
  by (simp add: round_half_even_def)

lemma round_half_even_near: "\<bar>of_int (round_half_even x) - x\<bar> \<le> 1/2"
proof -
  have "of_int \<lfloor>x\<rfloor> \<le> x" "x < of_int \<lfloor>x\<rfloor> + 1" by linarith+
  then show ?thesis by (auto simp: round_half_even_def Let_def)
qed

lemma round_half_even_mono: "x \<le> y \<Longrightarrow> round_half_even x \<le> round_half_even y"
proof (rule ccontr)
  assume xy: "x \<le> y" and "\<not> round_half_even x \<le> round_half_even y"
  then have lt: "round_half_even y < round_half_even x" by simp
  have a: "of_int (round_half_even x) \<le> x + 1/2" "y - 1/2 \<le> of_int (round_half_even y)"
    using round_half_even_near [of x] round_half_even_near [of y] by linarith+
  from lt have "of_int (round_half_even y) + 1 \<le> (of_int (round_half_even x) :: rat)" by linarith
  with a xy have "x = y" by linarith
  with lt show False by simp
qed

lemma round_half_even_le_int: "x \<le> of_int n \<Longrightarrow> round_half_even x \<le> n"
  using round_half_even_mono [of x "of_int n"] by simp

lemma round_half_even_ge_int: "of_int n \<le> x \<Longrightarrow> n \<le> round_half_even x"
  using round_half_even_mono [of "of_int n" x] by simp

definition ulp :: "rat \<Rightarrow> int" where
  "ulp x = max (ilog2 x - 52) (- 1074)"

lemma round53_ulp: "round53 x = of_int (round_half_even (x / exp2 (ulp x))) * exp2 (ulp x)"
  by (simp add: round53_def ulp_def Let_def)

lemma round53_nonneg: "0 \<le> x \<Longrightarrow> 0 \<le> round53 x"
  using round_half_even_ge_int [of 0 "x / exp2 (ulp x)"] by (simp add: round53_ulp)

lemma round53_exact:
  assumes "x = of_int m * exp2 k" "0 < m" "m < 2 ^ 53" "- 1074 \<le> k"
  shows "round53 x = x"
proof -
  from assms have x0: "0 < x" by simp
  have "of_int m < (of_int (2 ^ 53) :: rat)" using assms(3) by (simp only: of_int_less_iff)
  moreover have "exp2 53 = of_int (2 ^ 53)" by (simp add: exp2_def)
  ultimately have "x < exp2 53 * exp2 k" using assms(1) by (simp only: mult_strict_right_mono exp2_pos)
  then have "ilog2 x < 53 + k" using x0 by (intro ilog2_less) (simp_all add: exp2_add)
  with assms(4) have le: "ulp x \<le> k" by (simp add: ulp_def)
  have "x / exp2 (ulp x) = of_int m * (exp2 k / exp2 (ulp x))"
    by (subst (1) assms(1)) simp
  then have "x / exp2 (ulp x) = of_int (m * 2 ^ nat (k - ulp x))"
    by (simp add: exp2_diff_int [OF le])
  then have "of_int (round_half_even (x / exp2 (ulp x))) = x / exp2 (ulp x)"
    by (simp only: round_half_even_int)
  then show ?thesis by (simp add: round53_ulp)
qed

lemma round53_mono:
  assumes "0 < x" "x \<le> y"
  shows "round53 x \<le> round53 y"
proof (cases "ulp x = ulp y")
  case True
  then show ?thesis
    using assms by (simp add: round53_ulp round_half_even_mono divide_right_mono mult_right_mono)
next
  case False
  with ilog2_mono [OF assms] have lt: "ulp x < ulp y" by (auto simp: ulp_def)
  then have y: "ilog2 y = ulp y + 52" and xlt: "ilog2 x + 1 \<le> ulp y + 52" by (auto simp: ulp_def)
  from xlt have xb: "x \<le> exp2 (ulp y + 52)"
    using ilog2_bounds(2) [OF assms(1)] exp2_le_iff [of "ilog2 x + 1" "ulp y + 52"] by linarith
  have "x / exp2 (ulp x) \<le> of_int (2 ^ nat (ulp y + 52 - ulp x))"
    using divide_right_mono [OF xb, of "exp2 (ulp x)"] lt
    by (subst exp2_diff_int [symmetric]) simp_all
  then have "of_int (round_half_even (x / exp2 (ulp x))) \<le> (of_int (2 ^ nat (ulp y + 52 - ulp x)) :: rat)"
    using round_half_even_le_int by (simp only: of_int_le_iff)
  then have "round53 x \<le> exp2 (ulp y + 52) / exp2 (ulp x) * exp2 (ulp x)"
    using lt by (simp only: round53_ulp exp2_diff_int) (simp add: mult_right_mono)
  then have 1: "round53 x \<le> exp2 (ulp y + 52)" by simp
  have "exp2 (ulp y + 52) \<le> y" using ilog2_bounds(1) [of y] assms y by simp
  then have "of_int (2 ^ 52) \<le> y / exp2 (ulp y)"
    by (simp add: exp2_add pos_le_divide_eq) (simp add: exp2_def mult.commute)
  then have "(of_int (2 ^ 52) :: rat) \<le> of_int (round_half_even (y / exp2 (ulp y)))"
    using round_half_even_ge_int by (simp only: of_int_le_iff)
  then have "exp2 (ulp y + 52) \<le> round53 y"
    by (simp add: round53_ulp exp2_add mult_right_mono) (simp add: exp2_def mult.commute mult_right_mono)
  with 1 show ?thesis by linarith
qed

text \<open>\<open>fl\<close> is monotone, odd, and exact on integers of at most 53 bits.\<close>

fun jnonneg :: "jnum \<Rightarrow> bool" where
  "jnonneg PInf = True" | "jnonneg (Fin x) = (0 \<le> x)" | "jnonneg _ = False"

lemma fl_0 [simp]: "fl 0 = Fin 0"
  by (simp add: fl_def)

lemma fl_neg: "fl (- x) = jneg (fl x)"
  by (simp add: fl_def Let_def)

lemma fl_pos: "0 < x \<Longrightarrow> fl x = (if 2 ^ 1024 \<le> round53 x then PInf else Fin (round53 x))"
  by (simp add: fl_def Let_def)

lemma fl_nonneg: "0 \<le> x \<Longrightarrow> jnonneg (fl x)"
  by (cases "x = 0") (simp_all add: fl_pos round53_nonneg)

lemma jnonneg_cases: "jnonneg a \<Longrightarrow> a = PInf \<or> (\<exists>x \<ge> 0. a = Fin x)"
  by (cases a) auto

lemma jle_Fin [simp]: "jle (Fin x) (Fin y) \<longleftrightarrow> x \<le> y"
  by (auto simp: jle_def jeq_def)

lemma jle_PInf [simp]: "jle a PInf \<longleftrightarrow> a \<noteq> NaN"
  by (cases a) (auto simp: jle_def jeq_def)

lemma NInf_jle [simp]: "jle NInf a \<longleftrightarrow> a \<noteq> NaN"
  by (cases a) (auto simp: jle_def jeq_def)

lemma jle_jneg: "jle a b \<Longrightarrow> jle (jneg b) (jneg a)"
  by (cases a; cases b) (auto simp: jle_def jeq_def)

lemma jneg_jneg [simp]: "jneg (jneg a) = a"
  by (cases a) auto

lemma fl_not_NaN [simp]: "fl x \<noteq> NaN"
  by (simp add: fl_def Let_def)

lemma fl_mono_pos: "0 \<le> x \<Longrightarrow> x \<le> y \<Longrightarrow> jle (fl x) (fl y)"
proof (cases "x = 0")
  case True
  assume "x \<le> y"
  with True have "jnonneg (fl y)" by (intro fl_nonneg) simp
  with True show ?thesis by (cases "fl y") auto
next
  case False
  assume "0 \<le> x" "x \<le> y"
  with False have "0 < x" "0 < y" "round53 x \<le> round53 y" by (auto intro: round53_mono)
  then show ?thesis by (auto simp: fl_pos)
qed

lemma fl_mono: "x \<le> y \<Longrightarrow> jle (fl x) (fl y)"
proof -
  assume xy: "x \<le> y"
  consider "0 \<le> x" | "y \<le> 0" | "x < 0" "0 < y" by linarith
  then show ?thesis
  proof cases
    case 1
    with xy show ?thesis by (rule fl_mono_pos [rotated])
  next
    case 2
    with xy have "jle (fl (- y)) (fl (- x))" by (intro fl_mono_pos) auto
    then show ?thesis using jle_jneg by (fastforce simp: fl_neg)
  next
    case 3
    then have "jnonneg (fl (- x))" "jnonneg (fl y)" by (auto intro: fl_nonneg)
    then have "jle (fl x) (Fin 0)" "jle (Fin 0) (fl y)"
      by (cases "fl x"; cases "fl y"; auto simp: fl_neg jle_def jeq_def)+
    then show ?thesis by (cases "fl x"; cases "fl y") (auto simp: jle_def jeq_def)
  qed
qed

definition is_double :: "rat \<Rightarrow> bool" where
  "is_double x \<longleftrightarrow> fl x = Fin x"

lemma round53_lt_overflow: "round53 x = x \<Longrightarrow> 0 < x \<Longrightarrow> x < 2 ^ 1024 \<Longrightarrow> fl x = Fin x"
  by (simp add: fl_pos)

lemma fl_int:
  assumes "\<bar>n\<bar> < 2 ^ 53"
  shows "fl (of_int n) = Fin (of_int n)"
proof -
  have pos: "fl (of_int m) = Fin (of_int m)" if "0 < m" "m < 2 ^ 53" for m :: int
  proof (rule round53_lt_overflow)
    show "round53 (of_int m) = of_int m"
      using that by (intro round53_exact [where m = m and k = 0]) (simp_all add: exp2_def)
    have "m < 2 ^ 1024" using that by simp
    then have "(of_int m :: rat) < of_int (2 ^ 1024)" by (simp only: of_int_less_iff)
    then show "(of_int m :: rat) < 2 ^ 1024" by simp
  qed (use that in simp)
  consider "n = 0" | "0 < n" | "n < 0" by linarith
  then show ?thesis
  proof cases
    case 3
    with assms pos [of "- n"] show ?thesis using fl_neg [of "of_int (- n)"] by simp
  qed (use assms pos in auto)
qed

lemma fl_numeral [simp]:
  "(numeral k :: int) < 9007199254740992 \<Longrightarrow> fl (numeral k) = Fin (numeral k)"
  "(numeral k :: int) < 9007199254740992 \<Longrightarrow> fl (- numeral k) = Fin (- numeral k)"
  "fl 1 = Fin 1" "fl (- 1) = Fin (- 1)"
  using fl_int [of "numeral k"] fl_int [of "- numeral k"] fl_int [of 1] fl_int [of "- 1"] by simp_all

lemma jround_near: "\<exists>n. jround (Fin x) = jint n \<and> \<bar>of_int n - x\<bar> \<le> 1/2"
proof (intro exI conjI)
  show "jround (Fin x) = jint \<lfloor>x + 1/2\<rfloor>" by (simp add: jint_def)
  show "\<bar>of_int \<lfloor>x + 1/2\<rfloor> - x\<bar> \<le> 1/2" by linarith
qed

lemma jnonneg_arith:
  "jnonneg a \<Longrightarrow> jnonneg b \<Longrightarrow> jnonneg (jadd a b)"
  "jnonneg a \<Longrightarrow> jnonneg b \<Longrightarrow> jmul a b \<noteq> NaN \<Longrightarrow> jnonneg (jmul a b)"
  "jnonneg a \<Longrightarrow> jnonneg (jround a)"
  by (cases a; cases b; force simp: fl_nonneg jinf_def sgn_if)+

end
