(* ===== verification/JsString.thy ===== *)
theory JsString
  imports JsNumber
begin

text \<open>
  The string primitives of the code: trimming, case mapping, slicing, splitting, searching and the
  character classes its regular expressions use. A character is a code unit below U+0100. White
  space is what \<open>trim\<close> and \<open>\s\<close> accept in that range. Upper casing leaves U+00B5 and U+00FF alone,
  whose capitals lie outside it.
\<close>

definition ccode :: "char \<Rightarrow> nat" where
  "ccode c = of_char c"

definition is_space :: "char \<Rightarrow> bool" where
  "is_space c = (let n = ccode c in (9 \<le> n \<and> n \<le> 13) \<or> n = 32 \<or> n = 160)"

definition is_digit :: "char \<Rightarrow> bool" where
  "is_digit c = (let n = ccode c in 48 \<le> n \<and> n \<le> 57)"

definition is_upper :: "char \<Rightarrow> bool" where
  "is_upper c = (let n = ccode c in 65 \<le> n \<and> n \<le> 90)"

definition is_lower :: "char \<Rightarrow> bool" where
  "is_lower c = (let n = ccode c in 97 \<le> n \<and> n \<le> 122)"

definition is_alpha :: "char \<Rightarrow> bool" where
  "is_alpha c = (is_upper c \<or> is_lower c)"

definition is_alnum :: "char \<Rightarrow> bool" where
  "is_alnum c = (is_alpha c \<or> is_digit c)"

text \<open>\<open>\w\<close>\<close>

definition is_word :: "char \<Rightarrow> bool" where
  "is_word c = (is_alnum c \<or> c = CHR ''_'')"

definition to_lower :: "char \<Rightarrow> char" where
  "to_lower c = (let n = ccode c
     in if (65 \<le> n \<and> n \<le> 90) \<or> (192 \<le> n \<and> n \<le> 222 \<and> n \<noteq> 215) then char_of (n + 32) else c)"

definition to_upper :: "char \<Rightarrow> string" where
  "to_upper c = (let n = ccode c
     in if (97 \<le> n \<and> n \<le> 122) \<or> (224 \<le> n \<and> n \<le> 254 \<and> n \<noteq> 247) then [char_of (n - 32)]
        else if n = 223 then ''SS'' else [c])"

definition lower :: "string \<Rightarrow> string" where
  "lower s = map to_lower s"

definition upper :: "string \<Rightarrow> string" where
  "upper s = concat (map to_upper s)"

definition trim_start :: "string \<Rightarrow> string" where
  "trim_start s = dropWhile is_space s"

definition trim_end :: "string \<Rightarrow> string" where
  "trim_end s = rev (dropWhile is_space (rev s))"

definition trim :: "string \<Rightarrow> string" where
  "trim s = trim_end (trim_start s)"

text \<open>\<open>slice 0 n\<close> is \<open>take n\<close> and \<open>slice n\<close> is \<open>drop n\<close>; the tests below are \<open>startsWith\<close>, \<open>endsWith\<close> and, as \<open>has_substring\<close>, the string method of that purpose.\<close>

fun starts_with :: "string \<Rightarrow> string \<Rightarrow> bool" where
  "starts_with s [] = True"
| "starts_with [] (p # ps) = False"
| "starts_with (c # cs) (p # ps) = (c = p \<and> starts_with cs ps)"

definition ends_with :: "string \<Rightarrow> string \<Rightarrow> bool" where
  "ends_with s p = starts_with (rev s) (rev p)"

fun has_substring :: "string \<Rightarrow> string \<Rightarrow> bool" where
  "has_substring [] p = (p = [])"
| "has_substring (c # cs) p = (starts_with (c # cs) p \<or> has_substring cs p)"

text \<open>\<open>split\<close> at every character of a class; there is always at least one part.\<close>

fun split_on :: "(char \<Rightarrow> bool) \<Rightarrow> string \<Rightarrow> string list" where
  "split_on p [] = [[]]"
| "split_on p (c # cs) =
     (if p c then [] # split_on p cs
      else case split_on p cs of [] \<Rightarrow> [[c]] | w # ws \<Rightarrow> (c # w) # ws)"

definition split_at_char :: "char \<Rightarrow> string \<Rightarrow> string list" where
  "split_at_char d s = split_on (\<lambda>c. c = d) s"

fun join :: "string \<Rightarrow> string list \<Rightarrow> string" where
  "join sep [] = []"
| "join sep [w] = w"
| "join sep (w # v # ws) = w @ sep @ join sep (v # ws)"

text \<open>Replacing every maximal run of a class by one text: \<open>replace(/[...]+/g, r)\<close>.\<close>

fun replace_runs :: "(char \<Rightarrow> bool) \<Rightarrow> string \<Rightarrow> bool \<Rightarrow> string \<Rightarrow> string" where
  "replace_runs p r inrun [] = []"
| "replace_runs p r inrun (c # cs) =
     (if p c then (if inrun then [] else r) @ replace_runs p r True cs
      else c # replace_runs p r False cs)"

subsection \<open>Decimal numerals\<close>

function digits_rev :: "int \<Rightarrow> string" where
  "digits_rev n = char_of (nat (48 + n mod 10)) # (if n < 10 then [] else digits_rev (n div 10))"
  by pat_completeness auto
termination
  by (relation "measure nat") auto

declare digits_rev.simps [simp del]

definition int_str :: "int \<Rightarrow> string" where
  "int_str n = (if n < 0 then ''-'' @ rev (digits_rev (- n)) else rev (digits_rev n))"

definition nat_str :: "nat \<Rightarrow> string" where
  "nat_str n = int_str (int n)"

definition digit_val :: "char \<Rightarrow> int" where
  "digit_val c = int (ccode c) - 48"

definition int_of_digits :: "string \<Rightarrow> int" where
  "int_of_digits ds = foldl (\<lambda>n c. 10 * n + digit_val c) 0 ds"

text \<open>\<open>padStart(n, '0')\<close>\<close>

definition pad0 :: "nat \<Rightarrow> string \<Rightarrow> string" where
  "pad0 n s = replicate (n - length s) CHR ''0'' @ s"

subsection \<open>Facts\<close>

lemma starts_with_iff: "starts_with s p \<longleftrightarrow> (\<exists>t. s = p @ t)"
  by (induction s p rule: starts_with.induct) auto

lemma starts_with_length: "starts_with s p \<Longrightarrow> length p \<le> length s"
  by (auto simp: starts_with_iff)

lemma starts_with_append [simp]: "starts_with (p @ t) p"
  by (auto simp: starts_with_iff)

lemma has_substring_iff: "has_substring s p \<longleftrightarrow> (\<exists>a b. s = a @ p @ b)"
proof (induction s)
  case (Cons c cs)
  show ?case
  proof
    assume "has_substring (c # cs) p"
    then consider t where "c # cs = p @ t" | a b where "cs = a @ p @ b"
      using Cons by (auto simp: starts_with_iff)
    then show "\<exists>a b. c # cs = a @ p @ b"
    proof cases
      case 1
      then have "c # cs = [] @ p @ t" by simp
      then show ?thesis by blast
    next
      case 2
      then have "c # cs = (c # a) @ p @ b" by simp
      then show ?thesis by blast
    qed
  next
    assume "\<exists>a b. c # cs = a @ p @ b"
    then obtain a b where eq: "c # cs = a @ p @ b" by blast
    show "has_substring (c # cs) p"
    proof (cases a)
      case Nil
      then show ?thesis using eq by (metis append_Nil has_substring.simps(2) starts_with_iff)
    next
      case (Cons d ds)
      then show ?thesis using eq Cons.IH by auto
    qed
  qed
qed auto

lemma dropWhile_idem: "dropWhile p (dropWhile p xs) = dropWhile p xs"
  by (induction xs) auto

lemma split_on_nonempty [simp]: "split_on p s \<noteq> []"
  by (cases s) (auto split: list.splits)

lemma split_on_parts: "w \<in> set (split_on p s) \<Longrightarrow> c \<in> set w \<Longrightarrow> \<not> p c \<and> c \<in> set s"
proof (induction s arbitrary: w)
  case (Cons d ds)
  obtain a list where ds: "split_on p ds = a # list" by (cases "split_on p ds") auto
  show ?case
  proof (cases "w \<in> set (split_on p ds)")
    case True
    with Cons show ?thesis by auto
  next
    case False
    with Cons.prems ds have "w = [] \<or> \<not> p d \<and> w = d # a" by (auto split: if_splits)
    with Cons.prems Cons.IH [of a] ds show ?thesis by auto
  qed
qed auto

lemma join_split: "join [d] (split_at_char d s) = s"
proof -
  have "join [d] (split_on (\<lambda>c. c = d) s) = s"
  proof (induction s)
    case (Cons c cs)
    then show ?case
      by (cases "split_on (\<lambda>c. c = d) cs"; cases "tl (split_on (\<lambda>c. c = d) cs)") auto
  qed simp
  then show ?thesis by (simp add: split_at_char_def)
qed

lemma split_on_single: "(\<forall>c \<in> set s. \<not> p c) \<Longrightarrow> split_on p s = [s]"
  by (induction s) auto

lemma split_on_append:
  "(\<forall>c \<in> set w. \<not> p c) \<Longrightarrow> p d \<Longrightarrow> split_on p (w @ d # s) = w # split_on p s"
  by (induction w) auto

lemma split_join:
  "ws \<noteq> [] \<Longrightarrow> (\<forall>w \<in> set ws. d \<notin> set w) \<Longrightarrow> split_at_char d (join [d] ws) = ws"
proof (induction ws rule: induct_list012)
  case (2 w)
  then show ?case by (auto simp: split_at_char_def intro!: split_on_single)
next
  case (3 w v ws)
  then have "split_on (\<lambda>c. c = d) (w @ d # join [d] (v # ws)) = w # split_on (\<lambda>c. c = d) (join [d] (v # ws))"
    by (intro split_on_append) auto
  with 3 show ?case by (simp add: split_at_char_def)
qed simp

lemma ccode_char_of [simp]: "n < 256 \<Longrightarrow> ccode (char_of n) = n"
  by (simp add: ccode_def)

lemma ccode_less [simp]: "ccode c < 256"
  using of_char_mod_256 [where 'a = nat, of c] unfolding ccode_def
  by (metis mod_less_divisor zero_less_numeral)

lemma to_lower_idem [simp]: "to_lower (to_lower c) = to_lower c"
proof -
  have "ccode c < 256" by simp
  then show ?thesis by (simp add: to_lower_def Let_def)
qed

lemma lower_idem [simp]: "lower (lower s) = lower s"
  by (simp add: lower_def)

lemma length_lower [simp]: "length (lower s) = length s"
  by (simp add: lower_def)

lemma digit_val_char_of [simp]: "0 \<le> n \<Longrightarrow> n < 10 \<Longrightarrow> digit_val (char_of (nat (48 + n))) = n"
  by (simp add: digit_val_def nat_add_distrib)

lemma is_digit_char_of [simp]: "0 \<le> n \<Longrightarrow> n < (10 :: int) \<Longrightarrow> is_digit (char_of (nat (48 + n)))"
  by (simp add: is_digit_def nat_add_distrib)

lemma digit_val_bounds: "is_digit c \<Longrightarrow> 0 \<le> digit_val c \<and> digit_val c < 10"
  by (auto simp: is_digit_def digit_val_def Let_def)

lemma int_of_digits_append [simp]:
  "int_of_digits (ds @ [d]) = 10 * int_of_digits ds + digit_val d"
  by (simp add: int_of_digits_def)

lemma int_of_digits_nonneg: "list_all is_digit ds \<Longrightarrow> 0 \<le> int_of_digits ds"
  by (induction ds rule: rev_induct) (auto simp: int_of_digits_def dest: digit_val_bounds)

lemma int_str_step:
  "0 \<le> n \<Longrightarrow> int_str n = (if n < 10 then [] else int_str (n div 10)) @ [char_of (nat (48 + n mod 10))]"
  unfolding int_str_def by (subst (2) digits_rev.simps) (simp add: pos_imp_zdiv_neg_iff)

lemma int_str_digits: "0 \<le> n \<Longrightarrow> c \<in> set (int_str n) \<Longrightarrow> is_digit c"
proof (induction n rule: digits_rev.induct)
  case (1 n)
  then show ?case by (subst (asm) (2) int_str_step) (auto split: if_splits)
qed

lemma int_str_nonempty [simp]: "0 \<le> n \<Longrightarrow> int_str n \<noteq> []"
  by (subst int_str_step) auto

lemma int_of_int_str [simp]: "0 \<le> n \<Longrightarrow> int_of_digits (int_str n) = n"
proof (induction n rule: digits_rev.induct)
  case (1 n)
  show ?case
  proof (cases "n < 10")
    case True
    with 1 show ?thesis by (subst int_str_step) (simp_all add: int_of_digits_def)
  next
    case False
    with 1 show ?thesis by (subst int_str_step) simp_all
  qed
qed

lemma nat_str_digits: "c \<in> set (nat_str n) \<Longrightarrow> is_digit c"
  using int_str_digits [of "int n"] by (simp add: nat_str_def)

lemma nat_str_nonempty [simp]: "nat_str n \<noteq> []"
  by (simp add: nat_str_def)

lemma int_of_nat_str [simp]: "int_of_digits (nat_str n) = int n"
  by (simp add: nat_str_def)

lemma nat_str_inj: "nat_str m = nat_str n \<longleftrightarrow> m = n"
  by (metis int_of_nat_str of_nat_eq_iff)

end
