(* ===== verification/JsText.thy ===== *)
theory JsText
  imports JsString
begin

text \<open>
  The two conversions between numbers and text: \<open>js_number\<close> is \<open>Number(text)\<close> (the string numeric
  literals of the standard: decimal with optional fraction and exponent, \<open>Infinity\<close>, and hexadecimal,
  octal and binary integers) and \<open>num_str\<close> is \<open>String(number)\<close> (the shortest digits that read
  back as the number, in the standard's layout).
\<close>

definition pow10 :: "int \<Rightarrow> rat" where
  "pow10 e = (if 0 \<le> e then 10 ^ nat e else 1 / 10 ^ nat (- e))"

subsection \<open>Reading\<close>

definition scan_digits :: "string \<Rightarrow> string \<times> string" where
  "scan_digits s = (takeWhile is_digit s, dropWhile is_digit s)"

text \<open>An optional exponent part; \<open>None\<close> when the rest of the text is not one.\<close>

definition scan_exponent :: "string \<Rightarrow> int option" where
  "scan_exponent s =
     (case s of
        [] \<Rightarrow> Some 0
      | c # cs \<Rightarrow>
          if c = CHR ''e'' \<or> c = CHR ''E'' then
            (let neg = starts_with cs ''-'';
                 ds = (if neg \<or> starts_with cs ''+'' then drop 1 cs else cs)
             in if ds \<noteq> [] \<and> list_all is_digit ds
                then Some (if neg then - int_of_digits ds else int_of_digits ds)
                else None)
          else None)"

definition scan_unsigned :: "string \<Rightarrow> rat option" where
  "scan_unsigned s =
     (let (ip, r) = scan_digits s;
          (fp, r') = (if starts_with r ''.'' then scan_digits (drop 1 r) else ([], r))
      in if ip = [] \<and> fp = [] then None
         else case scan_exponent r' of
                None \<Rightarrow> None
              | Some e \<Rightarrow> Some (of_int (int_of_digits (ip @ fp)) * pow10 (e - int (length fp))))"

definition hex_val :: "char \<Rightarrow> int option" where
  "hex_val c = (let n = int (ccode c)
     in if 48 \<le> n \<and> n \<le> 57 then Some (n - 48)
        else if 97 \<le> n \<and> n \<le> 102 then Some (n - 87)
        else if 65 \<le> n \<and> n \<le> 70 then Some (n - 55) else None)"

fun scan_radix :: "int \<Rightarrow> int \<Rightarrow> string \<Rightarrow> int option" where
  "scan_radix b acc [] = Some acc"
| "scan_radix b acc (c # cs) =
     (case hex_val c of None \<Rightarrow> None
      | Some d \<Rightarrow> if d < b then scan_radix b (b * acc + d) cs else None)"

definition signed :: "bool \<Rightarrow> string \<Rightarrow> jnum" where
  "signed neg s =
     (if s = ''Infinity'' then (if neg then NInf else PInf)
      else case scan_unsigned s of None \<Rightarrow> NaN | Some x \<Rightarrow> fl (if neg then - x else x))"

definition radix_literal :: "int \<Rightarrow> string \<Rightarrow> jnum" where
  "radix_literal b ds =
     (if ds = [] then NaN else case scan_radix b 0 ds of None \<Rightarrow> NaN | Some n \<Rightarrow> fl (of_int n))"

definition js_number :: "string \<Rightarrow> jnum" where
  "js_number text =
     (let s = trim text; p = lower (take 2 s)
      in if s = [] then Fin 0
         else if p = ''0x'' then radix_literal 16 (drop 2 s)
         else if p = ''0o'' then radix_literal 8 (drop 2 s)
         else if p = ''0b'' then radix_literal 2 (drop 2 s)
         else if starts_with s ''-'' then signed True (drop 1 s)
         else if starts_with s ''+'' then signed False (drop 1 s)
         else signed False s)"

subsection \<open>Writing\<close>

text \<open>\<open>dec_exp x\<close> is the \<open>n\<close> with \<open>10 ^ (n - 1) \<le> x < 10 ^ n\<close>, for a positive double \<open>x\<close>.\<close>

fun shrink_exp :: "nat \<Rightarrow> rat \<Rightarrow> int \<Rightarrow> int" where
  "shrink_exp 0 x n = n"
| "shrink_exp (Suc k) x n = (if x < pow10 (n - 1) then shrink_exp k x (n - 1) else n)"

definition dec_exp :: "rat \<Rightarrow> int" where
  "dec_exp x = (if 1 \<le> x then int (length (int_str \<lfloor>x\<rfloor>)) else shrink_exp 400 x 0)"

text \<open>The \<open>k\<close>-digit numeral nearest to \<open>x\<close> that reads back as \<open>x\<close>, if there is one.\<close>

definition short_digits :: "rat \<Rightarrow> int \<Rightarrow> nat \<Rightarrow> int option" where
  "short_digits x n k =
     (let y = x / pow10 (n - int k); a = \<lfloor>y\<rfloor>; b = a + 1;
          ok = (\<lambda>s. 10 ^ (k - 1) \<le> s \<and> s < 10 ^ k \<and> fl (of_int s * pow10 (n - int k)) = Fin x);
          near = (if y - of_int a \<le> 1/2 then a else b); far = (if near = a then b else a)
      in if ok near then Some near else if ok far then Some far else None)"

fun shortest :: "nat \<Rightarrow> nat \<Rightarrow> rat \<Rightarrow> int \<Rightarrow> string" where
  "shortest 0 k x n = int_str \<lfloor>x / pow10 (n - int k)\<rfloor>"
| "shortest (Suc f) k x n =
     (case short_digits x n k of Some s \<Rightarrow> int_str s | None \<Rightarrow> shortest f (Suc k) x n)"

definition layout_digits :: "string \<Rightarrow> int \<Rightarrow> string" where
  "layout_digits ds n =
     (let k = int (length ds)
      in if k \<le> n \<and> n \<le> 21 then ds @ replicate (nat (n - k)) CHR ''0''
         else if 0 < n \<and> n \<le> 21 then take (nat n) ds @ ''.'' @ drop (nat n) ds
         else if - 6 < n \<and> n \<le> 0 then ''0.'' @ replicate (nat (- n)) CHR ''0'' @ ds
         else let e = n - 1; es = (if 0 \<le> e then ''e+'' else ''e-'') @ int_str \<bar>e\<bar>
              in if length ds = 1 then ds @ es else take 1 ds @ ''.'' @ drop 1 ds @ es)"

text \<open>
  Integers below \<open>2 ^ 53\<close> print exactly; the general case searches for the shortest digits. The
  exponent is one more where the power of ten above \<open>x\<close> rounds to \<open>x\<close>.
\<close>

definition pos_str :: "rat \<Rightarrow> string" where
  "pos_str x =
     (if of_int \<lfloor>x\<rfloor> = x \<and> x < 2 ^ 53 then int_str \<lfloor>x\<rfloor>
      else let m = dec_exp x; n = (if fl (pow10 m) = Fin x then m + 1 else m) in layout_digits (shortest 17 1 x n) n)"

fun num_str :: "jnum \<Rightarrow> string" where
  "num_str NaN = ''NaN''"
| "num_str PInf = ''Infinity''"
| "num_str NInf = ''-Infinity''"
| "num_str (Fin x) = (if x < 0 then ''-'' @ pos_str (- x) else pos_str x)"

subsection \<open>Facts\<close>

lemma num_str_int: "0 \<le> n \<Longrightarrow> n < 2 ^ 53 \<Longrightarrow> num_str (Fin (of_int n)) = int_str n"
proof -
  assume n: "0 \<le> n" "n < 2 ^ 53"
  then have "(of_int n :: rat) < of_int (2 ^ 53)" by (simp only: of_int_less_iff)
  with n show ?thesis by (simp add: pos_str_def)
qed

lemma num_str_nat: "int n < 2 ^ 53 \<Longrightarrow> num_str (Fin (of_nat n)) = nat_str n"
  using num_str_int [of "int n"] by (simp add: nat_str_def)

lemma not_space_digit: "is_digit c \<Longrightarrow> \<not> is_space c"
  by (auto simp: is_digit_def is_space_def Let_def)

lemma trim_id: "s = [] \<or> \<not> is_space (hd s) \<and> \<not> is_space (last s) \<Longrightarrow> trim s = s"
proof -
  assume "s = [] \<or> \<not> is_space (hd s) \<and> \<not> is_space (last s)"
  then consider "s = []" | "s \<noteq> []" "\<not> is_space (hd s)" "\<not> is_space (last s)" by blast
  then show ?thesis
  proof cases
    case 2
    then have "dropWhile is_space s = s" by (cases s) auto
    moreover from 2 have "dropWhile is_space (rev s) = rev s"
      by (cases "rev s") (auto simp: last_rev hd_rev dest: arg_cong [where f = hd])
    ultimately show ?thesis by (simp add: trim_def trim_start_def trim_end_def)
  qed (simp add: trim_def trim_start_def trim_end_def)
qed

lemma starts_with_digit:
  "s \<noteq> [] \<Longrightarrow> list_all is_digit s \<Longrightarrow> \<not> is_digit c \<Longrightarrow> \<not> starts_with s (c # cs)"
  by (cases s) auto

text \<open>Reading a decimal numeral gives its value, so integers survive printing and reading.\<close>

lemma scan_unsigned_digits:
  "s \<noteq> [] \<Longrightarrow> list_all is_digit s \<Longrightarrow> scan_unsigned s = Some (of_int (int_of_digits s))"
proof -
  assume a: "s \<noteq> []" "list_all is_digit s"
  then have tw: "takeWhile is_digit s = s" and dw: "dropWhile is_digit s = []"
    by (simp_all add: takeWhile_eq_all_conv list_all_iff)
  show ?thesis
    by (simp add: scan_unsigned_def scan_digits_def scan_exponent_def pow10_def tw dw a(1))
qed

lemma js_number_digits:
  assumes "s \<noteq> []" "list_all is_digit s"
  shows "js_number s = fl (of_int (int_of_digits s))"
proof -
  from assms have sp: "\<not> is_space (hd s)" "\<not> is_space (last s)"
    by (auto simp: list_all_iff not_space_digit)
  then have t: "trim s = s" by (intro trim_id) auto
  have nd: "\<not> is_digit CHR ''-''" "\<not> is_digit CHR ''+''" "\<not> is_digit CHR ''I''"
    by (simp_all add: is_digit_def ccode_def)
  from assms have lt: "lower (take 2 s) = take 2 s"
    by (intro nth_equalityI) (auto simp: lower_def to_lower_def is_digit_def list_all_length Let_def)
  have "is_digit d" if "take 2 s = [c, d]" for c d
  proof -
    have "d \<in> set (take 2 s)" using that by simp
    then show ?thesis using assms(2) by (auto simp: list_all_iff dest: in_set_takeD)
  qed
  then have pre: "take 2 s \<noteq> ''0x''" "take 2 s \<noteq> ''0o''" "take 2 s \<noteq> ''0b''"
    by (auto simp: is_digit_def ccode_def)
  have "s \<noteq> ''Infinity''" using assms nd by auto
  then show ?thesis
    using assms nd by (simp add: js_number_def Let_def t lt pre starts_with_digit signed_def scan_unsigned_digits)
qed

lemma js_number_int_str: "0 \<le> n \<Longrightarrow> n < 2 ^ 53 \<Longrightarrow> js_number (int_str n) = Fin (of_int n)"
  using fl_int [of n] by (simp add: js_number_digits list_all_iff int_str_digits)

end
