(* ===== verification/JsValue.thy ===== *)
theory JsValue
  imports JsText
begin

text \<open>
  JavaScript values as the code sees them: the JSON values and \<open>undefined\<close>. An object is the list of
  its own enumerable properties in insertion order, with distinct keys. Values are trees: the model
  has no reference identity, so \<open>===\<close> between two lists or two objects is false, and a property that
  is not the object's own reads as \<open>undefined\<close> (the prototype's members are left out).
\<close>

datatype jsval =
    JUndef
  | JNull
  | JBool bool
  | JNum jnum
  | JStr string
  | JArr "jsval list"
  | JObj "(string \<times> jsval) list"

type_synonym fields = "(string \<times> jsval) list"

abbreviation jnat :: "nat \<Rightarrow> jsval" where
  "jnat n \<equiv> JNum (Fin (of_nat n))"

fun nullish :: "jsval \<Rightarrow> bool" where
  "nullish JUndef = True" | "nullish JNull = True" | "nullish _ = False"

text \<open>The truth value of a condition, \<open>a || b\<close> and \<open>a ?? b\<close>.\<close>

fun js_truthy :: "jsval \<Rightarrow> bool" where
  "js_truthy JUndef = False"
| "js_truthy JNull = False"
| "js_truthy (JBool b) = b"
| "js_truthy (JNum n) = (n \<noteq> NaN \<and> n \<noteq> Fin 0)"
| "js_truthy (JStr s) = (s \<noteq> [])"
| "js_truthy _ = True"

definition js_or :: "jsval \<Rightarrow> jsval \<Rightarrow> jsval" where
  "js_or a b = (if js_truthy a then a else b)"

definition js_nc :: "jsval \<Rightarrow> jsval \<Rightarrow> jsval" where
  "js_nc a b = (if nullish a then b else a)"

fun is_str :: "jsval \<Rightarrow> bool" where "is_str (JStr _) = True" | "is_str _ = False"
fun is_num :: "jsval \<Rightarrow> bool" where "is_num (JNum _) = True" | "is_num _ = False"
fun is_bool :: "jsval \<Rightarrow> bool" where "is_bool (JBool _) = True" | "is_bool _ = False"
fun is_arr :: "jsval \<Rightarrow> bool" where "is_arr (JArr _) = True" | "is_arr _ = False"
fun is_obj :: "jsval \<Rightarrow> bool" where "is_obj (JObj _) = True" | "is_obj _ = False"

text \<open>\<open>typeof v === 'object' && v !== null\<close>\<close>

definition is_objlike :: "jsval \<Rightarrow> bool" where
  "is_objlike v = (is_arr v \<or> is_obj v)"

subsection \<open>Properties\<close>

text \<open>A canonical array index.\<close>

definition index_of :: "string \<Rightarrow> nat option" where
  "index_of k = (if k \<noteq> [] \<and> list_all is_digit k \<and> (k = ''0'' \<or> hd k \<noteq> CHR ''0'')
                 then Some (nat (int_of_digits k)) else None)"

definition list_prop :: "jsval list \<Rightarrow> string \<Rightarrow> jsval option" where
  "list_prop vs k =
     (if k = ''length'' then Some (jnat (length vs))
      else case index_of k of None \<Rightarrow> None | Some i \<Rightarrow> if i < length vs then Some (vs ! i) else None)"

text \<open>The own property \<open>k\<close> of a value, as \<open>hasOwnProperty\<close> followed by the read sees it.\<close>

fun own :: "jsval \<Rightarrow> string \<Rightarrow> jsval option" where
  "own (JObj kvs) k = aget kvs k"
| "own (JArr vs) k = list_prop vs k"
| "own (JStr s) k = list_prop (map (\<lambda>c. JStr [c]) s) k"
| "own _ k = None"

text \<open>\<open>v?.k\<close>\<close>

definition get :: "jsval \<Rightarrow> string \<Rightarrow> jsval" where
  "get v k = (case own v k of None \<Rightarrow> JUndef | Some x \<Rightarrow> x)"

fun items :: "jsval \<Rightarrow> jsval list" where
  "items (JArr vs) = vs" | "items _ = []"

fun fields_of :: "jsval \<Rightarrow> fields" where
  "fields_of (JObj kvs) = kvs" | "fields_of _ = []"

text \<open>\<open>Object.entries\<close>: integer keys in ascending order, then the others as they were inserted.\<close>

definition own_entries :: "fields \<Rightarrow> fields" where
  "own_entries kvs =
     sort_key (\<lambda>(k, _). case index_of k of None \<Rightarrow> 0 | Some i \<Rightarrow> i)
       (filter (\<lambda>(k, _). index_of k \<noteq> None) kvs)
     @ filter (\<lambda>(k, _). index_of k = None) kvs"

definition own_keys :: "fields \<Rightarrow> string list" where
  "own_keys kvs = map fst (own_entries kvs)"

text \<open>\<open>{...a, ...b}\<close> and a chain of assignments of named fields.\<close>

definition spread :: "fields \<Rightarrow> fields \<Rightarrow> fields" where
  "spread a b = foldl (\<lambda>acc (k, v). aput acc k v) a (own_entries b)"

definition assign :: "fields \<Rightarrow> (string \<times> jsval) list \<Rightarrow> fields" where
  "assign a b = foldl (\<lambda>acc (k, v). aput acc k v) a b"

text \<open>\<open>target[k] = v\<close>. A list grows with holes; a property of a list that is not an index is left out.\<close>

fun set_prop :: "jsval \<Rightarrow> string \<Rightarrow> jsval \<Rightarrow> jsval" where
  "set_prop (JObj kvs) k v = JObj (aput kvs k v)"
| "set_prop (JArr vs) k v =
     (case index_of k of
        None \<Rightarrow> JArr vs
      | Some i \<Rightarrow> JArr (if i < length vs then vs[i := v] else vs @ replicate (i - length vs) JUndef @ [v]))"
| "set_prop t k v = t"

text \<open>\<open>JSON.parse(JSON.stringify(v))\<close>.\<close>

lemma set_own_entries [simp]: "set (own_entries kvs) = set kvs"
  by (auto simp: own_entries_def)

lemma size_own_entries: "(k, v) \<in> set kvs \<Longrightarrow> size v \<le> size_list (size_prod f size) kvs"
proof -
  assume "(k, v) \<in> set kvs"
  from size_list_estimation' [OF this, of "size_prod f size (k, v)" "size_prod f size"]
  show ?thesis by simp
qed

function json_clone :: "jsval \<Rightarrow> jsval" where
  "json_clone (JNum n) = (if is_finite n then JNum n else JNull)"
| "json_clone (JArr vs) = JArr (map (\<lambda>v. if v = JUndef then JNull else json_clone v) vs)"
| "json_clone (JObj kvs) =
     JObj (map (\<lambda>(k, v). (k, json_clone v)) (filter (\<lambda>(k, v). v \<noteq> JUndef) (own_entries kvs)))"
| "json_clone JUndef = JUndef" | "json_clone JNull = JNull"
| "json_clone (JBool b) = JBool b" | "json_clone (JStr s) = JStr s"
  by pat_completeness auto
termination
  by (relation "measure size") (auto intro: size_own_entries simp: less_Suc_eq_le size_list_estimation')

subsection \<open>Conversions and equality\<close>

fun to_str :: "jsval \<Rightarrow> string" where
  "to_str JUndef = ''undefined''"
| "to_str JNull = ''null''"
| "to_str (JBool b) = (if b then ''true'' else ''false'')"
| "to_str (JNum n) = num_str n"
| "to_str (JStr s) = s"
| "to_str (JArr vs) = join '','' (map (\<lambda>v. if nullish v then [] else to_str v) vs)"
| "to_str (JObj _) = ''[object Object]''"

fun to_num :: "jsval \<Rightarrow> jnum" where
  "to_num JUndef = NaN"
| "to_num JNull = Fin 0"
| "to_num (JBool b) = (if b then Fin 1 else Fin 0)"
| "to_num (JNum n) = n"
| "to_num (JStr s) = js_number s"
| "to_num (JArr vs) = js_number (to_str (JArr vs))"
| "to_num (JObj _) = NaN"

fun strict_eq :: "jsval \<Rightarrow> jsval \<Rightarrow> bool" where
  "strict_eq JUndef b = (b = JUndef)"
| "strict_eq JNull b = (b = JNull)"
| "strict_eq (JBool x) b = (b = JBool x)"
| "strict_eq (JNum x) b = (case b of JNum y \<Rightarrow> jeq x y | _ \<Rightarrow> False)"
| "strict_eq (JStr x) b = (b = JStr x)"
| "strict_eq _ b = False"

text \<open>\<open>typeof v === 'number' && Number.isFinite(v)\<close>, and the number.\<close>

fun fin_num :: "jsval \<Rightarrow> jnum option" where
  "fin_num (JNum (Fin x)) = Some (Fin x)" | "fin_num _ = None"

text \<open>\<open>String(v || '')\<close> and \<open>String(v ?? '')\<close>.\<close>

definition str_or_empty :: "jsval \<Rightarrow> string" where
  "str_or_empty v = to_str (js_or v (JStr []))"

definition str_nc_empty :: "jsval \<Rightarrow> string" where
  "str_nc_empty v = to_str (js_nc v (JStr []))"

text \<open>\<open>String(path || '').split('.').filter(Boolean).reduce(...)\<close>: the value at a dotted path.\<close>

fun get_path :: "jsval \<Rightarrow> string list \<Rightarrow> jsval" where
  "get_path v [] = v"
| "get_path v (k # ks) = get_path (if nullish v then JUndef else get v k) ks"

definition path_parts :: "string \<Rightarrow> string list" where
  "path_parts p = filter (\<lambda>w. w \<noteq> []) (split_at_char CHR ''.'' p)"

subsection \<open>Facts\<close>

lemma int_str_head: "0 \<le> n \<Longrightarrow> int_str n = ''0'' \<or> hd (int_str n) \<noteq> CHR ''0''"
proof (induction n rule: digits_rev.induct)
  case (1 n)
  show ?case
  proof (cases "n < 10")
    case True
    then have n: "int_str n = [char_of (nat (48 + n))]" using int_str_step 1 by simp
    show ?thesis
    proof (cases "n = 0")
      case True
      moreover have "int_str 0 = ''0''" by code_simp
      ultimately show ?thesis by simp
    next
      case False
      have "digit_val (char_of (nat (48 + n))) = n" using True 1 by simp
      moreover have "digit_val CHR ''0'' = 0" by (simp add: digit_val_def ccode_def)
      ultimately show ?thesis using n False by auto
    qed
  next
    case False
    have "int_str (n div 10) \<noteq> ''0''"
    proof
      assume "int_str (n div 10) = ''0''"
      then have "int_of_digits (int_str (n div 10)) = int_of_digits ''0''" by simp
      moreover have "int_of_digits ''0'' = 0" by (simp add: int_of_digits_def digit_val_def ccode_def)
      moreover have "0 \<le> n div 10" using 1(2) by (simp add: pos_imp_zdiv_nonneg_iff)
      ultimately have "n div 10 = 0" by simp
      with False show False by linarith
    qed
    with 1 False have "hd (int_str (n div 10)) \<noteq> CHR ''0''" "int_str (n div 10) \<noteq> []" by auto
    moreover have "int_str n = int_str (n div 10) @ [char_of (nat (48 + n mod 10))]"
      using 1(2) False int_str_step by simp
    ultimately show ?thesis by simp
  qed
qed

lemma index_of_nat_str [simp]: "index_of (nat_str n) = Some n"
  using int_str_head [of "int n"] by (simp add: index_of_def list_all_iff nat_str_digits) (simp add: nat_str_def)

lemma get_JObj [simp]: "get (JObj kvs) k = (case aget kvs k of None \<Rightarrow> JUndef | Some x \<Rightarrow> x)"
  by (simp add: get_def)

lemma get_nullish [simp]: "nullish v \<Longrightarrow> get v k = JUndef"
  by (cases v) (auto simp: get_def)

lemma js_nc_simps [simp]:
  "js_nc JUndef b = b" "js_nc JNull b = b" "\<not> nullish a \<Longrightarrow> js_nc a b = a"
  by (simp_all add: js_nc_def)

lemma distinct_own_keys: "distinct (map fst kvs) \<Longrightarrow> distinct (own_keys kvs)"
  by (auto simp: own_keys_def own_entries_def distinct_map inj_on_def)

lemma strict_eq_sym: "strict_eq a b = strict_eq b a"
  by (cases a; cases b) (auto simp: jeq_def)

lemma strict_eq_same: "strict_eq a b \<Longrightarrow> a = b"
  by (cases a; cases b) (auto simp: jeq_def)

lemma aget_assign: "aget (assign a b) k = (case aget (rev b) k of None \<Rightarrow> aget a k | Some v \<Rightarrow> Some v)"
proof -
  have *: "aget (xs @ ys) k = (case aget xs k of None \<Rightarrow> aget ys k | Some v \<Rightarrow> Some v)"
    for xs ys :: fields by (induction xs) (auto split: option.splits)
  show ?thesis unfolding assign_def
    by (induction b arbitrary: a) (auto simp: * split: option.splits)
qed

lemma get_path_append: "get_path v (p @ q) = get_path (get_path v p) q"
  by (induction p arbitrary: v) auto

lemma get_path_undef [simp]: "get_path JUndef p = JUndef"
  by (induction p) auto

lemma path_parts_nonempty: "w \<in> set (path_parts p) \<Longrightarrow> w \<noteq> []"
  by (auto simp: path_parts_def)

end
