(* ===== verification/DateUtils.thy ===== *)
theory DateUtils
  imports JsValue
begin

text \<open>
  \<open>server/src/lib/date.utils.ts\<close>: calendar dates as \<open>YYYY-MM-DD\<close> text. The calendar is the proleptic
  Gregorian one of the language's \<open>Date\<close>: a day is counted from 1970-01-01, \<open>make_day\<close> is the standard's
  MakeDay (months and days out of range carry), and \<open>civil\<close> reads a day number back. Parsing follows
  the engine for \<open>YYYY-MM-DDT00:00:00Z\<close> text: the month must be 1 to 12 and the day 1 to 31, and a
  day beyond the month's end carries into the next month. Free-form date text, the current time and
  the local time zone belong to the host: they are the record \<open>host\<close>.
\<close>

subsection \<open>The calendar\<close>

definition day_from_year :: "int \<Rightarrow> int" where
  "day_from_year y = 365 * (y - 1970) + (y - 1969) div 4 - (y - 1901) div 100 + (y - 1601) div 400"

definition leap :: "int \<Rightarrow> bool" where
  "leap y = (y mod 4 = 0 \<and> (y mod 100 \<noteq> 0 \<or> y mod 400 = 0))"

text \<open>Days before a month, counted from 0, in a common year; February ends a day later in a leap year.\<close>

definition month_start :: "bool \<Rightarrow> int \<Rightarrow> int" where
  "month_start lp m =
     (if m \<le> 0 then 0 else if m = 1 then 31
      else (if lp then 1 else 0) +
        (if m = 2 then 59 else if m = 3 then 90 else if m = 4 then 120 else if m = 5 then 151
         else if m = 6 then 181 else if m = 7 then 212 else if m = 8 then 243 else if m = 9 then 273
         else if m = 10 then 304 else if m = 11 then 334 else 365))"

definition make_day :: "int \<Rightarrow> int \<Rightarrow> int \<Rightarrow> int" where
  "make_day y m d =
     (let ym = y + m div 12 in day_from_year ym + month_start (leap ym) (m mod 12) + d - 1)"

definition year_of_day :: "int \<Rightarrow> int" where
  "year_of_day n =
     (let g = 1970 + (400 * n) div 146097
      in if day_from_year (g + 1) \<le> n then g + 1 else if n < day_from_year g then g - 1 else g)"

fun month_search :: "nat \<Rightarrow> bool \<Rightarrow> int \<Rightarrow> int \<Rightarrow> int" where
  "month_search 0 lp m doy = m"
| "month_search (Suc k) lp m doy = (if month_start lp (m + 1) \<le> doy then month_search k lp (m + 1) doy else m)"

text \<open>Year, month (from 0) and day of a day number.\<close>

definition civil :: "int \<Rightarrow> int \<times> int \<times> int" where
  "civil n = (let y = year_of_day n; doy = n - day_from_year y; m = month_search 11 (leap y) 0 doy
              in (y, m, doy - month_start (leap y) m + 1))"

subsection \<open>Date text\<close>

definition pad_int :: "nat \<Rightarrow> int \<Rightarrow> string" where
  "pad_int w n = pad0 w (int_str n)"

text \<open>\<open>toISOString().slice(0, 10)\<close>: years outside 0 to 9999 take a sign and six digits.\<close>

definition iso_date :: "int \<Rightarrow> string" where
  "iso_date n =
     (let (y, m, d) = civil n
      in take 10 ((if 0 \<le> y \<and> y \<le> 9999 then pad_int 4 y
                   else (if y < 0 then ''-'' else ''+'') @ pad_int 6 \<bar>y\<bar>)
                  @ ''-'' @ pad_int 2 (m + 1) @ ''-'' @ pad_int 2 d))"

text \<open>\<open>/^\d{4}-\d{2}-\d{2}/\<close>\<close>

definition date_shape :: "string \<Rightarrow> bool" where
  "date_shape s =
     (10 \<le> length s \<and> list_all is_digit (take 4 s) \<and> s ! 4 = CHR ''-''
      \<and> list_all is_digit (take 2 (drop 5 s)) \<and> s ! 7 = CHR ''-''
      \<and> list_all is_digit (take 2 (drop 8 s)))"

definition date_only :: "string \<Rightarrow> bool" where
  "date_only s = (length s = 10 \<and> date_shape s)"

definition ymd :: "string \<Rightarrow> int \<times> int \<times> int" where
  "ymd s = (int_of_digits (take 4 s), int_of_digits (take 2 (drop 5 s)), int_of_digits (take 2 (drop 8 s)))"

text \<open>The day of \<open>new Date(s + 'T00:00:00Z')\<close>; \<open>None\<close> is an invalid date, as text of another shape is.\<close>

definition parse_day :: "string \<Rightarrow> int option" where
  "parse_day s = (let (y, m, d) = ymd s
     in if date_only s \<and> 1 \<le> m \<and> m \<le> 12 \<and> 1 \<le> d \<and> d \<le> 31 then Some (make_day y (m - 1) d) else None)"

record host =
  today_str :: string
  date_parse :: "string \<Rightarrow> int option" \<comment> \<open>the time value of \<open>new Date(text)\<close> in milliseconds\<close>
  local_ymd :: "int \<Rightarrow> int \<times> int \<times> int" \<comment> \<open>local year, month (from 1) and day of a time value\<close>

definition day_of_ms :: "int \<Rightarrow> int" where
  "day_of_ms ms = ms div 86400000"

text \<open>\<open>toISOString\<close> of a time in milliseconds.\<close>

definition iso_time :: "int \<Rightarrow> string" where
  "iso_time ms =
     (let (y, m, d) = civil (day_of_ms ms); t = ms mod 86400000
      in (if 0 \<le> y \<and> y \<le> 9999 then pad_int 4 y else (if y < 0 then ''-'' else ''+'') @ pad_int 6 \<bar>y\<bar>)
         @ ''-'' @ pad_int 2 (m + 1) @ ''-'' @ pad_int 2 d @ ''T'' @ pad_int 2 (t div 3600000) @ '':''
         @ pad_int 2 (t div 60000 mod 60) @ '':'' @ pad_int 2 (t div 1000 mod 60) @ ''.'' @ pad_int 3 (t mod 1000) @ ''Z'')"

text \<open>
  \<open>/(?:Z|[+-]\d{2}:?\d{2})$/i\<close> or a whole word UTC or GMT. \<open>has_word\<close> looks for the word with
  \<open>prev\<close> telling whether the character before is a word character.
\<close>

fun has_word :: "bool \<Rightarrow> string list \<Rightarrow> string \<Rightarrow> bool" where
  "has_word prev ws [] = False"
| "has_word prev ws (c # cs) =
     (\<not> prev \<and> list_ex (\<lambda>w. starts_with (c # cs) w
        \<and> (case drop (length w) (c # cs) of [] \<Rightarrow> True | d # _ \<Rightarrow> \<not> is_word d)) ws
      \<or> has_word (is_word c) ws cs)"

definition has_offset :: "string \<Rightarrow> bool" where
  "has_offset s =
     (let r = rev s; sgn = (\<lambda>c. c = CHR ''+'' \<or> c = CHR ''-'')
      in (5 \<le> length r \<and> list_all is_digit (take 4 r) \<and> sgn (r ! 4))
         \<or> (6 \<le> length r \<and> list_all is_digit (take 2 r) \<and> r ! 2 = CHR '':''
            \<and> list_all is_digit (take 2 (drop 3 r)) \<and> sgn (r ! 5)))"

definition has_explicit_timezone :: "string \<Rightarrow> bool" where
  "has_explicit_timezone raw =
     (ends_with (lower raw) ''z'' \<or> has_offset raw
      \<or> has_word False [''UTC'', ''GMT''] (upper raw))"

definition format_local_date_only :: "host \<Rightarrow> int \<Rightarrow> string" where
  "format_local_date_only h ms =
     (let (y, m, d) = local_ymd h ms in int_str y @ ''-'' @ pad_int 2 m @ ''-'' @ pad_int 2 d)"

definition parse_string_date_only :: "host \<Rightarrow> string \<Rightarrow> string option" where
  "parse_string_date_only h raw =
     (case date_parse h raw of
        None \<Rightarrow> None
      | Some ms \<Rightarrow> Some (if has_explicit_timezone raw then iso_date (day_of_ms ms)
                        else format_local_date_only h ms))"

definition coerce_date_only :: "host \<Rightarrow> jsval \<Rightarrow> string option \<Rightarrow> string" where
  "coerce_date_only h v fallback =
     (let dflt = (case fallback of None \<Rightarrow> today_str h | Some f \<Rightarrow> if f = [] then today_str h else f)
      in case v of
           JStr s \<Rightarrow>
             if date_only (trim s) then trim s
             else (case parse_string_date_only h (trim s) of
                     Some p \<Rightarrow> if p = [] then dflt else p
                   | None \<Rightarrow> dflt)
         | _ \<Rightarrow> dflt)"

definition as_date_only :: "host \<Rightarrow> jsval \<Rightarrow> string option" where
  "as_date_only h v =
     (case v of
        JStr s \<Rightarrow>
          (let raw = trim s
           in if raw = [] then None
              else if date_shape raw then Some (take 10 raw)
              else parse_string_date_only h raw)
      | _ \<Rightarrow> None)"

subsection \<open>Date arithmetic\<close>

text \<open>
  The exported functions coerce their arguments first. On a date that is not a valid one the reads
  give NaN and \<open>toISOString\<close> throws a RangeError: \<open>None\<close> in both cases.
\<close>

definition shift_day :: "string \<Rightarrow> int \<Rightarrow> string option" where
  "shift_day s n = (case parse_day s of None \<Rightarrow> None | Some k \<Rightarrow> Some (iso_date (k + n)))"

definition add_days :: "host \<Rightarrow> jsval \<Rightarrow> int \<Rightarrow> string option" where
  "add_days h v n = shift_day (coerce_date_only h v None) n"

text \<open>\<open>Date.UTC(y, m - 1, d)\<close> carries, and maps the years 0 to 99 to 1900 to 1999.\<close>

definition shift_month :: "string \<Rightarrow> int \<Rightarrow> string" where
  "shift_month s n =
     (let (y, m, d) = ymd s; y' = (if 0 \<le> y \<and> y \<le> 99 then 1900 + y else y);
          (cy, cm, cd) = civil (make_day y' (m - 1) d)
      in iso_date (make_day cy (cm + n) cd))"

definition add_months :: "host \<Rightarrow> jsval \<Rightarrow> int \<Rightarrow> string" where
  "add_months h v n = shift_month (coerce_date_only h v None) n"

definition diff_months :: "host \<Rightarrow> jsval \<Rightarrow> jsval \<Rightarrow> int option" where
  "diff_months h s e =
     (case (parse_day (coerce_date_only h s None), parse_day (coerce_date_only h e None)) of
        (Some a, Some b) \<Rightarrow>
          (let (ya, ma, _) = civil a; (yb, mb, _) = civil b in Some ((yb - ya) * 12 + (mb - ma)))
      | _ \<Rightarrow> None)"

text \<open>\<open>Math.max(0, Math.round((db - da) / 86400000))\<close>; an invalid date makes it NaN.\<close>

definition day_gap :: "string \<Rightarrow> string \<Rightarrow> jnum" where
  "day_gap a b =
     (case (parse_day a, parse_day b) of
        (Some x, Some y) \<Rightarrow> jint (max 0 (y - x))
      | _ \<Rightarrow> NaN)"

definition days_between :: "host \<Rightarrow> jsval \<Rightarrow> jsval \<Rightarrow> jnum" where
  "days_between h a b = day_gap (coerce_date_only h a None) (coerce_date_only h b None)"

definition pro_rata_factor :: "host \<Rightarrow> jsval \<Rightarrow> jsval \<Rightarrow> jsval \<Rightarrow> jnum" where
  "pro_rata_factor h eff term_eff term_exp =
     (let total = jmax (Fin 1) (days_between h term_eff term_exp);
          remaining = jmax (Fin 0) (days_between h eff term_exp)
      in jdiv remaining total)"

text \<open>\<open>Math.round(n * 100) / 100\<close>\<close>

definition round2 :: "jnum \<Rightarrow> jnum" where
  "round2 n = jdiv (jround (jmul n (Fin 100))) (Fin 100)"

subsection \<open>The calendar is a bijection\<close>

lemma div_succ:
  fixes x k :: int
  assumes "0 < k"
  shows "(x + 1) div k = x div k + (if (x + 1) mod k = 0 then 1 else 0)"
proof -
  define q r where qr: "q = (x + 1) div k" "r = (x + 1) mod k"
  have e: "x + 1 = k * q + r" "0 \<le> r" "r < k"
    using assms mult_div_mod_eq [of k "x + 1"] by (simp_all add: qr)
  show ?thesis
  proof (cases "r = 0")
    case True
    then have "x = k * (q - 1) + (k - 1)" using e by (simp add: algebra_simps)
    then have "x div k = q - 1" using assms by (intro int_div_pos_eq [where r = "k - 1"]) auto
    with True show ?thesis by (simp add: qr)
  next
    case False
    then have "x div k = q" using e by (intro int_div_pos_eq [where r = "r - 1"]) auto
    with False show ?thesis by (simp add: qr)
  qed
qed

lemma day_from_year_step: "day_from_year (y + 1) = day_from_year y + (if leap y then 366 else 365)"
proof -
  define a b c where abc: "a = (y - 1969) div 4" "b = (y - 1901) div 100" "c = (y - 1601) div 400"
  have mods: "(y - 1968) mod 4 = y mod 4" "(y - 1900) mod 100 = y mod 100" "(y - 1600) mod 400 = y mod 400"
    using mod_mult_self2 [of y 4 "- 492"] mod_mult_self2 [of y 100 "- 19"] mod_mult_self2 [of y 400 "- 4"]
    by simp_all
  have e: "y - 1969 + 1 = y - 1968" "y - 1901 + 1 = y - 1900" "y - 1601 + 1 = y - 1600" by simp_all
  have divs: "(y - 1968) div 4 = a + (if y mod 4 = 0 then 1 else 0)"
    "(y - 1900) div 100 = b + (if y mod 100 = 0 then 1 else 0)"
    "(y - 1600) div 400 = c + (if y mod 400 = 0 then 1 else 0)"
    unfolding abc
    by (rule div_succ [of 4 "y - 1969", unfolded e mods] div_succ [of 100 "y - 1901", unfolded e mods]
        div_succ [of 400 "y - 1601", unfolded e mods], simp)+
  define p q r where pqr: "p = (y mod 4 = 0)" "q = (y mod 100 = 0)" "r = (y mod 400 = 0)"
  have 1: "day_from_year (y + 1) = 365 * (y - 1969) + (y - 1968) div 4 - (y - 1900) div 100 + (y - 1600) div 400"
    by (simp add: day_from_year_def)
  have 2: "day_from_year y = 365 * (y - 1970) + a - b + c"
    by (simp add: day_from_year_def abc)
  have "y mod 100 = 0 \<Longrightarrow> y mod 4 = 0" "y mod 400 = 0 \<Longrightarrow> y mod 100 = 0"
    using mod_mod_cancel [of 4 100 y] mod_mod_cancel [of 100 400 y] by simp_all
  then have imp: "q \<longrightarrow> p" "r \<longrightarrow> q" unfolding pqr by blast+
  show ?thesis unfolding 1 2 divs leap_def pqr [symmetric]
    by (cases p; cases q; cases r) (use imp in \<open>simp_all add: algebra_simps\<close>)
qed

lemma day_from_year_mono: "y \<le> z \<Longrightarrow> day_from_year y \<le> day_from_year z"
proof (induction z rule: int_ge_induct [of y])
  case (step i)
  then show ?case using day_from_year_step [of i] by (simp split: if_splits)
qed auto

lemma day_from_year_approx:
  "146097 * (y - 1970) - 506 \<le> 400 * day_from_year y"
  "400 * day_from_year y \<le> 146097 * (y - 1970) + 589"
proof -
  have div: "k * (x div k) \<le> x \<and> x \<le> k * (x div k) + k - 1" if "0 < k" for x k :: int
    using mult_div_mod_eq [of k x] pos_mod_sign [OF that, of x] pos_mod_bound [OF that, of x] by linarith
  show "146097 * (y - 1970) - 506 \<le> 400 * day_from_year y"
    "400 * day_from_year y \<le> 146097 * (y - 1970) + 589"
    using div [of 4 "y - 1969"] div [of 100 "y - 1901"] div [of 400 "y - 1601"]
    by (simp_all add: day_from_year_def)
qed

lemma year_of_day_bounds:
  "day_from_year (year_of_day n) \<le> n" "n < day_from_year (year_of_day n + 1)"
proof -
  define g where "g = 1970 + (400 * n) div 146097"
  have g: "146097 * (g - 1970) \<le> 400 * n" "400 * n < 146097 * (g - 1970 + 1)"
    using mult_div_mod_eq [of 146097 "400 * n"] pos_mod_sign [of 146097 "400 * n"]
      pos_mod_bound [of 146097 "400 * n"] by (simp_all add: g_def)
  have "day_from_year (g - 1) \<le> n" using g day_from_year_approx [of "g - 1"] by (simp add: algebra_simps)
  moreover have "n < day_from_year (g + 2)" using g day_from_year_approx [of "g + 2"] by (simp add: algebra_simps)
  ultimately show "day_from_year (year_of_day n) \<le> n" "n < day_from_year (year_of_day n + 1)"
    by (auto simp: year_of_day_def Let_def add.commute simp flip: g_def)
qed

lemma year_of_day_unique:
  assumes "day_from_year y \<le> n" "n < day_from_year (y + 1)"
  shows "year_of_day n = y"
proof -
  have "\<not> year_of_day n + 1 \<le> y" "\<not> y + 1 \<le> year_of_day n"
    using assms year_of_day_bounds [of n] day_from_year_mono [of "year_of_day n + 1" y]
      day_from_year_mono [of "y + 1" "year_of_day n"] by linarith+
  then show ?thesis by linarith
qed

definition month_len :: "bool \<Rightarrow> int \<Rightarrow> int" where
  "month_len lp m = month_start lp (m + 1) - month_start lp m"

lemma month_cases:
  fixes m :: int
  assumes "0 \<le> m" "m < 12"
  obtains "m = 0" | "m = 1" | "m = 2" | "m = 3" | "m = 4" | "m = 5" | "m = 6" | "m = 7"
    | "m = 8" | "m = 9" | "m = 10" | "m = 11"
  using assms by atomize_elim arith

lemma month_search_unique:
  assumes "0 \<le> m" "m < 12" "month_start lp m \<le> doy" "doy < month_start lp (m + 1)"
  shows "month_search 11 lp 0 doy = m"
  using assms(1,2)
  by (cases rule: month_cases) (use assms(3,4) in \<open>auto simp: month_start_def eval_nat_numeral split: if_splits\<close>)

lemma month_exists:
  assumes "0 \<le> doy" "doy < (if lp then 366 else 365)"
  shows "\<exists>m. 0 \<le> m \<and> m < 12 \<and> month_start lp m \<le> doy \<and> doy < month_start lp (m + 1)"
proof (rule ccontr)
  assume no: "\<not> ?thesis"
  have step: "month_start lp m \<le> doy \<Longrightarrow> month_start lp (m + 1) \<le> doy" if "0 \<le> m" "m < 12" for m
    using no that by force
  have "month_start lp 0 \<le> doy" using assms by (simp add: month_start_def)
  from step [OF _ _ step [OF _ _ step [OF _ _ step [OF _ _ step [OF _ _ step [OF _ _ step [OF _ _
    step [OF _ _ step [OF _ _ step [OF _ _ step [OF _ _ step [OF _ _ this]]]]]]]]]]]]
  have "month_start lp 12 \<le> doy" by simp
  with assms show False by (simp add: month_start_def split: if_splits)
qed

lemma civil_bounds:
  assumes "civil n = (y, m, d)"
  shows "0 \<le> m" "m < 12" "1 \<le> d" "d \<le> month_len (leap y) m" "make_day y m d = n"
proof -
  define doy where "doy = n - day_from_year (year_of_day n)"
  have y: "y = year_of_day n" using assms by (simp add: civil_def Let_def)
  have "0 \<le> doy" "doy < (if leap y then 366 else 365)"
    using year_of_day_bounds [of n] day_from_year_step [of y] by (auto simp: doy_def y)
  then obtain m' where m': "0 \<le> m'" "m' < 12" "month_start (leap y) m' \<le> doy" "doy < month_start (leap y) (m' + 1)"
    using month_exists by blast
  have "m = m'" "d = doy - month_start (leap y) m + 1"
    using assms month_search_unique [OF m'] by (auto simp: civil_def Let_def doy_def y)
  with m' show "0 \<le> m" "m < 12" "1 \<le> d" "d \<le> month_len (leap y) m" "make_day y m d = n"
    by (auto simp: month_len_def make_day_def Let_def doy_def y)
qed

lemma month_start_bound: "0 \<le> m \<Longrightarrow> m < 12 \<Longrightarrow> 0 \<le> month_start lp m \<and> month_start lp (m + 1) \<le> (if lp then 366 else 365)"
  by (cases rule: month_cases) (auto simp: month_start_def)

lemma civil_make_day:
  assumes "0 \<le> m" "m < 12" "1 \<le> d" "d \<le> month_len (leap y) m"
  shows "civil (make_day y m d) = (y, m, d)"
proof -
  define n where "n = make_day y m d"
  have n: "n = day_from_year y + month_start (leap y) m + d - 1"
    using assms by (simp add: n_def make_day_def Let_def)
  have "year_of_day n = y"
    using assms month_start_bound [OF assms(1,2), of "leap y"] day_from_year_step [of y]
    by (intro year_of_day_unique) (auto simp: n month_len_def split: if_splits)
  moreover have "month_search 11 (leap y) 0 (month_start (leap y) m + d - 1) = m"
    using assms by (intro month_search_unique) (auto simp: month_len_def)
  ultimately show ?thesis unfolding n_def [symmetric] civil_def Let_def by (simp add: n algebra_simps)
qed

lemma make_day_civil: "(case civil n of (y, m, d) \<Rightarrow> make_day y m d) = n"
  using civil_bounds by (cases "civil n") auto

subsection \<open>Date text round trip and order\<close>

definition in_range :: "int \<Rightarrow> bool" where
  "in_range n = (0 \<le> year_of_day n \<and> year_of_day n \<le> 9999)"

lemma int_of_digits_Cons:
  "int_of_digits (c # cs) = digit_val c * 10 ^ length cs + int_of_digits cs"
proof (induction cs rule: rev_induct)
  case (snoc d ds)
  then show ?case using int_of_digits_append [of "c # ds" d] by (simp add: algebra_simps)
qed (simp add: int_of_digits_def)

lemma int_of_digits_zeros [simp]: "int_of_digits (replicate k CHR ''0'' @ s) = int_of_digits s"
  by (induction k) (simp_all add: int_of_digits_Cons digit_val_def ccode_def)

lemma length_int_str: "0 \<le> n \<Longrightarrow> n < 10 ^ w \<Longrightarrow> 0 < w \<Longrightarrow> length (int_str n) \<le> w"
proof (induction n arbitrary: w rule: digits_rev.induct)
  case (1 n)
  show ?case
  proof (cases "n < 10")
    case True
    with 1 show ?thesis by (subst int_str_step) auto
  next
    case False
    with 1 obtain v where w: "w = Suc v" "0 < v" by (cases w; cases "w - 1") auto
    with 1 have "n div 10 < 10 ^ v" by (simp add: div_less_iff_less_mult)
    with 1 False w have "length (int_str (n div 10)) \<le> v" by (simp add: pos_imp_zdiv_nonneg_iff)
    with 1 False w show ?thesis by (subst int_str_step) auto
  qed
qed

lemma pad_int:
  assumes "0 \<le> n" "n < 10 ^ w" "0 < w"
  shows "length (pad_int w n) = w" "list_all is_digit (pad_int w n)" "int_of_digits (pad_int w n) = n"
proof -
  have "is_digit CHR ''0''" by (simp add: is_digit_def ccode_def)
  with assms show "length (pad_int w n) = w" "list_all is_digit (pad_int w n)" "int_of_digits (pad_int w n) = n"
    using length_int_str [OF assms] by (auto simp: pad_int_def pad0_def list_all_iff int_str_digits)
qed

lemma iso_date_parts:
  assumes "in_range n" "civil n = (y, m, d)"
  shows "iso_date n = pad_int 4 y @ CHR ''-'' # pad_int 2 (m + 1) @ CHR ''-'' # pad_int 2 d"
    and "0 \<le> y" "y < 10000" "0 \<le> m" "m < 12" "1 \<le> d" "d \<le> 31"
proof -
  note b = civil_bounds [OF assms(2)]
  have "month_len (leap y) m \<le> 31"
    using b(1,2) by (cases rule: month_cases) (auto simp: month_len_def month_start_def)
  then show r: "0 \<le> y" "y < 10000" "0 \<le> m" "m < 12" "1 \<le> d" "d \<le> 31"
    using assms b by (auto simp: in_range_def civil_def Let_def)
  have "length (pad_int 4 y) = 4" "length (pad_int 2 (m + 1)) = 2" "length (pad_int 2 d) = 2"
    using r pad_int(1) [of y 4] pad_int(1) [of "m + 1" 2] pad_int(1) [of d 2] by simp_all
  then show "iso_date n = pad_int 4 y @ CHR ''-'' # pad_int 2 (m + 1) @ CHR ''-'' # pad_int 2 d"
    using r assms(2) by (simp add: iso_date_def)
qed

lemma fixed_date:
  assumes "length a = 4" "length b = 2" "length c = 2"
    and "list_all is_digit a" "list_all is_digit b" "list_all is_digit c"
  shows "date_only (a @ CHR ''-'' # b @ CHR ''-'' # c)"
    and "ymd (a @ CHR ''-'' # b @ CHR ''-'' # c) = (int_of_digits a, int_of_digits b, int_of_digits c)"
proof -
  have "length [x, y] = 2" for x y :: char by simp
  then obtain b1 b2 c1 c2 where bc: "b = [b1, b2]" "c = [c1, c2]"
    using assms(2,3) by (metis (no_types, opaque_lifting) One_nat_def Suc_1 length_0_conv length_Suc_conv)
  obtain a1 a2 a3 a4 where a: "a = [a1, a2, a3, a4]"
    using assms(1) by (auto simp: eval_nat_numeral length_Suc_conv)
  show "date_only (a @ CHR ''-'' # b @ CHR ''-'' # c)"
    "ymd (a @ CHR ''-'' # b @ CHR ''-'' # c) = (int_of_digits a, int_of_digits b, int_of_digits c)"
    using assms(4-6) by (simp_all add: a bc date_only_def date_shape_def ymd_def)
qed

lemma iso_date_ok:
  assumes "in_range n"
  shows "date_only (iso_date n)" "parse_day (iso_date n) = Some n"
proof -
  obtain y m d where c: "civil n = (y, m, d)" by (metis prod_cases3)
  note p = iso_date_parts [OF assms c]
  have w: "m + 1 < 100" "d < 100" using p by linarith+
  have f: "date_only (iso_date n)" "ymd (iso_date n) = (y, m + 1, d)"
    using p w fixed_date [of "pad_int 4 y" "pad_int 2 (m + 1)" "pad_int 2 d"]
      pad_int [of y 4] pad_int [of "m + 1" 2] pad_int [of d 2] by simp_all
  then show "date_only (iso_date n)" by simp
  show "parse_day (iso_date n) = Some n"
    using f p civil_bounds(5) [OF c] by (simp add: parse_day_def)
qed

text \<open>Comparing date text is comparing days: the code orders dates with the string comparison.\<close>

lemma digits_less:
  assumes "length us = length vs" "list_all is_digit us" "list_all is_digit vs"
  shows "us < vs \<longleftrightarrow> int_of_digits us < int_of_digits vs"
  using assms
proof (induction us vs rule: list_induct2)
  case (Cons u us v vs)
  have b: "0 \<le> int_of_digits us" "0 \<le> int_of_digits vs" "int_of_digits us < 10 ^ length us"
      "int_of_digits vs < 10 ^ length vs"
  proof -
    have lt: "list_all is_digit ws \<Longrightarrow> int_of_digits ws < 10 ^ length ws" for ws
    proof (induction ws rule: rev_induct)
      case (snoc w ws)
      then have "int_of_digits ws \<le> 10 ^ length ws - 1" "digit_val w \<le> 9"
        using digit_val_bounds [of w] by auto
      then show ?case by simp
    qed (simp add: int_of_digits_def)
    show "0 \<le> int_of_digits us" "0 \<le> int_of_digits vs" "int_of_digits us < 10 ^ length us"
      "int_of_digits vs < 10 ^ length vs"
      using Cons.prems lt int_of_digits_nonneg by auto
  qed
  have uv: "u < v \<longleftrightarrow> digit_val u < digit_val v" "u = v \<longleftrightarrow> digit_val u = digit_val v"
    by (auto simp: less_char_def digit_val_def ccode_def)
  define L where "L = (10 :: int) ^ length vs"
  have "digit_val u * L + int_of_digits us < digit_val v * L + int_of_digits vs \<longleftrightarrow>
      digit_val u < digit_val v \<or> digit_val u = digit_val v \<and> int_of_digits us < int_of_digits vs"
  proof (cases "digit_val u" "digit_val v" rule: linorder_cases)
    case less
    then have "digit_val u * L + L \<le> digit_val v * L"
      using mult_right_mono [of "digit_val u + 1" "digit_val v" L] by (simp add: L_def algebra_simps)
    with less b Cons.hyps show ?thesis unfolding L_def by auto
  next
    case greater
    then have "digit_val v * L + L \<le> digit_val u * L"
      using mult_right_mono [of "digit_val v + 1" "digit_val u" L] by (simp add: L_def algebra_simps)
    with greater b Cons.hyps show ?thesis unfolding L_def by auto
  qed simp
  with Cons uv show ?case by (simp add: int_of_digits_Cons L_def)
qed simp

lemma append_less:
  fixes us vs :: "'a :: linorder list"
  assumes "length us = length vs"
  shows "us @ xs < vs @ ys \<longleftrightarrow> us < vs \<or> us = vs \<and> xs < ys"
  using assms by (induction us vs rule: list_induct2) auto

lemma pad_int_less:
  assumes "0 \<le> a" "a < 10 ^ w" "0 \<le> b" "b < 10 ^ w" "0 < w"
  shows "pad_int w a < pad_int w b \<longleftrightarrow> a < b" "pad_int w a = pad_int w b \<longleftrightarrow> a = b"
proof -
  note A = pad_int [OF assms(1,2,5)] and B = pad_int [OF assms(3,4,5)]
  from A B show "pad_int w a < pad_int w b \<longleftrightarrow> a < b" by (subst digits_less) simp_all
  from A(3) B(3) show "pad_int w a = pad_int w b \<longleftrightarrow> a = b" by metis
qed

lemma month_start_mono: "m \<le> m' \<Longrightarrow> 0 \<le> m \<Longrightarrow> m' \<le> 12 \<Longrightarrow> month_start lp m \<le> month_start lp m'"
proof (induction m' rule: int_ge_induct)
  case (step i)
  then have "0 \<le> i" "i < 12" by auto
  then have "month_start lp i \<le> month_start lp (i + 1)"
    by (cases rule: month_cases [of i]) (auto simp: month_start_def)
  with step show ?case by simp
qed auto

lemma civil_less:
  assumes "civil a = (y, m, d)" "civil b = (y', m', d')"
  shows "a < b \<longleftrightarrow> y < y' \<or> y = y' \<and> (m < m' \<or> m = m' \<and> d < d')"
proof -
  have lt: "a < b"
    if c: "civil a = (y, m, d)" "civil b = (y', m', d')" "y < y' \<or> y = y' \<and> (m < m' \<or> m = m' \<and> d < d')"
    for a b y m d y' m' d'
  proof -
    note A = civil_bounds [OF c(1)] and B = civil_bounds [OF c(2)]
    have a: "a = day_from_year y + month_start (leap y) m + d - 1"
      and b: "b = day_from_year y' + month_start (leap y') m' + d' - 1"
      using A B by (simp_all add: make_day_def Let_def)
    consider "y < y'" | "y = y'" "m < m'" | "y = y'" "m = m'" "d < d'" using c(3) by blast
    then show ?thesis
    proof cases
      case 1
      have "a < day_from_year (y + 1)"
        using A a month_start_bound [of m "leap y"] day_from_year_step [of y]
        by (auto simp: month_len_def split: if_splits)
      also have "\<dots> \<le> day_from_year y'" using 1 by (intro day_from_year_mono) simp
      also have "\<dots> \<le> b" using B b month_start_bound [of m' "leap y'"] by simp
      finally show ?thesis .
    next
      case 2
      then show ?thesis
        using A B a b month_start_mono [of "m + 1" m' "leap y"] by (simp add: month_len_def)
    qed (simp add: a b)
  qed
  show ?thesis
  proof
    assume ab: "a < b"
    have "\<not> (y' < y \<or> y' = y \<and> (m' < m \<or> m' = m \<and> d' < d))"
      using lt [OF assms(2,1)] ab by (meson order_less_asym)
    moreover have "\<not> (y = y' \<and> m = m' \<and> d = d')"
      using civil_bounds(5) [OF assms(1)] civil_bounds(5) [OF assms(2)] ab by auto
    ultimately show "y < y' \<or> y = y' \<and> (m < m' \<or> m = m' \<and> d < d')" by linarith
  qed (rule lt [OF assms])
qed

lemma iso_date_less: "in_range a \<Longrightarrow> in_range b \<Longrightarrow> iso_date a < iso_date b \<longleftrightarrow> a < b"
proof -
  assume r: "in_range a" "in_range b"
  obtain y m d where ca: "civil a = (y, m, d)" by (metis prod_cases3)
  obtain y' m' d' where cb: "civil b = (y', m', d')" by (metis prod_cases3)
  note A = iso_date_parts [OF r(1) ca] and B = iso_date_parts [OF r(2) cb]
  have len: "length (pad_int 4 y) = length (pad_int 4 y')"
    "length (pad_int 2 (m + 1)) = length (pad_int 2 (m' + 1))"
    using A B pad_int(1) [of _ 4] pad_int(1) [of _ 2] by simp_all
  have "pad_int 4 y < pad_int 4 y' \<longleftrightarrow> y < y'" "pad_int 4 y = pad_int 4 y' \<longleftrightarrow> y = y'"
    using A(2,3) B(2,3) by (intro pad_int_less; simp)+
  moreover have "pad_int 2 (m + 1) < pad_int 2 (m' + 1) \<longleftrightarrow> m + 1 < m' + 1"
    "pad_int 2 (m + 1) = pad_int 2 (m' + 1) \<longleftrightarrow> m + 1 = m' + 1"
    using A(4,5) B(4,5) by (intro pad_int_less; simp)+
  moreover have "pad_int 2 d < pad_int 2 d' \<longleftrightarrow> d < d'"
    using A(6,7) B(6,7) by (intro pad_int_less) simp_all
  moreover have "m + 1 < m' + 1 \<longleftrightarrow> m < m'" by linarith
  moreover have "m + 1 = m' + 1 \<longleftrightarrow> m = m'" by linarith
  ultimately have "iso_date a < iso_date b \<longleftrightarrow> y < y' \<or> y = y' \<and> (m < m' \<or> m = m' \<and> d < d')"
    by (simp only: A(1) B(1) append_less [OF len(1)] append_less [OF len(2)] Cons_less_Cons) simp
  then show ?thesis by (simp only: civil_less [OF ca cb])
qed

lemma iso_date_inj: "in_range a \<Longrightarrow> in_range b \<Longrightarrow> iso_date a = iso_date b \<longleftrightarrow> a = b"
  by (metis iso_date_ok(2) option.inject)

lemma iso_date_le: "in_range a \<Longrightarrow> in_range b \<Longrightarrow> iso_date a \<le> iso_date b \<longleftrightarrow> a \<le> b"
  using iso_date_less [of b a] by (simp add: not_less flip: linorder_not_less)

text \<open>A real calendar date: the text of a day between the years 0 and 9999.\<close>

definition calendar_date :: "string \<Rightarrow> bool" where
  "calendar_date s = (case parse_day s of None \<Rightarrow> False | Some n \<Rightarrow> in_range n \<and> iso_date n = s)"

lemma calendar_dateE:
  assumes "calendar_date s"
  obtains n where "in_range n" "s = iso_date n" "parse_day s = Some n"
  using assms by (auto simp: calendar_date_def split: option.splits)

lemma calendar_date_iso [intro]: "in_range n \<Longrightarrow> calendar_date (iso_date n)"
  by (simp add: calendar_date_def iso_date_ok)

lemma digit_ends: "date_only s \<Longrightarrow> s \<noteq> [] \<and> is_digit (hd s) \<and> is_digit (last s)"
proof -
  assume d: "date_only s"
  then have l: "length s = 10" by (simp add: date_only_def)
  then have ne: "s \<noteq> []" by auto
  with l have e: "hd s = s ! 0" "last s = s ! 9" by (simp_all add: hd_conv_nth last_conv_nth)
  from d have sh: "list_all is_digit (take 4 s)" "list_all is_digit (take 2 (drop 8 s))"
    unfolding date_only_def date_shape_def by blast+
  from sh(1) l have "is_digit (s ! 0)" by (simp add: list_all_length)
  moreover from sh(2) l have "is_digit (s ! 9)" by (auto simp: list_all_length dest: spec [of _ 1])
  ultimately show ?thesis using ne e by simp
qed

lemma trim_date [simp]: "date_only s \<Longrightarrow> trim s = s"
  using digit_ends [of s] by (intro trim_id) (auto simp: not_space_digit)

lemma coerce_date_id [simp]: "date_only s \<Longrightarrow> coerce_date_only h (JStr s) f = s"
  by (simp add: coerce_date_only_def)

lemma calendar_date_only: "calendar_date s \<Longrightarrow> date_only s"
  by (auto elim!: calendar_dateE simp: iso_date_ok)

subsection \<open>Pro rata\<close>

lemma in_range_day_bound:
  assumes "in_range n" shows "\<bar>n\<bar> < 4000000"
proof -
  have lo: "day_from_year 0 \<le> n"
    using assms year_of_day_bounds(1) [of n] day_from_year_mono [of 0 "year_of_day n"] by (simp add: in_range_def)
  have hi: "n < day_from_year 10000"
    using assms year_of_day_bounds(2) [of n] day_from_year_mono [of "year_of_day n + 1" 10000]
    by (simp add: in_range_def)
  have "day_from_year 0 = - 719528" "day_from_year 10000 = 2932897" by code_simp+
  with lo hi show ?thesis by simp
qed

lemma pro_rata_days:
  assumes "in_range e" "in_range a" "in_range b"
  shows "pro_rata_factor h (JStr (iso_date e)) (JStr (iso_date a)) (JStr (iso_date b))
         = fl (of_int (max 0 (b - e)) / of_int (max 1 (b - a)))"
proof -
  have tot: "jmax (Fin 1) (Fin (of_int (max 0 (b - a)))) = Fin (of_int (max 1 (b - a)))"
    by (auto simp: jmax_def max_def)
  have rem: "jmax (Fin 0) (Fin (of_int (max 0 (b - e)))) = Fin (of_int (max 0 (b - e)))"
    by (auto simp: jmax_def max_def)
  have "max 1 (b - a) \<noteq> 0" by linarith
  then show ?thesis
    using assms
    by (simp add: pro_rata_factor_def days_between_def day_gap_def iso_date_ok jint_def tot rem Let_def)
qed

subsection \<open>Rounding to cents\<close>

lemma round2_int:
  assumes "\<bar>n\<bar> < 2 ^ 40"
  shows "round2 (Fin (of_int n)) = Fin (of_int n)"
proof -
  have m: "fl (of_int n * 100) = Fin (of_int (n * 100))" using fl_int [of "n * 100"] assms by simp
  have "\<lfloor>of_int (n * 100) + 1 / 2 :: rat\<rfloor> = n * 100" by linarith
  moreover have "fl (of_int n) = Fin (of_int n)" using fl_int [of n] assms by simp
  ultimately show ?thesis by (simp add: round2_def m)
qed

lemma round2_numeral [simp]:
  "(numeral k :: int) < 1099511627776 \<Longrightarrow> round2 (Fin (numeral k)) = Fin (numeral k)"
  "(numeral k :: int) < 1099511627776 \<Longrightarrow> round2 (Fin (- numeral k)) = Fin (- numeral k)"
  "round2 (Fin 0) = Fin 0" "round2 (Fin 1) = Fin 1"
  using round2_int [of "numeral k"] round2_int [of "- numeral k"] round2_int [of 0] round2_int [of 1] by simp_all

subsection \<open>Properties\<close>

text \<open>between the years 0 and 9999 the date text of a day parses back to the day, the string
  comparison the code orders dates with is the order of the days, and \<open>addDays\<close> by the difference of
  two days leads from one date to the other.\<close>

theorem dates_are_days:
  assumes "in_range a" "in_range b"
  shows "parse_day (iso_date a) = Some a \<and> (iso_date a < iso_date b \<longleftrightarrow> a < b)
    \<and> (iso_date a = iso_date b \<longleftrightarrow> a = b)
    \<and> add_days h (JStr (iso_date a)) (b - a) = Some (iso_date b)"
  using assms by (simp add: iso_date_ok iso_date_less iso_date_inj add_days_def shift_day_def)

theorem dates_are_days_witness:
  "iso_date 20512 = ''2026-02-28'' \<and> iso_date 20513 = ''2026-03-01'' \<and> iso_date 20512 < iso_date 20513"
proof -
  have "in_range 20512" "in_range 20513" by code_simp+
  from dates_are_days [OF this] show ?thesis by (intro conjI) (code_simp, code_simp, simp)
qed

text \<open>the pro rata factor of a date inside a term is between 0 and 1, is 1 on the term's first day
  (of a non-empty term) and 0 on its last.\<close>

theorem pro_rata_between_0_and_1:
  assumes "in_range a" "in_range b" "in_range e" "a \<le> e" "e \<le> b"
  shows "(let f = pro_rata_factor h (JStr (iso_date e)) (JStr (iso_date a)) (JStr (iso_date b))
    in jle (Fin 0) f \<and> jle f (Fin 1) \<and> (e = a \<and> a < b \<longrightarrow> f = Fin 1) \<and> (e = b \<longrightarrow> f = Fin 0))"
proof -
  let ?r = "of_int (max 0 (b - e)) / of_int (max 1 (b - a)) :: rat"
  have m: "max 0 (b - e) \<le> max 1 (b - a)" "0 < max 1 (b - a)" using assms(4) by linarith+
  then have "of_int (max 0 (b - e)) \<le> (of_int (max 1 (b - a)) :: rat)" by (simp only: of_int_le_iff)
  with m(2) have r: "0 \<le> ?r" "?r \<le> 1" by (simp_all only: divide_le_eq_1 of_int_0_less_iff) simp_all
  have "jle (fl 0) (fl ?r)" "jle (fl ?r) (fl 1)" using r by (intro fl_mono; simp)+
  moreover have "?r = 1" if "e = a" "a < b" using that by simp
  moreover have "?r = 0" if "e = b" using that by simp
  ultimately show ?thesis using assms(1-3) by (simp add: pro_rata_days Let_def)
qed

text \<open>A host whose clock stands at one date and whose \<open>Date\<close> reads no free text.\<close>

definition example_host :: host where
  "example_host = \<lparr>today_str = ''2026-01-15'', date_parse = (\<lambda>_. None), local_ymd = (\<lambda>_. (1970, 1, 1))\<rparr>"

theorem pro_rata_between_0_and_1_witness:
  "jle (pro_rata_factor example_host (JStr (iso_date 20512)) (JStr (iso_date 20000)) (JStr (iso_date 20600))) (Fin 1)"
proof -
  have "in_range 20000" "in_range 20600" "in_range 20512" by code_simp+
  from pro_rata_between_0_and_1 [OF this, of example_host] show ?thesis by (simp add: Let_def)
qed

end
