(* ===== verification/ExprParser.thy ===== *)
theory ExprParser
  imports DateUtils
begin

text \<open>
  The front end of the rule language, \<open>packages/rules/src/expression.ts\<close>: \<open>tokenize\<close> and the recursive
  descent parser. The parser's cursor is the list of remaining tokens and its nesting counter is the
  budget that is left of \<open>MAX_DEPTH\<close>, so that the recursion is bounded by it; each loop of the parser
  runs on fuel, one unit per remaining token and one more. Running out of fuel and reading past the
  last token are the error \<open>Internal\<close>, which the lemmas at the end exclude.
\<close>

datatype tok_type = TNum | TStr | TName | TOp | TEnd

datatype token = Token (tok_type: tok_type) (tok_value: string) (tok_pos: nat)

datatype expr_error = ExprError string nat | Internal

datatype node =
    Lit jsval
  | Name "string list"
  | ListN "node list"
  | Unary string node
  | Binary string node node
  | Call string "node list" nat

definition MAX_LENGTH :: nat where "MAX_LENGTH = 1000"
definition MAX_DEPTH :: nat where "MAX_DEPTH = 40"

definition OPERATORS :: "string list" where
  "OPERATORS = [''||'', ''&&'', ''=='', ''!='', ''<='', ''>='', ''<'', ''>'', ''!'', ''+'', ''-'', ''*'',
     ''/'', ''('', '')'', ''['', '']'', '','', ''.'']"

subsection \<open>Tokens\<close>

definition quoted :: "string \<Rightarrow> string" where
  "quoted s = [CHR 0x27] @ s @ [CHR 0x27]"

definition is_name_start :: "char \<Rightarrow> bool" where
  "is_name_start c = (is_alpha c \<or> c = CHR ''_'')"

text \<open>\<open>/^[0-9]+(\.[0-9]+)?/\<close>\<close>

definition scan_number :: "string \<Rightarrow> string" where
  "scan_number s =
     (let ip = takeWhile is_digit s; r = drop (length ip) s
      in case r of
           c # d # cs \<Rightarrow> if c = CHR ''.'' \<and> is_digit d then ip @ CHR ''.'' # takeWhile is_digit (d # cs) else ip
         | _ \<Rightarrow> ip)"

text \<open>The text up to the closing quote, a backslash taking the next character as it is, and the rest.\<close>

fun scan_text :: "char \<Rightarrow> string \<Rightarrow> (string \<times> string) option" where
  "scan_text q [] = None"
| "scan_text q [c] = (if c = q then Some ([], []) else None)"
| "scan_text q (c # d # cs) =
     (if c = q then Some ([], d # cs)
      else if c = CHR 0x5C then map_option (\<lambda>(t, r). (d # t, r)) (scan_text q cs)
      else map_option (\<lambda>(t, r). (c # t, r)) (scan_text q (d # cs)))"

lemma scan_text_length: "scan_text q s = Some (t, r) \<Longrightarrow> length r < length s"
  by (induction q s arbitrary: t r rule: scan_text.induct) (fastforce split: if_splits)+

definition scan_name :: "string \<Rightarrow> string" where
  "scan_name s = takeWhile is_word s"

function tok_go :: "nat \<Rightarrow> string \<Rightarrow> (expr_error, token list) outcome" where
  "tok_go pos [] = Inr [Token TEnd [] pos]"
| "tok_go pos (c # cs) =
     (if is_space c then tok_go (pos + 1) cs
      else if is_digit c then
        (let m = scan_number (c # cs)
         in outcome_bind (tok_go (pos + length m) (drop (max 1 (length m)) (c # cs)))
              (\<lambda>ts. Inr (Token TNum m pos # ts)))
      else if c = CHR 0x27 \<or> c = CHR 0x22 then
        (case scan_text c cs of
           None \<Rightarrow> Inl (ExprError ''text is missing its closing quote'' pos)
         | Some (t, r) \<Rightarrow>
             outcome_bind (tok_go (pos + (length (c # cs) - length r)) r)
               (\<lambda>ts. Inr (Token TStr t pos # ts)))
      else if is_name_start c then
        (let m = scan_name (c # cs)
         in outcome_bind (tok_go (pos + length m) (drop (max 1 (length m)) (c # cs)))
              (\<lambda>ts. Inr (Token TName m pos # ts)))
      else
        (case find_first (\<lambda>p. starts_with (c # cs) p) OPERATORS of
           None \<Rightarrow> Inl (ExprError (''unexpected character '' @ quoted [c]) pos)
         | Some p \<Rightarrow>
             outcome_bind (tok_go (pos + length p) (drop (max 1 (length p)) (c # cs)))
               (\<lambda>ts. Inr (Token TOp p pos # ts))))"
  by pat_completeness auto
termination
  by (relation "measure (\<lambda>(pos, s). length s)") (auto dest: scan_text_length)

definition tokenize :: "string \<Rightarrow> (expr_error, token list) outcome" where
  "tokenize source = tok_go 0 source"

subsection \<open>The parser\<close>

type_synonym parsed = "(expr_error, node \<times> token list) outcome"

text \<open>\<open>FUNCTIONS\<close>: the names with the least and the largest number of arguments.\<close>

definition FUNCTIONS :: "(string \<times> nat \<times> nat) list" where
  "FUNCTIONS =
     [(''count'', 1, 1), (''sum'', 2, 2), (''lookup'', 3, 3), (''isSet'', 1, 1), (''isEmpty'', 1, 1),
      (''len'', 1, 1), (''min'', 1, 20), (''max'', 1, 20), (''abs'', 1, 1), (''round'', 1, 2),
      (''lower'', 1, 1), (''upper'', 1, 1), (''contains'', 2, 2), (''startsWith'', 2, 2),
      (''number'', 1, 1), (''today'', 0, 0), (''daysBetween'', 2, 2)]"

fun is_op :: "string \<Rightarrow> token list \<Rightarrow> bool" where
  "is_op v [] = False"
| "is_op v (t # ts) = (tok_type t = TOp \<and> tok_value t = v)"

fun is_name :: "string \<Rightarrow> token list \<Rightarrow> bool" where
  "is_name v [] = False"
| "is_name v (t # ts) = (tok_type t = TName \<and> tok_value t = v)"

fun peek_pos :: "token list \<Rightarrow> nat" where
  "peek_pos [] = 0"
| "peek_pos (t # ts) = tok_pos t"

definition expect_op :: "string \<Rightarrow> token list \<Rightarrow> (expr_error, token list) outcome" where
  "expect_op v ts = (if ts = [] then Inl Internal else if is_op v ts then Inr (drop 1 ts)
                     else Inl (ExprError (''expected '' @ quoted v) (peek_pos ts)))"

text \<open>\<open>while (isOp(...)) { op = take().value; left = { kind: 'binary', op, left, right: sub() } }\<close>\<close>

fun parse_chain :: "nat \<Rightarrow> string list \<Rightarrow> (token list \<Rightarrow> parsed) \<Rightarrow> node \<Rightarrow> token list \<Rightarrow> parsed" where
  "parse_chain 0 ops sub left ts = Inl Internal"
| "parse_chain (Suc f) ops sub left ts =
     (if list_ex (\<lambda>v. is_op v ts) ops
      then outcome_bind (sub (drop 1 ts)) (\<lambda>(right, r).
             parse_chain f ops sub (Binary (tok_value (hd ts)) left right) r)
      else Inr (left, ts))"

definition binary_level :: "string list \<Rightarrow> (token list \<Rightarrow> parsed) \<Rightarrow> token list \<Rightarrow> parsed" where
  "binary_level ops sub ts =
     outcome_bind (sub ts) (\<lambda>(left, r). parse_chain (Suc (length r)) ops sub left r)"

definition parse_product :: "(token list \<Rightarrow> parsed) \<Rightarrow> token list \<Rightarrow> parsed" where
  "parse_product unary ts = binary_level [''*'', ''/''] unary ts"

definition parse_sum :: "(token list \<Rightarrow> parsed) \<Rightarrow> token list \<Rightarrow> parsed" where
  "parse_sum unary ts = binary_level [''+'', ''-''] (parse_product unary) ts"

definition parse_comparison :: "(token list \<Rightarrow> parsed) \<Rightarrow> token list \<Rightarrow> parsed" where
  "parse_comparison unary ts =
     outcome_bind (parse_sum unary ts) (\<lambda>(left, r).
       case find_first (\<lambda>op. is_op op r) [''=='', ''!='', ''<='', ''>='', ''<'', ''>''] of
         Some op \<Rightarrow> outcome_bind (parse_sum unary (drop 1 r)) (\<lambda>(right, r').
                      Inr (Binary op left right, r'))
       | None \<Rightarrow>
           if is_name ''in'' r then
             outcome_bind (parse_sum unary (drop 1 r)) (\<lambda>(right, r').
               Inr (Binary ''in'' left right, r'))
           else if is_name ''not'' r \<and> is_name ''in'' (drop 1 r) then
             outcome_bind (parse_sum unary (drop 2 r)) (\<lambda>(right, r').
               Inr (Unary ''!'' (Binary ''in'' left right), r'))
           else Inr (left, r))"

definition parse_and :: "(token list \<Rightarrow> parsed) \<Rightarrow> token list \<Rightarrow> parsed" where
  "parse_and sub ts = binary_level [''&&''] sub ts"

fun parse_more :: "nat \<Rightarrow> (token list \<Rightarrow> parsed) \<Rightarrow> token list \<Rightarrow> (expr_error, node list \<times> token list) outcome" where
  "parse_more 0 sub ts = Inl Internal"
| "parse_more (Suc f) sub ts =
     (if is_op '','' ts
      then outcome_bind (sub (drop 1 ts)) (\<lambda>(x, r).
             outcome_bind (parse_more f sub r) (\<lambda>(xs, r'). Inr (x # xs, r')))
      else Inr ([], ts))"

definition parse_list :: "(token list \<Rightarrow> parsed) \<Rightarrow> string \<Rightarrow> token list \<Rightarrow> (expr_error, node list \<times> token list) outcome" where
  "parse_list sub close ts =
     outcome_bind
       (if is_op close ts then Inr ([], ts)
        else outcome_bind (sub ts) (\<lambda>(x, r).
               outcome_bind (parse_more (Suc (length r)) sub r) (\<lambda>(xs, r'). Inr (x # xs, r'))))
       (\<lambda>(items, r). outcome_bind (expect_op close r) (\<lambda>r'. Inr (items, r')))"

text \<open>The rest of a dotted name; a part is a name or a number token.\<close>

fun parse_path :: "token list \<Rightarrow> (expr_error, string list \<times> token list) outcome" where
  "parse_path (t # p # ts) =
     (if is_op ''.'' [t]
      then if tok_type p = TName \<or> tok_type p = TNum
           then outcome_bind (parse_path ts) (\<lambda>(ps, r). Inr (tok_value p # ps, r))
           else Inl (ExprError ''expected a name after .'' (tok_pos p))
      else Inr ([], t # p # ts))"
| "parse_path ts = (if is_op ''.'' ts then Inl Internal else Inr ([], ts))"

definition parse_primary :: "(token list \<Rightarrow> parsed) \<Rightarrow> token list \<Rightarrow> parsed" where
  "parse_primary sub ts =
     (case ts of
        [] \<Rightarrow> Inl Internal
      | t # r \<Rightarrow>
          if tok_type t = TNum then Inr (Lit (JNum (js_number (tok_value t))), r)
          else if tok_type t = TStr then Inr (Lit (JStr (tok_value t)), r)
          else if is_op ''('' ts then
            outcome_bind (sub r) (\<lambda>(inner, r'). outcome_bind (expect_op '')'' r') (\<lambda>r''. Inr (inner, r'')))
          else if is_op ''['' ts then
            outcome_bind (parse_list sub '']'' r) (\<lambda>(items, r'). Inr (ListN items, r'))
          else if tok_type t = TName then
            (if tok_value t = ''true'' then Inr (Lit (JBool True), r)
             else if tok_value t = ''false'' then Inr (Lit (JBool False), r)
             else if tok_value t = ''null'' then Inr (Lit JNull, r)
             else if is_op ''('' r then
               (if aget FUNCTIONS (tok_value t) = None
                then Inl (ExprError (''unknown function '' @ quoted (tok_value t)) (tok_pos t))
                else outcome_bind (parse_list sub '')'' (drop 1 r)) (\<lambda>(args, r').
                       Inr (Call (tok_value t) args (tok_pos t), r')))
             else outcome_bind (parse_path r) (\<lambda>(ps, r'). Inr (Name (tok_value t # ps), r')))
          else Inl (ExprError (if tok_type t = TEnd then ''expression ends unexpectedly''
                               else ''unexpected '' @ quoted (tok_value t)) (tok_pos t)))"

text \<open>
  The levels that nest: \<open>parse_or\<close> (entered again by parentheses, lists and calls), \<open>parse_not\<close> and
  \<open>parse_unary\<close>. The number is the depth that may still be entered.
\<close>

function parse_or :: "nat \<Rightarrow> token list \<Rightarrow> parsed"
  and parse_not :: "nat \<Rightarrow> token list \<Rightarrow> parsed"
  and parse_unary :: "nat \<Rightarrow> token list \<Rightarrow> parsed" where
  "parse_or d ts =
     (if d = 0 then Inl (ExprError ''expression is nested too deeply'' (peek_pos ts))
      else binary_level [''||''] (parse_and (\<lambda>ts. parse_not (d - 1) ts)) ts)"
| "parse_not d ts =
     (if is_op ''!'' ts
      then if d = 0 then Inl (ExprError ''expression is nested too deeply'' (peek_pos (drop 1 ts)))
           else outcome_bind (parse_not (d - 1) (drop 1 ts)) (\<lambda>(a, r). Inr (Unary ''!'' a, r))
      else parse_comparison (\<lambda>ts. parse_unary d ts) ts)"
| "parse_unary d ts =
     (if is_op ''-'' ts
      then if d = 0 then Inl (ExprError ''expression is nested too deeply'' (peek_pos (drop 1 ts)))
           else outcome_bind (parse_unary (d - 1) (drop 1 ts)) (\<lambda>(a, r). Inr (Unary ''-'' a, r))
      else parse_primary (\<lambda>ts. parse_or d ts) ts)"
  by pat_completeness auto
termination
  by (relation "measure (\<lambda>p. case p of Inl (d, ts) \<Rightarrow> 3 * d
                          | Inr (Inl (d, ts)) \<Rightarrow> 3 * d + 2 | Inr (Inr (d, ts)) \<Rightarrow> 3 * d + 1)") auto

declare parse_or.simps [simp del] parse_not.simps [simp del] parse_unary.simps [simp del]

definition parse :: "string \<Rightarrow> (expr_error, node) outcome" where
  "parse source =
     outcome_bind (tokenize source) (\<lambda>ts. outcome_bind (parse_or MAX_DEPTH ts) (\<lambda>(root, r).
       case r of
         [] \<Rightarrow> Inl Internal
       | t # _ \<Rightarrow> if tok_type t = TEnd then Inr root
                  else Inl (ExprError (''unexpected '' @ quoted (tok_value t)) (tok_pos t))))"

subsection \<open>Well-formed token lists and trees\<close>

text \<open>The tokenizer's output: one end token, and it is the last.\<close>

definition wf_tokens :: "token list \<Rightarrow> bool" where
  "wf_tokens ts = (ts \<noteq> [] \<and> tok_type (last ts) = TEnd \<and> list_all (\<lambda>t. tok_type t \<noteq> TEnd) (butlast ts))"

definition BINARY_OPS :: "string list" where
  "BINARY_OPS = [''||'', ''&&'', ''=='', ''!='', ''<='', ''>='', ''<'', ''>'', ''in'', ''+'', ''-'', ''*'', ''/'']"

text \<open>What the evaluator relies on: known operators, known functions, names with a first part.\<close>

fun wf_node :: "node \<Rightarrow> bool" where
  "wf_node (Lit v) = True"
| "wf_node (Name path) = (path \<noteq> [])"
| "wf_node (ListN ns) = list_all wf_node ns"
| "wf_node (Unary op a) = (op \<in> {''!'', ''-''} \<and> wf_node a)"
| "wf_node (Binary op l r) = (op \<in> set BINARY_OPS \<and> wf_node l \<and> wf_node r)"
| "wf_node (Call f args p) = (aget FUNCTIONS f \<noteq> None \<and> list_all wf_node args)"

definition parse_ok :: "('a \<Rightarrow> bool) \<Rightarrow> token list \<Rightarrow> (expr_error, 'a \<times> token list) outcome \<Rightarrow> bool" where
  "parse_ok Q ts res =
     (case res of Inl e \<Rightarrow> e \<noteq> Internal
      | Inr (x, r) \<Rightarrow> Q x \<and> wf_tokens r \<and> length r \<le> length ts)"

definition parse_progress :: "token list \<Rightarrow> (expr_error, 'a \<times> token list) outcome \<Rightarrow> bool" where
  "parse_progress ts res = (case res of Inl e \<Rightarrow> True | Inr (x, r) \<Rightarrow> length r < length ts)"

lemma wf_tokens_Cons: "wf_tokens (t # ts) \<Longrightarrow> tok_type t \<noteq> TEnd \<Longrightarrow> wf_tokens ts"
  by (cases ts) (auto simp: wf_tokens_def)

lemma wf_tokens_not_Nil [simp]: "\<not> wf_tokens []"
  by (simp add: wf_tokens_def)

lemma is_opE: "is_op v ts \<Longrightarrow> (\<And>t r. ts = t # r \<Longrightarrow> tok_type t = TOp \<Longrightarrow> tok_value t = v \<Longrightarrow> P) \<Longrightarrow> P"
  by (cases ts) auto

lemma wf_tokens_drop_op [intro]: "wf_tokens ts \<Longrightarrow> is_op v ts \<Longrightarrow> wf_tokens (drop 1 ts)"
  by (elim is_opE) (auto intro: wf_tokens_Cons)

lemma wf_tokens_drop_name: "wf_tokens ts \<Longrightarrow> is_name v ts \<Longrightarrow> wf_tokens (drop 1 ts)"
  by (cases ts) (auto intro: wf_tokens_Cons)

lemmas wf_tokens_drop_op' [intro] = wf_tokens_drop_op [unfolded One_nat_def]

lemma is_op_length: "is_op v ts \<Longrightarrow> length (drop 1 ts) < length ts"
  by (elim is_opE) auto

lemma is_name_length: "is_name v ts \<Longrightarrow> length (drop 1 ts) < length ts"
  by (cases ts) auto

text \<open>
  The interface between the parser's levels: a level never fails internally, and what it returns is
  a well-formed tree and a shorter well-formed rest.
\<close>

locale subparser =
  fixes P :: "token list \<Rightarrow> parsed"
  assumes ok: "wf_tokens ts \<Longrightarrow> parse_ok wf_node ts (P ts)"
    and progress: "wf_tokens ts \<Longrightarrow> parse_progress ts (P ts)"
begin

lemma result:
  assumes "wf_tokens ts" "P ts = Inr (n, r)"
  shows "wf_node n" "wf_tokens r" "length r < length ts"
  using ok [OF assms(1)] progress [OF assms(1)] assms(2) by (auto simp: parse_ok_def parse_progress_def)

lemma no_internal: "wf_tokens ts \<Longrightarrow> P ts \<noteq> Inl Internal"
  using ok [of ts] by (auto simp: parse_ok_def)

lemma chain:
  assumes "wf_tokens ts" "length ts < f" "wf_node left" "set ops \<subseteq> set BINARY_OPS"
  shows "parse_ok wf_node ts (parse_chain f ops P left ts)"
  using assms
proof (induction f arbitrary: left ts)
  case (Suc f)
  show ?case
  proof (cases "list_ex (\<lambda>v. is_op v ts) ops")
    case True
    then obtain v where v: "v \<in> set ops" "is_op v ts" by (auto simp: list_ex_iff)
    then have hd: "tok_value (hd ts) = v" by (auto elim: is_opE)
    from v Suc.prems have w: "wf_tokens (drop 1 ts)" "length (drop 1 ts) < length ts"
      using is_op_length by auto
    show ?thesis
    proof (cases "P (drop 1 ts)")
      case (Inl e)
      then show ?thesis using True no_internal [OF w(1)] by (auto simp: parse_ok_def)
    next
      case (Inr nr)
      obtain n r where nr: "nr = (n, r)" by force
      note res = result [OF w(1) Inr [unfolded nr]]
      have "parse_ok wf_node r (parse_chain f ops P (Binary v left n) r)"
        using res w v Suc.prems by (intro Suc.IH) auto
      then show ?thesis
        using True Inr res w by (auto simp: nr hd parse_ok_def split: sum.splits)
    qed
  qed (use Suc.prems in \<open>auto simp: parse_ok_def\<close>)
qed simp

lemma level: "set ops \<subseteq> set BINARY_OPS \<Longrightarrow> subparser (binary_level ops P)"
proof
  fix ts
  assume ops: "set ops \<subseteq> set BINARY_OPS" and w: "wf_tokens ts"
  have "parse_ok wf_node ts (binary_level ops P ts) \<and> parse_progress ts (binary_level ops P ts)"
  proof (cases "P ts")
    case (Inl e)
    then show ?thesis using no_internal [OF w] by (auto simp: binary_level_def parse_ok_def parse_progress_def)
  next
    case (Inr nr)
    obtain n r where nr: "nr = (n, r)" by force
    note res = result [OF w Inr [unfolded nr]]
    have "parse_ok wf_node r (parse_chain (Suc (length r)) ops P n r)"
      using res ops by (intro chain) auto
    then show ?thesis using Inr res
      by (auto simp: nr binary_level_def parse_ok_def parse_progress_def simp del: parse_chain.simps
          split: sum.splits)
  qed
  then show "parse_ok wf_node ts (binary_level ops P ts)" "parse_progress ts (binary_level ops P ts)"
    by auto
qed

lemma more:
  assumes "wf_tokens ts" "length ts < f"
  shows "parse_ok (list_all wf_node) ts (parse_more f P ts)"
  using assms
proof (induction f arbitrary: ts)
  case (Suc f)
  show ?case
  proof (cases "is_op '','' ts")
    case True
    then have w: "wf_tokens (drop 1 ts)" "length (drop 1 ts) < length ts"
      using Suc.prems is_op_length by auto
    show ?thesis
    proof (cases "P (drop 1 ts)")
      case (Inl e)
      then show ?thesis using True no_internal [OF w(1)] by (auto simp: parse_ok_def)
    next
      case (Inr nr)
      obtain n r where nr: "nr = (n, r)" by force
      note res = result [OF w(1) Inr [unfolded nr]]
      have "parse_ok (list_all wf_node) r (parse_more f P r)"
        using res w Suc.prems by (intro Suc.IH) auto
      then show ?thesis using True Inr res w
        by (cases "parse_more f P r") (auto simp: nr parse_ok_def)
    qed
  qed (use Suc.prems in \<open>auto simp: parse_ok_def\<close>)
qed simp

lemma items:
  assumes "wf_tokens ts"
  shows "parse_ok (list_all wf_node) ts (parse_list P close ts)"
proof -
  have close: "parse_ok (list_all wf_node) ts (outcome_bind (expect_op close r) (\<lambda>r'. Inr (xs, r')))"
    if "wf_tokens r" "length r \<le> length ts" "list_all wf_node xs" for r and xs :: "node list"
    using that is_op_length [of close r] by (auto simp: expect_op_def parse_ok_def)
  show ?thesis
  proof (cases "is_op close ts")
    case True
    then show ?thesis using assms close [of ts "[]"] by (simp add: parse_list_def)
  next
    case False
    show ?thesis
    proof (cases "P ts")
      case (Inl e)
      then show ?thesis using False no_internal [OF assms] by (auto simp: parse_list_def parse_ok_def)
    next
      case (Inr nr)
      obtain n r where nr: "nr = (n, r)" by force
      note res = result [OF assms Inr [unfolded nr]]
      have m: "parse_ok (list_all wf_node) r (parse_more (Suc (length r)) P r)"
        using res by (intro more) auto
      show ?thesis
      proof (cases "parse_more (Suc (length r)) P r")
        case (Inl e)
        with m False Inr show ?thesis
          by (simp add: parse_list_def nr parse_ok_def del: parse_more.simps)
      next
        case (Inr xr)
        obtain xs r' where xr: "xr = (xs, r')" by force
        from m Inr have "wf_tokens r'" "length r' \<le> length r" "list_all wf_node xs"
          by (auto simp: xr parse_ok_def)
        then have "parse_ok (list_all wf_node) ts (outcome_bind (expect_op close r') (\<lambda>r''. Inr (n # xs, r'')))"
          using res by (intro close) auto
        then show ?thesis using False \<open>P ts = Inr nr\<close> Inr
          by (simp add: parse_list_def nr xr del: parse_more.simps)
      qed
    qed
  qed
qed

lemma bindI:
  assumes "wf_tokens ts"
    and "\<And>n r. P ts = Inr (n, r) \<Longrightarrow> wf_node n \<Longrightarrow> wf_tokens r \<Longrightarrow> length r < length ts \<Longrightarrow>
      parse_ok wf_node ts (f n r) \<and> parse_progress ts (f n r)"
  shows "parse_ok wf_node ts (outcome_bind (P ts) (\<lambda>(n, r). f n r)) \<and>
    parse_progress ts (outcome_bind (P ts) (\<lambda>(n, r). f n r))"
proof (cases "P ts")
  case (Inl e)
  then show ?thesis using no_internal [OF assms(1)] by (auto simp: parse_ok_def parse_progress_def)
next
  case (Inr nr)
  obtain n r where nr: "nr = (n, r)" by force
  then show ?thesis using Inr assms(2) [of n r] result [OF assms(1), of n r] by simp
qed

text \<open>An operand after consumed tokens: the rest is shorter still.\<close>

lemma operand:
  assumes "wf_tokens ts'" "length ts' < length ts" "\<And>n. wf_node n \<Longrightarrow> wf_node (g n)"
  shows "parse_ok wf_node ts (outcome_bind (P ts') (\<lambda>(n, r). Inr (g n, r))) \<and>
    parse_progress ts (outcome_bind (P ts') (\<lambda>(n, r). Inr (g n, r)))"
proof (cases "P ts'")
  case (Inl e)
  then show ?thesis using no_internal [OF assms(1)] by (auto simp: parse_ok_def parse_progress_def)
next
  case (Inr nr)
  obtain n r where nr: "nr = (n, r)" by force
  then show ?thesis using Inr assms(2,3) result [OF assms(1), of n r]
    by (simp add: parse_ok_def parse_progress_def)
qed

end

lemma subparserI:
  "(\<And>ts. wf_tokens ts \<Longrightarrow> parse_ok wf_node ts (P ts) \<and> parse_progress ts (P ts)) \<Longrightarrow> subparser P"
  by unfold_locales auto

lemma subparser_comparison:
  assumes "subparser P"
  shows "subparser (parse_comparison P)"
proof -
  have "subparser (parse_product P)"
    unfolding parse_product_def using subparser.level [OF assms, of "[''*'', ''/'']"]
    by (simp add: BINARY_OPS_def)
  then have sum: "subparser (parse_sum P)"
    unfolding parse_sum_def using subparser.level [of "parse_product P" "[''+'', ''-'']"]
    by (simp add: BINARY_OPS_def)
  show ?thesis
  proof (rule subparserI)
    fix ts
    assume w: "wf_tokens ts"
    show "parse_ok wf_node ts (parse_comparison P ts) \<and> parse_progress ts (parse_comparison P ts)"
      unfolding parse_comparison_def
    proof (rule subparser.bindI [OF sum w], goal_cases)
      case (1 n r)
      note res = this
      show ?case
      proof (cases "find_first (\<lambda>op. is_op op r) [''=='', ''!='', ''<='', ''>='', ''<'', ''>'']")
        case (Some op)
        note f = find_first_Some [OF Some]
        then have "op \<in> set BINARY_OPS" "wf_tokens (drop 1 r)" "length (drop 1 r) < length ts"
          using res is_op_length [of op r] by (auto simp: BINARY_OPS_def)
        with Some res show ?thesis by (simp add: subparser.operand [OF sum] del: find_first.simps)
      next
        case None
        note opnd = subparser.operand [OF sum]
        have wf: "wf_node (Binary ''in'' n x)" "wf_node (Unary ''!'' (Binary ''in'' n x))"
          if "wf_node x" for x using that res by (simp_all add: BINARY_OPS_def)
        consider (isin) "is_name ''in'' r"
          | (notin) "\<not> is_name ''in'' r" "is_name ''not'' r" "is_name ''in'' (drop 1 r)"
          | (plain) "\<not> is_name ''in'' r" "\<not> (is_name ''not'' r \<and> is_name ''in'' (drop 1 r))" by blast
        then show ?thesis
        proof cases
          case isin
          then have "wf_tokens (drop 1 r)" "length (drop 1 r) < length ts"
            using res wf_tokens_drop_name is_name_length [OF isin] by auto
          from opnd [OF this wf(1)] isin None show ?thesis by (simp del: find_first.simps)
        next
          case notin
          then have w1: "wf_tokens (drop 1 r)" using res wf_tokens_drop_name by auto
          have "drop 2 r = drop 1 (drop 1 r)" by (simp add: numeral_2_eq_2)
          with w1 have "wf_tokens (drop 2 r)" "length (drop 2 r) < length ts"
            using res wf_tokens_drop_name [OF w1 notin(3)] is_name_length [OF notin(2)] by auto
          from opnd [OF this wf(2)] notin None show ?thesis by (simp del: find_first.simps)
        next
          case plain
          then show ?thesis using None res
            by (auto simp: parse_ok_def parse_progress_def simp del: find_first.simps)
        qed
      qed
    qed
  qed
qed

lemma parse_path_ok:
  assumes "wf_tokens ts"
  shows "parse_ok (\<lambda>_. True) ts (parse_path ts)"
  using assms
proof (induction ts rule: parse_path.induct)
  case (1 t p ts)
  show ?case
  proof (cases "is_op ''.'' [t] \<and> (tok_type p = TName \<or> tok_type p = TNum)")
    case True
    then have "wf_tokens (p # ts)" using 1(2) by (auto intro: wf_tokens_Cons)
    then have "wf_tokens ts" using True by (auto intro: wf_tokens_Cons)
    with 1 True show ?thesis by (auto simp: parse_ok_def split: sum.splits)
  next
    case False
    with 1(2) show ?thesis by (auto simp: parse_ok_def)
  qed
next
  case "2_2" then show ?case by (auto simp: parse_ok_def wf_tokens_def)
qed auto

lemma subparser_primary:
  assumes P: "subparser P"
  shows "subparser (parse_primary P)"
proof (rule subparserI)
  fix ts
  assume w: "wf_tokens ts"
  then obtain t r where ts: "ts = t # r" by (cases ts) auto
  have r: "wf_tokens r" if "tok_type t \<noteq> TEnd" using w that ts wf_tokens_Cons by blast
  have lst: "parse_ok wf_node ts (outcome_bind (parse_list P c ts') (\<lambda>(xs, r'). Inr (g xs, r'))) \<and>
      parse_progress ts (outcome_bind (parse_list P c ts') (\<lambda>(xs, r'). Inr (g xs, r')))"
    if "wf_tokens ts'" "length ts' < length ts" "\<And>xs. list_all wf_node xs \<Longrightarrow> wf_node (g xs)" for c ts' g
    using subparser.items [OF P that(1), of c] that
    by (cases "parse_list P c ts'") (auto simp: parse_ok_def parse_progress_def)
  consider "tok_type t = TNum" | "tok_type t = TStr" | "tok_type t = TEnd"
    | "tok_type t = TOp" | "tok_type t = TName" by (cases "tok_type t") auto
  then show "parse_ok wf_node ts (parse_primary P ts) \<and> parse_progress ts (parse_primary P ts)"
  proof cases
    case 4
    have paren: "parse_ok wf_node ts (outcome_bind (P r) (\<lambda>(inner, r'). outcome_bind (expect_op c r') (\<lambda>r''. Inr (inner, r'')))) \<and>
      parse_progress ts (outcome_bind (P r) (\<lambda>(inner, r'). outcome_bind (expect_op c r') (\<lambda>r''. Inr (inner, r''))))" for c
    proof (cases "P r")
      case (Inl e)
      then show ?thesis using subparser.no_internal [OF P r] 4 by (auto simp: parse_ok_def parse_progress_def)
    next
      case (Inr nr)
      obtain n r' where nr: "nr = (n, r')" by force
      note res = subparser.result [OF P r Inr [unfolded nr]]
      from 4 have "tok_type t \<noteq> TEnd" by simp
      note res = res [OF this]
      then show ?thesis using Inr is_op_length [of c r']
        by (auto simp: nr expect_op_def parse_ok_def parse_progress_def ts)
    qed
    show ?thesis using 4 paren lst [of r ListN "'']''"] r
      by (auto simp: parse_primary_def ts parse_ok_def parse_progress_def)
  next
    case 5
    have call: "parse_ok wf_node ts (outcome_bind (parse_list P c (drop 1 r)) (\<lambda>(args, r'). Inr (Call (tok_value t) args (tok_pos t), r'))) \<and>
      parse_progress ts (outcome_bind (parse_list P c (drop 1 r)) (\<lambda>(args, r'). Inr (Call (tok_value t) args (tok_pos t), r')))"
      if "is_op ''('' r" "aget FUNCTIONS (tok_value t) \<noteq> None" for c
      using that r 5 is_op_length [OF that(1)] by (intro lst) (auto simp: ts)
    have path: "parse_ok wf_node ts (outcome_bind (parse_path r) (\<lambda>(ps, r'). Inr (Name (tok_value t # ps), r'))) \<and>
      parse_progress ts (outcome_bind (parse_path r) (\<lambda>(ps, r'). Inr (Name (tok_value t # ps), r')))"
      using parse_path_ok [of r] r 5
      by (cases "parse_path r") (auto simp: parse_ok_def parse_progress_def ts)
    show ?thesis using 5 call path r
      by (auto simp: parse_primary_def ts parse_ok_def parse_progress_def)
  qed (use r in \<open>auto simp: parse_primary_def ts parse_ok_def parse_progress_def\<close>)
qed

text \<open>Every nesting level is a subparser, by induction on the depth that is left.\<close>

lemma levels: "subparser (parse_or d) \<and> subparser (parse_not d) \<and> subparser (parse_unary d)"
proof (induction d)
  case 0
  have or0: "subparser (parse_or 0)"
    by (rule subparserI) (simp add: parse_or.simps parse_ok_def parse_progress_def)
  have un: "subparser (parse_unary 0)"
  proof (rule subparserI)
    fix ts assume w: "wf_tokens ts"
    note p = subparser_primary [OF or0]
    show "parse_ok wf_node ts (parse_unary 0 ts) \<and> parse_progress ts (parse_unary 0 ts)"
      using subparser.ok [OF p w] subparser.progress [OF p w]
      by (subst (1 2) parse_unary.simps) (auto simp: parse_ok_def parse_progress_def)
  qed
  have "subparser (parse_not 0)"
  proof (rule subparserI)
    fix ts assume w: "wf_tokens ts"
    note p = subparser_comparison [OF un]
    show "parse_ok wf_node ts (parse_not 0 ts) \<and> parse_progress ts (parse_not 0 ts)"
      using subparser.ok [OF p w] subparser.progress [OF p w]
      by (subst (1 2) parse_not.simps) (auto simp: parse_ok_def parse_progress_def)
  qed
  with or0 un show ?case by simp
next
  case (Suc d)
  have "subparser (parse_and (parse_not d))"
    unfolding parse_and_def using subparser.level [of "parse_not d" "[''&&'']"] Suc
    by (simp add: BINARY_OPS_def)
  then have "subparser (binary_level [''||''] (parse_and (parse_not d)))"
    by (rule subparser.level) (simp add: BINARY_OPS_def)
  moreover have "parse_or (Suc d) = binary_level [''||''] (parse_and (parse_not d))"
    by (rule ext) (simp add: parse_or.simps)
  ultimately have orS: "subparser (parse_or (Suc d))" by simp
  have un: "subparser (parse_unary (Suc d))"
  proof (rule subparserI)
    fix ts assume w: "wf_tokens ts"
    note p = subparser_primary [OF orS]
    show "parse_ok wf_node ts (parse_unary (Suc d) ts) \<and> parse_progress ts (parse_unary (Suc d) ts)"
    proof (cases "is_op ''-'' ts")
      case True
      then have "wf_tokens (drop 1 ts)" "length (drop 1 ts) < length ts"
        using w is_op_length by auto
      from subparser.operand [of "parse_unary d", OF _ this, of "Unary ''-''"] Suc True
      show ?thesis by (simp add: parse_unary.simps [of "Suc d"])
    next
      case False
      then show ?thesis using subparser.ok [OF p w] subparser.progress [OF p w]
        by (simp add: parse_unary.simps [of "Suc d"])
    qed
  qed
  have "subparser (parse_not (Suc d))"
  proof (rule subparserI)
    fix ts assume w: "wf_tokens ts"
    note p = subparser_comparison [OF un]
    show "parse_ok wf_node ts (parse_not (Suc d) ts) \<and> parse_progress ts (parse_not (Suc d) ts)"
    proof (cases "is_op ''!'' ts")
      case True
      then have "wf_tokens (drop 1 ts)" "length (drop 1 ts) < length ts"
        using w is_op_length by auto
      from subparser.operand [of "parse_not d", OF _ this, of "Unary ''!''"] Suc True
      show ?thesis by (simp add: parse_not.simps [of "Suc d"])
    next
      case False
      then show ?thesis using subparser.ok [OF p w] subparser.progress [OF p w]
        by (simp add: parse_not.simps [of "Suc d"])
    qed
  qed
  with orS un show ?case by simp
qed

interpretation expr_or: subparser "parse_or d" for d using levels by blast
interpretation expr_not: subparser "parse_not d" for d using levels by blast
interpretation expr_unary: subparser "parse_unary d" for d using levels by blast

subsection \<open>The tokenizer\<close>

lemma wf_tokens_add: "wf_tokens ts \<Longrightarrow> tok_type t \<noteq> TEnd \<Longrightarrow> wf_tokens (t # ts)"
  by (auto simp: wf_tokens_def)

lemma tok_go_wf: "tok_go pos s = Inr ts \<Longrightarrow> wf_tokens ts"
proof (induction pos s arbitrary: ts rule: tok_go.induct)
  case (2 pos c cs)
  then show ?case
    by (auto simp: Let_def intro!: wf_tokens_add split: if_splits option.splits)
qed (simp add: wf_tokens_def)

lemma tok_go_no_internal: "tok_go pos s \<noteq> Inl Internal"
proof (induction pos s rule: tok_go.induct)
  case (2 pos c cs)
  then show ?case
    by (auto simp: Let_def outcome_bind_Inl_iff split: if_splits option.splits)
qed simp

lemma parse_cases:
  assumes "parse s = Inr n"
  obtains ts r where "tokenize s = Inr ts" "wf_tokens ts" "parse_or MAX_DEPTH ts = Inr (n, r)"
    "wf_node n" "length r = 1" "tok_type (hd r) = TEnd"
proof -
  from assms obtain ts n' r' where q: "tokenize s = Inr ts" "parse_or MAX_DEPTH ts = Inr (n', r')"
    and "(case r' of [] \<Rightarrow> Inl Internal
       | t # _ \<Rightarrow> if tok_type t = TEnd then Inr n'
                  else Inl (ExprError (''unexpected '' @ quoted (tok_value t)) (tok_pos t))) = Inr n"
    unfolding parse_def by auto
  then obtain t r where p: "tokenize s = Inr ts" "parse_or MAX_DEPTH ts = Inr (n, t # r)"
    "tok_type t = TEnd"
    by (cases r') (auto split: if_splits)
  then have w: "wf_tokens ts" by (auto simp: tokenize_def intro: tok_go_wf)
  have "wf_node n" "wf_tokens (t # r)" using expr_or.result [OF w p(2)] by auto
  with p(3) have "r = []" by (cases r) (auto simp: wf_tokens_def)
  with that [OF p(1) w p(2)] p \<open>wf_node n\<close> show ?thesis by simp
qed

lemma parse_no_internal: "parse s \<noteq> Inl Internal"
proof (cases "tokenize s")
  case (Inl e)
  then show ?thesis using tok_go_no_internal [of 0 s] by (auto simp: parse_def tokenize_def)
next
  case (Inr ts)
  then have w: "wf_tokens ts" by (auto simp: tokenize_def intro: tok_go_wf)
  show ?thesis
  proof (cases "parse_or MAX_DEPTH ts")
    case (Inl e)
    then show ?thesis using Inr expr_or.no_internal [OF w] by (auto simp: parse_def)
  next
    case (Inr nr)
    obtain n r where nr: "nr = (n, r)" by force
    then have "wf_tokens r" using expr_or.result [OF w] Inr by simp
    then obtain t r' where "r = t # r'" by (cases r) auto
    then show ?thesis using Inr \<open>tokenize s = Inr ts\<close> by (simp add: parse_def nr)
  qed
qed

end
