(* ===== verification/ExprEval.thy ===== *)
theory ExprEval
  imports ExprParser
begin

text \<open>
  The evaluator of the rule language, \<open>packages/rules/src/expression.ts\<close>: the value rules, the
  functions of the table \<open>FUNCTIONS\<close>, \<open>run\<close>, the static checks, and \<open>compileExpression\<close> with its
  cache. The context is an object value. The clock is read only by an unpinned \<open>today()\<close>: it is the
  parameter \<open>now\<close>, the current UTC date as text.
\<close>

subsection \<open>Value rules\<close>

definition to_number :: "jsval \<Rightarrow> jnum option" where
  "to_number v =
     (case v of
        JNum n \<Rightarrow> if is_finite n then Some n else None
      | JStr s \<Rightarrow> if trim s \<noteq> [] \<and> is_finite (js_number s) then Some (js_number s) else None
      | _ \<Rightarrow> None)"

definition to_boolean :: "jsval \<Rightarrow> bool option" where
  "to_boolean v =
     (case v of
        JBool b \<Rightarrow> Some b
      | JStr s \<Rightarrow> if s = ''true'' then Some True else if s = ''false'' then Some False else None
      | _ \<Rightarrow> None)"

fun is_blank :: "jsval \<Rightarrow> bool" where
  "is_blank JUndef = True"
| "is_blank JNull = True"
| "is_blank (JStr s) = (trim s = [])"
| "is_blank (JArr vs) = (vs = [])"
| "is_blank _ = False"

definition is_truthy :: "jsval \<Rightarrow> bool" where
  "is_truthy v =
     (if is_blank v then False
      else case to_boolean v of
             Some b \<Rightarrow> b
           | None \<Rightarrow> (case v of JNum n \<Rightarrow> n \<noteq> Fin 0 | _ \<Rightarrow> True))"

definition eq_some :: "('a \<Rightarrow> 'a \<Rightarrow> bool) \<Rightarrow> 'a option \<Rightarrow> 'a option \<Rightarrow> bool" where
  "eq_some eq a b = (case (a, b) of (Some x, Some y) \<Rightarrow> eq x y | _ \<Rightarrow> False)"

definition loose_equals :: "jsval \<Rightarrow> jsval \<Rightarrow> bool" where
  "loose_equals l r =
     (if is_blank l \<and> is_blank r then \<not> is_arr l \<and> \<not> is_arr r
      else if is_bool l \<or> is_bool r then eq_some (=) (to_boolean l) (to_boolean r)
      else if is_num l \<or> is_num r then eq_some jeq (to_number l) (to_number r)
      else strict_eq l r)"

definition compare :: "jsval \<Rightarrow> jsval \<Rightarrow> int option" where
  "compare l r =
     (case (to_number l, to_number r) of
        (Some a, Some b) \<Rightarrow> Some (if jeq a b then 0 else if jlt a b then - 1 else 1)
      | _ \<Rightarrow>
          (case (l, r) of
             (JStr a, JStr b) \<Rightarrow> Some (if a = b then 0 else if a < b then - 1 else 1)
           | _ \<Rightarrow> None))"

definition TODAY_CONTEXT_KEY :: string where "TODAY_CONTEXT_KEY = ''$today''"
definition TABLES_CONTEXT_KEY :: string where "TABLES_CONTEXT_KEY = ''$tables''"

definition day_number :: "jsval \<Rightarrow> int option" where
  "day_number v = (case v of JStr s \<Rightarrow> if date_shape s then parse_day (take 10 s) else None | _ \<Rightarrow> None)"

fun numbers :: "jsval list \<Rightarrow> jnum list option" where
  "numbers [] = Some []"
| "numbers (v # vs) =
     (case (to_number v, numbers vs) of (Some n, Some ns) \<Rightarrow> Some (n # ns) | _ \<Rightarrow> None)"

definition num_or_null :: "jnum option \<Rightarrow> jsval" where
  "num_or_null n = (case n of None \<Rightarrow> JNull | Some x \<Rightarrow> JNum x)"

definition undef_to_null :: "jsval \<Rightarrow> jsval" where
  "undef_to_null v = (if v = JUndef then JNull else v)"

subsection \<open>Functions of the language\<close>

text \<open>The table's own shape is trusted: \<open>rows\<close> must be a list, \<open>key\<close> is read as a property name.\<close>

definition lookup_value :: "jsval \<Rightarrow> jsval \<Rightarrow> jsval \<Rightarrow> jsval \<Rightarrow> jsval" where
  "lookup_value ctx table_name key column =
     (let tables = get ctx TABLES_CONTEXT_KEY
      in case (table_name, column) of
           (JStr tn, JStr col) \<Rightarrow>
             if \<not> is_objlike tables then JNull
             else (case own tables tn of
                     None \<Rightarrow> JNull
                   | Some table \<Rightarrow>
                       if \<not> js_truthy table \<or> \<not> is_arr (get table ''rows'') \<or> is_blank key then JNull
                       else (case find_first (\<lambda>row. loose_equals (get row (to_str (get table ''key''))) key)
                                    (items (get table ''rows'')) of
                               None \<Rightarrow> JNull
                             | Some row \<Rightarrow> (case own row col of None \<Rightarrow> JNull | Some v \<Rightarrow> undef_to_null v)))
         | _ \<Rightarrow> JNull)"

definition f_count :: "jsval \<Rightarrow> jsval" where
  "f_count v = (case v of JArr vs \<Rightarrow> jnat (length vs) | _ \<Rightarrow> jnat 0)"

text \<open>\<open>item && typeof item === 'object' && hasOwnProperty(item, field)\<close> guards the read.\<close>

definition item_number :: "string \<Rightarrow> jsval \<Rightarrow> jnum option" where
  "item_number field item =
     (if is_objlike item then (case own item field of None \<Rightarrow> None | Some v \<Rightarrow> to_number v) else None)"

definition f_sum :: "jsval \<Rightarrow> jsval \<Rightarrow> jsval" where
  "f_sum xs field =
     (case (xs, field) of
        (JArr vs, JStr f) \<Rightarrow>
          JNum (foldl (\<lambda>total item. case item_number f item of None \<Rightarrow> total | Some n \<Rightarrow> jadd total n) (Fin 0) vs)
      | _ \<Rightarrow> jnat 0)"

definition f_len :: "jsval \<Rightarrow> jsval" where
  "f_len v = (case v of JStr s \<Rightarrow> jnat (length s) | JArr vs \<Rightarrow> jnat (length vs) | _ \<Rightarrow> jnat 0)"

definition f_round :: "jsval \<Rightarrow> jsval \<Rightarrow> jsval" where
  "f_round v places =
     (case (to_number v, if places = JUndef then Some (Fin 0) else to_number places) of
        (Some n, Some digits) \<Rightarrow>
          (let scale = (case jmax (Fin 0) (jmin (Fin 6) (jtrunc digits)) of Fin k \<Rightarrow> Fin (10 ^ nat \<lfloor>k\<rfloor>) | x \<Rightarrow> x)
           in JNum (jdiv (jround (jmul n scale)) scale))
      | _ \<Rightarrow> JNull)"

definition f_contains :: "jsval \<Rightarrow> jsval \<Rightarrow> jsval" where
  "f_contains container item =
     (case container of
        JArr vs \<Rightarrow> JBool (list_ex (\<lambda>e. loose_equals e item) vs)
      | JStr s \<Rightarrow> (case item of JStr t \<Rightarrow> JBool (has_substring s t) | _ \<Rightarrow> JBool False)
      | _ \<Rightarrow> JBool False)"

definition f_today :: "string \<Rightarrow> jsval \<Rightarrow> jsval" where
  "f_today now ctx =
     (case get ctx TODAY_CONTEXT_KEY of
        JStr s \<Rightarrow> if day_number (JStr s) \<noteq> None then JStr (take 10 s) else JStr now
      | _ \<Rightarrow> JStr now)"

definition f_days_between :: "jsval \<Rightarrow> jsval \<Rightarrow> jsval" where
  "f_days_between from to =
     (case (day_number from, day_number to) of (Some a, Some b) \<Rightarrow> JNum (jint (b - a)) | _ \<Rightarrow> JNull)"

definition arg :: "jsval list \<Rightarrow> nat \<Rightarrow> jsval" where
  "arg args i = (if i < length args then args ! i else JUndef)"

text \<open>\<open>Math.min(...list)\<close> and \<open>Math.max(...list)\<close>, infinite on no numbers.\<close>

definition f_extreme :: "(jnum \<Rightarrow> jnum \<Rightarrow> jnum) \<Rightarrow> jnum \<Rightarrow> jsval list \<Rightarrow> jsval" where
  "f_extreme pick start args = (case numbers args of None \<Rightarrow> JNull | Some ns \<Rightarrow> JNum (foldl pick start ns))"

definition call_function :: "string \<Rightarrow> jsval \<Rightarrow> string \<Rightarrow> jsval list \<Rightarrow> jsval" where
  "call_function now ctx f args =
     (let a = arg args 0; b = arg args 1
      in if f = ''count'' then f_count a
         else if f = ''sum'' then f_sum a b
         else if f = ''lookup'' then lookup_value ctx a b (arg args 2)
         else if f = ''isSet'' then JBool (\<not> is_blank a)
         else if f = ''isEmpty'' then JBool (is_blank a)
         else if f = ''len'' then f_len a
         else if f = ''min'' then f_extreme jmin PInf args
         else if f = ''max'' then f_extreme jmax NInf args
         else if f = ''abs'' then num_or_null (map_option jabs (to_number a))
         else if f = ''round'' then f_round a b
         else if f = ''lower'' then (case a of JStr s \<Rightarrow> JStr (lower s) | v \<Rightarrow> v)
         else if f = ''upper'' then (case a of JStr s \<Rightarrow> JStr (upper s) | v \<Rightarrow> v)
         else if f = ''contains'' then f_contains a b
         else if f = ''startsWith'' then
           (case (a, b) of (JStr s, JStr p) \<Rightarrow> JBool (starts_with s p) | _ \<Rightarrow> JBool False)
         else if f = ''number'' then num_or_null (to_number a)
         else if f = ''today'' then f_today now ctx
         else f_days_between a b)"

subsection \<open>Evaluation\<close>

text \<open>\<open>lookup\<close>: a dotted path through own properties only; a missing one is null.\<close>

fun lookup_path :: "jsval \<Rightarrow> string list \<Rightarrow> jsval" where
  "lookup_path v [] = undef_to_null v"
| "lookup_path v (p # ps) =
     (if is_objlike v then (case own v p of None \<Rightarrow> JNull | Some x \<Rightarrow> lookup_path x ps) else JNull)"

definition order_holds :: "string \<Rightarrow> int \<Rightarrow> bool" where
  "order_holds op order =
     (if op = ''<'' then order < 0 else if op = ''<='' then order \<le> 0
      else if op = ''>'' then order > 0 else order \<ge> 0)"

definition arithmetic :: "string \<Rightarrow> jsval \<Rightarrow> jsval \<Rightarrow> jsval" where
  "arithmetic op l r =
     (case (to_number l, to_number r) of
        (Some a, Some b) \<Rightarrow>
          if op = ''+'' then JNum (jadd a b)
          else if op = ''-'' then JNum (jsub a b)
          else if op = ''*'' then JNum (jmul a b)
          else if b = Fin 0 then JNull else JNum (jdiv a b)
      | _ \<Rightarrow> JNull)"

text \<open>A binary operator other than the two that do not always evaluate both sides.\<close>

definition strict_binary :: "string \<Rightarrow> jsval \<Rightarrow> jsval \<Rightarrow> jsval" where
  "strict_binary op l r =
     (if op = ''=='' then JBool (loose_equals l r)
      else if op = ''!='' then JBool (\<not> loose_equals l r)
      else if op = ''in'' then JBool (is_arr r \<and> list_ex (\<lambda>e. loose_equals l e) (items r))
      else if op \<in> {''<'', ''<='', ''>'', ''>=''} then
        (case compare l r of None \<Rightarrow> JBool False | Some order \<Rightarrow> JBool (order_holds op order))
      else arithmetic op l r)"

fun run :: "string \<Rightarrow> jsval \<Rightarrow> node \<Rightarrow> jsval" where
  "run now ctx (Lit v) = v"
| "run now ctx (Name path) = lookup_path ctx path"
| "run now ctx (ListN ns) = JArr (map (run now ctx) ns)"
| "run now ctx (Unary op a) =
     (if op = ''!'' then JBool (\<not> is_truthy (run now ctx a))
      else num_or_null (map_option jneg (to_number (run now ctx a))))"
| "run now ctx (Call f args p) = call_function now ctx f (map (run now ctx) args)"
| "run now ctx (Binary op l r) =
     (if op = ''&&'' then JBool (is_truthy (run now ctx l) \<and> is_truthy (run now ctx r))
      else if op = ''||'' then JBool (is_truthy (run now ctx l) \<or> is_truthy (run now ctx r))
      else strict_binary op (run now ctx l) (run now ctx r))"

subsection \<open>Static checks\<close>

text \<open>The dotted names in the order the traversal adds them to its set.\<close>

fun collect_variables :: "node \<Rightarrow> string list" where
  "collect_variables (Name path) = [join ''.'' path]"
| "collect_variables (ListN ns) = concat (map collect_variables ns)"
| "collect_variables (Unary op a) = collect_variables a"
| "collect_variables (Call f args p) = concat (map collect_variables args)"
| "collect_variables (Binary op l r) = collect_variables l @ collect_variables r"
| "collect_variables (Lit v) = []"

definition arity_message :: "string \<Rightarrow> nat \<Rightarrow> nat \<Rightarrow> string" where
  "arity_message f lo hi =
     f @ ''() takes '' @ (if lo = hi then nat_str lo else nat_str lo @ '' to '' @ nat_str hi)
       @ '' value'' @ (if hi = 1 then [] else ''s'')"

fun check_calls :: "node \<Rightarrow> (expr_error, unit) outcome" where
  "check_calls (Call f args p) =
     (case aget FUNCTIONS f of
        None \<Rightarrow> Inl Internal
      | Some (lo, hi) \<Rightarrow>
          if length args < lo \<or> hi < length args then Inl (ExprError (arity_message f lo hi) p)
          else outcome_bind (outcome_map check_calls args) (\<lambda>_. Inr ()))"
| "check_calls (ListN ns) = outcome_bind (outcome_map check_calls ns) (\<lambda>_. Inr ())"
| "check_calls (Unary op a) = check_calls a"
| "check_calls (Binary op l r) = outcome_bind (check_calls l) (\<lambda>_. check_calls r)"
| "check_calls n = Inr ()"

record compiled =
  source :: string
  variables :: "string list"
  root :: node \<comment> \<open>what the closure \<open>evaluate\<close> captures\<close>

definition compile_text :: "string \<Rightarrow> (expr_error, compiled) outcome" where
  "compile_text text =
     (if trim text = [] then Inl (ExprError ''expression is empty'' 0)
      else if MAX_LENGTH < length text
      then Inl (ExprError (''expression is longer than '' @ nat_str MAX_LENGTH @ '' characters'') MAX_LENGTH)
      else outcome_bind (parse text) (\<lambda>rt. outcome_bind (check_calls rt) (\<lambda>_.
        Inr \<lparr>source = text, variables = sort (dedupe (collect_variables rt)), root = rt\<rparr>)))"

text \<open>\<open>compileExpression\<close> threads the module's cache; a failing text is not cached.\<close>

type_synonym cache = "(string \<times> compiled) list"

definition compile_expression :: "cache \<Rightarrow> string \<Rightarrow> (expr_error, compiled) outcome \<times> cache" where
  "compile_expression cache text =
     (case aget cache text of
        Some c \<Rightarrow> (Inr c, cache)
      | None \<Rightarrow>
          (case compile_text text of
             Inl e \<Rightarrow> (Inl e, cache)
           | Inr c \<Rightarrow> (Inr c, aput (if 2000 < length cache then [] else cache) text c)))"

definition evaluate_expression :: "string \<Rightarrow> string \<Rightarrow> jsval \<Rightarrow> (expr_error, jsval) outcome" where
  "evaluate_expression now text ctx = outcome_bind (compile_text text) (\<lambda>c. Inr (run now ctx (root c)))"

text \<open>The source is text, null or undefined: \<open>None\<close> for the latter two.\<close>

definition evaluate_condition :: "string \<Rightarrow> string option \<Rightarrow> jsval \<Rightarrow> bool \<Rightarrow> bool" where
  "evaluate_condition now src ctx when_blank =
     (case src of
        None \<Rightarrow> when_blank
      | Some s \<Rightarrow>
          if trim s = [] then when_blank
          else (case evaluate_expression now s ctx of Inl _ \<Rightarrow> False | Inr v \<Rightarrow> is_truthy v))"

subsection \<open>Calls keep their arity\<close>

fun arity_ok :: "node \<Rightarrow> bool" where
  "arity_ok (Call f args p) =
     ((case aget FUNCTIONS f of None \<Rightarrow> False | Some (lo, hi) \<Rightarrow> lo \<le> length args \<and> length args \<le> hi)
      \<and> list_all arity_ok args)"
| "arity_ok (ListN ns) = list_all arity_ok ns"
| "arity_ok (Unary op a) = arity_ok a"
| "arity_ok (Binary op l r) = (arity_ok l \<and> arity_ok r)"
| "arity_ok _ = True"

lemma outcome_map_unit:
  "(\<exists>ys. outcome_map f xs = Inr ys) \<longleftrightarrow> (\<forall>x \<in> set xs. \<exists>y. f x = Inr y)"
  by (induction xs) auto

lemma outcome_map_Inl: "outcome_map f xs = Inl e \<Longrightarrow> \<exists>x \<in> set xs. f x = Inl e"
  by (induction xs) (auto simp: outcome_bind_Inl_iff)

lemma check_calls_iff: "check_calls n = Inr () \<longleftrightarrow> arity_ok n"
proof (induction n rule: check_calls.induct)
  case (1 f args p)
  then show ?case
    using outcome_map_unit [of check_calls args]
    by (auto simp: list_all_iff split: option.splits)
next
  case (2 ns)
  then show ?case using outcome_map_unit [of check_calls ns] by (auto simp: list_all_iff)
qed auto

lemma check_calls_no_internal: "wf_node n \<Longrightarrow> check_calls n \<noteq> Inl Internal"
proof (induction n rule: check_calls.induct)
  case (1 f args p)
  then show ?case
    by (auto simp: list_all_iff outcome_bind_Inl_iff split: option.splits dest!: outcome_map_Inl)
next
  case (2 ns)
  then show ?case by (auto simp: list_all_iff outcome_bind_Inl_iff dest!: outcome_map_Inl)
qed (auto simp: outcome_bind_Inl_iff)

lemma compile_textE:
  assumes "compile_text s = Inr c"
  obtains "trim s \<noteq> []" "length s \<le> MAX_LENGTH" "parse s = Inr (root c)" "arity_ok (root c)"
    "wf_node (root c)" "source c = s" "variables c = sort (dedupe (collect_variables (root c)))"
proof -
  from assms obtain rt where "trim s \<noteq> []" "length s \<le> MAX_LENGTH" "parse s = Inr rt"
    "check_calls rt = Inr ()" "c = \<lparr>source = s, variables = sort (dedupe (collect_variables rt)), root = rt\<rparr>"
    by (auto simp: compile_text_def split: if_splits)
  moreover from this have "wf_node rt" by (auto elim: parse_cases)
  ultimately show ?thesis using that check_calls_iff by simp
qed

lemma compile_no_internal: "compile_text s \<noteq> Inl Internal"
proof -
  have "check_calls rt \<noteq> Inl Internal" if "parse s = Inr rt" for rt
    using that by (metis parse_cases check_calls_no_internal)
  then show ?thesis using parse_no_internal [of s]
    by (auto simp: compile_text_def outcome_bind_Inl_iff split: if_splits)
qed

subsection \<open>The cache\<close>

text \<open>The cache holds only what compiling its keys gives, so it is invisible, and it stays small.\<close>

definition cache_ok :: "cache \<Rightarrow> bool" where
  "cache_ok cache =
     (list_all (\<lambda>(text, c). compile_text text = Inr c) cache \<and> distinct (map fst cache) \<and> length cache \<le> 2001)"

lemma aput_new_length: "aget kvs k = None \<Longrightarrow> length (aput kvs k v) = Suc (length kvs)"
  by (induction kvs) (auto split: if_splits)

lemma list_all_aput: "list_all P kvs \<Longrightarrow> P (k, v) \<Longrightarrow> list_all P (aput kvs k v)"
  by (induction kvs) auto

lemma cache_step:
  assumes "cache_ok cache"
  shows "fst (compile_expression cache text) = compile_text text"
    and "cache_ok (snd (compile_expression cache text))"
proof -
  have hit: "compile_text text = Inr c" if "aget cache text = Some c" for c
    using assms aget_Some_in [OF that] by (auto simp: cache_ok_def list_all_iff)
  then show "fst (compile_expression cache text) = compile_text text"
    by (auto simp: compile_expression_def split: option.splits sum.splits)
  show "cache_ok (snd (compile_expression cache text))"
    using assms by (auto simp: compile_expression_def cache_ok_def aput_new_length distinct_aput
        intro!: list_all_aput split: option.splits sum.splits if_splits)
qed

text \<open>A history of compilations, each on the cache the one before left.\<close>

fun compile_all :: "cache \<Rightarrow> string list \<Rightarrow> (expr_error, compiled) outcome list \<times> cache" where
  "compile_all cache [] = ([], cache)"
| "compile_all cache (t # ts) =
     (let (r, cache') = compile_expression cache t; (rs, cache'') = compile_all cache' ts in (r # rs, cache''))"

lemma compile_all_ok:
  "cache_ok cache \<Longrightarrow> fst (compile_all cache ts) = map compile_text ts \<and> cache_ok (snd (compile_all cache ts))"
proof (induction ts arbitrary: cache)
  case (Cons t ts)
  then show ?case using cache_step [OF Cons.prems, of t]
    by (simp add: Let_def case_prod_unfold)
qed simp

subsection \<open>What an evaluation reads\<close>

text \<open>Two contexts that agree on the collected names, the date and the tables give the same value.\<close>

definition same_reads :: "string list \<Rightarrow> jsval \<Rightarrow> jsval \<Rightarrow> bool" where
  "same_reads vars c c' =
     ((\<forall>path. join ''.'' path \<in> set vars \<longrightarrow> lookup_path c path = lookup_path c' path)
      \<and> get c TODAY_CONTEXT_KEY = get c' TODAY_CONTEXT_KEY
      \<and> get c TABLES_CONTEXT_KEY = get c' TABLES_CONTEXT_KEY)"

lemma call_function_cong:
  "get c TODAY_CONTEXT_KEY = get c' TODAY_CONTEXT_KEY \<Longrightarrow>
   get c TABLES_CONTEXT_KEY = get c' TABLES_CONTEXT_KEY \<Longrightarrow>
   call_function now c f args = call_function now c' f args"
  by (simp only: call_function_def f_today_def lookup_value_def)

lemma run_cong: "same_reads (collect_variables n) c c' \<Longrightarrow> run now c n = run now c' n"
proof (induction now c n rule: run.induct)
  case (3 now ctx ns)
  then show ?case by (auto simp: same_reads_def)
next
  case (5 now ctx f args p)
  then have "map (run now ctx) args = map (run now c') args" by (auto simp: same_reads_def)
  moreover have "call_function now ctx f xs = call_function now c' f xs" for xs
    using 5 by (auto simp: same_reads_def intro: call_function_cong)
  ultimately show ?case by (simp only: run.simps)
next
  case (4 now ctx op a)
  then have "run now ctx a = run now c' a" by (cases "op = ''!''") (auto simp: same_reads_def)
  then show ?case by simp
next
  case (6 now ctx op l r)
  then have "run now ctx l = run now c' l" "run now ctx r = run now c' r"
    by (cases "op = ''&&''"; cases "op = ''||''"; auto simp: same_reads_def)+
  then show ?case by simp
qed (auto simp: same_reads_def)

subsection \<open>Comparison and numbers\<close>

lemma to_number_finite: "to_number v = Some n \<Longrightarrow> is_finite n"
  by (auto simp: to_number_def split: jsval.splits if_splits)

lemma finite_cases:
  assumes "is_finite n" obtains x where "n = Fin x"
  using assms by (cases n) auto

lemma compare_antisym: "compare r l = map_option uminus (compare l r)"
proof (cases "to_number l = None \<or> to_number r = None")
  case True
  then show ?thesis
    by (auto simp: compare_def split: option.splits jsval.splits)
next
  case False
  then obtain a b where "to_number l = Some a" "to_number r = Some b" by auto
  moreover from this obtain x y where "a = Fin x" "b = Fin y"
    by (metis to_number_finite finite_cases)
  ultimately show ?thesis by (auto simp: compare_def jeq_def)
qed

lemma loose_equals_sym: "loose_equals l r = loose_equals r l"
  by (cases l; cases r) (auto simp: loose_equals_def eq_some_def jeq_def split: option.splits jnum.splits)

lemma equal_no_order: "\<not> is_blank l \<Longrightarrow> loose_equals l r \<Longrightarrow> compare l r = Some o' \<Longrightarrow> o' = 0"
  by (cases l; cases r)
    (auto simp: loose_equals_def compare_def eq_some_def to_number_def jeq_def split: option.splits if_splits)

text \<open>A value with no NaN in it.\<close>

fun nan_free :: "jsval \<Rightarrow> bool" where
  "nan_free (JNum n) = (n \<noteq> NaN)"
| "nan_free (JArr vs) = list_all nan_free vs"
| "nan_free (JObj kvs) = list_all (\<lambda>kv. nan_free (snd kv)) kvs"
| "nan_free _ = True"

lemma nan_free_own: "nan_free v \<Longrightarrow> own v k = Some x \<Longrightarrow> nan_free x"
  by (cases v)
    (auto simp: list_prop_def list_all_iff split: if_splits option.splits dest!: aget_Some_in)

lemma nan_free_get: "nan_free v \<Longrightarrow> nan_free (get v k)"
  by (auto simp: get_def split: option.splits dest: nan_free_own)

lemma nan_free_lookup: "nan_free v \<Longrightarrow> nan_free (lookup_path v path)"
  by (induction v path rule: lookup_path.induct)
    (auto simp: undef_to_null_def split: option.splits dest: nan_free_own)

lemma jdiv_not_NaN: "a \<noteq> NaN \<Longrightarrow> 0 < y \<Longrightarrow> jdiv a (Fin y) \<noteq> NaN"
  by (cases a) (auto simp: jinf_def)

lemma jround_not_NaN: "a \<noteq> NaN \<Longrightarrow> jround a \<noteq> NaN"
  by (cases a) auto

lemma jadd_not_NaN: "a \<noteq> NaN \<Longrightarrow> is_finite b \<Longrightarrow> jadd a b \<noteq> NaN"
  by (cases a; cases b) auto

lemma nan_free_arith: "nan_free (arithmetic op l r)"
  by (auto simp: arithmetic_def jsub_def split: option.splits
      dest!: to_number_finite elim!: finite_cases)

lemma nan_free_round: "nan_free (f_round v places)"
proof -
  { fix n d :: jnum
    assume "is_finite n" "is_finite d"
    then obtain x y where nd: "n = Fin x" "d = Fin y" by (metis finite_cases)
    have "\<exists>k. jmax (Fin 0) (jmin (Fin 6) (jtrunc (Fin y))) = Fin k"
      by (cases "jtrunc (Fin y)") (auto simp: jmax_def jmin_def)
    then obtain k where k: "jmax (Fin 0) (jmin (Fin 6) (jtrunc d)) = Fin k" by (auto simp: nd)
    have "jdiv (jround (jmul n (Fin (10 ^ nat \<lfloor>k\<rfloor>)))) (Fin (10 ^ nat \<lfloor>k\<rfloor>)) \<noteq> NaN"
      by (intro jdiv_not_NaN jround_not_NaN) (auto simp: nd)
    with k have "jdiv (jround (jmul n (case jmax (Fin 0) (jmin (Fin 6) (jtrunc d)) of
        Fin k \<Rightarrow> Fin (10 ^ nat \<lfloor>k\<rfloor>) | x \<Rightarrow> x))) (case jmax (Fin 0) (jmin (Fin 6) (jtrunc d)) of
        Fin k \<Rightarrow> Fin (10 ^ nat \<lfloor>k\<rfloor>) | x \<Rightarrow> x) \<noteq> NaN" by simp }
  note key = this
  show ?thesis
  proof (cases "to_number v = None \<or> (if places = JUndef then Some (Fin 0) else to_number places) = None")
    case False
    then obtain n d where nd: "to_number v = Some n"
      "(if places = JUndef then Some (Fin 0) else to_number places) = Some d" by (metis option.exhaust)
    then have "is_finite n" "is_finite d" by (auto dest: to_number_finite split: if_splits)
    from key [OF this] show ?thesis
      by (simp only: f_round_def nd Let_def prod.case option.case nan_free.simps not_False_eq_True)
  qed (auto simp: f_round_def split: option.splits)
qed

lemma foldl_not_NaN:
  "(\<And>a x. a \<noteq> NaN \<Longrightarrow> x \<in> set xs \<Longrightarrow> f a x \<noteq> NaN) \<Longrightarrow> a \<noteq> NaN \<Longrightarrow> foldl f a xs \<noteq> NaN"
  by (induction xs arbitrary: a) auto

lemma nan_free_sum: "nan_free (f_sum xs field)"
proof -
  have "foldl (\<lambda>total item. case item_number f item of None \<Rightarrow> total | Some n \<Rightarrow> jadd total n) (Fin 0) vs \<noteq> NaN"
    for f vs
    by (intro foldl_not_NaN)
      (auto simp: item_number_def jadd_not_NaN to_number_finite split: option.splits if_splits)
  then show ?thesis by (auto simp: f_sum_def split: jsval.splits)
qed

lemma numbers_finite: "numbers vs = Some ns \<Longrightarrow> n \<in> set ns \<Longrightarrow> is_finite n"
  by (induction vs arbitrary: ns) (auto split: option.splits dest: to_number_finite)

lemma nan_free_extreme:
  assumes "start \<noteq> NaN" "pick = jmin \<or> pick = jmax"
  shows "nan_free (f_extreme pick start args)"
proof -
  have "foldl pick start ns \<noteq> NaN" if "numbers args = Some ns" for ns
  proof (rule foldl_not_NaN [OF _ assms(1)])
    fix a x assume "a \<noteq> NaN" "x \<in> set ns"
    with numbers_finite [OF that, of x] have "a \<noteq> NaN" "x \<noteq> NaN" by auto
    with assms(2) show "pick a x \<noteq> NaN" by (auto simp: jmin_def jmax_def split: if_splits)
  qed
  then show ?thesis by (simp add: f_extreme_def split: option.splits)
qed

lemma nan_free_jnat: "nan_free (jnat n)" by simp

lemma nan_free_row: "nan_free table \<Longrightarrow> row \<in> set (items (get table k)) \<Longrightarrow> nan_free row"
  by (cases "get table k") (use nan_free_get [of table k] in \<open>auto simp: list_all_iff\<close>)

lemma nan_free_table:
  assumes "nan_free ctx" shows "nan_free (lookup_value ctx tn key col)"
proof -
  have "nan_free x" if "own (get ctx TABLES_CONTEXT_KEY) t = Some table"
    "find_first p (items (get table k)) = Some row" "own row c = Some x" for t table p k row c x
    using that assms by (metis nan_free_get nan_free_own nan_free_row find_first_Some)
  then show ?thesis
    by (auto simp: lookup_value_def Let_def undef_to_null_def split: option.splits jsval.splits)
qed

lemma nan_free_small:
  "nan_free (f_count v)" "nan_free (f_len v)" "nan_free (f_contains v w)" "nan_free (f_today now ctx)"
  "nan_free (f_days_between v w)" "nan_free (num_or_null (map_option jabs (to_number v)))"
  "nan_free (num_or_null (to_number v))"
  "nan_free v \<Longrightarrow> nan_free (case v of JStr s \<Rightarrow> JStr (h s) | u \<Rightarrow> u)"
  "nan_free (case (v, w) of (JStr s, JStr p) \<Rightarrow> JBool (starts_with s p) | _ \<Rightarrow> JBool False)"
  by (auto simp: f_count_def f_len_def f_contains_def f_today_def f_days_between_def jint_def
      num_or_null_def split: jsval.splits option.splits dest!: to_number_finite elim!: finite_cases)

lemma nan_free_call:
  assumes "nan_free ctx" "list_all nan_free args"
  shows "nan_free (call_function now ctx f args)"
proof -
  have arg: "nan_free (arg args i)" for i using assms(2) by (simp add: arg_def list_all_iff)
  show ?thesis
    unfolding call_function_def Let_def
    by (intro if_split [where P = nan_free, THEN iffD2] conjI impI nan_free_small nan_free_table
        nan_free_sum nan_free_round nan_free_extreme arg assms) simp_all
qed

fun lits_ok :: "node \<Rightarrow> bool" where
  "lits_ok (Lit v) = nan_free v"
| "lits_ok (ListN ns) = list_all lits_ok ns"
| "lits_ok (Unary op a) = lits_ok a"
| "lits_ok (Binary op l r) = (lits_ok l \<and> lits_ok r)"
| "lits_ok (Call f args p) = list_all lits_ok args"
| "lits_ok (Name path) = True"

lemma nan_free_run: "nan_free ctx \<Longrightarrow> lits_ok n \<Longrightarrow> nan_free (run now ctx n)"
proof (induction now ctx n rule: run.induct)
  case (5 now ctx f args p)
  then show ?case by (auto intro!: nan_free_call simp: list_all_iff)
next
  case (4 now ctx op a)
  then show ?case
    by (auto simp: num_or_null_def split: option.splits dest!: to_number_finite elim!: finite_cases)
next
  case (6 now ctx op l r)
  then show ?case by (auto simp: strict_binary_def nan_free_arith split: option.splits)
qed (auto simp: nan_free_lookup list_all_iff)

subsection \<open>Properties\<close>

text \<open>C1: compiling any text either reports an expression error to the author (never an internal
  failure of the tokenizer, the parser or the arity check) or gives a well-formed tree: known
  operators, known functions within their arity, a text no longer than the limit, and the sorted list
  of exactly the names the tree reads, without duplicates.\<close>

theorem compile_text_sound:
  "(case compile_text s of
      Inl e \<Rightarrow> e \<noteq> Internal
    | Inr c \<Rightarrow> wf_node (root c) \<and> arity_ok (root c) \<and> source c = s \<and> length s \<le> MAX_LENGTH
        \<and> sorted (variables c) \<and> distinct (variables c)
        \<and> set (variables c) = set (collect_variables (root c)))"
proof (cases "compile_text s")
  case (Inl e)
  then show ?thesis using compile_no_internal [of s] by auto
next
  case (Inr c)
  then show ?thesis by (auto elim!: compile_textE)
qed

text \<open>the module's cache of compiled expressions cannot be observed: over any history of calls
  every answer is the one compiling afresh gives, and the cache never holds more than 2001 texts.\<close>

theorem compile_cache_transparent:
  "fst (compile_all [] texts) = map compile_text texts \<and> length (snd (compile_all [] texts)) \<le> 2001"
proof -
  have "cache_ok []" by (simp add: cache_ok_def)
  from compile_all_ok [OF this, of texts] show ?thesis by (simp add: cache_ok_def)
qed

text \<open>an expression reads nothing but what its \<open>variables\<close> list says: two contexts that agree on
  those paths, on the pinned date and on the lookup tables give the same value.\<close>

theorem evaluation_reads_its_variables:
  assumes "compile_text s = Inr c" and "same_reads (variables c) ctx ctx'"
  shows "evaluate_expression now s ctx = evaluate_expression now s ctx'"
proof -
  have "same_reads (collect_variables (root c)) ctx ctx'"
    using assms by (auto simp: same_reads_def elim!: compile_textE)
  from run_cong [OF this] assms(1) show ?thesis by (simp add: evaluate_expression_def)
qed

theorem evaluation_reads_its_variables_witness:
  "evaluate_expression ''2026-01-01'' ''a > 20'' (JObj [(''a'', jnat 30)])
   = evaluate_expression ''2026-01-01'' ''a > 20'' (JObj [(''b'', JNull), (''a'', jnat 30)])"
proof -
  have parsed: "compile_text ''a > 20'' = Inr \<lparr>source = ''a > 20'', variables = [''a''],
      root = Binary ''>'' (Name [''a'']) (Lit (JNum (Fin 20)))\<rparr>" by code_simp
  have only: "path = [''a'']" if "join ''.'' path = ''a''" for path
    using that by (cases "(''.'', path)" rule: join.cases) (auto simp: append_eq_Cons_conv)
  have "same_reads [''a''] (JObj [(''a'', jnat 30)]) (JObj [(''b'', JNull), (''a'', jnat 30)])"
    by (auto simp: same_reads_def is_objlike_def TODAY_CONTEXT_KEY_def TABLES_CONTEXT_KEY_def dest!: only)
  with evaluation_reads_its_variables [OF parsed] show ?thesis by simp
qed

text \<open>the order operators agree with each other and with equality: \<open>a < b\<close> is \<open>b > a\<close>, \<open>a <= b\<close> is
  \<open>b >= a\<close>, equality is symmetric, no pair satisfies both \<open>a < b\<close> and \<open>a >= b\<close>, and an incomparable
  pair satisfies none of them.\<close>

theorem comparisons_consistent:
  "strict_binary ''<'' l r = strict_binary ''>'' r l
   \<and> strict_binary ''<='' l r = strict_binary ''>='' r l
   \<and> strict_binary ''=='' l r = strict_binary ''=='' r l
   \<and> \<not> (strict_binary ''<'' l r = JBool True \<and> strict_binary ''>='' l r = JBool True)
   \<and> (strict_binary ''<='' l r = JBool (compare l r \<noteq> None \<and> strict_binary ''>'' l r = JBool False))
   \<and> strict_binary ''!='' l r = JBool (strict_binary ''=='' l r = JBool False)"
  using compare_antisym [of r l] loose_equals_sym [of l r]
  by (auto simp: strict_binary_def order_holds_def split: option.splits)

text \<open>no expression ever produces NaN from a context without one: bad operands, division by zero
  and unparsable text give null instead.\<close>

theorem evaluation_never_nan:
  assumes "compile_text s = Inr c" and "lits_ok (root c)" and "nan_free ctx"
  shows "evaluate_expression now s ctx = Inr (run now ctx (root c)) \<and> nan_free (run now ctx (root c))"
  using assms nan_free_run by (simp add: evaluate_expression_def)

theorem evaluation_never_nan_witness:
  "nan_free (run ''2026-01-01'' (JObj [(''a'', jnat 0)]) (Binary ''/'' (Lit (JNum (Fin 1))) (Name [''a''])))
   \<and> run ''2026-01-01'' (JObj [(''a'', jnat 0)]) (Binary ''/'' (Lit (JNum (Fin 1))) (Name [''a''])) = JNull"
proof -
  let ?s = "''1 / a''" and ?n = "Binary ''/'' (Lit (JNum (Fin 1))) (Name [''a''])"
  have parsed: "compile_text ?s = Inr \<lparr>source = ?s, variables = [''a''], root = ?n\<rparr>" by code_simp
  have "run ''2026-01-01'' (JObj [(''a'', jnat 0)]) ?n = JNull" by code_simp
  with evaluation_never_nan [OF parsed, of "JObj [(''a'', jnat 0)]" "''2026-01-01''"]
  show ?thesis by simp
qed

end
