(* ===== verification/ScreenRules.thy ===== *)
theory ScreenRules
  imports ExprEval
begin

text \<open>
  The behaviour of a carrier screen for a quote, \<open>packages/rules/src/screen-rules.ts\<close>: the context its
  expressions read, which sections and fields show, which are required, and what is wrong with the
  values. Display texts (labels, help, layout) are left out of the records. The objects \<open>fields\<close> and
  \<open>errors\<close> of the state are association lists.
\<close>

datatype screen_type = STString | STInt | STNumber | STBool | STEnum | STDate | STList

datatype widget = WText | WTextarea | WNumber | WCurrency | WSelect | WRadio | WCheckbox | WDate | WTable

record item_field =
  col_key :: string
  col_type :: screen_type
  col_required :: bool
  col_options :: "jsval list option"

record screen_field =
  field_key :: string
  field_path :: string
  field_type :: screen_type
  field_widget :: widget
  field_required :: bool
  field_options :: "jsval list option"
  field_item :: "item_field list"
  min_items :: nat \<comment> \<open>0 when absent\<close>
  max_items :: "nat option"
  field_visible_when :: "string option"
  field_required_when :: "string option"

record screen_section =
  section_visible_when :: "string option"
  section_fields :: "screen_field list"

record screen_validation =
  val_rule :: string
  val_message :: string
  val_field :: string \<comment> \<open>empty when absent\<close>
  val_when :: "string option"
  val_each :: string

record product_screen =
  screen_sections :: "screen_section list"
  screen_validations :: "screen_validation list"

record field_state =
  is_visible :: bool
  is_required :: bool

record screen_state =
  st_sections :: "bool list"
  st_fields :: "(string \<times> field_state) list"
  st_errors :: "(string \<times> string) list"
  st_form_errors :: "string list"

subsection \<open>The context\<close>

definition screen_blank :: "jsval \<Rightarrow> bool" where
  "screen_blank v = (nullish v \<or> (case v of JStr s \<Rightarrow> trim s = [] | _ \<Rightarrow> False))"

definition get_quote_value :: "jsval \<Rightarrow> string \<Rightarrow> jsval" where
  "get_quote_value quote path = get_path quote (path_parts path)"

definition coverage_entry :: "jsval \<Rightarrow> jsval" where
  "coverage_entry item =
     JObj [(''selected'', JBool (get item ''selected'' \<noteq> JBool False)),
           (''limit'', js_nc (get item ''limit'') JNull),
           (''deductible'', js_nc (get item ''deductible'') JNull),
           (''percent'', js_nc (get item ''percent'') JNull)]"

definition context_coverages :: "jsval \<Rightarrow> fields" where
  "context_coverages quote =
     foldl (\<lambda>acc item.
         let code = trim (str_or_empty (get item ''code''))
         in if code = [] then acc else aput acc code (coverage_entry item))
       [] (items (get quote ''coverages''))"

definition object_or_empty :: "jsval \<Rightarrow> jsval" where
  "object_or_empty v = (if is_objlike v then v else JObj [])"

definition first_risk :: "jsval \<Rightarrow> jsval" where
  "first_risk quote =
     (case get quote ''risks'' of JArr (r # _) \<Rightarrow> object_or_empty r | _ \<Rightarrow> JObj [])"

definition build_screen_context :: "jsval \<Rightarrow> jsval \<Rightarrow> fields" where
  "build_screen_context quote tables =
     [(''risk'', first_risk quote),
      (''quote'', JObj
         [(''state'', js_nc (get quote ''state'') JNull),
          (''termMonths'', js_nc (get quote ''termMonths'') JNull),
          (''effectiveDate'', js_nc (get quote ''effectiveDate'') JNull),
          (''productCode'', js_nc (get quote ''productCode'') JNull)]),
      (''applicant'', object_or_empty (get quote ''applicant'')),
      (''coverages'', JObj (context_coverages quote)),
      (TABLES_CONTEXT_KEY, js_or tables (JObj []))]"

subsection \<open>Values\<close>

definition value_problem :: "screen_type \<Rightarrow> jsval list option \<Rightarrow> jsval \<Rightarrow> string option" where
  "value_problem ty opts v =
     (if (ty = STInt \<or> ty = STNumber) \<and> \<not> is_finite (to_num v) then Some ''Enter a number''
      else if ty = STInt \<and> \<not> is_integer (to_num v) then Some ''Enter a whole number''
      else if ty = STEnum \<and> (case opts of None \<Rightarrow> False | Some os \<Rightarrow> os \<noteq> [] \<and> \<not> list_ex (\<lambda>opt. to_str opt = to_str v) os)
      then Some ''Choose one of the listed options''
      else if ty = STBool \<and> \<not> (is_bool v \<or> v = JStr ''true'' \<or> v = JStr ''false'') then Some ''Choose yes or no''
      else if ty = STDate \<and> \<not> date_only (to_str v) then Some ''Enter a date''
      else None)"

type_synonym errors = "(string \<times> string) list"

definition cell_key :: "string \<Rightarrow> nat \<Rightarrow> string \<Rightarrow> string" where
  "cell_key list_key index column = list_key @ ''.'' @ nat_str index @ ''.'' @ column"

definition column_problems :: "string \<Rightarrow> nat \<Rightarrow> jsval \<Rightarrow> errors \<Rightarrow> item_field \<Rightarrow> errors" where
  "column_problems list_key index item errs column =
     (let cell = (if is_objlike item then get item (col_key column) else JUndef);
          key = cell_key list_key index (col_key column)
      in if screen_blank cell
         then (if col_required column \<and> col_type column \<noteq> STBool then aput errs key ''Required'' else errs)
         else case value_problem (col_type column) (col_options column) cell of
                None \<Rightarrow> errs | Some problem \<Rightarrow> aput errs key problem)"

definition list_minimum :: "screen_field \<Rightarrow> bool \<Rightarrow> nat" where
  "list_minimum field req = max (min_items field) (if req then 1 else 0)"

definition size_problem :: "screen_field \<Rightarrow> nat \<Rightarrow> bool \<Rightarrow> string option" where
  "size_problem field n req =
     (if n < list_minimum field req
      then Some (if list_minimum field req = 1 then ''Add at least one''
                 else ''Add at least '' @ nat_str (list_minimum field req))
      else case max_items field of
             None \<Rightarrow> None
           | Some m \<Rightarrow> if m < n then Some (''No more than '' @ nat_str m @ '' allowed'') else None)"

definition list_problems :: "screen_field \<Rightarrow> jsval \<Rightarrow> bool \<Rightarrow> errors \<Rightarrow> errors" where
  "list_problems field v req errs =
     (if \<not> nullish v \<and> \<not> is_arr v then aput errs (field_key field) ''Enter a list of items''
      else let errs' = (case size_problem field (length (items v)) req of
                          None \<Rightarrow> errs | Some problem \<Rightarrow> aput errs (field_key field) problem)
           in foldl (\<lambda>acc (index, item). foldl (column_problems (field_key field) index item) acc (field_item field))
                errs' (indexed 0 (items v)))"

subsection \<open>The screen\<close>

type_synonym lists = "(string \<times> screen_field) list"

definition field_problem :: "screen_field \<Rightarrow> bool \<Rightarrow> jsval \<Rightarrow> string option" where
  "field_problem field req v =
     (if screen_blank v then (if req \<and> field_widget field \<noteq> WCheckbox then Some ''Required'' else None)
      else value_problem (field_type field) (field_options field) v)"

definition field_shown :: "string \<Rightarrow> jsval \<Rightarrow> bool \<Rightarrow> screen_field \<Rightarrow> bool" where
  "field_shown now ctx section_visible field =
     (section_visible \<and> evaluate_condition now (field_visible_when field) ctx True)"

definition field_needed :: "string \<Rightarrow> jsval \<Rightarrow> bool \<Rightarrow> screen_field \<Rightarrow> bool" where
  "field_needed now ctx section_visible field =
     (field_shown now ctx section_visible field
      \<and> (field_required field \<or> evaluate_condition now (field_required_when field) ctx False))"

definition check_field ::
  "string \<Rightarrow> jsval \<Rightarrow> jsval \<Rightarrow> bool \<Rightarrow> screen_state \<times> lists \<Rightarrow> screen_field \<Rightarrow> screen_state \<times> lists" where
  "check_field now ctx quote section_visible s field =
     (case s of (st, ls) \<Rightarrow>
       let vis = field_shown now ctx section_visible field;
           req = field_needed now ctx section_visible field;
           st' = st\<lparr>st_fields := aput (st_fields st) (field_key field) \<lparr>is_visible = vis, is_required = req\<rparr>\<rparr>;
           v = get_quote_value quote (field_path field)
       in if \<not> vis then (st', ls)
          else if field_type field = STList
          then (st'\<lparr>st_errors := list_problems field v req (st_errors st')\<rparr>, aput ls (field_key field) field)
          else (case field_problem field req v of
                  None \<Rightarrow> (st', ls)
                | Some problem \<Rightarrow> (st'\<lparr>st_errors := aput (st_errors st') (field_key field) problem\<rparr>, ls)))"

definition check_section ::
  "string \<Rightarrow> jsval \<Rightarrow> jsval \<Rightarrow> screen_state \<times> lists \<Rightarrow> screen_section \<Rightarrow> screen_state \<times> lists" where
  "check_section now ctx quote s sec =
     (case s of (st, ls) \<Rightarrow>
       let vis = evaluate_condition now (section_visible_when sec) ctx True
       in foldl (check_field now ctx quote vis) (st\<lparr>st_sections := st_sections st @ [vis]\<rparr>, ls) (section_fields sec))"

definition put_if_absent :: "errors \<Rightarrow> string \<Rightarrow> string \<Rightarrow> errors" where
  "put_if_absent errs key msg =
     (case aget errs key of None \<Rightarrow> aput errs key msg | Some m \<Rightarrow> if m = [] then aput errs key msg else errs)"

definition item_context :: "fields \<Rightarrow> jsval \<Rightarrow> nat \<Rightarrow> jsval" where
  "item_context ctx item index =
     JObj (assign ctx [(''item'', object_or_empty item), (''index'', jnat index)])"

definition each_key :: "screen_validation \<Rightarrow> nat \<Rightarrow> string" where
  "each_key val index =
     (if val_field val \<noteq> [] then cell_key (val_each val) index (val_field val)
      else val_each val @ ''.'' @ nat_str index)"

definition rule_holds :: "string \<Rightarrow> jsval \<Rightarrow> screen_validation \<Rightarrow> bool" where
  "rule_holds now ctx val =
     (\<not> evaluate_condition now (val_when val) ctx True \<or> evaluate_condition now (Some (val_rule val)) ctx True)"

definition check_each :: "string \<Rightarrow> fields \<Rightarrow> screen_validation \<Rightarrow> errors \<Rightarrow> nat \<times> jsval \<Rightarrow> errors" where
  "check_each now ctx val errs entry =
     (case entry of (index, item) \<Rightarrow>
       if rule_holds now (item_context ctx item index) val then errs
       else put_if_absent errs (each_key val index) (val_message val))"

definition check_validation ::
  "string \<Rightarrow> fields \<Rightarrow> jsval \<Rightarrow> lists \<Rightarrow> screen_state \<Rightarrow> screen_validation \<Rightarrow> screen_state" where
  "check_validation now ctx quote ls st val =
     (if val_each val \<noteq> [] then
        (case aget ls (val_each val) of
           None \<Rightarrow> st
         | Some field \<Rightarrow>
             (case get_quote_value quote (field_path field) of
                JArr vs \<Rightarrow> st\<lparr>st_errors := foldl (check_each now ctx val) (st_errors st) (indexed 0 vs)\<rparr>
              | _ \<Rightarrow> st))
      else if rule_holds now (JObj ctx) val then st
      else if val_field val = [] then st\<lparr>st_form_errors := st_form_errors st @ [val_message val]\<rparr>
      else (case aget (st_fields st) (val_field val) of
              None \<Rightarrow> st
            | Some target \<Rightarrow>
                if is_visible target
                then st\<lparr>st_errors := put_if_absent (st_errors st) (val_field val) (val_message val)\<rparr>
                else st))"

definition screen_fields_pass :: "string \<Rightarrow> product_screen \<Rightarrow> jsval \<Rightarrow> jsval \<Rightarrow> screen_state \<times> lists" where
  "screen_fields_pass now screen quote tables =
     foldl (check_section now (JObj (build_screen_context quote tables)) quote)
       (\<lparr>st_sections = [], st_fields = [], st_errors = [], st_form_errors = []\<rparr>, []) (screen_sections screen)"

definition evaluate_screen :: "string \<Rightarrow> product_screen \<Rightarrow> jsval \<Rightarrow> jsval \<Rightarrow> screen_state" where
  "evaluate_screen now screen quote tables =
     (case screen_fields_pass now screen quote tables of (st, ls) \<Rightarrow>
       foldl (check_validation now (build_screen_context quote tables) quote ls) st (screen_validations screen))"

subsection \<open>An accepted screen\<close>

definition column_ok :: "jsval \<Rightarrow> item_field \<Rightarrow> bool" where
  "column_ok item column =
     (let cell = (if is_objlike item then get item (col_key column) else JUndef)
      in if screen_blank cell then \<not> (col_required column \<and> col_type column \<noteq> STBool)
         else value_problem (col_type column) (col_options column) cell = None)"

definition list_ok :: "screen_field \<Rightarrow> bool \<Rightarrow> jsval \<Rightarrow> bool" where
  "list_ok field req v =
     ((nullish v \<or> is_arr v) \<and> size_problem field (length (items v)) req = None
      \<and> (\<forall>item \<in> set (items v). \<forall>column \<in> set (field_item field). column_ok item column))"

definition field_ok :: "string \<Rightarrow> jsval \<Rightarrow> jsval \<Rightarrow> bool \<Rightarrow> screen_field \<Rightarrow> bool" where
  "field_ok now ctx quote section_visible field =
     (field_shown now ctx section_visible field \<longrightarrow>
       (let v = get_quote_value quote (field_path field); req = field_needed now ctx section_visible field
        in if field_type field = STList then list_ok field req v else field_problem field req v = None))"

definition section_ok :: "string \<Rightarrow> jsval \<Rightarrow> jsval \<Rightarrow> screen_section \<Rightarrow> bool" where
  "section_ok now ctx quote sec =
     (\<forall>field \<in> set (section_fields sec).
        field_ok now ctx quote (evaluate_condition now (section_visible_when sec) ctx True) field)"

text \<open>What a validation asks: of every item of its visible list, or of the quote unless its field is hidden.\<close>

definition validation_ok ::
  "string \<Rightarrow> fields \<Rightarrow> jsval \<Rightarrow> screen_state \<times> lists \<Rightarrow> screen_validation \<Rightarrow> bool" where
  "validation_ok now ctx quote s val =
     (if val_each val \<noteq> [] then
        (case aget (snd s) (val_each val) of
           None \<Rightarrow> True
         | Some field \<Rightarrow>
             (\<forall>(index, item) \<in> set (indexed 0 (items (get_quote_value quote (field_path field)))).
                rule_holds now (item_context ctx item index) val))
      else rule_holds now (JObj ctx) val
        \<or> (val_field val \<noteq> []
           \<and> (case aget (st_fields (fst s)) (val_field val) of None \<Rightarrow> True | Some t \<Rightarrow> \<not> is_visible t)))"

lemma column_problems_Nil [simp]:
  "column_problems k i item errs column = [] \<longleftrightarrow> errs = [] \<and> column_ok item column"
  by (auto simp: column_problems_def column_ok_def Let_def split: option.splits)

lemma columns_Nil [simp]:
  "foldl (column_problems k i item) errs columns = []
   \<longleftrightarrow> errs = [] \<and> (\<forall>column \<in> set columns. column_ok item column)"
  by (rule foldl_Nil_iff) simp

lemma rows_Nil:
  "foldl (\<lambda>acc (index, item). foldl (column_problems k index item) acc columns) errs rows = []
   \<longleftrightarrow> errs = [] \<and> (\<forall>row \<in> set rows. \<forall>column \<in> set columns. column_ok (snd row) column)"
  by (rule foldl_Nil_iff) (simp add: case_prod_unfold)

lemma indexed_all: "(\<forall>row \<in> set (indexed n xs). P (snd row)) \<longleftrightarrow> (\<forall>x \<in> set xs. P x)"
  by (induction xs arbitrary: n) auto

lemma list_problems_Nil:
  "list_problems field v req errs = [] \<longleftrightarrow> errs = [] \<and> list_ok field req v"
  by (auto simp: list_problems_def list_ok_def rows_Nil Let_def indexed_all
      [where P = "\<lambda>x. \<forall>column \<in> set (field_item field). column_ok x column"] split: option.splits)

text \<open>No problem so far, in the fields or in the step.\<close>

definition clean :: "screen_state \<Rightarrow> bool" where
  "clean st = (st_errors st = [] \<and> st_form_errors st = [])"

lemma check_field_clean:
  "clean (fst (check_field now ctx quote vis s field))
   \<longleftrightarrow> clean (fst s) \<and> field_ok now ctx quote vis field"
  by (cases s)
    (auto simp: check_field_def clean_def field_ok_def Let_def list_problems_Nil split: option.splits)

lemma fields_clean:
  "clean (fst (foldl (check_field now ctx quote vis) s fs))
   \<longleftrightarrow> clean (fst s) \<and> (\<forall>f \<in> set fs. field_ok now ctx quote vis f)"
  by (induction fs arbitrary: s) (auto simp: check_field_clean)

lemma check_section_clean:
  "clean (fst (check_section now ctx quote s sec)) \<longleftrightarrow> clean (fst s) \<and> section_ok now ctx quote sec"
  by (cases s) (simp add: check_section_def Let_def fields_clean section_ok_def, simp add: clean_def)

lemma sections_clean:
  "clean (fst (foldl (check_section now ctx quote) s secs))
   \<longleftrightarrow> clean (fst s) \<and> (\<forall>sec \<in> set secs. section_ok now ctx quote sec)"
  by (induction secs arbitrary: s) (auto simp: check_section_clean)

lemma put_if_absent_not_Nil [simp]: "put_if_absent errs key msg \<noteq> []"
  by (auto simp: put_if_absent_def split: option.splits)

lemma check_each_Nil:
  "foldl (check_each now ctx val) errs rows = []
   \<longleftrightarrow> errs = [] \<and> (\<forall>(index, item) \<in> set rows. rule_holds now (item_context ctx item index) val)"
  by (rule foldl_Nil_iff) (auto simp: check_each_def split: prod.splits if_splits)

lemma check_validation_fields [simp]: "st_fields (check_validation now ctx quote ls st val) = st_fields st"
  by (auto simp: check_validation_def split: option.splits jsval.splits)

lemma check_validation_clean:
  "clean (check_validation now ctx quote ls st val)
   \<longleftrightarrow> clean st \<and> validation_ok now ctx quote (st, ls) val"
  by (auto simp: check_validation_def clean_def validation_ok_def check_each_Nil
      split: option.splits jsval.splits)

lemma validation_ok_fields:
  "st_fields st = st_fields st' \<Longrightarrow> validation_ok now ctx quote (st, ls) val = validation_ok now ctx quote (st', ls) val"
  by (simp add: validation_ok_def)

lemma validations_clean:
  "clean (foldl (check_validation now ctx quote ls) st vals)
   \<longleftrightarrow> clean st \<and> (\<forall>val \<in> set vals. validation_ok now ctx quote (st, ls) val)"
proof (induction vals arbitrary: st)
  case (Cons val vals)
  have "validation_ok now ctx quote (check_validation now ctx quote ls st val, ls) v
    = validation_ok now ctx quote (st, ls) v" for v
    by (rule validation_ok_fields) simp
  then show ?case by (auto simp: Cons.IH check_validation_clean)
qed simp

subsection \<open>Hidden fields\<close>

text \<open>A problem is keyed by a visible field or inside a list.\<close>

definition silent :: "screen_state \<Rightarrow> bool" where
  "silent st =
     (\<forall>k. aget (st_errors st) k \<noteq> None \<longrightarrow>
        CHR ''.'' \<in> set k \<or> (\<exists>fs. aget (st_fields st) k = Some fs \<and> is_visible fs))"

lemma column_problems_keys:
  "aget (column_problems lk i item errs column) k \<noteq> None \<Longrightarrow> aget errs k \<noteq> None \<or> CHR ''.'' \<in> set k"
  by (auto simp: column_problems_def Let_def cell_key_def split: option.splits if_splits)

lemma columns_keys:
  "aget (foldl (column_problems lk i item) errs columns) k \<noteq> None \<Longrightarrow> aget errs k \<noteq> None \<or> CHR ''.'' \<in> set k"
  by (induction columns arbitrary: errs) (use column_problems_keys in \<open>fastforce+\<close>)

lemma rows_keys:
  "aget (foldl (\<lambda>acc (index, item). foldl (column_problems lk index item) acc columns) errs rows) k \<noteq> None
   \<Longrightarrow> aget errs k \<noteq> None \<or> CHR ''.'' \<in> set k"
proof (induction rows arbitrary: errs)
  case (Cons row rows)
  then show ?case using columns_keys [of lk "fst row" "snd row" errs columns k]
    by (fastforce simp: case_prod_unfold)
qed simp

lemma list_problems_keys:
  "aget (list_problems field v req errs) k \<noteq> None
   \<Longrightarrow> aget errs k \<noteq> None \<or> k = field_key field \<or> CHR ''.'' \<in> set k"
  unfolding list_problems_def Let_def
  by (auto split: if_splits option.splits dest!: rows_keys [unfolded not_None_eq, OF exI])

definition known :: "screen_state \<Rightarrow> string set" where
  "known st = fst ` set (st_fields st)"

lemma check_field_fields:
  "st_fields (fst (check_field now ctx quote vis s field)) =
     aput (st_fields (fst s)) (field_key field)
       \<lparr>is_visible = field_shown now ctx vis field, is_required = field_needed now ctx vis field\<rparr>"
  by (cases s) (auto simp: check_field_def Let_def split: option.splits)

lemma known_check_field: "known (fst (check_field now ctx quote vis s field)) = insert (field_key field) (known (fst s))"
  using keys_aput by (simp add: known_def check_field_fields)

lemma check_field_errors:
  assumes "aget (st_errors (fst (check_field now ctx quote vis s field))) k \<noteq> None"
  shows "aget (st_errors (fst s)) k \<noteq> None \<or> CHR ''.'' \<in> set k
    \<or> (k = field_key field \<and> field_shown now ctx vis field)"
proof (cases "field_shown now ctx vis field \<and> field_type field = STList")
  case True
  with assms show ?thesis using list_problems_keys [of field _ _ "st_errors (fst s)" k]
    by (cases s) (simp add: check_field_def Let_def, blast)
next
  case False
  with assms show ?thesis
    by (cases s) (auto simp: check_field_def Let_def split: option.splits if_splits)
qed

lemma check_field_silent:
  assumes "field_key field \<notin> known (fst s)" "silent (fst s)"
  shows "silent (fst (check_field now ctx quote vis s field))"
  unfolding silent_def
proof (intro allI impI)
  fix k
  assume "aget (st_errors (fst (check_field now ctx quote vis s field))) k \<noteq> None"
  from check_field_errors [OF this]
  consider "CHR ''.'' \<in> set k" | "k = field_key field" "field_shown now ctx vis field"
    | fs where "aget (st_fields (fst s)) k = Some fs" "is_visible fs"
    using assms(2) unfolding silent_def by blast
  then show "CHR ''.'' \<in> set k
    \<or> (\<exists>fs. aget (st_fields (fst (check_field now ctx quote vis s field))) k = Some fs \<and> is_visible fs)"
  proof cases
    case 3
    then have "k \<noteq> field_key field" using assms(1) aget_Some_in [of "st_fields (fst s)" k fs]
      by (force simp: known_def)
    with 3 show ?thesis by (simp add: check_field_fields)
  qed (simp_all add: check_field_fields)
qed

lemma fields_silent:
  assumes "field_key ` set fs \<inter> known (fst s) = {}" and "distinct (map field_key fs)" and "silent (fst s)"
  shows "silent (fst (foldl (check_field now ctx quote vis) s fs))
    \<and> known (fst (foldl (check_field now ctx quote vis) s fs)) = known (fst s) \<union> field_key ` set fs"
  using assms
proof (induction fs arbitrary: s)
  case (Cons f fs)
  let ?s = "check_field now ctx quote vis s f"
  have "field_key ` set fs \<inter> known (fst ?s) = {}" using Cons.prems(1,2) by (simp add: known_check_field)
  moreover have "silent (fst ?s)" using Cons.prems by (intro check_field_silent) auto
  ultimately show ?case using Cons.IH [of ?s] Cons.prems(2) by (simp add: known_check_field)
qed simp

lemma sections_silent:
  assumes "field_key ` set (concat (map section_fields secs)) \<inter> known (fst s) = {}"
    and "distinct (map field_key (concat (map section_fields secs)))" and "silent (fst s)"
  shows "silent (fst (foldl (check_section now ctx quote) s secs))"
  using assms
proof (induction secs arbitrary: s)
  case (Cons sec secs)
  obtain st ls where s: "s = (st, ls)" by force
  let ?vis = "evaluate_condition now (section_visible_when sec) ctx True"
  let ?s = "(st\<lparr>st_sections := st_sections st @ [?vis]\<rparr>, ls)"
  have start: "silent (fst ?s)" "known (fst ?s) = known st"
    using Cons.prems(3) by (simp_all add: s silent_def known_def)
  have fresh: "field_key ` set (section_fields sec) \<inter> known (fst ?s) = {}"
    using Cons.prems(1) unfolding start(2) by (auto simp: s Int_Un_distrib2 image_Un)
  have distinct: "distinct (map field_key (section_fields sec))" using Cons.prems(2) by simp
  note step = fields_silent [OF fresh distinct start(1), of now ctx quote ?vis]
  have "silent (fst (check_section now ctx quote s sec))"
    using conjunct1 [OF step] by (simp add: s check_section_def Let_def)
  moreover have "known (fst (check_section now ctx quote s sec)) = known st \<union> field_key ` set (section_fields sec)"
    using conjunct2 [OF step] unfolding start(2) by (simp add: s check_section_def Let_def)
  moreover have "field_key ` set (concat (map section_fields secs)) \<inter> known st = {}"
    using Cons.prems(1) by (auto simp: s image_Un Int_Un_distrib2)
  moreover have "field_key ` set (concat (map section_fields secs)) \<inter> field_key ` set (section_fields sec) = {}"
    using Cons.prems(2) by (simp add: Int_commute)
  ultimately have "silent (fst (check_section now ctx quote s sec))"
    "field_key ` set (concat (map section_fields secs)) \<inter> known (fst (check_section now ctx quote s sec)) = {}"
    by (simp_all add: Int_Un_distrib)
  then show ?case using Cons.IH Cons.prems(2) by simp
qed simp

lemma put_if_absent_keys: "aget (put_if_absent errs key msg) k \<noteq> None \<longleftrightarrow> aget errs k \<noteq> None \<or> k = key"
  by (auto simp: put_if_absent_def split: option.splits)

lemma each_keys:
  "aget (foldl (check_each now ctx val) errs rows) k \<noteq> None \<Longrightarrow> aget errs k \<noteq> None \<or> CHR ''.'' \<in> set k"
proof (induction rows arbitrary: errs)
  case (Cons row rows)
  have "CHR ''.'' \<in> set (each_key val n)" for n by (simp add: each_key_def cell_key_def)
  then have "aget (check_each now ctx val errs row) k \<noteq> None \<Longrightarrow> aget errs k \<noteq> None \<or> CHR ''.'' \<in> set k"
    using put_if_absent_keys by (auto simp: check_each_def split: prod.splits if_splits)
  with Cons show ?case by fastforce
qed simp

lemma check_validation_keys:
  assumes "aget (st_errors (check_validation now ctx quote ls st val)) k \<noteq> None"
  shows "aget (st_errors st) k \<noteq> None \<or> CHR ''.'' \<in> set k
    \<or> (\<exists>t. aget (st_fields st) k = Some t \<and> is_visible t)"
proof (cases "val_each val = []")
  case True
  then show ?thesis
    using assms put_if_absent_keys [of "st_errors st" "val_field val" "val_message val" k]
    by (auto simp: check_validation_def split: option.splits if_splits)
next
  case False
  then show ?thesis
    using assms each_keys [of now ctx val "st_errors st" _ k]
    by (fastforce simp: check_validation_def split: option.splits jsval.splits)
qed

lemma check_validation_silent: "silent st \<Longrightarrow> silent (check_validation now ctx quote ls st val)"
  using check_validation_keys unfolding silent_def check_validation_fields by metis

lemma validations_silent: "silent st \<Longrightarrow> silent (foldl (check_validation now ctx quote ls) st vals)"
  by (induction vals arbitrary: st) (auto intro: check_validation_silent)

lemma evaluate_screen_silent:
  assumes "distinct (map field_key (concat (map section_fields (screen_sections screen))))"
  shows "silent (evaluate_screen now screen quote tables)"
proof -
  have "silent (fst (screen_fields_pass now screen quote tables))"
    unfolding screen_fields_pass_def by (rule sections_silent) (use assms in \<open>auto simp: silent_def known_def\<close>)
  then show ?thesis by (auto simp: evaluate_screen_def split: prod.splits intro: validations_silent)
qed

definition example_field :: screen_field where
  "example_field =
     \<lparr>field_key = ''floor'', field_path = ''risks.0.floor'', field_type = STInt, field_widget = WNumber,
      field_required = True, field_options = None, field_item = [], min_items = 0, max_items = None,
      field_visible_when = Some ''false'', field_required_when = None\<rparr>"

definition example_screen :: product_screen where
  "example_screen =
     \<lparr>screen_sections = [\<lparr>section_visible_when = None, section_fields = [example_field]\<rparr>],
      screen_validations = []\<rparr>"

subsection \<open>Properties\<close>

text \<open>C3: a screen reports no problem exactly when every shown field is filled as its type, options,
  size limits and required rule ask, and every validation that applies holds (of each item, when it is
  checked per item); a validation pinned to a hidden field does not count.\<close>

theorem screen_accepts_iff:
  "(st_errors (evaluate_screen now screen quote tables) = []
    \<and> st_form_errors (evaluate_screen now screen quote tables) = [])
   = ((\<forall>sec \<in> set (screen_sections screen).
         section_ok now (JObj (build_screen_context quote tables)) quote sec)
      \<and> (\<forall>val \<in> set (screen_validations screen).
           validation_ok now (build_screen_context quote tables) quote
             (screen_fields_pass now screen quote tables) val))"
proof -
  obtain st ls where pass: "screen_fields_pass now screen quote tables = (st, ls)" by force
  have "clean st \<longleftrightarrow> (\<forall>sec \<in> set (screen_sections screen).
      section_ok now (JObj (build_screen_context quote tables)) quote sec)"
    using sections_clean [of now "JObj (build_screen_context quote tables)" quote _ "screen_sections screen"] pass
    by (simp add: screen_fields_pass_def clean_def) (metis fst_conv screen_state.select_convs)
  then show ?thesis
    using validations_clean [of now "build_screen_context quote tables" quote ls st]
    by (simp add: evaluate_screen_def pass flip: clean_def)
qed

theorem screen_accepts_iff_witness:
  "section_ok [] (JObj (build_screen_context (JObj []) JUndef)) (JObj []) (hd (screen_sections example_screen))"
proof -
  have "st_errors (evaluate_screen [] example_screen (JObj []) JUndef) = []
    \<and> st_form_errors (evaluate_screen [] example_screen (JObj []) JUndef) = []" by code_simp
  then show ?thesis unfolding screen_accepts_iff by (simp add: example_screen_def)
qed

text \<open>a hidden field is never reported: when the screen's field keys are distinct, a problem is
  always keyed by a field that is shown, or by a cell or an item of a list.\<close>

theorem hidden_field_never_reported:
  assumes "distinct (map field_key (concat (map section_fields (screen_sections screen))))"
    and "CHR ''.'' \<notin> set k"
    and "aget (st_fields (evaluate_screen now screen quote tables)) k = Some fs" and "\<not> is_visible fs"
  shows "aget (st_errors (evaluate_screen now screen quote tables)) k = None"
  using evaluate_screen_silent [OF assms(1), of now quote tables] assms(2-4)
  by (fastforce simp: silent_def)

theorem hidden_field_never_reported_witness:
  "aget (st_errors (evaluate_screen [] example_screen (JObj []) JUndef)) ''floor'' = None"
  by (rule hidden_field_never_reported [where fs = "\<lparr>is_visible = False, is_required = False\<rparr>"]) code_simp+

end
