(* ===== verification/ValidationRules.thy ===== *)
theory ValidationRules
  imports ScreenRules
begin

text \<open>
  Carrier-configured validation rules, \<open>packages/rules/src/validation-rules.ts\<close>: which rules apply to
  a level of a transaction, what each finds in a payload, and what is wrong with a rule's own
  definition. The string unions of the source stay strings; an absent text, level list or transaction
  list is the empty one, which the code treats alike. The lookup tables and the facts a transaction
  adds are values.
\<close>

definition VALIDATION_LEVELS :: "string list" where
  "VALIDATION_LEVELS = [''screen'', ''rate'', ''bind'', ''issue'']"

definition VALIDATION_TRANSACTIONS :: "string list" where
  "VALIDATION_TRANSACTIONS =
     [''new_business'', ''endorsement'', ''cancellation'', ''reinstatement'', ''renewal'', ''rewrite'', ''non_renewal'']"

definition COMMON_TRANSACTION :: string where "COMMON_TRANSACTION = ''common''"

definition VALIDATION_SCREENS :: "string list" where
  "VALIDATION_SCREENS =
     [''product'', ''qualification'', ''insureds'', ''risk'', ''coverages'', ''rating'', ''premium'', ''forms'']"

record validation_rule =
  rule_code :: string
  rule_kind :: string
  rule_field_path :: string \<comment> \<open>empty when absent\<close>
  rule_condition :: "string option"
  rule_applies_when :: "string option"
  rule_levels :: "string list"
  rule_transactions :: "string list"
  rule_product :: string
  rule_state :: string
  rule_screen :: string
  rule_severity :: string
  rule_message :: string
  rule_effective :: string
  rule_expiration :: string
  rule_inactive :: bool \<comment> \<open>\<open>active === false\<close>\<close>

record finding =
  finding_rule :: string
  finding_severity :: string
  finding_message :: string
  finding_path :: "string option"
  finding_screen :: "string option"

record validation_outcome =
  outcome_errors :: "finding list"
  outcome_warnings :: "finding list"

record target =
  target_level :: string
  target_transaction :: string
  target_product :: string
  target_state :: string
  target_as_of :: string

record extras =
  extra_transaction :: jsval
  extra_policy :: jsval
  extra_premium :: jsval
  extra_tables :: jsval

subsection \<open>Names of transactions\<close>

definition TRANSACTION_ALIASES :: "(string \<times> string) list" where
  "TRANSACTION_ALIASES =
     [(''quote'', ''new_business''), (''bind'', ''new_business''), (''quotebind'', ''new_business''),
      (''nb'', ''new_business''), (''new_business'', ''new_business''), (''newbusiness'', ''new_business''),
      (''issue'', ''new_business''), (''endorse'', ''endorsement''), (''endorsement'', ''endorsement''),
      (''cancel'', ''cancellation''), (''cancellation'', ''cancellation''),
      (''reinstate'', ''reinstatement''), (''reinstatement'', ''reinstatement''),
      (''renew'', ''renewal''), (''renewal'', ''renewal''), (''rewrite'', ''rewrite''),
      (''non_renew'', ''non_renewal''), (''nonrenew'', ''non_renewal''), (''nonrenewal'', ''non_renewal''),
      (''non_renewal'', ''non_renewal'')]"

text \<open>\<open>replace(/[\s-]+/g, '_')\<close> on the trimmed lower-case name.\<close>

definition parse_validation_transaction :: "string \<Rightarrow> string option" where
  "parse_validation_transaction v =
     aget TRANSACTION_ALIASES (replace_runs (\<lambda>c. is_space c \<or> c = CHR ''-'') ''_'' False (lower (trim v)))"

definition normalize_validation_transaction :: "string \<Rightarrow> string" where
  "normalize_validation_transaction v =
     (case parse_validation_transaction v of None \<Rightarrow> ''new_business'' | Some t \<Rightarrow> t)"

subsection \<open>The context\<close>

definition plain_object :: "jsval \<Rightarrow> jsval" where
  "plain_object v = (if is_obj v then v else JObj [])"

definition build_validation_context :: "jsval \<Rightarrow> extras \<Rightarrow> string \<Rightarrow> fields" where
  "build_validation_context payload ex as_of =
     assign (build_screen_context (js_or payload (JObj [])) (extra_tables ex))
       ([(''risks'', JArr (items (get payload ''risks''))),
         (''insureds'', JArr (items (get payload ''insureds''))),
         (''uwAnswers'', plain_object (get payload ''uwAnswers'')),
         (''qualificationAnswers'', plain_object (get payload ''qualificationAnswers'')),
         (''payload'', object_or_empty payload),
         (''transaction'', plain_object (extra_transaction ex)),
         (''policy'', plain_object (extra_policy ex)),
         (''premium'', plain_object (extra_premium ex)),
         (TABLES_CONTEXT_KEY, js_or (extra_tables ex) (JObj []))]
        @ (if as_of = [] then [] else [(TODAY_CONTEXT_KEY, JStr as_of)]))"

subsection \<open>Field paths\<close>

text \<open>\<open>replace(/\[(\d+|\*)\]/g, '.$1')\<close>\<close>

function dot_brackets :: "string \<Rightarrow> string" where
  "dot_brackets [] = []"
| "dot_brackets (c # cs) =
     (if c = CHR ''['' then
        (let ds = takeWhile is_digit cs; r = drop (length ds) cs
         in if ds \<noteq> [] \<and> starts_with r '']'' then CHR ''.'' # ds @ dot_brackets (drop 1 r)
            else if starts_with cs ''*]'' then ''.*'' @ dot_brackets (drop 2 cs)
            else c # dot_brackets cs)
      else c # dot_brackets cs)"
  by pat_completeness auto
termination by (relation "measure length") auto

definition is_ident_char :: "char \<Rightarrow> bool" where
  "is_ident_char c = (is_word c \<or> c = CHR ''$'')"

definition path_part :: "string \<Rightarrow> bool" where
  "path_part w =
     (w = ''*'' \<or> (w \<noteq> [] \<and> list_all is_digit w)
      \<or> (w \<noteq> [] \<and> list_all is_ident_char w \<and> \<not> is_digit (hd w)))"

definition UNSAFE_PARTS :: "string list" where
  "UNSAFE_PARTS = [''__proto__'', ''constructor'', ''prototype'']"

definition split_field_path :: "string \<Rightarrow> string list option" where
  "split_field_path path =
     (let parts = filter (\<lambda>w. w \<noteq> []) (split_at_char CHR ''.'' (dot_brackets (trim path)))
      in if parts = [] \<or> list_ex (\<lambda>w. \<not> path_part w) parts then None
         else if list_ex (\<lambda>w. w \<in> set UNSAFE_PARTS) parts then None
         else Some parts)"

fun resolve_all :: "jsval \<Rightarrow> string list \<Rightarrow> string list \<Rightarrow> (string \<times> jsval) list" where
  "resolve_all rt [] prefix = [(join ''.'' prefix, rt)]"
| "resolve_all rt (p # rest) prefix =
     (if p = ''*'' then
        (if is_arr rt
         then concat (map (\<lambda>(i, item). resolve_all item rest (prefix @ [nat_str i])) (indexed 0 (items rt)))
         else [])
      else resolve_all (if is_objlike rt then get rt p else JUndef) rest (prefix @ [p]))"

definition required_values :: "jsval \<Rightarrow> fields \<Rightarrow> string list \<Rightarrow> (string \<times> jsval) list" where
  "required_values payload ctx parts =
     resolve_all (if hd parts \<in> {''transaction'', ''policy'', ''premium''} then JObj ctx else payload) parts []"

subsection \<open>A rule's own definition\<close>

definition blank_source :: "string option \<Rightarrow> bool" where
  "blank_source src = (case src of None \<Rightarrow> True | Some s \<Rightarrow> trim s = [])"

definition expression_problem :: "string \<Rightarrow> string option \<Rightarrow> string list" where
  "expression_problem label src =
     (case src of
        None \<Rightarrow> []
      | Some s \<Rightarrow>
          if trim s = [] then []
          else (case compile_text s of
                  Inl (ExprError msg pos) \<Rightarrow> [label @ '': '' @ msg]
                | Inl Internal \<Rightarrow> [label @ '': invalid expression'']
                | Inr _ \<Rightarrow> []))"

definition validation_rule_problems :: "validation_rule \<Rightarrow> string list" where
  "validation_rule_problems rule =
     (if rule_kind rule \<noteq> ''required'' \<and> rule_kind rule \<noteq> ''condition'' then [''Choose required field or condition''] else [])
     @ (if rule_kind rule = ''required'' \<and> split_field_path (rule_field_path rule) = None
        then [''Enter a valid field path, for example applicant.email or risks[*].vin''] else [])
     @ (if rule_kind rule \<noteq> ''required'' \<and> rule_field_path rule \<noteq> [] \<and> split_field_path (rule_field_path rule) = None
        then [''The field path is not valid''] else [])
     @ (if rule_kind rule = ''condition'' \<and> blank_source (rule_condition rule)
        then [''Enter the condition that must be true''] else [])
     @ expression_problem ''Condition'' (rule_condition rule)
     @ expression_problem ''Applies when'' (rule_applies_when rule)
     @ (if rule_levels rule = [] \<or> list_ex (\<lambda>l. l \<notin> set VALIDATION_LEVELS) (rule_levels rule)
        then [''Choose at least one level''] else [])
     @ (if rule_transactions rule = []
           \<or> list_ex (\<lambda>t. t \<noteq> COMMON_TRANSACTION \<and> t \<notin> set VALIDATION_TRANSACTIONS) (rule_transactions rule)
        then [''Choose Common or at least one transaction''] else [])
     @ (if COMMON_TRANSACTION \<in> set (rule_transactions rule) \<and> 1 < length (rule_transactions rule)
        then [''Common already covers every transaction''] else [])
     @ (if ''screen'' \<in> set (rule_levels rule) \<and> rule_screen rule \<notin> set VALIDATION_SCREENS
        then [''Choose the screen a screen-level rule is shown on''] else [])
     @ (if rule_severity rule \<noteq> ''error'' \<and> rule_severity rule \<noteq> ''warning'' then [''Choose error or warning''] else [])
     @ (if trim (rule_message rule) = [] then [''Enter the message people see''] else [])
     @ (if rule_expiration rule \<noteq> [] \<and> rule_effective rule \<noteq> [] \<and> rule_expiration rule < rule_effective rule
        then [''The expiration date is before the effective date''] else [])"

subsection \<open>Running the rules\<close>

definition rule_applies_to :: "validation_rule \<Rightarrow> target \<Rightarrow> bool" where
  "rule_applies_to rule tgt =
     (let as_of = take 10 (target_as_of tgt)
      in \<not> rule_inactive rule
         \<and> target_level tgt \<in> set (rule_levels rule)
         \<and> (COMMON_TRANSACTION \<in> set (rule_transactions rule) \<or> target_transaction tgt \<in> set (rule_transactions rule))
         \<and> (rule_product rule = [] \<or> rule_product rule = target_product tgt)
         \<and> (rule_state rule = [] \<or> upper (rule_state rule) = upper (target_state tgt))
         \<and> \<not> (as_of \<noteq> [] \<and> rule_effective rule \<noteq> [] \<and> as_of < take 10 (rule_effective rule))
         \<and> \<not> (as_of \<noteq> [] \<and> rule_expiration rule \<noteq> [] \<and> take 10 (rule_expiration rule) < as_of))"

definition condition_holds :: "string \<Rightarrow> fields \<Rightarrow> string option \<Rightarrow> (expr_error, bool) outcome" where
  "condition_holds now ctx src =
     (case src of
        None \<Rightarrow> Inr True
      | Some s \<Rightarrow>
          if trim s = [] then Inr True
          else outcome_bind (evaluate_expression now s (JObj ctx)) (\<lambda>v. Inr (is_truthy v)))"

definition text_option :: "string \<Rightarrow> string option" where
  "text_option s = (if s = [] then None else Some s)"

definition make_finding :: "validation_rule \<Rightarrow> string option \<Rightarrow> string \<Rightarrow> finding" where
  "make_finding rule path msg =
     \<lparr>finding_rule = rule_code rule, finding_severity = rule_severity rule, finding_message = msg,
      finding_path = path, finding_screen = text_option (rule_screen rule)\<rparr>"

definition own_finding :: "validation_rule \<Rightarrow> string \<Rightarrow> finding" where
  "own_finding rule suffix = make_finding rule (text_option (rule_field_path rule)) (rule_message rule @ suffix)"

definition required_findings :: "jsval \<Rightarrow> fields \<Rightarrow> validation_rule \<Rightarrow> finding list" where
  "required_findings payload ctx rule =
     (case split_field_path (rule_field_path rule) of
        None \<Rightarrow> [own_finding rule '' (rule field path is not valid)'']
      | Some parts \<Rightarrow>
          (let found = required_values payload ctx parts
           in if found = [] \<and> ''*'' \<in> set parts then []
              else (if found = [] then [own_finding rule []] else [])
                @ map (\<lambda>(path, _). make_finding rule (Some path) (rule_message rule))
                    (filter (\<lambda>(_, v). is_blank v) found)))"

definition rule_findings :: "string \<Rightarrow> jsval \<Rightarrow> fields \<Rightarrow> validation_rule \<Rightarrow> finding list" where
  "rule_findings now payload ctx rule =
     (case condition_holds now ctx (rule_applies_when rule) of
        Inl _ \<Rightarrow> [own_finding rule '' (rule could not be evaluated)'']
      | Inr False \<Rightarrow> []
      | Inr True \<Rightarrow>
          if rule_kind rule = ''required'' then required_findings payload ctx rule
          else (case condition_holds now ctx (rule_condition rule) of
                  Inl _ \<Rightarrow> [own_finding rule '' (rule could not be evaluated)'']
                | Inr False \<Rightarrow> [own_finding rule []]
                | Inr True \<Rightarrow> []))"

definition add_finding :: "validation_outcome \<Rightarrow> finding \<Rightarrow> validation_outcome" where
  "add_finding out f =
     (if finding_severity f = ''error'' then out\<lparr>outcome_errors := outcome_errors out @ [f]\<rparr>
      else out\<lparr>outcome_warnings := outcome_warnings out @ [f]\<rparr>)"

definition evaluation_context :: "jsval \<Rightarrow> target \<Rightarrow> extras \<Rightarrow> fields" where
  "evaluation_context payload tgt ex =
     build_validation_context payload
       (ex\<lparr>extra_transaction :=
          JObj (spread [(''type'', JStr (target_transaction tgt))] (fields_of (extra_transaction ex)))\<rparr>)
       (take 10 (target_as_of tgt))"

definition evaluate_validation_rules ::
  "string \<Rightarrow> validation_rule list \<Rightarrow> jsval \<Rightarrow> target \<Rightarrow> extras \<Rightarrow> validation_outcome" where
  "evaluate_validation_rules now rules payload tgt ex =
     foldl (\<lambda>out rule.
         if rule_applies_to rule tgt
         then foldl add_finding out (rule_findings now payload (evaluation_context payload tgt ex) rule)
         else out)
       \<lparr>outcome_errors = [], outcome_warnings = []\<rparr> rules"

definition unacknowledged_warnings :: "validation_outcome \<Rightarrow> string list \<Rightarrow> finding list" where
  "unacknowledged_warnings out acknowledged =
     filter (\<lambda>w. finding_rule w \<notin> set acknowledged) (outcome_warnings out)"

definition level_requires_acknowledgement :: "string \<Rightarrow> bool" where
  "level_requires_acknowledgement level = (level = ''bind'' \<or> level = ''issue'')"

subsection \<open>What a rule asks\<close>

definition rule_passes :: "string \<Rightarrow> jsval \<Rightarrow> fields \<Rightarrow> validation_rule \<Rightarrow> bool" where
  "rule_passes now payload ctx rule =
     (case condition_holds now ctx (rule_applies_when rule) of
        Inl _ \<Rightarrow> False
      | Inr False \<Rightarrow> True
      | Inr True \<Rightarrow>
          if rule_kind rule = ''required''
          then (\<exists>parts. split_field_path (rule_field_path rule) = Some parts
                  \<and> (required_values payload ctx parts \<noteq> [] \<or> ''*'' \<in> set parts)
                  \<and> (\<forall>(path, v) \<in> set (required_values payload ctx parts). \<not> is_blank v))
          else condition_holds now ctx (rule_condition rule) = Inr True)"

lemma required_findings_Nil:
  "required_findings payload ctx rule = []
   \<longleftrightarrow> (\<exists>parts. split_field_path (rule_field_path rule) = Some parts
         \<and> (required_values payload ctx parts \<noteq> [] \<or> ''*'' \<in> set parts)
         \<and> (\<forall>(path, v) \<in> set (required_values payload ctx parts). \<not> is_blank v))"
  by (auto simp: required_findings_def Let_def filter_empty_conv split: option.splits)

lemma rule_findings_Nil: "rule_findings now payload ctx rule = [] \<longleftrightarrow> rule_passes now payload ctx rule"
  by (auto simp: rule_findings_def rule_passes_def required_findings_Nil split: sum.splits bool.splits)

lemma findings_severity: "f \<in> set (rule_findings now payload ctx rule) \<Longrightarrow> finding_severity f = rule_severity rule"
  by (auto simp: rule_findings_def required_findings_def own_finding_def make_finding_def Let_def
      split: sum.splits bool.splits option.splits if_splits)

lemma add_findings:
  "outcome_errors (foldl add_finding out fs) = outcome_errors out @ filter (\<lambda>f. finding_severity f = ''error'') fs"
  "outcome_warnings (foldl add_finding out fs) = outcome_warnings out @ filter (\<lambda>f. finding_severity f \<noteq> ''error'') fs"
  by (induction fs arbitrary: out) (auto simp: add_finding_def)

text \<open>All the findings of the applicable rules, in the order of the rules.\<close>

definition all_findings ::
  "string \<Rightarrow> validation_rule list \<Rightarrow> jsval \<Rightarrow> target \<Rightarrow> extras \<Rightarrow> finding list" where
  "all_findings now rules payload tgt ex =
     concat (map (rule_findings now payload (evaluation_context payload tgt ex))
       (filter (\<lambda>rule. rule_applies_to rule tgt) rules))"

lemma evaluate_rules_fold:
  "outcome_errors (foldl (\<lambda>out rule. if rule_applies_to rule tgt
       then foldl add_finding out (rule_findings now payload ctx rule) else out) out rules)
   = outcome_errors out @ filter (\<lambda>f. finding_severity f = ''error'')
       (concat (map (rule_findings now payload ctx) (filter (\<lambda>rule. rule_applies_to rule tgt) rules)))"
  "outcome_warnings (foldl (\<lambda>out rule. if rule_applies_to rule tgt
       then foldl add_finding out (rule_findings now payload ctx rule) else out) out rules)
   = outcome_warnings out @ filter (\<lambda>f. finding_severity f \<noteq> ''error'')
       (concat (map (rule_findings now payload ctx) (filter (\<lambda>rule. rule_applies_to rule tgt) rules)))"
  by (induction rules arbitrary: out) (auto simp: add_findings)

lemma evaluate_rules:
  "outcome_errors (evaluate_validation_rules now rules payload tgt ex)
     = filter (\<lambda>f. finding_severity f = ''error'') (all_findings now rules payload tgt ex)"
  "outcome_warnings (evaluate_validation_rules now rules payload tgt ex)
     = filter (\<lambda>f. finding_severity f \<noteq> ''error'') (all_findings now rules payload tgt ex)"
  by (simp_all add: evaluate_validation_rules_def all_findings_def evaluate_rules_fold)

lemma no_findings:
  "filter P (all_findings now rules payload tgt ex) = []
   \<longleftrightarrow> (\<forall>rule \<in> set rules. rule_applies_to rule tgt \<longrightarrow>
         (\<forall>f \<in> set (rule_findings now payload (evaluation_context payload tgt ex) rule). \<not> P f))"
  by (auto simp: all_findings_def filter_empty_conv)

lemma findings_of_severity:
  "(\<forall>f \<in> set (rule_findings now payload ctx rule). \<not> S (finding_severity f))
   \<longleftrightarrow> (S (rule_severity rule) \<longrightarrow> rule_passes now payload ctx rule)"
  by (cases "rule_findings now payload ctx rule")
    (use findings_severity [of _ now payload ctx rule] in \<open>auto simp flip: rule_findings_Nil\<close>)

subsection \<open>Saved rules run\<close>

lemma no_expression_problem:
  "expression_problem label src = [] \<Longrightarrow> \<exists>b. condition_holds now ctx src = Inr b"
  by (auto simp: expression_problem_def condition_holds_def evaluate_expression_def
      split: option.splits sum.splits if_splits expr_error.splits)

lemma problem_free:
  assumes "validation_rule_problems rule = []"
  shows "expression_problem ''Condition'' (rule_condition rule) = []"
    and "expression_problem ''Applies when'' (rule_applies_when rule) = []"
    and "rule_kind rule = ''required'' \<Longrightarrow> split_field_path (rule_field_path rule) \<noteq> None"
  using assms by (simp_all add: validation_rule_problems_def split: if_splits)

lemma saved_rule_message:
  assumes "validation_rule_problems rule = []" and "f \<in> set (rule_findings now payload ctx rule)"
  shows "finding_message f = rule_message rule"
proof -
  obtain b b' where "condition_holds now ctx (rule_applies_when rule) = Inr b"
    "condition_holds now ctx (rule_condition rule) = Inr b'"
    using no_expression_problem problem_free [OF assms(1)] by meson
  with assms(2) problem_free(3) [OF assms(1)] show ?thesis
    by (auto simp: rule_findings_def required_findings_def own_finding_def make_finding_def Let_def
        split: bool.splits option.splits if_splits)
qed

subsection \<open>Field paths\<close>

lemma path_part_chars:
  assumes "path_part w" "c \<in> set w"
  shows "c \<noteq> CHR ''.''" "c \<noteq> CHR ''[''" "\<not> is_space c"
proof -
  have "c = CHR ''*'' \<or> is_ident_char c" using assms
    by (auto simp: path_part_def list_all_iff is_ident_char_def is_word_def is_alnum_def)
  then show "c \<noteq> CHR ''.''" "c \<noteq> CHR ''[''" "\<not> is_space c"
    by (auto simp: is_ident_char_def is_word_def is_alnum_def is_alpha_def is_upper_def is_lower_def
        is_digit_def is_space_def ccode_def Let_def)
qed

lemma dot_brackets_id: "(\<forall>c \<in> set s. c \<noteq> CHR ''['') \<Longrightarrow> dot_brackets s = s"
  by (induction s) auto

lemma set_join: "c \<in> set (join sep ws) \<Longrightarrow> c \<in> set sep \<or> (\<exists>w \<in> set ws. c \<in> set w)"
  by (induction sep ws rule: join.induct) auto

lemma path_part_not_Nil: "path_part w \<Longrightarrow> w \<noteq> []"
  by (auto simp: path_part_def)

lemma split_field_path_parts:
  assumes "split_field_path path = Some parts"
  shows "parts \<noteq> []" "\<forall>w \<in> set parts. path_part w \<and> w \<notin> set UNSAFE_PARTS"
  using assms by (auto simp: split_field_path_def Let_def list_ex_iff split: if_splits)

lemma split_field_path_join:
  assumes "parts \<noteq> []" "\<forall>w \<in> set parts. path_part w \<and> w \<notin> set UNSAFE_PARTS"
  shows "split_field_path (join ''.'' parts) = Some parts"
proof -
  have dot: "\<not> is_space CHR ''.''" "CHR ''.'' \<noteq> CHR ''[''" by (auto simp: is_space_def ccode_def)
  have chars: "c \<noteq> CHR ''['' \<and> \<not> is_space c" if c: "c \<in> set (join ''.'' parts)" for c
    using set_join [OF c] assms(2) path_part_chars(2,3) [of _ c] dot by fastforce
  then have "trim (join ''.'' parts) = join ''.'' parts" by (intro trim_id) auto
  moreover have "dot_brackets (join ''.'' parts) = join ''.'' parts" using chars by (intro dot_brackets_id) auto
  moreover have "split_at_char CHR ''.'' (join ''.'' parts) = parts"
    using assms path_part_chars(1) by (intro split_join) auto
  moreover have "filter (\<lambda>w. w \<noteq> []) parts = parts" using assms(2) path_part_not_Nil by (auto intro: filter_True)
  ultimately show ?thesis using assms by (auto simp: split_field_path_def Let_def list_ex_iff)
qed

definition example_rule :: validation_rule where
  "example_rule =
     \<lparr>rule_code = ''R1'', rule_kind = ''required'', rule_field_path = ''risks[*].vin'', rule_condition = None,
      rule_applies_when = None, rule_levels = [''bind''], rule_transactions = [''common''], rule_product = [],
      rule_state = [], rule_screen = [], rule_severity = ''error'', rule_message = ''VIN'', rule_effective = [],
      rule_expiration = [], rule_inactive = False\<rparr>"

subsection \<open>Properties\<close>

text \<open>C2: a run of the rules lets a payload through without an error exactly when every applicable error
  rule passes: its guard is false, its required field has a value everywhere its path leads (a list
  path over an empty list asks nothing), or its condition holds. A rule whose expression does not
  compile or whose path is malformed never passes. Warnings are the same for the other severities.\<close>

theorem validation_errors_iff:
  "(outcome_errors (evaluate_validation_rules now rules payload tgt ex) = []
     \<longleftrightarrow> (\<forall>rule \<in> set rules. rule_applies_to rule tgt \<and> rule_severity rule = ''error''
            \<longrightarrow> rule_passes now payload (evaluation_context payload tgt ex) rule))
   \<and> (outcome_warnings (evaluate_validation_rules now rules payload tgt ex) = []
     \<longleftrightarrow> (\<forall>rule \<in> set rules. rule_applies_to rule tgt \<and> rule_severity rule \<noteq> ''error''
            \<longrightarrow> rule_passes now payload (evaluation_context payload tgt ex) rule))"
  using findings_of_severity [where S = "\<lambda>s. s = ''error''"] findings_of_severity [where S = "\<lambda>s. s \<noteq> ''error''"]
  by (simp add: evaluate_rules no_findings) blast

theorem validation_errors_iff_witness:
  "rule_passes [] (JObj [(''risks'', JArr [JObj [(''vin'', JStr ''A'')]])])
     (evaluation_context (JObj [(''risks'', JArr [JObj [(''vin'', JStr ''A'')]])])
        \<lparr>target_level = ''bind'', target_transaction = ''new_business'', target_product = [], target_state = [],
         target_as_of = []\<rparr>
        \<lparr>extra_transaction = JUndef, extra_policy = JUndef, extra_premium = JUndef, extra_tables = JUndef\<rparr>)
     example_rule"
proof -
  let ?tgt = "\<lparr>target_level = ''bind'', target_transaction = ''new_business'', target_product = [],
      target_state = [], target_as_of = []\<rparr>"
  let ?ex = "\<lparr>extra_transaction = JUndef, extra_policy = JUndef, extra_premium = JUndef, extra_tables = JUndef\<rparr>"
  let ?payload = "JObj [(''risks'', JArr [JObj [(''vin'', JStr ''A'')]])]"
  have "outcome_errors (evaluate_validation_rules [] [example_rule] ?payload ?tgt ?ex) = []" by code_simp
  moreover have "rule_applies_to example_rule ?tgt" "rule_severity example_rule = ''error''" by code_simp+
  ultimately show ?thesis using validation_errors_iff [of "[]" "[example_rule]" ?payload ?tgt ?ex] by simp
qed

text \<open>C26: a rule the administrator's check accepts always runs: whatever the payload and the
  transaction, each of its findings carries the rule's own message, never the note that the rule could
  not be evaluated or that its path is malformed.\<close>

theorem saved_rule_always_runs:
  assumes "validation_rule_problems rule = []"
    and "f \<in> set (rule_findings now payload ctx rule)"
  shows "finding_message f = rule_message rule"
  using assms by (rule saved_rule_message)

theorem saved_rule_always_runs_witness:
  "\<exists>f :: finding. finding_path f = Some ''risks.1.vin'' \<and> finding_message f = ''VIN''"
proof -
  let ?payload = "JObj [(''risks'', JArr [JObj [(''vin'', JStr ''A'')], JObj []])]"
  let ?f = "\<lparr>finding_rule = ''R1'', finding_severity = ''error'', finding_message = ''VIN'',
      finding_path = Some ''risks.1.vin'', finding_screen = None\<rparr>"
  have "validation_rule_problems example_rule = []" by code_simp
  moreover have "rule_findings [] ?payload [] example_rule = [?f]" by code_simp
  then have "?f \<in> set (rule_findings [] ?payload [] example_rule)" by simp
  ultimately have "finding_message ?f = rule_message example_rule" by (rule saved_rule_always_runs)
  then show ?thesis by (intro exI [of _ ?f]) (simp add: example_rule_def)
qed

text \<open>a split field path is non-empty, all its parts are names, indexes or \<open>*\<close>, none reaches the
  prototype chain; and printing the parts with dots and splitting again gives the same parts.\<close>

theorem field_path_roundtrip:
  assumes "split_field_path path = Some parts"
  shows "parts \<noteq> [] \<and> (\<forall>w \<in> set parts. path_part w \<and> w \<notin> {''__proto__'', ''constructor'', ''prototype''})
    \<and> split_field_path (join ''.'' parts) = Some parts"
  using split_field_path_parts [OF assms] split_field_path_join by (simp add: UNSAFE_PARTS_def)

theorem field_path_roundtrip_witness:
  "split_field_path ''risks.0.vin'' = Some [''risks'', ''0'', ''vin'']"
proof -
  have "split_field_path '' risks[0].vin'' = Some [''risks'', ''0'', ''vin'']" by code_simp
  from field_path_roundtrip [OF this] show ?thesis by simp
qed

end
