(* ===== verification/RatingTable.thy ===== *)
theory RatingTable
  imports ExprParser
begin

text \<open>
  Table-driven rating, \<open>server/src/lib/rating-table.ts\<close>: band labels, the factor of a step, the premium
  of each coverage, the totals, and the check of a rates file. The quote, the rates and the product
  configuration are values; lookup tables are the object of tables. A thrown \<open>BadRequestError\<close> is its
  code and message; reading a property of a step that is null is \<open>TypeFault\<close>.
\<close>

definition is_plain_object :: "jsval \<Rightarrow> bool" where
  "is_plain_object v = is_obj v"

definition get_by_path :: "jsval \<Rightarrow> string \<Rightarrow> jsval" where
  "get_by_path source path = get_path source (path_parts path)"

definition num_or :: "jsval \<Rightarrow> jnum \<Rightarrow> jnum" where
  "num_or v d = (case fin_num v of None \<Rightarrow> d | Some n \<Rightarrow> n)"

subsection \<open>Bands\<close>

datatype band = Between jnum jnum | AtLeast jnum | AtMost jnum | Above jnum | Below jnum

definition scan_signed :: "string \<Rightarrow> (jnum \<times> string) option" where
  "scan_signed s =
     (let sign = (if starts_with s ''-'' then ''-'' else []);
          m = scan_number (drop (length sign) s)
      in if m = [] then None else Some (js_number (sign @ m), drop (length (sign @ m)) s))"

definition scan_bound :: "(jnum \<Rightarrow> band) \<Rightarrow> string \<Rightarrow> band option" where
  "scan_bound mk s = (case scan_signed (dropWhile is_space s) of Some (b, []) \<Rightarrow> Some (mk b) | _ \<Rightarrow> None)"

definition parse_range :: "string \<Rightarrow> band option" where
  "parse_range label =
     (let t = trim label
      in case scan_signed t of
           Some (lo, r) \<Rightarrow>
             (if starts_with (dropWhile is_space r) ''-''
              then scan_bound (Between lo) (drop 1 (dropWhile is_space r))
              else if r = ''+'' then Some (AtLeast lo) else None)
         | None \<Rightarrow>
             if starts_with t ''<='' then scan_bound AtMost (drop 2 t)
             else if starts_with t ''>='' then scan_bound AtLeast (drop 2 t)
             else if starts_with t ''<'' then scan_bound Below (drop 1 t)
             else if starts_with t ''>'' then scan_bound Above (drop 1 t)
             else None)"

fun in_band :: "band \<Rightarrow> jnum \<Rightarrow> bool" where
  "in_band (Between lo hi) v = (jle lo v \<and> jle v hi)"
| "in_band (AtLeast b) v = jle b v"
| "in_band (AtMost b) v = jle v b"
| "in_band (Above b) v = jlt b v"
| "in_band (Below b) v = jlt v b"

subsection \<open>Factors\<close>

definition fold_text :: "jsval \<Rightarrow> string" where
  "fold_text v = lower (trim (to_str v))"

definition table_factor :: "jsval \<Rightarrow> jsval \<Rightarrow> jsval \<Rightarrow> jnum option" where
  "table_factor tbl column raw =
     (case find_first (\<lambda>row. lower (trim (str_nc_empty (get row (to_str (get tbl ''key''))))) = fold_text raw)
             (items (get tbl ''rows'')) of
        None \<Rightarrow> None
      | Some row \<Rightarrow> (let n = to_num (get row (to_str column)) in if is_finite n then Some n else None))"

definition inline_factor :: "fields \<Rightarrow> jsval \<Rightarrow> jnum option" where
  "inline_factor entries raw =
     (case find_first (\<lambda>(k, f). lower (trim k) = fold_text raw \<and> fin_num f \<noteq> None) (own_entries entries) of
        None \<Rightarrow> None | Some (_, f) \<Rightarrow> fin_num f)"

definition range_factor :: "fields \<Rightarrow> jsval \<Rightarrow> jnum option" where
  "range_factor entries raw =
     (let v = to_num raw
      in if \<not> is_finite v then None
         else case find_first (\<lambda>(label, f).
                  (case parse_range label of None \<Rightarrow> False | Some b \<Rightarrow> in_band b v) \<and> fin_num f \<noteq> None)
                (own_entries entries) of
                None \<Rightarrow> None | Some (_, f) \<Rightarrow> fin_num f)"

definition lookup_factor :: "jsval \<Rightarrow> jsval \<Rightarrow> jsval \<Rightarrow> jnum option" where
  "lookup_factor step raw tables =
     (if nullish raw \<or> raw = JStr [] then None
      else if js_truthy (get step ''fromTable'')
      then table_factor (get tables (to_str (get step ''fromTable''))) (get step ''value'') raw
      else if is_plain_object (get step ''table'') then inline_factor (fields_of (get step ''table'')) raw
      else if is_plain_object (get step ''ranges'') then range_factor (fields_of (get step ''ranges'')) raw
      else None)"

subsection \<open>Coverages\<close>

definition coverage_code :: "jsval \<Rightarrow> string" where
  "coverage_code cov =
     trim (str_or_empty (js_or (get cov ''code'') (js_or (get cov ''coverage_code'') (get cov ''definitionCode''))))"

definition find_coverage_rating :: "fields \<Rightarrow> string \<Rightarrow> jsval option" where
  "find_coverage_rating coverages code =
     (case find_first (\<lambda>(k, v). k \<noteq> ''default'' \<and> lower k = lower code \<and> is_plain_object v) (own_entries coverages) of
        Some (_, v) \<Rightarrow> Some v
      | None \<Rightarrow> (let d = get (JObj coverages) ''default'' in if is_plain_object d then Some d else None))"

text \<open>A coverage's limit, including one that is a percentage of another coverage's limit.\<close>

definition percent_limit :: "jsval \<Rightarrow> jsval list \<Rightarrow> jsval \<Rightarrow> jnum option" where
  "percent_limit cov sel product_config =
     (let percent = to_num (get cov ''percent'');
          code = lower (coverage_code cov);
          def = find_first (\<lambda>item. lower (str_or_empty (get item ''code'')) = code) (items (get product_config ''coverages''));
          parent_code = lower (str_or_empty (case def of None \<Rightarrow> JUndef | Some d \<Rightarrow> get d ''limitAsPercentOf''));
          parent = find_first (\<lambda>item. lower (coverage_code item) = parent_code) sel;
          parent_limit = to_num (case parent of None \<Rightarrow> JUndef | Some p \<Rightarrow> get p ''limit'')
      in if \<not> is_finite percent \<or> parent_code = [] \<or> \<not> is_finite parent_limit then None
         else Some (jdiv (jmul parent_limit percent) (Fin 100)))"

definition effective_limit :: "jsval \<Rightarrow> jsval list \<Rightarrow> jsval \<Rightarrow> jnum option" where
  "effective_limit cov sel product_config =
     (let limit = get cov ''limit''
      in case fin_num limit of
           Some n \<Rightarrow> Some n
         | None \<Rightarrow>
             if \<not> nullish limit \<and> limit \<noteq> JStr [] \<and> is_finite (to_num limit) then Some (to_num limit)
             else percent_limit cov sel product_config)"

datatype rating_error = RatingError (error_code: string) (error_message: string) | TypeFault

type_synonym 'a rated = "(rating_error, 'a) outcome"

definition quote_text :: "string \<Rightarrow> string" where
  "quote_text s = [CHR 0x27] @ s @ [CHR 0x27]"

definition step_name :: "jsval \<Rightarrow> jsval" where
  "step_name step = js_or (get step ''name'') (js_or (get step ''field'') (get step ''path''))"

definition default_factor :: "jsval \<Rightarrow> jnum" where
  "default_factor step = num_or (get step ''default'') (Fin 1)"

text \<open>One step of the rating's factors: the running product and the trace.\<close>

definition apply_factor :: "jsval \<Rightarrow> jsval \<Rightarrow> jsval \<Rightarrow> jnum \<times> jsval list \<Rightarrow> jsval \<Rightarrow> (jnum \<times> jsval list) rated" where
  "apply_factor payload risk tables acc step =
     (if nullish step then Inl TypeFault
      else
        let has_path = js_truthy (get step ''path'');
            src = (if has_path then get step ''path'' else JStr (''risks.0.'' @ to_str (get step ''field'')));
            v = (if has_path then get_by_path payload (to_str (get step ''path'')) else get risk (to_str (get step ''field'')));
            found = lookup_factor step v tables
        in if found = None \<and> js_truthy (get step ''required'')
           then Inl (RatingError ''RATING_FACTOR_NOT_FOUND''
             (''No '' @ to_str (step_name step) @ '' rating factor for value '' @ quote_text (str_nc_empty v) @ ''.''))
           else
             let factor = (case found of None \<Rightarrow> default_factor step | Some f \<Rightarrow> f)
             in Inr (jmul (fst acc) factor,
                     snd acc @ [JObj [(''name'', step_name step), (''source'', src), (''value'', js_nc v JNull),
                                      (''factor'', JNum factor), (''matched'', JBool (found \<noteq> None))]]))"

definition term_factor :: "jsval \<Rightarrow> jsval \<Rightarrow> jnum \<times> jsval list" where
  "term_factor payload rating =
     (let months = to_num (js_or (get payload ''termMonths'') (jnat 12));
          factor = get (get rating ''termFactors'') (num_str months)
      in case (is_plain_object (get rating ''termFactors''), fin_num factor) of
           (True, Some f) \<Rightarrow>
             (jmul (Fin 1) f, [JObj [(''name'', JStr ''Term''), (''value'', JNum months), (''factor'', JNum f)]])
         | _ \<Rightarrow> (Fin 1, []))"

definition rating_factors :: "jsval \<Rightarrow> jsval \<Rightarrow> jsval \<Rightarrow> jsval \<Rightarrow> (jnum \<times> jsval list) rated" where
  "rating_factors payload risk rating tables =
     outcome_fold (apply_factor payload risk tables) (term_factor payload rating) (items (get rating ''factors''))"

text \<open>\<open>Math.round(x * 1e6) / 1e6\<close>\<close>

definition round6 :: "jnum \<Rightarrow> jnum" where
  "round6 x = jdiv (jround (jmul x (Fin 1000000))) (Fin 1000000)"

definition item_factor :: "string \<Rightarrow> nat \<Rightarrow> jsval \<Rightarrow> jsval \<Rightarrow> jnum \<Rightarrow> jsval \<Rightarrow> jnum rated" where
  "item_factor list_name index item tables acc step =
     (if nullish step then Inl TypeFault
      else let found = lookup_factor step (get item (to_str (get step ''field''))) tables
           in if found = None \<and> js_truthy (get step ''required'')
              then Inl (RatingError ''RATING_FACTOR_NOT_FOUND''
                (''No '' @ to_str (js_or (get step ''name'') (get step ''field'')) @ '' rating factor for item ''
                   @ nat_str (index + 1) @ '' of '' @ list_name @ ''.''))
              else Inr (jmul acc (case found of None \<Rightarrow> default_factor step | Some f \<Rightarrow> f)))"

definition rate_item ::
  "jsval \<Rightarrow> jsval \<Rightarrow> jnum \<Rightarrow> jnum \<times> jsval list \<Rightarrow> nat \<times> jsval \<Rightarrow> (jnum \<times> jsval list) rated" where
  "rate_item per_item tables per acc entry =
     (case entry of (index, item) \<Rightarrow>
       let list_name = to_str (get per_item ''list''); amount = to_num (get item (to_str (get per_item ''amount'')))
       in if \<not> is_finite amount
          then Inl (RatingError ''RATING_ITEM_AMOUNT_REQUIRED''
            (''Item '' @ nat_str (index + 1) @ '' of '' @ list_name @ '' needs a ''
               @ to_str (get per_item ''amount'') @ '' to be rated.''))
          else outcome_bind (outcome_fold (item_factor list_name index item tables) (Fin 1) (items (get per_item ''factors'')))
                 (\<lambda>factor.
                   let premium = jmul (jmul (jdiv amount per) (to_num (get per_item ''rate''))) factor
                   in Inr (jadd (fst acc) premium,
                           snd acc @ [JObj [(''item'', jnat (index + 1)), (''amount'', JNum amount),
                                            (''factor'', JNum (round6 factor)), (''premium'', JNum (round2 premium))]])))"

definition positive_or_one :: "jsval \<Rightarrow> jnum" where
  "positive_or_one v = (case fin_num v of Some n \<Rightarrow> if jlt (Fin 0) n then n else Fin 1 | None \<Rightarrow> Fin 1)"

subsection \<open>The premium of a coverage\<close>

definition opt_num :: "jnum option \<Rightarrow> jsval" where
  "opt_num n = (case n of None \<Rightarrow> JNull | Some x \<Rightarrow> JNum x)"

text \<open>\<open>`${limit ?? '(none)'}`\<close>\<close>

definition limit_text :: "jnum option \<Rightarrow> string" where
  "limit_text limit = (case limit of None \<Rightarrow> ''(none)'' | Some x \<Rightarrow> num_str x)"

definition coverage_error :: "string \<Rightarrow> string \<Rightarrow> string \<Rightarrow> rating_error" where
  "coverage_error err code rest = RatingError err (''Coverage '' @ quote_text code @ rest)"

text \<open>The amount before factors: the method's name, the amount and the trace of rated items.\<close>

definition method_amount ::
  "jsval \<Rightarrow> jsval \<Rightarrow> jsval \<Rightarrow> jnum option \<Rightarrow> string \<Rightarrow> string \<Rightarrow> jnum option
   \<Rightarrow> (string \<times> jnum \<times> jsval list option) rated" where
  "method_amount config risk tables base product code limit =
     (if is_plain_object (get config ''perItem'') then
        (let per_item = get config ''perItem'';
             rows = items (get risk (to_str (get per_item ''list'')));
             per = positive_or_one (get per_item ''ratePer'')
         in outcome_bind (outcome_fold (rate_item per_item tables per) (Fin 0, []) (indexed 0 rows))
              (\<lambda>(amount, trace). Inr (''perItem'', amount, Some trace)))
      else case fin_num (get config ''rate'') of
        Some rate \<Rightarrow>
          (case limit of
             None \<Rightarrow> Inl (coverage_error ''RATING_LIMIT_REQUIRED'' code '' needs a limit to be rated.'')
           | Some l \<Rightarrow> Inr (''rate'', jmul (jdiv l (positive_or_one (get config ''ratePer''))) rate, None))
      | None \<Rightarrow>
          if is_plain_object (get config ''byLimit'') then
            (case (case limit of None \<Rightarrow> None | Some l \<Rightarrow> fin_num (get (get config ''byLimit'') (num_str l))) of
               None \<Rightarrow> Inl (coverage_error ''RATING_LIMIT_NOT_RATED'' code
                         ('' has no rate for limit '' @ limit_text limit @ ''.''))
             | Some entry \<Rightarrow> Inr (''byLimit'', entry, None))
          else case fin_num (get config ''flat'') of
            Some flat \<Rightarrow> Inr (''flat'', flat, None)
          | None \<Rightarrow>
              (case fin_num (get config ''shareOfBase'') of
                 Some share \<Rightarrow>
                   (case base of
                      None \<Rightarrow> Inl (coverage_error ''RATING_NOT_CONFIGURED'' code
                                '' is a share of the base premium, but no basePremium is set.'')
                    | Some b \<Rightarrow> Inr (''shareOfBase'', jmul b share, None))
               | None \<Rightarrow> Inl (coverage_error ''RATING_COVERAGE_NOT_CONFIGURED'' code
                     ('' has no usable rating method for product '' @ quote_text product @ ''.''))))"

definition deductible_factor :: "jsval \<Rightarrow> jsval \<Rightarrow> jnum option" where
  "deductible_factor config cov =
     (if is_plain_object (get config ''deductibleFactors'') \<and> \<not> nullish (get cov ''deductible'')
      then fin_num (get (get config ''deductibleFactors'') (to_str (get cov ''deductible'')))
      else None)"

definition adjust_amount :: "jsval \<Rightarrow> jsval \<Rightarrow> jnum \<Rightarrow> jnum \<Rightarrow> jnum" where
  "adjust_amount config cov factor_product amount =
     (let a = (if get config ''applyFactors'' \<noteq> JBool False then jmul amount factor_product else amount)
      in case deductible_factor config cov of None \<Rightarrow> a | Some d \<Rightarrow> jmul a d)"

record coverage_line =
  line_code :: string
  line_limit :: jsval
  line_deductible :: jsval
  line_percent :: jsval
  line_package_terms :: jsval
  line_amount :: jnum

definition rate_coverage ::
  "jsval \<Rightarrow> jsval \<Rightarrow> jsval \<Rightarrow> jsval \<Rightarrow> string \<Rightarrow> jnum \<Rightarrow> jsval list
   \<Rightarrow> jnum \<times> coverage_line list \<times> jsval list \<Rightarrow> jsval \<Rightarrow> (jnum \<times> coverage_line list \<times> jsval list) rated" where
  "rate_coverage rating risk tables product_config product factor_product sel acc cov =
     (let code = coverage_code cov
      in case find_coverage_rating (fields_of (get rating ''coverages'')) code of
           None \<Rightarrow> Inl (coverage_error ''RATING_COVERAGE_NOT_CONFIGURED'' code
                     ('' has no rating for product '' @ quote_text product @ ''.''))
         | Some config \<Rightarrow>
             (let limit = effective_limit cov sel product_config
              in outcome_bind
                   (method_amount config risk tables (fin_num (get rating ''basePremium'')) product code limit)
                   (\<lambda>(meth, amount, trace).
                     let premium = round2 (adjust_amount config cov factor_product amount);
                         line = \<lparr>line_code = upper code, line_limit = js_nc (get cov ''limit'') JNull,
                                 line_deductible = js_nc (get cov ''deductible'') JNull,
                                 line_percent = js_nc (get cov ''percent'') JNull,
                                 line_package_terms = get cov ''packageTerms'', line_amount = premium\<rparr>;
                         entry = JObj ([(''code'', JStr (upper code)), (''method'', JStr meth), (''limit'', opt_num limit),
                             (''applyFactors'', JBool (get config ''applyFactors'' \<noteq> JBool False)),
                             (''deductibleFactor'', opt_num (deductible_factor config cov)), (''premium'', JNum premium)]
                             @ (case trace of None \<Rightarrow> [] | Some rows \<Rightarrow> [(''items'', JArr rows)]))
                     in case acc of (subtotal, ls, trs) \<Rightarrow> Inr (jadd subtotal premium, ls @ [line], trs @ [entry]))))"

record rate_result =
  result_lines :: "coverage_line list"
  result_fees :: jnum
  result_taxes :: jnum
  result_total :: jnum
  result_product :: string
  result_version :: jsval
  result_base :: "jnum option"
  result_factor_product :: jnum
  result_factor_trace :: "jsval list"
  result_coverage_trace :: "jsval list"
  result_subtotal :: jnum
  result_min_adjustment :: jnum
  result_tax_rate :: jnum

definition minimum_line :: "jnum \<Rightarrow> coverage_line" where
  "minimum_line amount =
     \<lparr>line_code = ''MIN_PREMIUM'', line_limit = JNull, line_deductible = JNull, line_percent = JNull,
      line_package_terms = JUndef, line_amount = amount\<rparr>"

text \<open>The subtotal and the adjustment the minimum premium asks for.\<close>

definition apply_minimum :: "jsval \<Rightarrow> jnum \<Rightarrow> jnum \<times> jnum option" where
  "apply_minimum minimum subtotal =
     (case fin_num minimum of
        Some m \<Rightarrow> if jlt subtotal m then (round2 m, Some (round2 (jsub m subtotal))) else (subtotal, None)
      | None \<Rightarrow> (subtotal, None))"

definition make_result ::
  "jsval \<Rightarrow> jsval \<Rightarrow> string \<Rightarrow> jnum \<times> jsval list \<Rightarrow> jnum \<times> coverage_line list \<times> jsval list \<Rightarrow> rate_result" where
  "make_result rates rating product fs cs =
     (let (subtotal, adjustment) = apply_minimum (get rating ''minimumPremium'') (round2 (fst cs));
          fees = num_or (get (get rates ''fees'') ''policy'') (Fin 0);
          tax_rate = num_or (get (get rates ''taxes'') ''rate'') (Fin 0);
          taxes = round2 (jmul subtotal tax_rate)
      in \<lparr>result_lines = fst (snd cs) @ (case adjustment of None \<Rightarrow> [] | Some a \<Rightarrow> [minimum_line a]),
          result_fees = round2 fees, result_taxes = taxes,
          result_total = round2 (jadd (jadd subtotal fees) taxes),
          result_product = product, result_version = js_nc (get rates ''version'') JNull,
          result_base = fin_num (get rating ''basePremium''),
          result_factor_product = round6 (fst fs), result_factor_trace = snd fs,
          result_coverage_trace = snd (snd cs), result_subtotal = subtotal,
          result_min_adjustment = (case adjustment of None \<Rightarrow> Fin 0 | Some a \<Rightarrow> a),
          result_tax_rate = tax_rate\<rparr>)"

definition product_code :: "jsval \<Rightarrow> string" where
  "product_code payload = lower (trim (str_or_empty (get payload ''productCode'')))"

definition rated_risk :: "jsval \<Rightarrow> jsval" where
  "rated_risk payload = js_or (case items (get payload ''risks'') of r # _ \<Rightarrow> r | [] \<Rightarrow> JUndef) (JObj [])"

definition selected_coverages :: "jsval \<Rightarrow> jsval list" where
  "selected_coverages payload =
     filter (\<lambda>item. js_truthy item \<and> get item ''selected'' \<noteq> JBool False) (items (get payload ''coverages''))"

definition rate_from_rate_table :: "jsval \<Rightarrow> jsval \<Rightarrow> jsval \<Rightarrow> jsval \<Rightarrow> rate_result rated" where
  "rate_from_rate_table payload rates product_config tables =
     (let product = product_code payload; rating = get rates ''rating''; risk = rated_risk payload;
          sel = selected_coverages payload
      in if \<not> is_plain_object rating
         then Inl (RatingError ''RATING_NOT_CONFIGURED''
           (''Product '' @ quote_text product @ '' has no rating section in its rates file.''))
         else outcome_bind (rating_factors payload risk rating tables) (\<lambda>fs.
           outcome_bind (outcome_fold (rate_coverage rating risk tables product_config product (fst fs) sel) (Fin 0, [], []) sel)
             (\<lambda>cs. Inr (make_result rates rating product fs cs))))"

subsection \<open>The check of a rates file\<close>

datatype issue = RateError string | RateWarning string

fun is_error :: "issue \<Rightarrow> bool" where "is_error (RateError _) = True" | "is_error (RateWarning _) = False"

definition complain :: "bool \<Rightarrow> string \<Rightarrow> issue list" where
  "complain bad msg = (if bad then [RateError msg] else [])"

definition warn :: "bool \<Rightarrow> string \<Rightarrow> issue list" where
  "warn bad msg = (if bad then [RateWarning msg] else [])"

definition num_at_least_0 :: "jsval \<Rightarrow> bool" where
  "num_at_least_0 v = (case fin_num v of None \<Rightarrow> False | Some n \<Rightarrow> jle (Fin 0) n)"

definition num_above_0 :: "jsval \<Rightarrow> bool" where
  "num_above_0 v = (case fin_num v of None \<Rightarrow> False | Some n \<Rightarrow> jlt (Fin 0) n)"

text \<open>A value that is present must satisfy the test.\<close>

definition absent_or :: "(jsval \<Rightarrow> bool) \<Rightarrow> jsval \<Rightarrow> bool" where
  "absent_or test v = (nullish v \<or> test v)"

definition has_text :: "jsval \<Rightarrow> bool" where
  "has_text v = (case v of JStr s \<Rightarrow> trim s \<noteq> [] | _ \<Rightarrow> False)"

definition FACTOR_SOURCES :: "string list" where
  "FACTOR_SOURCES = [''table'', ''ranges'', ''fromTable'']"

definition row_problems :: "string \<Rightarrow> string \<Rightarrow> string \<Rightarrow> jsval \<Rightarrow> jsval \<Rightarrow> issue list" where
  "row_problems label name column tbl row =
     complain (\<not> num_at_least_0 (get row column))
       (label @ '': '' @ quote_text name @ '' row '' @ to_str (get row (to_str (get tbl ''key'')))
         @ '' has no usable '' @ column)"

definition entry_problems :: "string \<Rightarrow> bool \<Rightarrow> string \<times> jsval \<Rightarrow> issue list" where
  "entry_problems label has_ranges entry =
     complain (\<not> num_at_least_0 (snd entry))
       (label @ '': factor for '' @ quote_text (fst entry) @ '' must be a number of 0 or more'')
     @ complain (has_ranges \<and> parse_range (fst entry) = None)
       (label @ '': '' @ quote_text (fst entry) @ '' is not a band; use forms like 1-4, 9+, <25, <=10, >5, >=65'')"

definition check_factor_source :: "jsval \<Rightarrow> string \<Rightarrow> jsval \<Rightarrow> issue list" where
  "check_factor_source step label tables =
     (let sources = filter (\<lambda>key. \<not> nullish (get step key)) FACTOR_SOURCES
      in case sources of
           [src] \<Rightarrow>
             if src = ''fromTable'' then
               (let name = to_str (get step ''fromTable''); tbl = get tables name;
                    column = (case get step ''value'' of JStr s \<Rightarrow> s | _ \<Rightarrow> []);
                    first = (case items (get tbl ''rows'') of r # _ \<Rightarrow> js_or r (JObj []) | [] \<Rightarrow> JObj [])
                in if \<not> js_truthy tbl
                   then [RateError (label @ '': lookup table '' @ quote_text name @ '' is not in the pack'')]
                   else if column = [] \<or> own first column = None
                   then [RateError (label @ '': value must name the column of '' @ quote_text name @ '' that holds the factor'')]
                   else concat (map (row_problems label name column tbl) (items (get tbl ''rows''))))
             else
               (let entries = get step src
                in if \<not> is_plain_object entries \<or> fields_of entries = []
                   then [RateError (label @ '': '' @ src @ '' must be a non-empty mapping'')]
                   else concat (map (entry_problems label (src = ''ranges'')) (own_entries (fields_of entries))))
         | _ \<Rightarrow> [RateError (label @ '': set exactly one of table, ranges, or fromTable'')])"

definition step_label :: "string \<Rightarrow> nat \<Rightarrow> jsval \<Rightarrow> string" where
  "step_label prefix index step =
     prefix @ ''['' @ nat_str (index + 1) @ '']''
       @ (if js_truthy (get step ''name'') then '' ('' @ to_str (get step ''name'') @ '')'' else [])"

definition check_factor_step :: "string list \<Rightarrow> jsval \<Rightarrow> nat \<times> jsval \<Rightarrow> issue list" where
  "check_factor_step known tables entry =
     (case entry of (index, step) \<Rightarrow>
       let label = step_label ''rating.factors'' index step;
           has_field = has_text (get step ''field''); has_path = has_text (get step ''path'')
       in if \<not> is_plain_object step then [RateError (label @ '': must be a mapping'')]
          else complain (has_field = has_path)
                 (label @ '': set exactly one of field (a risk field) or path (anywhere on the quote)'')
               @ check_factor_source step label tables
               @ complain (\<not> absent_or num_at_least_0 (get step ''default''))
                   (label @ '': default must be a number of 0 or more'')
               @ warn (has_field \<and> known \<noteq> [] \<and> trim (to_str (get step ''field'')) \<notin> set known)
                   (label @ '': reads field '' @ quote_text (to_str (get step ''field'')) @ '', which the product does not define''))"

definition COVERAGE_METHODS :: "string list" where
  "COVERAGE_METHODS = [''rate'', ''byLimit'', ''flat'', ''shareOfBase'', ''perItem'']"

definition check_item_step :: "string \<Rightarrow> string \<Rightarrow> string list option \<Rightarrow> jsval \<Rightarrow> nat \<times> jsval \<Rightarrow> issue list" where
  "check_item_step label list_name columns tables entry =
     (case entry of (index, step) \<Rightarrow>
       let lbl = step_label (label @ ''.perItem.factors'') index step; field = get step ''field''
       in if \<not> is_plain_object step then [RateError (lbl @ '': must be a mapping'')]
          else (if \<not> has_text field then [RateError (lbl @ '': field must name a column of the item'')]
                else case columns of
                       None \<Rightarrow> []
                     | Some cols \<Rightarrow> complain (trim (to_str field) \<notin> set cols)
                         (lbl @ '': '' @ quote_text (to_str field) @ '' is not a column of '' @ list_name))
               @ check_factor_source step lbl tables)"

definition check_per_item :: "string \<Rightarrow> (string \<times> string list) list \<Rightarrow> jsval \<Rightarrow> jsval \<Rightarrow> issue list" where
  "check_per_item label list_columns tables per_item =
     (if \<not> is_plain_object per_item then [RateError (label @ '': perItem must be a mapping'')]
      else
        let name = to_str (get per_item ''list''); columns = aget list_columns name;
            amount = to_str (get per_item ''amount'')
        in (case columns of
              None \<Rightarrow> [RateError (label @ '': perItem.list '' @ quote_text name @ '' is not a list field of the product'')]
            | Some cols \<Rightarrow> complain (amount \<notin> set cols)
                (label @ '': perItem.amount '' @ quote_text amount @ '' is not a column of '' @ name))
           @ complain (\<not> num_at_least_0 (get per_item ''rate'')) (label @ '': perItem.rate must be a number of 0 or more'')
           @ complain (\<not> absent_or num_above_0 (get per_item ''ratePer'')) (label @ '': perItem.ratePer must be a number above 0'')
           @ complain (\<not> absent_or is_arr (get per_item ''factors'')) (label @ '': perItem.factors must be a list'')
           @ concat (map (check_item_step label name columns tables) (indexed 0 (items (get per_item ''factors'')))))"

definition check_by_limit :: "string \<Rightarrow> jsval \<Rightarrow> issue list" where
  "check_by_limit label table =
     (if \<not> is_plain_object table \<or> fields_of table = []
      then [RateError (label @ '': byLimit must map each limit to a premium'')]
      else concat (map (\<lambda>(limit, premium). complain (\<not> num_at_least_0 premium)
             (label @ '': premium for limit '' @ limit @ '' must be a number of 0 or more'')) (own_entries (fields_of table))))"

definition check_method :: "string \<Rightarrow> (string \<times> string list) list \<Rightarrow> jsval \<Rightarrow> jsval \<Rightarrow> string \<Rightarrow> jsval \<Rightarrow> issue list" where
  "check_method label list_columns tables rating meth config =
     (if meth = ''rate'' then
        complain (\<not> num_at_least_0 (get config ''rate'')) (label @ '': rate must be a number of 0 or more'')
        @ complain (\<not> absent_or num_above_0 (get config ''ratePer'')) (label @ '': ratePer must be a number above 0'')
      else if meth = ''flat'' then
        complain (\<not> num_at_least_0 (get config ''flat'')) (label @ '': flat must be a number of 0 or more'')
      else if meth = ''perItem'' then check_per_item label list_columns tables (get config ''perItem'')
      else if meth = ''shareOfBase'' then
        complain (\<not> num_at_least_0 (get config ''shareOfBase'')) (label @ '': shareOfBase must be a number of 0 or more'')
        @ complain (fin_num (get rating ''basePremium'') = None) (label @ '': shareOfBase needs rating.basePremium'')
      else check_by_limit label (get config ''byLimit''))"

definition check_deductibles :: "string \<Rightarrow> jsval \<Rightarrow> issue list" where
  "check_deductibles label table =
     (if nullish table then []
      else if \<not> is_plain_object table then [RateError (label @ '': deductibleFactors must map each deductible to a factor'')]
      else concat (map (\<lambda>(deductible, factor). complain (\<not> num_at_least_0 factor)
             (label @ '': deductible factor for '' @ deductible @ '' must be a number of 0 or more'')) (own_entries (fields_of table))))"

type_synonym product_coverages = "(string \<times> jsval) list"

definition product_codes :: "jsval \<Rightarrow> product_coverages" where
  "product_codes product_config =
     foldl (\<lambda>acc item. aput acc (lower (str_or_empty (get item ''code''))) item) [] (items (get product_config ''coverages''))"

definition check_coverage ::
  "(string \<times> string list) list \<Rightarrow> jsval \<Rightarrow> jsval \<Rightarrow> product_coverages \<Rightarrow> string \<times> jsval \<Rightarrow> issue list" where
  "check_coverage list_columns tables rating codes entry =
     (case entry of (code, config) \<Rightarrow>
       let label = ''rating.coverages.'' @ code;
           methods = filter (\<lambda>m. \<not> nullish (get config m)) COVERAGE_METHODS;
           def = (case aget codes (lower code) of None \<Rightarrow> JUndef | Some d \<Rightarrow> d)
       in if \<not> is_plain_object config then [RateError (label @ '': must be a mapping'')]
          else case methods of
            [meth] \<Rightarrow>
              check_method label list_columns tables rating meth config
              @ check_deductibles label (get config ''deductibleFactors'')
              @ warn (code \<noteq> ''default'' \<and> aget codes (lower code) = None)
                  (label @ '': '' @ quote_text code @ '' is not a coverage of this product'')
              @ (if meth = ''byLimit'' \<and> is_plain_object (get config ''byLimit'') \<and> is_arr (get def ''limits'')
                 then concat (map (\<lambda>limit. complain (fin_num (get (get config ''byLimit'') (to_str limit)) = None)
                        (label @ '': no premium for limit '' @ to_str limit @ '', which the product offers'')) (items (get def ''limits'')))
                 else [])
              @ warn (meth = ''rate'' \<and> js_truthy def \<and> \<not> is_arr (get def ''limits'')
                    \<and> get def ''limitType'' \<noteq> JStr ''value'' \<and> \<not> js_truthy (get def ''limitAsPercentOf''))
                  (label @ '': priced per unit of limit, but the coverage defines no limit'')
          | _ \<Rightarrow> [RateError (label @ '': set exactly one pricing method (rate, byLimit, flat, shareOfBase, or perItem)'')])"

definition check_term_factors :: "jsval \<Rightarrow> issue list" where
  "check_term_factors table =
     (if nullish table then []
      else if \<not> is_plain_object table then [RateError ''rating.termFactors must map term months to a factor'']
      else concat (map (\<lambda>(term, factor). complain (term = [] \<or> \<not> list_all is_digit term \<or> \<not> num_above_0 factor)
             (''rating.termFactors: '' @ quote_text term @ '' must be a number of months with a factor above 0''))
           (own_entries (fields_of table))))"

definition check_product_coverage :: "fields \<Rightarrow> jsval \<Rightarrow> issue list" where
  "check_product_coverage coverages item =
     (let code = str_or_empty (get item ''code'');
          priced = list_ex (\<lambda>(key, _). key \<noteq> ''default'' \<and> lower key = lower code) coverages
      in complain (code \<noteq> [] \<and> \<not> priced \<and> \<not> is_plain_object (get (JObj coverages) ''default''))
           (''rating.coverages: coverage '' @ quote_text code @ '' has no pricing and there is no default''))"

definition rate_below_1 :: "jsval \<Rightarrow> bool" where
  "rate_below_1 v = (num_at_least_0 v \<and> (case fin_num v of None \<Rightarrow> False | Some n \<Rightarrow> jlt n (Fin 1)))"

definition validate_rate_table ::
  "jsval \<Rightarrow> jsval \<Rightarrow> string list \<Rightarrow> jsval \<Rightarrow> (string \<times> string list) list \<Rightarrow> issue list" where
  "validate_rate_table rates product_config known tables list_columns =
     (let rating = get rates ''rating''; coverages = get rating ''coverages''; codes = product_codes product_config
      in if \<not> is_plain_object rating then [RateError (''ratingAdapter is '' @ quote_text ''rate-table'' @ '' but there is no rating section'')]
         else
           complain (\<not> absent_or num_at_least_0 (get rating ''basePremium'')) ''rating.basePremium must be a number of 0 or more''
           @ complain (\<not> absent_or num_at_least_0 (get rating ''minimumPremium'')) ''rating.minimumPremium must be a number of 0 or more''
           @ check_term_factors (get rating ''termFactors'')
           @ complain (\<not> absent_or is_arr (get rating ''factors'')) ''rating.factors must be a list''
           @ concat (map (check_factor_step known tables) (indexed 0 (items (get rating ''factors''))))
           @ (if \<not> is_plain_object coverages \<or> fields_of coverages = []
              then [RateError ''rating.coverages must list how each coverage is priced'']
              else
                concat (map (check_coverage list_columns tables rating codes) (own_entries (fields_of coverages)))
                @ concat (map (check_product_coverage (fields_of coverages)) (items (get product_config ''coverages'')))
                @ complain (\<not> absent_or num_at_least_0 (get (get rates ''fees'') ''policy'')) ''fees.policy must be a number of 0 or more''
                @ complain (\<not> absent_or rate_below_1 (get (get rates ''taxes'') ''rate'')) ''taxes.rate must be a fraction between 0 and 1''))"

text \<open>The lookup tables a configuration reads, each once.\<close>

definition scan_tables :: "jsval \<Rightarrow> string list" where
  "scan_tables steps =
     concat (map (\<lambda>step. case get step ''fromTable'' of JStr s \<Rightarrow> if trim s \<noteq> [] then [trim s] else [] | _ \<Rightarrow> []) (items steps))"

definition tables_used_by_rates :: "jsval \<Rightarrow> string list" where
  "tables_used_by_rates rates =
     (let rating = get rates ''rating''
      in dedupe (scan_tables (get rating ''factors'')
           @ concat (map (\<lambda>(_, coverage). scan_tables (get (get coverage ''perItem'') ''factors''))
                (own_entries (fields_of (get rating ''coverages''))))))"

subsection \<open>Numbers that are not negative\<close>

text \<open>Not below zero: a number of 0 or more, an overflow to infinity, or NaN from one.\<close>

definition not_neg :: "jnum \<Rightarrow> bool" where
  "not_neg a = (\<not> jlt a (Fin 0))"

lemma not_neg_simps [simp]:
  "not_neg (Fin x) \<longleftrightarrow> 0 \<le> x" "not_neg NaN" "not_neg PInf" "\<not> not_neg NInf"
  by (auto simp: not_neg_def)

lemma jnonneg_not_neg: "jnonneg a \<Longrightarrow> not_neg a"
  by (cases a) auto

lemma fl_not_neg: "0 \<le> x \<Longrightarrow> not_neg (fl x)"
  by (simp add: fl_nonneg jnonneg_not_neg)

lemma not_neg_jinf: "0 \<le> s \<Longrightarrow> not_neg (jinf s)"
  by (simp add: jinf_def)

lemma not_neg_arith [intro]:
  "not_neg a \<Longrightarrow> not_neg b \<Longrightarrow> not_neg (jadd a b)"
  "not_neg a \<Longrightarrow> not_neg b \<Longrightarrow> not_neg (jmul a b)"
  "not_neg a \<Longrightarrow> 0 < y \<Longrightarrow> not_neg (jdiv a (Fin y))"
  "not_neg a \<Longrightarrow> not_neg (jround a)"
  subgoal by (cases a; cases b) (auto simp: fl_not_neg)
  subgoal by (cases a; cases b) (auto simp: fl_not_neg not_neg_jinf sgn_if)
  subgoal by (cases a) (auto simp: fl_not_neg not_neg_jinf)
  subgoal by (cases a) auto
  done

lemma not_neg_round2 [intro]: "not_neg a \<Longrightarrow> not_neg (round2 a)"
  unfolding round2_def by (intro not_neg_arith) auto

lemma fin_num_iff: "fin_num v = Some n \<longleftrightarrow> (\<exists>x. v = JNum (Fin x) \<and> n = Fin x)"
  by (auto elim!: fin_num.elims)

lemma num_at_least_0_iff: "num_at_least_0 v \<longleftrightarrow> (\<exists>x \<ge> 0. v = JNum (Fin x))"
  by (auto simp: num_at_least_0_def fin_num_iff split: option.splits)

lemma num_above_0_iff: "num_above_0 v \<longleftrightarrow> (\<exists>x > 0. v = JNum (Fin x))"
  by (auto simp: num_above_0_def fin_num_iff split: option.splits)

subsection \<open>What a configuration without errors guarantees\<close>

definition no_errors :: "issue list \<Rightarrow> bool" where
  "no_errors xs = (\<not> list_ex is_error xs)"

lemma no_errors_simps [simp]:
  "no_errors []" "no_errors (xs @ ys) \<longleftrightarrow> no_errors xs \<and> no_errors ys" "\<not> no_errors (RateError m # xs)"
  "no_errors (complain bad m) \<longleftrightarrow> \<not> bad" "no_errors (warn bad m)"
  by (auto simp: no_errors_def complain_def warn_def)

lemma no_errors_concat [simp]: "no_errors (concat (map f xs)) \<longleftrightarrow> (\<forall>x \<in> set xs. no_errors (f x))"
  by (induction xs) auto

lemma find_first_own_entries:
  "find_first P (own_entries kvs) = Some (k, v) \<Longrightarrow> (k, v) \<in> set (own_entries kvs) \<and> P (k, v)"
  by (rule find_first_Some)

lemma single_source:
  "filter P FACTOR_SOURCES = [src] \<Longrightarrow>
    (src = ''table'' \<and> P ''table'' \<and> \<not> P ''ranges'' \<and> \<not> P ''fromTable'')
    \<or> (src = ''ranges'' \<and> \<not> P ''table'' \<and> P ''ranges'' \<and> \<not> P ''fromTable'')
    \<or> (src = ''fromTable'' \<and> \<not> P ''table'' \<and> \<not> P ''ranges'' \<and> P ''fromTable'')"
  by (auto simp: FACTOR_SOURCES_def split: if_splits)

lemma table_factor_not_neg:
  assumes "\<forall>row \<in> set (items (get tbl ''rows'')). num_at_least_0 (get row (to_str column))"
    and "table_factor tbl column raw = Some f"
  shows "not_neg f"
proof -
  obtain row where "row \<in> set (items (get tbl ''rows''))" "f = to_num (get row (to_str column))"
    using assms(2) by (auto simp: table_factor_def Let_def split: option.splits if_splits dest!: find_first_Some)
  with assms(1) show ?thesis by (auto simp: num_at_least_0_iff)
qed

lemma entries_factor_not_neg:
  assumes "\<forall>entry \<in> set kvs. num_at_least_0 (snd entry)"
    and "find_first P (own_entries kvs) = Some (k, v)" "fin_num v = Some f"
  shows "not_neg f"
proof -
  have "num_at_least_0 v" using assms(1) find_first_own_entries [OF assms(2)] by fastforce
  with assms(3) show ?thesis by (auto simp: num_at_least_0_iff)
qed

lemma lookup_factor_not_neg:
  assumes "no_errors (check_factor_source step label tables)" and "lookup_factor step raw tables = Some f"
  shows "not_neg f"
proof -
  obtain src where src: "filter (\<lambda>key. \<not> nullish (get step key)) FACTOR_SOURCES = [src]"
    using assms(1) by (auto simp: check_factor_source_def Let_def split: list.splits)
  from single_source [OF src]
  consider (tbl) "src = ''table''" "nullish (get step ''ranges'')" "nullish (get step ''fromTable'')"
    | (ranges) "src = ''ranges''" "nullish (get step ''table'')" "nullish (get step ''fromTable'')"
    | (fromt) "src = ''fromTable''" "nullish (get step ''table'')" "nullish (get step ''ranges'')" by blast
  then show ?thesis
  proof cases
    case tbl
    then have "\<forall>entry \<in> set (fields_of (get step ''table'')). num_at_least_0 (snd entry)"
      using assms(1) src by (auto simp: check_factor_source_def entry_problems_def Let_def split: if_splits)
    with tbl assms(2) show ?thesis
      by (auto simp: lookup_factor_def inline_factor_def is_plain_object_def split: if_splits option.splits
          elim: entries_factor_not_neg nullish.elims)
  next
    case ranges
    then have "\<forall>entry \<in> set (fields_of (get step ''ranges'')). num_at_least_0 (snd entry)"
      using assms(1) src by (auto simp: check_factor_source_def entry_problems_def Let_def split: if_splits)
    with ranges assms(2) show ?thesis
      by (auto simp: lookup_factor_def range_factor_def is_plain_object_def Let_def split: if_splits option.splits
          elim: entries_factor_not_neg nullish.elims)
  next
    case fromt
    let ?tbl = "get tables (to_str (get step ''fromTable''))"
    have "\<forall>row \<in> set (items (get ?tbl ''rows'')). num_at_least_0 (get row (to_str (get step ''value'')))"
      using assms(1) src fromt
      by (auto simp: check_factor_source_def row_problems_def Let_def split: if_splits jsval.splits)
    with fromt assms(2) show ?thesis
      by (auto simp: lookup_factor_def is_plain_object_def split: if_splits
          elim: table_factor_not_neg nullish.elims)
  qed
qed

lemma default_factor_not_neg: "absent_or num_at_least_0 (get step ''default'') \<Longrightarrow> not_neg (default_factor step)"
  by (auto simp: default_factor_def num_or_def absent_or_def num_at_least_0_iff fin_num_iff split: option.splits
      elim!: nullish.elims)

subsection \<open>Premiums are never negative\<close>

definition step_ok :: "jsval \<Rightarrow> jsval \<Rightarrow> bool" where
  "step_ok tables step =
     (is_plain_object step \<and> (\<exists>label. no_errors (check_factor_source step label tables))
      \<and> absent_or num_at_least_0 (get step ''default''))"

lemma step_ok_not_neg:
  assumes "step_ok tables step"
  shows "lookup_factor step raw tables = Some f \<Longrightarrow> not_neg f" "not_neg (default_factor step)"
  using assms by (auto simp: step_ok_def lookup_factor_not_neg default_factor_not_neg)

lemma indexed_snd: "entry \<in> set (indexed n xs) \<Longrightarrow> snd entry \<in> set xs"
  by (metis map_snd_indexed image_eqI set_map)

lemma apply_factor_not_neg:
  assumes "step_ok tables step" "not_neg (fst acc)" "apply_factor payload risk tables acc step = Inr acc'"
  shows "not_neg (fst acc')"
  using assms
  by (auto simp: apply_factor_def Let_def split: if_splits option.splits
      intro!: not_neg_arith(2) intro: step_ok_not_neg)

lemma rating_factors_not_neg:
  assumes "no_errors (check_term_factors (get rating ''termFactors''))"
    and "\<forall>step \<in> set (items (get rating ''factors'')). step_ok tables step"
    and "rating_factors payload risk rating tables = Inr fs"
  shows "not_neg (fst fs)"
  using assms(3) unfolding rating_factors_def
proof (rule outcome_fold_invariant)
  have "not_neg f" if *: "fin_num (get (get rating ''termFactors'') k) = Some f" "is_plain_object (get rating ''termFactors'')" for k f
  proof -
    obtain kvs where kvs: "get rating ''termFactors'' = JObj kvs"
      using * by (auto simp: is_plain_object_def elim: is_obj.elims)
    with * have "aget kvs k = Some (JNum f)"
      by (auto simp: fin_num_iff split: option.splits)
    then have "(k, JNum f) \<in> set kvs" by (rule aget_Some_in)
    with assms(1) kvs have "num_above_0 (JNum f)" by (fastforce simp: check_term_factors_def is_plain_object_def)
    then show ?thesis by (auto simp: num_above_0_iff)
  qed
  then show "not_neg (fst (term_factor payload rating))"
    by (auto simp: term_factor_def Let_def split: bool.splits option.splits)
next
  fix a x b assume "not_neg (fst a)" "x \<in> set (items (get rating ''factors''))"
    "apply_factor payload risk tables a x = Inr b"
  with assms(2) show "not_neg (fst b)" by (auto intro: apply_factor_not_neg)
qed

lemma item_factor_not_neg:
  assumes "step_ok tables step" "not_neg acc" "item_factor lname i item tables acc step = Inr acc'"
  shows "not_neg acc'"
  using assms
  by (auto simp: item_factor_def Let_def split: if_splits option.splits
      intro!: not_neg_arith(2) intro: step_ok_not_neg)

lemma positive_or_one: "\<exists>y > 0. positive_or_one v = Fin y"
  by (auto simp: positive_or_one_def fin_num_iff split: option.splits)

definition per_item_ok :: "jsval \<Rightarrow> jsval \<Rightarrow> bool" where
  "per_item_ok tables per_item =
     (num_at_least_0 (get per_item ''rate'') \<and> (\<forall>step \<in> set (items (get per_item ''factors'')). step_ok tables step))"

lemma rate_item_not_neg:
  assumes "per_item_ok tables per_item" and "not_neg (to_num (get (snd entry) (to_str (get per_item ''amount''))))"
    and "0 < y" "not_neg (fst acc)" "rate_item per_item tables (Fin y) acc entry = Inr acc'"
  shows "not_neg (fst acc')"
proof -
  obtain i item where entry: "entry = (i, item)" by force
  from assms(5) obtain factor where
    factor: "outcome_fold (item_factor (to_str (get per_item ''list'')) i item tables) (Fin 1) (items (get per_item ''factors'')) = Inr factor"
    and acc': "fst acc' = jadd (fst acc) (jmul (jmul (jdiv (to_num (get item (to_str (get per_item ''amount'')))) (Fin y))
      (to_num (get per_item ''rate''))) factor)"
    by (auto simp: rate_item_def entry Let_def split: if_splits)
  have "not_neg factor" using factor
  proof (rule outcome_fold_invariant)
    fix a x b assume "not_neg a" "x \<in> set (items (get per_item ''factors''))"
      "item_factor (to_str (get per_item ''list'')) i item tables a x = Inr b"
    with assms(1) show "not_neg b" by (auto simp: per_item_ok_def intro: item_factor_not_neg)
  qed simp
  moreover have "not_neg (to_num (get per_item ''rate''))"
    using assms(1) by (auto simp: per_item_ok_def num_at_least_0_iff)
  ultimately show ?thesis using assms(2-4) unfolding acc' entry by (auto intro!: not_neg_arith)
qed

text \<open>The configuration of a coverage whose amounts and factors are all 0 or more.\<close>

definition config_ok :: "jsval \<Rightarrow> jsval \<Rightarrow> bool" where
  "config_ok tables config =
     ((is_plain_object (get config ''perItem'') \<longrightarrow> per_item_ok tables (get config ''perItem''))
      \<and> (\<forall>k \<in> {''rate'', ''flat'', ''shareOfBase''}. \<forall>n. fin_num (get config k) = Some n \<longrightarrow> not_neg n)
      \<and> (\<forall>k \<in> {''byLimit'', ''deductibleFactors''}. is_plain_object (get config k) \<longrightarrow>
            (\<forall>entry \<in> set (fields_of (get config k)). num_at_least_0 (snd entry))))"

lemma entry_value:
  assumes "is_plain_object v" "\<forall>entry \<in> set (fields_of v). num_at_least_0 (snd entry)" "fin_num (get v k) = Some n"
  shows "not_neg n"
proof -
  obtain kvs where "v = JObj kvs" using assms(1) by (auto simp: is_plain_object_def elim: is_obj.elims)
  moreover from this assms(3) have "aget kvs k = Some (JNum n)" by (auto simp: fin_num_iff split: option.splits)
  then have "(k, JNum n) \<in> set kvs" by (rule aget_Some_in)
  ultimately show ?thesis using assms(2) by (auto simp: num_at_least_0_iff)
qed

text \<open>The amounts of the items a per-item coverage rates.\<close>

definition items_not_neg :: "jsval \<Rightarrow> jsval \<Rightarrow> bool" where
  "items_not_neg risk config =
     (\<forall>item \<in> set (items (get risk (to_str (get (get config ''perItem'') ''list'')))).
        not_neg (to_num (get item (to_str (get (get config ''perItem'') ''amount'')))))"

lemma method_amount_not_neg:
  assumes "config_ok tables config" "items_not_neg risk config"
    and "case limit of None \<Rightarrow> True | Some l \<Rightarrow> not_neg l" "case base of None \<Rightarrow> True | Some b \<Rightarrow> not_neg b"
    and "method_amount config risk tables base product code limit = Inr (m, amount, trace)"
  shows "not_neg amount"
proof (cases "is_plain_object (get config ''perItem'')")
  case True
  obtain y where y: "0 < y" "positive_or_one (get (get config ''perItem'') ''ratePer'') = Fin y"
    using positive_or_one by blast
  from assms(5) True y obtain tr where
    "outcome_fold (rate_item (get config ''perItem'') tables (Fin y)) (Fin 0, [])
       (indexed 0 (items (get risk (to_str (get (get config ''perItem'') ''list''))))) = Inr (amount, tr)"
    by (auto simp: method_amount_def Let_def)
  then have "not_neg (fst (amount, tr))"
  proof (rule outcome_fold_invariant)
    fix a x b assume a: "not_neg (fst a)" "x \<in> set (indexed 0 (items (get risk (to_str (get (get config ''perItem'') ''list'')))))"
      "rate_item (get config ''perItem'') tables (Fin y) a x = Inr b"
    from a(2) have "snd x \<in> set (items (get risk (to_str (get (get config ''perItem'') ''list''))))"
      by (rule indexed_snd)
    with assms(2) have "not_neg (to_num (get (snd x) (to_str (get (get config ''perItem'') ''amount''))))"
      by (simp add: items_not_neg_def)
    with a y True assms(1) show "not_neg (fst b)" by (auto simp: config_ok_def intro: rate_item_not_neg)
  qed simp
  then show ?thesis by simp
next
  case False
  obtain y where y: "0 < y" "positive_or_one (get config ''ratePer'') = Fin y" using positive_or_one by blast
  have entry: "not_neg n" if "is_plain_object (get config ''byLimit'')" "fin_num (get (get config ''byLimit'') k) = Some n" for k n
    using assms(1) that by (intro entry_value [OF that(1) _ that(2)]) (simp add: config_ok_def)
  have parts: "fin_num (get config ''rate'') = Some n \<Longrightarrow> not_neg n" "fin_num (get config ''flat'') = Some n \<Longrightarrow> not_neg n"
    "fin_num (get config ''shareOfBase'') = Some n \<Longrightarrow> not_neg n" for n
    using assms(1) by (simp_all add: config_ok_def)
  show ?thesis
    using assms(3-5) False y
    by (auto simp: method_amount_def Let_def dest: parts entry split: option.splits if_splits)
qed

lemma deductible_not_neg:
  "config_ok tables config \<Longrightarrow> deductible_factor config cov = Some d \<Longrightarrow> not_neg d"
  by (auto simp: deductible_factor_def config_ok_def intro: entry_value split: if_splits)

lemma adjust_not_neg:
  "config_ok tables config \<Longrightarrow> not_neg fp \<Longrightarrow> not_neg a \<Longrightarrow> not_neg (adjust_amount config cov fp a)"
  by (auto simp: adjust_amount_def Let_def split: option.splits intro!: not_neg_arith(2) intro: deductible_not_neg)

lemma find_coverage_rating_in:
  "find_coverage_rating kvs code = Some config \<Longrightarrow> is_plain_object config \<and> (\<exists>k. (k, config) \<in> set kvs)"
  by (auto simp: find_coverage_rating_def is_plain_object_def Let_def split: option.splits if_splits
      dest!: find_first_Some aget_Some_in)

lemma check_factor_step_ok: "no_errors (check_factor_step known tables (i, step)) \<Longrightarrow> step_ok tables step"
  by (auto simp: check_factor_step_def step_ok_def Let_def split: if_splits)

lemma check_item_step_ok:
  assumes "no_errors (check_item_step label lname columns tables (i, step))"
  shows "is_plain_object step" "\<exists>l. no_errors (check_factor_source step l tables)"
  using assms by (auto simp: check_item_step_def Let_def split: if_splits)

lemma single_method:
  assumes "filter P COVERAGE_METHODS = [m]"
  shows "m \<in> set COVERAGE_METHODS" "P m" "m' \<in> set COVERAGE_METHODS \<Longrightarrow> m' \<noteq> m \<Longrightarrow> \<not> P m'"
proof -
  have "set (filter P COVERAGE_METHODS) = {m}" using assms by simp
  then show "m \<in> set COVERAGE_METHODS" "P m" "m' \<in> set COVERAGE_METHODS \<Longrightarrow> m' \<noteq> m \<Longrightarrow> \<not> P m'" by auto
qed

text \<open>The defaults of a per-item coverage's factors, which the check of the file does not look at.\<close>

definition item_defaults_ok :: "jsval \<Rightarrow> bool" where
  "item_defaults_ok config =
     (\<forall>step \<in> set (items (get (get config ''perItem'') ''factors'')). absent_or num_at_least_0 (get step ''default''))"

text \<open>A pricing method the rating can use.\<close>

definition usable :: "jsval \<Rightarrow> jsval \<Rightarrow> bool" where
  "usable rating config =
     ((is_plain_object (get config ''perItem'') \<longrightarrow>
         (\<forall>step \<in> set (items (get (get config ''perItem'') ''factors'')). is_plain_object step))
      \<and> (is_plain_object (get config ''perItem'') \<or> fin_num (get config ''rate'') \<noteq> None
         \<or> is_plain_object (get config ''byLimit'') \<or> fin_num (get config ''flat'') \<noteq> None
         \<or> (fin_num (get config ''shareOfBase'') \<noteq> None \<and> fin_num (get rating ''basePremium'') \<noteq> None)))"

lemma in_indexed: "x \<in> set xs \<Longrightarrow> \<exists>i. (i, x) \<in> set (indexed n xs)"
  by (induction xs arbitrary: n) auto

lemma check_per_item_ok:
  assumes "no_errors (check_per_item label lc tables per_item)"
  shows "is_plain_object per_item" "num_at_least_0 (get per_item ''rate'')"
    "\<forall>step \<in> set (items (get per_item ''factors'')). is_plain_object step \<and> (\<exists>l. no_errors (check_factor_source step l tables))"
proof -
  show "is_plain_object per_item" "num_at_least_0 (get per_item ''rate'')"
    using assms by (auto simp: check_per_item_def Let_def split: if_splits)
  show "\<forall>step \<in> set (items (get per_item ''factors'')). is_plain_object step \<and> (\<exists>l. no_errors (check_factor_source step l tables))"
  proof
    fix step assume "step \<in> set (items (get per_item ''factors''))"
    then obtain i where "(i, step) \<in> set (indexed 0 (items (get per_item ''factors'')))"
      using in_indexed [of step _ 0] by blast
    with assms show "is_plain_object step \<and> (\<exists>l. no_errors (check_factor_source step l tables))"
      using check_item_step_ok by (fastforce simp: check_per_item_def Let_def split: if_splits)
  qed
qed

lemma check_coverage_ok:
  assumes "no_errors (check_coverage lc tables rating codes (code, config))"
  shows "is_plain_object config" "item_defaults_ok config \<Longrightarrow> config_ok tables config" "usable rating config"
proof -
  obtain m where m: "filter (\<lambda>m. \<not> nullish (get config m)) COVERAGE_METHODS = [m]"
    using assms by (auto simp: check_coverage_def Let_def split: if_splits list.splits)
  note single = single_method [OF m]
  have meth: "no_errors (check_method (''rating.coverages.'' @ code) lc tables rating m config)"
    and ded: "no_errors (check_deductibles (''rating.coverages.'' @ code) (get config ''deductibleFactors''))"
    and plain: "is_plain_object config"
    using assms m by (auto simp: check_coverage_def Let_def split: if_splits)
  show "is_plain_object config" by (rule plain)
  have ded': "\<forall>entry \<in> set (fields_of (get config ''deductibleFactors'')). num_at_least_0 (snd entry)"
    if "is_plain_object (get config ''deductibleFactors'')"
    using ded that by (cases "get config ''deductibleFactors''") (auto simp: check_deductibles_def is_plain_object_def)
  have other: "fin_num (get config k) = None" "\<not> is_plain_object (get config k)"
    if "k \<in> set COVERAGE_METHODS" "k \<noteq> m" for k
    using single(3) [OF that] by (cases "get config k"; simp add: is_plain_object_def)+
  have ms: "''rate'' \<in> set COVERAGE_METHODS" "''flat'' \<in> set COVERAGE_METHODS" "''byLimit'' \<in> set COVERAGE_METHODS"
    "''shareOfBase'' \<in> set COVERAGE_METHODS" "''perItem'' \<in> set COVERAGE_METHODS"
    by (simp_all add: COVERAGE_METHODS_def)
  from single(1) consider "m = ''rate''" | "m = ''flat''" | "m = ''shareOfBase''" | "m = ''byLimit''" | "m = ''perItem''"
    unfolding COVERAGE_METHODS_def by (simp only: list.set insert_iff empty_iff) blast
  then have both: "(item_defaults_ok config \<longrightarrow> config_ok tables config) \<and> usable rating config"
  proof cases
    case 1
    with meth have "num_at_least_0 (get config ''rate'')" by (simp add: check_method_def)
    then show ?thesis
      using other [OF ms(2)] other [OF ms(3)] other [OF ms(4)] other [OF ms(5)] ded' 1
      by (auto simp: config_ok_def usable_def num_at_least_0_iff)
  next
    case 2
    with meth have "num_at_least_0 (get config ''flat'')" by (simp add: check_method_def)
    then show ?thesis
      using other [OF ms(1)] other [OF ms(3)] other [OF ms(4)] other [OF ms(5)] ded' 2
      by (auto simp: config_ok_def usable_def num_at_least_0_iff)
  next
    case 3
    with meth have "num_at_least_0 (get config ''shareOfBase'')" "fin_num (get rating ''basePremium'') \<noteq> None"
      by (simp_all add: check_method_def)
    then show ?thesis
      using other [OF ms(1)] other [OF ms(2)] other [OF ms(3)] other [OF ms(5)] ded' 3
      by (auto simp: config_ok_def usable_def num_at_least_0_iff)
  next
    case 4
    then have "is_plain_object (get config ''byLimit'')"
      "\<forall>entry \<in> set (fields_of (get config ''byLimit'')). num_at_least_0 (snd entry)"
      using meth by (auto simp: check_method_def check_by_limit_def split: if_splits)
    then show ?thesis
      using other [OF ms(1)] other [OF ms(2)] other [OF ms(4)] other [OF ms(5)] ded' 4
      by (simp add: config_ok_def usable_def)
  next
    case 5
    then have pi: "no_errors (check_per_item (''rating.coverages.'' @ code) lc tables (get config ''perItem''))"
      using meth by (simp add: check_method_def)
    note pi = check_per_item_ok [OF pi]
    then have "item_defaults_ok config \<longrightarrow> per_item_ok tables (get config ''perItem'')"
      by (simp add: per_item_ok_def item_defaults_ok_def step_ok_def)
    then show ?thesis
      using other [OF ms(1)] other [OF ms(2)] other [OF ms(3)] other [OF ms(4)] ded' 5 pi
      by (simp add: config_ok_def usable_def)
  qed
  then show "item_defaults_ok config \<Longrightarrow> config_ok tables config" "usable rating config" by blast+
qed

subsection \<open>Checked configurations\<close>

definition coverage_configs :: "jsval \<Rightarrow> jsval list" where
  "coverage_configs rates = map snd (fields_of (get (get rates ''rating'') ''coverages''))"

lemma validated:
  assumes "no_errors (validate_rate_table rates pc known tables lc)"
  defines "rating \<equiv> get rates ''rating''"
  shows "is_plain_object rating" "no_errors (check_term_factors (get rating ''termFactors''))"
    "\<forall>step \<in> set (items (get rating ''factors'')). step_ok tables step"
    "absent_or num_at_least_0 (get rating ''basePremium'')" "absent_or num_at_least_0 (get rating ''minimumPremium'')"
    "absent_or num_at_least_0 (get (get rates ''fees'') ''policy'')"
    "absent_or rate_below_1 (get (get rates ''taxes'') ''rate'')"
    "is_plain_object (get rating ''coverages'')"
    "\<forall>config \<in> set (coverage_configs rates). is_plain_object config
       \<and> (item_defaults_ok config \<longrightarrow> config_ok tables config) \<and> usable rating config"
    "\<forall>item \<in> set (items (get pc ''coverages'')). no_errors (check_product_coverage (fields_of (get rating ''coverages'')) item)"
proof -
  note defs = validate_rate_table_def Let_def rating_def
  show "is_plain_object rating" "no_errors (check_term_factors (get rating ''termFactors''))"
    "absent_or num_at_least_0 (get rating ''basePremium'')" "absent_or num_at_least_0 (get rating ''minimumPremium'')"
    "absent_or num_at_least_0 (get (get rates ''fees'') ''policy'')"
    "absent_or rate_below_1 (get (get rates ''taxes'') ''rate'')"
    "is_plain_object (get rating ''coverages'')"
    "\<forall>item \<in> set (items (get pc ''coverages'')). no_errors (check_product_coverage (fields_of (get rating ''coverages'')) item)"
    using assms(1) by (simp_all add: defs split: if_splits)
  have steps: "\<forall>entry \<in> set (indexed 0 (items (get rating ''factors''))). no_errors (check_factor_step known tables entry)"
    and configs: "\<forall>entry \<in> set (fields_of (get rating ''coverages'')). no_errors (check_coverage lc tables rating (product_codes pc) entry)"
    using assms(1) by (simp_all add: defs split: if_splits)
  show "\<forall>step \<in> set (items (get rating ''factors'')). step_ok tables step"
    using steps in_indexed [of _ "items (get rating ''factors'')" 0] check_factor_step_ok by blast
  show "\<forall>config \<in> set (coverage_configs rates). is_plain_object config
       \<and> (item_defaults_ok config \<longrightarrow> config_ok tables config) \<and> usable rating config"
    using configs check_coverage_ok unfolding coverage_configs_def rating_def by fastforce
qed

definition quote_not_neg :: "jsval \<Rightarrow> jsval \<Rightarrow> jsval \<Rightarrow> bool" where
  "quote_not_neg payload rates pc =
     ((\<forall>cov \<in> set (selected_coverages payload).
         case effective_limit cov (selected_coverages payload) pc of None \<Rightarrow> True | Some l \<Rightarrow> not_neg l)
      \<and> (\<forall>config \<in> set (coverage_configs rates). items_not_neg (rated_risk payload) config))"

lemma rate_coverage_not_neg:
  assumes "\<forall>config \<in> snd ` set (fields_of (get rating ''coverages'')). config_ok tables config \<and> items_not_neg risk config"
    and "case effective_limit cov sel pc of None \<Rightarrow> True | Some l \<Rightarrow> not_neg l"
    and "case fin_num (get rating ''basePremium'') of None \<Rightarrow> True | Some b \<Rightarrow> not_neg b"
    and "not_neg fp" and "not_neg (fst acc) \<and> (\<forall>line \<in> set (fst (snd acc)). not_neg (line_amount line))"
    and "rate_coverage rating risk tables pc product fp sel acc cov = Inr acc'"
  shows "not_neg (fst acc') \<and> (\<forall>line \<in> set (fst (snd acc')). not_neg (line_amount line))"
proof -
  obtain sub ls trs where acc: "acc = (sub, ls, trs)" by (metis prod_cases3)
  obtain config m amount trace where config: "find_coverage_rating (fields_of (get rating ''coverages'')) (coverage_code cov) = Some config"
    and amount: "method_amount config risk tables (fin_num (get rating ''basePremium'')) product (coverage_code cov)
      (effective_limit cov sel pc) = Inr (m, amount, trace)"
    using assms(6) by (auto simp: rate_coverage_def Let_def split: option.splits)
  have ok: "config_ok tables config" "items_not_neg risk config"
    using find_coverage_rating_in [OF config] assms(1) by force+
  have "not_neg amount" by (rule method_amount_not_neg [OF ok assms(2,3) amount])
  then have "not_neg (round2 (adjust_amount config cov fp amount))"
    by (intro not_neg_round2 adjust_not_neg [OF ok(1) assms(4)])
  with assms(5,6) config amount show ?thesis
    by (auto simp: rate_coverage_def Let_def acc)
qed

lemma min_not_neg: "not_neg s \<Longrightarrow> jlt s (Fin m) \<Longrightarrow> not_neg (jsub (Fin m) s)"
  by (cases s) (auto simp: jsub_def fl_not_neg)

lemma absent_or_num:
  "absent_or num_at_least_0 v \<Longrightarrow> fin_num v = Some n \<Longrightarrow> not_neg n"
  "absent_or rate_below_1 v \<Longrightarrow> fin_num v = Some n \<Longrightarrow> not_neg n"
  by (auto simp: absent_or_def num_at_least_0_iff fin_num_iff rate_below_1_def)

lemma num_or_not_neg: "(\<And>n. fin_num v = Some n \<Longrightarrow> not_neg n) \<Longrightarrow> not_neg (num_or v (Fin 0))"
  by (auto simp: num_or_def split: option.splits)

lemma make_result_not_neg:
  assumes "no_errors (validate_rate_table rates pc known tables lc)"
    and "not_neg (fst cs)" "\<forall>line \<in> set (fst (snd cs)). not_neg (line_amount line)"
  shows "(\<forall>line \<in> set (result_lines (make_result rates (get rates ''rating'') product fs cs)). not_neg (line_amount line))
    \<and> not_neg (result_subtotal (make_result rates (get rates ''rating'') product fs cs))
    \<and> not_neg (result_taxes (make_result rates (get rates ''rating'') product fs cs))
    \<and> not_neg (result_total (make_result rates (get rates ''rating'') product fs cs))"
proof -
  note v = validated [OF assms(1)]
  obtain sub adj where min: "apply_minimum (get (get rates ''rating'') ''minimumPremium'') (round2 (fst cs)) = (sub, adj)"
    by force
  have "not_neg sub \<and> (case adj of None \<Rightarrow> True | Some a \<Rightarrow> not_neg a)"
  proof (cases "fin_num (get (get rates ''rating'') ''minimumPremium'')")
    case None
    with min assms(2) show ?thesis by (auto simp: apply_minimum_def)
  next
    case (Some m)
    then obtain x where m: "m = Fin x" by (auto simp: fin_num_iff)
    have "not_neg m" by (rule absent_or_num(1) [OF v(5) Some])
    with min Some m assms(2) show ?thesis
      by (auto simp: apply_minimum_def intro!: not_neg_round2 min_not_neg split: if_splits)
  qed
  moreover have "not_neg (num_or (get (get rates ''fees'') ''policy'') (Fin 0))"
    "not_neg (num_or (get (get rates ''taxes'') ''rate'') (Fin 0))"
    using absent_or_num(1) [OF v(6)] absent_or_num(2) [OF v(7)] by (auto intro: num_or_not_neg)
  ultimately show ?thesis
    using assms(3) min
    by (auto simp: make_result_def Let_def minimum_line_def split: option.splits
        intro!: not_neg_round2 not_neg_arith(1,2))
qed

subsection \<open>Which errors a checked configuration leaves\<close>

definition QUOTE_ERRORS :: "string list" where
  "QUOTE_ERRORS = [''RATING_FACTOR_NOT_FOUND'', ''RATING_ITEM_AMOUNT_REQUIRED'', ''RATING_LIMIT_REQUIRED'', ''RATING_LIMIT_NOT_RATED'']"

fun quote_error :: "rating_error \<Rightarrow> bool" where
  "quote_error TypeFault = False"
| "quote_error (RatingError code msg) = (code \<in> set QUOTE_ERRORS)"

lemma plain_not_nullish: "is_plain_object v \<Longrightarrow> \<not> nullish v"
  by (cases v) (simp_all add: is_plain_object_def)

lemma apply_factor_error:
  "is_plain_object step \<Longrightarrow> apply_factor payload risk tables acc step = Inl e \<Longrightarrow> quote_error e"
  using plain_not_nullish [of step]
  by (auto simp: apply_factor_def Let_def QUOTE_ERRORS_def split: if_splits)

lemma item_factor_error:
  "is_plain_object step \<Longrightarrow> item_factor lname i item tables acc step = Inl e \<Longrightarrow> quote_error e"
  using plain_not_nullish [of step]
  by (auto simp: item_factor_def Let_def QUOTE_ERRORS_def split: if_splits)

lemma rate_item_error:
  assumes "\<forall>step \<in> set (items (get per_item ''factors'')). is_plain_object step"
    and "rate_item per_item tables per acc entry = Inl e"
  shows "quote_error e"
proof -
  obtain i item where entry: "entry = (i, item)" by force
  consider "e = RatingError ''RATING_ITEM_AMOUNT_REQUIRED'' (''Item '' @ nat_str (i + 1) @ '' of '' @ to_str (get per_item ''list'')
      @ '' needs a '' @ to_str (get per_item ''amount'') @ '' to be rated.'')"
    | "outcome_fold (item_factor (to_str (get per_item ''list'')) i item tables) (Fin 1) (items (get per_item ''factors'')) = Inl e"
    using assms(2) by (auto simp: rate_item_def entry Let_def outcome_bind_Inl_iff split: if_splits)
  then show ?thesis
  proof cases
    case 2
    from outcome_fold_Inl [OF this] assms(1) show ?thesis by (blast intro: item_factor_error)
  qed (simp add: QUOTE_ERRORS_def)
qed

lemma method_amount_error:
  assumes "usable rating config"
    and "method_amount config risk tables (fin_num (get rating ''basePremium'')) product code limit = Inl e"
  shows "quote_error e"
proof (cases "is_plain_object (get config ''perItem'')")
  case True
  then obtain acc xs y where "outcome_fold (rate_item (get config ''perItem'') tables y) acc xs = Inl e"
    using assms(2) by (auto simp: method_amount_def Let_def outcome_bind_Inl_iff)
  from outcome_fold_Inl [OF this] True assms(1) show ?thesis
    by (auto simp: usable_def intro: rate_item_error)
next
  case False
  with assms show ?thesis
    by (auto simp: method_amount_def usable_def coverage_error_def QUOTE_ERRORS_def Let_def
        split: option.splits if_splits)
qed

lemma find_coverage_rating_priced:
  assumes "list_ex (\<lambda>(key, _). key \<noteq> ''default'' \<and> lower key = lower code) kvs"
    and "\<forall>config \<in> snd ` set kvs. is_plain_object config"
  shows "find_coverage_rating kvs code \<noteq> None"
proof -
  obtain k v where "(k, v) \<in> set (own_entries kvs)" "k \<noteq> ''default''" "lower k = lower code" "is_plain_object v"
    using assms by (force simp: list_ex_iff)
  then have "find_first (\<lambda>(k, v). k \<noteq> ''default'' \<and> lower k = lower code \<and> is_plain_object v) (own_entries kvs) \<noteq> None"
    unfolding find_first_None_iff by blast
  then show ?thesis by (auto simp: find_coverage_rating_def split: option.splits)
qed

text \<open>The selected coverages are the product's own, or the rates have a default entry.\<close>

definition known_coverages :: "jsval \<Rightarrow> jsval \<Rightarrow> jsval \<Rightarrow> bool" where
  "known_coverages payload rates pc =
     (is_plain_object (get (get (get rates ''rating'') ''coverages'') ''default'')
      \<or> (\<forall>cov \<in> set (selected_coverages payload). \<exists>item \<in> set (items (get pc ''coverages'')).
            str_or_empty (get item ''code'') \<noteq> [] \<and> lower (str_or_empty (get item ''code'')) = lower (coverage_code cov)))"

lemma known_coverage_rated:
  assumes "no_errors (validate_rate_table rates pc known tables lc)" "known_coverages payload rates pc"
    and "cov \<in> set (selected_coverages payload)"
  shows "find_coverage_rating (fields_of (get (get rates ''rating'') ''coverages'')) (coverage_code cov) \<noteq> None"
proof -
  let ?covs = "get (get rates ''rating'') ''coverages''"
  note v = validated [OF assms(1)]
  obtain kvs where kvs: "?covs = JObj kvs" using v(8) by (auto simp: is_plain_object_def elim: is_obj.elims)
  have plain: "\<forall>config \<in> snd ` set kvs. is_plain_object config" using v(9) kvs by (auto simp: coverage_configs_def)
  show ?thesis
  proof (cases "is_plain_object (get ?covs ''default'')")
    case True
    then show ?thesis by (auto simp: kvs find_coverage_rating_def Let_def split: option.splits)
  next
    case False
    with assms(2,3) obtain item where item: "item \<in> set (items (get pc ''coverages''))"
      "str_or_empty (get item ''code'') \<noteq> []" "lower (str_or_empty (get item ''code'')) = lower (coverage_code cov)"
      by (auto simp: known_coverages_def)
    then have "list_ex (\<lambda>(key, _). key \<noteq> ''default'' \<and> lower key = lower (coverage_code cov)) kvs"
      using v(10) False by (auto simp: check_product_coverage_def Let_def kvs)
    from find_coverage_rating_priced [OF this plain] show ?thesis by (simp add: kvs)
  qed
qed

lemma rate_coverage_error:
  assumes "no_errors (validate_rate_table rates pc known tables lc)" "known_coverages payload rates pc"
    and "cov \<in> set (selected_coverages payload)"
    and "rate_coverage (get rates ''rating'') risk tables pc product fp sel acc cov = Inl e"
  shows "quote_error e"
proof -
  let ?rating = "get rates ''rating''"
  obtain config where config: "find_coverage_rating (fields_of (get ?rating ''coverages'')) (coverage_code cov) = Some config"
    using known_coverage_rated [OF assms(1-3)] by blast
  have "usable ?rating config"
    using validated(9) [OF assms(1)] find_coverage_rating_in [OF config] by (force simp: coverage_configs_def)
  moreover have "method_amount config risk tables (fin_num (get ?rating ''basePremium'')) product (coverage_code cov)
      (effective_limit cov sel pc) = Inl e"
    using assms(4) config
    by (cases acc) (auto simp: rate_coverage_def Let_def outcome_bind_Inl_iff split: prod.splits)
  ultimately show ?thesis by (rule method_amount_error)
qed

lemma rate_errors:
  assumes "no_errors (validate_rate_table rates pc known tables lc)" "known_coverages payload rates pc"
    and "rate_from_rate_table payload rates pc tables = Inl e"
  shows "quote_error e"
proof -
  let ?rating = "get rates ''rating''" and ?risk = "rated_risk payload"
  note v = validated [OF assms(1)]
  consider (factors) "rating_factors payload ?risk ?rating tables = Inl e"
    | (coverages) fs :: "jnum \<times> jsval list" where "outcome_fold (rate_coverage ?rating ?risk tables pc (product_code payload) (fst fs)
        (selected_coverages payload)) (Fin 0, [], []) (selected_coverages payload) = Inl e"
    using assms(3) v(1) by (auto simp: rate_from_rate_table_def Let_def outcome_bind_Inl_iff)
  then show ?thesis
  proof cases
    case factors
    from outcome_fold_Inl [OF this [unfolded rating_factors_def]] v(3) show ?thesis
      by (auto simp: step_ok_def intro: apply_factor_error)
  next
    case (coverages fs)
    from outcome_fold_Inl [OF this] rate_coverage_error [OF assms(1,2)] show ?thesis by blast
  qed
qed

lemma rate_not_negative:
  assumes "no_errors (validate_rate_table rates pc known tables lc)" "quote_not_neg payload rates pc"
    and "rate_from_rate_table payload rates pc tables = Inr r" "list_all item_defaults_ok (coverage_configs rates)"
  shows "(\<forall>line \<in> set (result_lines r). not_neg (line_amount line))
    \<and> not_neg (result_subtotal r) \<and> not_neg (result_taxes r) \<and> not_neg (result_total r)"
proof -
  let ?rating = "get rates ''rating''" and ?risk = "rated_risk payload" and ?sel = "selected_coverages payload"
  note v = validated [OF assms(1)]
  obtain fs cs where fs: "rating_factors payload ?risk ?rating tables = Inr fs"
    and cs: "outcome_fold (rate_coverage ?rating ?risk tables pc (product_code payload) (fst fs) ?sel) (Fin 0, [], []) ?sel = Inr cs"
    and r: "r = make_result rates ?rating (product_code payload) fs cs"
    using assms(3) v(1) by (auto simp: rate_from_rate_table_def Let_def)
  have fp: "not_neg (fst fs)" by (rule rating_factors_not_neg [OF v(2,3) fs])
  have configs: "\<forall>config \<in> snd ` set (fields_of (get ?rating ''coverages'')). config_ok tables config \<and> items_not_neg ?risk config"
    using v(9) assms(2,4) by (auto simp: coverage_configs_def quote_not_neg_def list_all_iff)
  have base: "case fin_num (get ?rating ''basePremium'') of None \<Rightarrow> True | Some b \<Rightarrow> not_neg b"
    using absent_or_num(1) [OF v(4)] by (auto split: option.splits)
  have "not_neg (fst cs) \<and> (\<forall>line \<in> set (fst (snd cs)). not_neg (line_amount line))" using cs
  proof (rule outcome_fold_invariant)
    fix a x b assume a: "not_neg (fst a) \<and> (\<forall>line \<in> set (fst (snd a)). not_neg (line_amount line))" "x \<in> set ?sel"
      "rate_coverage ?rating ?risk tables pc (product_code payload) (fst fs) ?sel a x = Inr b"
    from assms(2) a(2) have "case effective_limit x ?sel pc of None \<Rightarrow> True | Some l \<Rightarrow> not_neg l"
      by (simp add: quote_not_neg_def)
    from rate_coverage_not_neg [OF configs this base fp a(1,3)]
    show "not_neg (fst b) \<and> (\<forall>line \<in> set (fst (snd b)). not_neg (line_amount line))" .
  qed simp
  with make_result_not_neg [OF assms(1), of cs "product_code payload" fs] show ?thesis by (simp add: r)
qed

subsection \<open>Band labels\<close>

lemma scan_number_digits:
  assumes "list_all is_digit s" "r = [] \<or> (\<not> is_digit (hd r) \<and> hd r \<noteq> CHR ''.'')"
  shows "scan_number (s @ r) = s"
proof -
  have "takeWhile is_digit (s @ r) = s"
    using assms by (cases r) (auto simp: list_all_iff takeWhile_append)
  moreover have "drop (length s) (s @ r) = r" by simp
  ultimately show ?thesis using assms(2) by (auto simp: scan_number_def Let_def split: list.splits)
qed

lemma scan_signed_nat:
  assumes "int n < 2 ^ 53" "r = [] \<or> (\<not> is_digit (hd r) \<and> hd r \<noteq> CHR ''.'')"
  shows "scan_signed (nat_str n @ r) = Some (Fin (of_nat n), r)"
proof -
  have d: "list_all is_digit (nat_str n)" by (simp add: list_all_iff nat_str_digits)
  have "\<not> is_digit CHR ''-''" by (simp add: is_digit_def ccode_def)
  then have "\<not> starts_with (nat_str n @ r) ''-''"
    using d by (cases "nat_str n") auto
  moreover have "js_number (nat_str n) = Fin (of_nat n)"
    using js_number_int_str [of "int n"] assms(1) by (simp add: nat_str_def)
  ultimately show ?thesis
    using scan_number_digits [OF d assms(2)] by (simp add: scan_signed_def Let_def)
qed

lemma trim_digits: "list_all is_digit s \<Longrightarrow> s \<noteq> [] \<Longrightarrow> \<not> is_space (last t) \<Longrightarrow> t \<noteq> [] \<Longrightarrow> trim (s @ t) = s @ t"
  by (intro trim_id) (auto simp: list_all_iff not_space_digit)

lemma band_labels:
  assumes "int a < 2 ^ 53" "int b < 2 ^ 53"
  shows "parse_range (nat_str a @ ''-'' @ nat_str b) = Some (Between (Fin (of_nat a)) (Fin (of_nat b)))"
    and "parse_range (nat_str a @ ''+'') = Some (AtLeast (Fin (of_nat a)))"
proof -
  have digits: "list_all is_digit (nat_str n)" for n by (simp add: list_all_iff nat_str_digits)
  have no: "\<not> is_digit CHR ''-''" "\<not> is_digit CHR ''+''" "\<not> is_space CHR ''-''" "\<not> is_space CHR ''+''"
    by (simp_all add: is_digit_def is_space_def ccode_def)
  have last: "\<not> is_space (last (nat_str b))"
    using digits [of b] by (intro not_space_digit) (simp add: list_all_iff)
  have "trim (nat_str a @ ''-'' @ nat_str b) = nat_str a @ ''-'' @ nat_str b"
    using digits last by (intro trim_digits) auto
  moreover have "dropWhile is_space (nat_str b) = nat_str b"
    using digits [of b] by (cases "nat_str b") (auto dest: not_space_digit)
  moreover have "scan_signed (nat_str b) = Some (Fin (of_nat b), [])" using scan_signed_nat [OF assms(2), of "[]"] by simp
  ultimately show "parse_range (nat_str a @ ''-'' @ nat_str b) = Some (Between (Fin (of_nat a)) (Fin (of_nat b)))"
    using scan_signed_nat [OF assms(1), of "''-'' @ nat_str b"] no
    by (simp add: parse_range_def scan_bound_def Let_def)
  have "trim (nat_str a @ ''+'') = nat_str a @ ''+''" using digits no by (intro trim_digits) auto
  then show "parse_range (nat_str a @ ''+'') = Some (AtLeast (Fin (of_nat a)))"
    using scan_signed_nat [OF assms(1), of "''+''"] no
    by (simp add: parse_range_def Let_def)
qed

subsection \<open>A small configuration\<close>

text \<open>One flat coverage and one priced per item, whose factor has a default for unlisted kinds.\<close>

definition example_rates :: "int \<Rightarrow> jsval" where
  "example_rates d = JObj [(''rating'', JObj
     [(''coverages'', JObj
        [(''A'', JObj [(''flat'', jnat 10)]),
         (''S'', JObj [(''perItem'', JObj
            [(''list'', JStr ''items''), (''amount'', JStr ''value''), (''rate'', jnat 1),
             (''factors'', JArr [JObj [(''field'', JStr ''kind''), (''table'', JObj [(''x'', jnat 2)]),
                 (''default'', JNum (Fin (of_int d)))]])])])])])]"

definition example_quote :: "string \<Rightarrow> jsval" where
  "example_quote kind = JObj
     [(''productCode'', JStr ''p''),
      (''risks'', JArr [JObj [(''items'', JArr [JObj [(''value'', jnat 4), (''kind'', JStr kind)]])]]),
      (''coverages'', JArr [JObj [(''code'', JStr ''A'')], JObj [(''code'', JStr ''S'')]])]"

lemmas rate_defs = rate_from_rate_table_def rating_factors_def term_factor_def is_plain_object_def product_code_def
  rated_risk_def selected_coverages_def rate_coverage_def find_coverage_rating_def method_amount_def rate_item_def
  item_factor_def lookup_factor_def inline_factor_def default_factor_def num_or_def adjust_amount_def
  deductible_factor_def make_result_def apply_minimum_def coverage_code_def own_entries_def index_of_def
  positive_or_one_def list_prop_def js_or_def js_nc_def str_or_empty_def fold_text_def effective_limit_def
  percent_limit_def Let_def

lemmas check_defs = validate_rate_table_def check_coverage_def check_method_def check_per_item_def is_plain_object_def
  own_entries_def index_of_def COVERAGE_METHODS_def absent_or_def check_term_factors_def product_codes_def
  check_deductibles_def check_item_step_def check_factor_source_def FACTOR_SOURCES_def entry_problems_def has_text_def
  num_at_least_0_iff Let_def

lemma example_texts:
  "trim ''p'' = ''p''" "trim ''A'' = ''A''" "trim ''S'' = ''S''" "trim ''x'' = ''x''" "trim ''y'' = ''y''"
  "trim ''kind'' = ''kind''" "lower ''p'' = ''p''" "lower ''A'' = ''a''" "lower ''S'' = ''s''" "lower ''x'' = ''x''"
  "lower ''y'' = ''y''" "upper ''A'' = ''A''" "upper ''S'' = ''S''" "trim [] = []" "lower [] = []"
  by code_simp+

lemma example_rates_checked:
  "no_errors (validate_rate_table (example_rates d) JUndef [] (JObj []) [(''items'', [''value'', ''kind''])])"
  by (simp add: example_rates_def check_defs example_texts)

lemma example_rates_total:
  "(case rate_from_rate_table (example_quote ''y'') (example_rates (- 5)) JUndef (JObj []) of
      Inl e \<Rightarrow> NaN | Inr r \<Rightarrow> result_total r) = Fin (- 10)"
  by (simp add: example_quote_def example_rates_def rate_defs example_texts)

lemma example_rates_lines:
  "(case rate_from_rate_table (example_quote ''x'') (example_rates 1) JUndef (JObj []) of
      Inl e \<Rightarrow> NaN | Inr r \<Rightarrow> result_total r) = Fin 18"
  by (simp add: example_quote_def example_rates_def rate_defs example_texts)

definition example_bad_quote :: jsval where
  "example_bad_quote = JObj
     [(''risks'', JArr [JObj [(''items'', JArr [JObj []])]]), (''coverages'', JArr [JObj [(''code'', JStr ''S'')]])]"

definition example_product :: jsval where
  "example_product = JObj [(''coverages'', JArr [JObj [(''code'', JStr ''A'')], JObj [(''code'', JStr ''S'')]])]"

lemma example_bad_error:
  "(case rate_from_rate_table example_bad_quote (example_rates 1) example_product (JObj []) of
      Inl e \<Rightarrow> error_code e | Inr r \<Rightarrow> []) = ''RATING_ITEM_AMOUNT_REQUIRED''"
  by (simp add: example_bad_quote_def example_product_def example_rates_def rate_defs example_texts)

lemma example_quote_not_neg: "quote_not_neg (example_quote k) (example_rates 1) JUndef"
  by (simp add: quote_not_neg_def coverage_configs_def items_not_neg_def example_quote_def
      example_rates_def rate_defs example_texts absent_or_def num_at_least_0_iff)

lemma example_item_defaults: "list_all item_defaults_ok (coverage_configs (example_rates 1))"
  by (simp add: coverage_configs_def item_defaults_ok_def example_rates_def absent_or_def num_at_least_0_iff)

subsection \<open>Properties\<close>

text \<open>C27: with rates the check of the file accepts whose per-item factors have no negative default (the check
  does not look at these), and a quote whose limits and item amounts are not negative, no coverage premium,
  subtotal, tax or total is ever negative, whatever the risk's answers.\<close>

theorem checked_rates_never_negative:
  assumes "no_errors (validate_rate_table rates pc known tables lc)"
    and "list_all item_defaults_ok (coverage_configs rates)" and "quote_not_neg payload rates pc"
    and "rate_from_rate_table payload rates pc tables = Inr r"
  shows "(\<forall>line \<in> set (result_lines r). not_neg (line_amount line))
    \<and> not_neg (result_subtotal r) \<and> not_neg (result_taxes r) \<and> not_neg (result_total r)"
  using assms(1,3,4,2) by (rule rate_not_negative)

theorem checked_rates_never_negative_witness:
  "\<exists>r. rate_from_rate_table (example_quote ''x'') (example_rates 1) JUndef (JObj []) = Inr r
     \<and> result_total r = Fin 18 \<and> not_neg (result_subtotal r)"
proof -
  obtain r where r: "rate_from_rate_table (example_quote ''x'') (example_rates 1) JUndef (JObj []) = Inr r"
    "result_total r = Fin 18"
    using example_rates_lines by (auto split: sum.splits)
  from checked_rates_never_negative [OF example_rates_checked example_item_defaults example_quote_not_neg r(1)] r show ?thesis by blast
qed

text \<open>rating with a file the check accepts fails only because of the quote: a required factor with no
  match, a missing limit, a limit without a rate, or an item without an amount. It never reports that
  the product or a coverage is not configured, when the quote's coverages are the product's own or the
  rates have a default, and it never reads a property of null.\<close>

theorem checked_rates_fail_only_on_the_quote:
  assumes "no_errors (validate_rate_table rates pc known tables lc)" and "known_coverages payload rates pc"
    and "rate_from_rate_table payload rates pc tables = Inl e"
  shows "\<exists>msg. e = RatingError (error_code e) msg
    \<and> error_code e \<in> {''RATING_FACTOR_NOT_FOUND'', ''RATING_ITEM_AMOUNT_REQUIRED'',
        ''RATING_LIMIT_REQUIRED'', ''RATING_LIMIT_NOT_RATED''}"
  using rate_errors [OF assms] by (cases e) (auto simp: QUOTE_ERRORS_def)

theorem checked_rates_fail_only_on_the_quote_witness:
  "\<exists>msg. rate_from_rate_table example_bad_quote (example_rates 1) example_product (JObj [])
     = Inl (RatingError ''RATING_ITEM_AMOUNT_REQUIRED'' msg)"
proof -
  have checked: "no_errors (validate_rate_table (example_rates 1) example_product [] (JObj []) [(''items'', [''value'', ''kind''])])"
    by (simp add: example_rates_def example_product_def check_defs example_texts check_product_coverage_def str_or_empty_def js_or_def)
  have known: "known_coverages example_bad_quote (example_rates 1) example_product"
    by (simp add: known_coverages_def selected_coverages_def example_bad_quote_def example_product_def str_or_empty_def
        js_or_def coverage_code_def example_texts)
  obtain e where e: "rate_from_rate_table example_bad_quote (example_rates 1) example_product (JObj []) = Inl e"
    "error_code e = ''RATING_ITEM_AMOUNT_REQUIRED''"
    using example_bad_error by (auto split: sum.splits)
  with checked_rates_fail_only_on_the_quote [OF checked known e(1)] show ?thesis by auto
qed

text \<open>the check of the file misses the default of a per-item factor: a file it accepts prices a
  quote with positive amounts at a negative total.\<close>

theorem unchecked_item_default:
  "no_errors (validate_rate_table (example_rates (- 5)) JUndef [] (JObj []) [(''items'', [''value'', ''kind''])])
   \<and> (case rate_from_rate_table (example_quote ''y'') (example_rates (- 5)) JUndef (JObj []) of
        Inl e \<Rightarrow> False | Inr r \<Rightarrow> jlt (result_total r) (Fin 0))"
  using example_rates_checked [of "- 5"] example_rates_total by (auto split: sum.splits)

text \<open>band labels read as they are written: \<open>a-b\<close> holds exactly the values from a to b, \<open>a+\<close> those of
  a or more, for whole numbers the platform's numbers represent.\<close>

theorem band_labels_read_back:
  assumes "int a < 2 ^ 53" "int b < 2 ^ 53"
  shows "(\<exists>band. parse_range (nat_str a @ ''-'' @ nat_str b) = Some band
           \<and> (\<forall>x. in_band band (Fin x) = (of_nat a \<le> x \<and> x \<le> of_nat b)))
    \<and> (\<exists>band. parse_range (nat_str a @ ''+'') = Some band \<and> (\<forall>x. in_band band (Fin x) = (of_nat a \<le> x)))"
  using band_labels [OF assms] by simp

theorem band_labels_read_back_witness:
  "\<exists>band. parse_range (nat_str 5 @ ''-'' @ nat_str 8) = Some band \<and> in_band band (Fin 7) \<and> \<not> in_band band (Fin 9)"
  using band_labels_read_back [of 5 8] by auto

end
