(* ===== verification/TransactionState.thy ===== *)
theory TransactionState
  imports JsValue
begin

text \<open>
  The policy lifecycle, \<open>server/src/lib/transaction-state.ts\<close>: the states, the transition table of the
  policy actions, the reading of a stored status, and the check a transaction runs before it changes a
  policy. The histories of a policy are the runs of the step relation the table defines.
\<close>

datatype lifecycle = Quote | Draft | Bound | Issued | Cancelled | Expired

datatype action = Bind | Issue | Endorse | Cancel | Reinstate | Rewrite | Renew | NonRenew | Expire

definition POLICY_LIFECYCLE_STATES :: "lifecycle list" where
  "POLICY_LIFECYCLE_STATES = [Quote, Draft, Bound, Issued, Cancelled, Expired]"

primrec state_name :: "lifecycle \<Rightarrow> string" where
  "state_name Quote = ''Quote''" | "state_name Draft = ''Draft''" | "state_name Bound = ''Bound''"
| "state_name Issued = ''Issued''" | "state_name Cancelled = ''Cancelled''" | "state_name Expired = ''Expired''"

primrec action_name :: "action \<Rightarrow> string" where
  "action_name Bind = ''bind''" | "action_name Issue = ''issue''" | "action_name Endorse = ''endorse''"
| "action_name Cancel = ''cancel''" | "action_name Reinstate = ''reinstate''" | "action_name Rewrite = ''rewrite''"
| "action_name Renew = ''renew''" | "action_name NonRenew = ''nonRenew''" | "action_name Expire = ''expire''"

record transition_def =
  allowed_from :: "lifecycle list"
  to_state :: lifecycle
  idempotent_from :: "lifecycle list"

primrec POLICY_TRANSITIONS :: "action \<Rightarrow> transition_def" where
  "POLICY_TRANSITIONS Bind = \<lparr>allowed_from = [Quote, Draft], to_state = Bound, idempotent_from = [Bound]\<rparr>"
| "POLICY_TRANSITIONS Issue = \<lparr>allowed_from = [Bound], to_state = Issued, idempotent_from = [Issued]\<rparr>"
| "POLICY_TRANSITIONS Endorse = \<lparr>allowed_from = [Issued], to_state = Issued, idempotent_from = []\<rparr>"
| "POLICY_TRANSITIONS Cancel = \<lparr>allowed_from = [Bound, Issued], to_state = Cancelled, idempotent_from = []\<rparr>"
| "POLICY_TRANSITIONS Reinstate = \<lparr>allowed_from = [Cancelled], to_state = Issued, idempotent_from = []\<rparr>"
| "POLICY_TRANSITIONS Rewrite = \<lparr>allowed_from = [Cancelled], to_state = Issued, idempotent_from = []\<rparr>"
| "POLICY_TRANSITIONS Renew = \<lparr>allowed_from = [Issued], to_state = Issued, idempotent_from = []\<rparr>"
| "POLICY_TRANSITIONS NonRenew = \<lparr>allowed_from = [Issued], to_state = Issued, idempotent_from = []\<rparr>"
| "POLICY_TRANSITIONS Expire = \<lparr>allowed_from = [Issued], to_state = Expired, idempotent_from = [Expired]\<rparr>"

record transition =
  tr_action :: action
  tr_from :: lifecycle
  tr_to :: lifecycle
  tr_idempotent :: bool

definition status_text :: "jsval \<Rightarrow> string" where
  "status_text raw = trim (str_or_empty raw)"

definition parse_policy_lifecycle_state :: "jsval \<Rightarrow> lifecycle option" where
  "parse_policy_lifecycle_state raw =
     find_first (\<lambda>s. lower (state_name s) = lower (status_text raw)) POLICY_LIFECYCLE_STATES"

definition normalize_policy_status :: "jsval \<Rightarrow> string" where
  "normalize_policy_status raw =
     (case parse_policy_lifecycle_state raw of
        Some s \<Rightarrow> lower (state_name s) | None \<Rightarrow> lower (status_text raw))"

definition invalid_transition_message :: "action \<Rightarrow> string \<Rightarrow> string" where
  "invalid_transition_message act state =
     (if act = Cancel \<and> state = ''Cancelled'' then ''Policy already cancelled''
      else if act = Reinstate then ''Policy is not cancelled''
      else if act = Rewrite then ''Policy must be cancelled to rewrite''
      else if state = ''Cancelled''
      then (if act = NonRenew then ''Cannot non-renew a cancelled policy.'' else ''Policy is cancelled'')
      else if state = [] then ''Cannot '' @ action_name act @ '' policy without a lifecycle status''
      else ''Cannot '' @ action_name act @ '' policy from status '' @ state)"

definition resolve_policy_transition :: "action \<Rightarrow> jsval \<Rightarrow> transition option" where
  "resolve_policy_transition act raw =
     (case parse_policy_lifecycle_state raw of
        None \<Rightarrow> None
      | Some cur \<Rightarrow>
          (let def = POLICY_TRANSITIONS act
           in if cur \<in> set (allowed_from def)
              then Some \<lparr>tr_action = act, tr_from = cur, tr_to = to_state def, tr_idempotent = False\<rparr>
              else if cur \<in> set (idempotent_from def)
              then Some \<lparr>tr_action = act, tr_from = cur, tr_to = to_state def, tr_idempotent = True\<rparr>
              else None))"

record refusal =
  ref_message :: string
  ref_action :: action
  ref_current :: string
  ref_allowed :: "lifecycle list"
  ref_target :: lifecycle

definition validate_policy_transaction_state :: "action \<Rightarrow> jsval \<Rightarrow> (refusal, unit) outcome" where
  "validate_policy_transaction_state act raw =
     (if resolve_policy_transition act raw \<noteq> None then Inr ()
      else
        let display = (case parse_policy_lifecycle_state raw of Some s \<Rightarrow> state_name s | None \<Rightarrow> status_text raw)
        in Inl \<lparr>ref_message = invalid_transition_message act display, ref_action = act, ref_current = display,
                ref_allowed = allowed_from (POLICY_TRANSITIONS act), ref_target = to_state (POLICY_TRANSITIONS act)\<rparr>)"

subsection \<open>Histories\<close>

text \<open>A step: the action is accepted on the stored status and its target is stored.\<close>

inductive step :: "lifecycle \<Rightarrow> action \<Rightarrow> lifecycle \<Rightarrow> bool" where
  accepted: "resolve_policy_transition act (JStr (state_name s)) = Some t \<Longrightarrow> step s act (tr_to t)"

inductive history :: "lifecycle \<Rightarrow> action list \<Rightarrow> lifecycle \<Rightarrow> bool" where
  start: "history s [] s"
| extend: "history s acts s' \<Longrightarrow> step s' act s'' \<Longrightarrow> history s (acts @ [act]) s''"

inductive_cases stepE: "step s act s'"

lemma lower_state_names [simp]:
  "lower ''Quote'' = ''quote''" "lower ''Draft'' = ''draft''" "lower ''Bound'' = ''bound''"
  "lower ''Issued'' = ''issued''" "lower ''Cancelled'' = ''cancelled''" "lower ''Expired'' = ''expired''"
  by code_simp+

lemma trim_state_names [simp]:
  "trim ''Quote'' = ''Quote''" "trim ''Draft'' = ''Draft''" "trim ''Bound'' = ''Bound''"
  "trim ''Issued'' = ''Issued''" "trim ''Cancelled'' = ''Cancelled''" "trim ''Expired'' = ''Expired''"
  by code_simp+

lemma state_names_distinct:
  "find_first (\<lambda>s'. lower (state_name s') = lower (state_name s)) POLICY_LIFECYCLE_STATES = Some s"
  by (cases s) (simp_all add: POLICY_LIFECYCLE_STATES_def)

lemma name_plain: "trim (state_name s) = state_name s" "state_name s \<noteq> []"
  by (cases s; simp)+

lemma status_text_name [simp]: "status_text (JStr (state_name s)) = state_name s"
  by (simp add: status_text_def str_or_empty_def js_or_def name_plain)

lemma parse_state_name [simp]: "parse_policy_lifecycle_state (JStr (state_name s)) = Some s"
  by (simp add: parse_policy_lifecycle_state_def state_names_distinct)

lemma resolve_on_name:
  "resolve_policy_transition act (JStr (state_name s)) =
     (let def = POLICY_TRANSITIONS act
      in if s \<in> set (allowed_from def)
         then Some \<lparr>tr_action = act, tr_from = s, tr_to = to_state def, tr_idempotent = False\<rparr>
         else if s \<in> set (idempotent_from def)
         then Some \<lparr>tr_action = act, tr_from = s, tr_to = to_state def, tr_idempotent = True\<rparr>
         else None)"
  by (simp add: resolve_policy_transition_def)

lemma step_iff:
  "step s act s' \<longleftrightarrow>
     s' = to_state (POLICY_TRANSITIONS act)
     \<and> (s \<in> set (allowed_from (POLICY_TRANSITIONS act)) \<or> s \<in> set (idempotent_from (POLICY_TRANSITIONS act)))"
proof
  assume "step s act s'"
  then show "s' = to_state (POLICY_TRANSITIONS act)
    \<and> (s \<in> set (allowed_from (POLICY_TRANSITIONS act)) \<or> s \<in> set (idempotent_from (POLICY_TRANSITIONS act)))"
    by (rule stepE) (auto simp: resolve_on_name Let_def split: if_splits)
next
  assume "s' = to_state (POLICY_TRANSITIONS act)
    \<and> (s \<in> set (allowed_from (POLICY_TRANSITIONS act)) \<or> s \<in> set (idempotent_from (POLICY_TRANSITIONS act)))"
  moreover from this obtain t where t: "resolve_policy_transition act (JStr (state_name s)) = Some t"
    "tr_to t = to_state (POLICY_TRANSITIONS act)"
    by (cases "s \<in> set (allowed_from (POLICY_TRANSITIONS act))") (auto simp: resolve_on_name Let_def)
  ultimately show "step s act s'" using step.accepted [OF t(1)] by simp
qed

text \<open>What a history has done so far: nothing is issued, cancelled or expired without a bind.\<close>

definition bound_or_later :: "lifecycle \<Rightarrow> bool" where
  "bound_or_later s = (s \<in> {Bound, Issued, Cancelled, Expired})"

lemma step_facts:
  assumes "step s act s'"
  shows "bound_or_later s'" "act \<noteq> Bind \<Longrightarrow> bound_or_later s"
    "s' \<in> {Issued, Expired} \<Longrightarrow> act \<in> {Issue, Reinstate, Rewrite} \<or> s \<in> {Issued, Expired}"
    "s = Cancelled \<Longrightarrow> act \<in> {Reinstate, Rewrite}" "s = Expired \<Longrightarrow> s' = Expired"
  subgoal using assms by (cases act) (auto simp: step_iff bound_or_later_def)
  subgoal using assms by (cases act) (auto simp: step_iff bound_or_later_def)
  subgoal using assms by (cases act) (auto simp: step_iff)
  subgoal using assms by (cases act) (auto simp: step_iff)
  subgoal using assms by (cases act) (auto simp: step_iff)
  done

lemma history_bound:
  "history s acts s' \<Longrightarrow> s \<in> {Quote, Draft} \<Longrightarrow> (Bind \<in> set acts) = bound_or_later s'"
proof (induction rule: history.induct)
  case (extend s acts s' act s'')
  then show ?case using step_facts(1,2) [OF extend.hyps(2)] by (cases "act = Bind") simp_all
qed (auto simp: bound_or_later_def)

lemma history_expired: "history s acts s' \<Longrightarrow> s = Expired \<Longrightarrow> s' = Expired"
  by (induction rule: history.induct) (auto dest: step_facts(5))

lemma history_cancelled:
  "history s acts s' \<Longrightarrow> s = Cancelled \<Longrightarrow> set acts \<inter> {Reinstate, Rewrite} = {} \<Longrightarrow> s' = Cancelled \<and> acts = []"
  by (induction rule: history.induct) (auto dest: step_facts(4))

lemma history_issued:
  "history s acts s' \<Longrightarrow> s \<in> {Quote, Draft} \<Longrightarrow> s' \<in> {Issued, Expired} \<Longrightarrow> set acts \<inter> {Issue, Reinstate, Rewrite} \<noteq> {}"
proof (induction rule: history.induct)
  case (extend s acts s' act s'')
  from step_facts(3) [OF extend.hyps(2) extend.prems(2)] show ?case
    using extend.IH [OF extend.prems(1)] by auto
qed auto

subsection \<open>Properties\<close>

text \<open>C17: the lifecycle of a policy: from a quote or draft, nothing but a bind leads out of it, and the
  policy is bound, issued, cancelled or expired exactly when the history has a bind; it is issued or
  expired only after an issue, reinstatement or rewrite; a cancelled policy stays so until it is
  reinstated or rewritten, and an expired one for good.\<close>

theorem lifecycle_histories:
  assumes "history s acts s'"
  shows "(s \<in> {Quote, Draft} \<longrightarrow>
            (Bind \<in> set acts \<longleftrightarrow> s' \<in> {Bound, Issued, Cancelled, Expired})
            \<and> (s' \<in> {Issued, Expired} \<longrightarrow> set acts \<inter> {Issue, Reinstate, Rewrite} \<noteq> {}))
    \<and> (s = Cancelled \<and> set acts \<inter> {Reinstate, Rewrite} = {} \<longrightarrow> s' = Cancelled)
    \<and> (s = Expired \<longrightarrow> s' = Expired)"
  using history_bound [OF assms] history_issued [OF assms] history_cancelled [OF assms] history_expired [OF assms]
  unfolding bound_or_later_def by auto

theorem lifecycle_histories_witness:
  "history Draft [Bind, Issue, Cancel, Reinstate] Issued \<and> Bind \<in> set [Bind, Issue, Cancel, Reinstate]"
proof -
  have "history Draft ([] @ [Bind]) Bound" by (rule extend [OF start]) (simp add: step_iff)
  then have "history Draft (([] @ [Bind]) @ [Issue]) Issued" by (rule extend) (simp add: step_iff)
  then have "history Draft ((([] @ [Bind]) @ [Issue]) @ [Cancel]) Cancelled" by (rule extend) (simp add: step_iff)
  then have "history Draft (((([] @ [Bind]) @ [Issue]) @ [Cancel]) @ [Reinstate]) Issued" by (rule extend) (simp add: step_iff)
  then have h: "history Draft [Bind, Issue, Cancel, Reinstate] Issued" by simp
  from lifecycle_histories [OF h] h show ?thesis by simp
qed

text \<open>the check before a transaction and the transition table agree: the check accepts an action on a
  stored status exactly when the status names a state (in any case, with spaces around it) the table
  lists for the action; a refusal names the action, the table's source states and its target, and the
  message for a cancelled or unreadable status says so.\<close>

theorem transaction_check_iff:
  "(validate_policy_transaction_state act raw = Inr ()
    \<longleftrightarrow> (\<exists>s. lower (status_text raw) = lower (state_name s)
          \<and> s \<in> set (allowed_from (POLICY_TRANSITIONS act)) \<union> set (idempotent_from (POLICY_TRANSITIONS act))))
   \<and> (case validate_policy_transaction_state act raw of
        Inr _ \<Rightarrow> True
      | Inl r \<Rightarrow> ref_action r = act \<and> ref_allowed r = allowed_from (POLICY_TRANSITIONS act)
          \<and> ref_target r = to_state (POLICY_TRANSITIONS act) \<and> ref_message r \<noteq> [])"
proof
  have parse: "parse_policy_lifecycle_state raw = Some s \<longleftrightarrow> lower (status_text raw) = lower (state_name s)" for s
  proof
    assume "lower (status_text raw) = lower (state_name s)"
    then show "parse_policy_lifecycle_state raw = Some s"
      using state_names_distinct [of s] by (simp add: parse_policy_lifecycle_state_def)
  qed (auto simp: parse_policy_lifecycle_state_def dest: find_first_Some)
  show "validate_policy_transaction_state act raw = Inr ()
    \<longleftrightarrow> (\<exists>s. lower (status_text raw) = lower (state_name s)
          \<and> s \<in> set (allowed_from (POLICY_TRANSITIONS act)) \<union> set (idempotent_from (POLICY_TRANSITIONS act)))"
    unfolding parse [symmetric]
    by (auto simp: validate_policy_transaction_state_def resolve_policy_transition_def Let_def split: option.splits)
  show "case validate_policy_transaction_state act raw of
        Inr _ \<Rightarrow> True
      | Inl r \<Rightarrow> ref_action r = act \<and> ref_allowed r = allowed_from (POLICY_TRANSITIONS act)
          \<and> ref_target r = to_state (POLICY_TRANSITIONS act) \<and> ref_message r \<noteq> []"
    by (auto simp: validate_policy_transaction_state_def invalid_transition_message_def Let_def)
qed

end
