(* ===== verification/PolicyTimeline.thy ===== *)
theory PolicyTimeline
  imports DateUtils
begin

text \<open>
  The timeline of a policy, \<open>server/src/lib/policy-timeline.ts\<close>: the versions of a policy ordered by
  effective date, the segments of constant terms they cut the policy term into, the state at a date,
  and the retroactive premium between two timelines. The rating function is an argument
  (\<open>None\<close> when it throws). A date that is not a calendar date makes \<open>toISOString\<close> throw: \<open>None\<close>.
  \<open>collate\<close> is the host's \<open>localeCompare\<close>. Sorting assumes that the comparator orders the versions.
\<close>

record timeline_host = host +
  collate :: "string \<Rightarrow> string \<Rightarrow> int"

record change =
  change_path :: string
  change_value :: jsval

record version =
  version_id :: string
  version_transaction :: string \<comment> \<open>empty when absent\<close>
  version_type :: string
  version_number :: string
  version_effective :: string
  version_processed :: string
  version_payload :: jsval
  version_changes :: "change list"

record segment =
  seg_version :: string
  seg_transaction :: string
  seg_type :: string
  seg_number :: string
  seg_start :: string
  seg_end :: string
  seg_end_exclusive :: string
  seg_payload :: jsval
  seg_premium :: jsval
  seg_total :: jnum
  seg_fees :: jnum
  seg_taxes :: jnum
  seg_currency :: string

subsection \<open>Dates\<close>

definition compare_date :: "string \<Rightarrow> string \<Rightarrow> int" where
  "compare_date a b = (if a < b then - 1 else if b < a then 1 else 0)"

definition max_date :: "string \<Rightarrow> string \<Rightarrow> string" where
  "max_date a b = (if 0 \<le> compare_date a b then a else b)"

definition min_date :: "string \<Rightarrow> string \<Rightarrow> string" where
  "min_date a b = (if compare_date a b \<le> 0 then a else b)"

text \<open>A date the host cannot read makes every comparison false.\<close>

definition compare_date_time :: "timeline_host \<Rightarrow> string \<Rightarrow> string \<Rightarrow> int" where
  "compare_date_time h a b =
     (case (date_parse h a, date_parse h b) of
        (Some x, Some y) \<Rightarrow> (if x < y then - 1 else if y < x then 1 else 0)
      | _ \<Rightarrow> 0)"

definition coerce :: "timeline_host \<Rightarrow> string \<Rightarrow> string" where
  "coerce h s = coerce_date_only (host.truncate h) (JStr s) None"

definition day_before :: "timeline_host \<Rightarrow> string \<Rightarrow> string option" where
  "day_before h d = add_days (host.truncate h) (JStr d) (- 1)"

definition timeline_days :: "timeline_host \<Rightarrow> string \<Rightarrow> string \<Rightarrow> jnum" where
  "timeline_days h a b = day_gap (coerce h a) (coerce h b)"

subsection \<open>Order and payloads of the versions\<close>

definition effective :: "timeline_host \<Rightarrow> version \<Rightarrow> string" where
  "effective h v = coerce h (version_effective v)"

definition compare_versions :: "timeline_host \<Rightarrow> version \<Rightarrow> version \<Rightarrow> int" where
  "compare_versions h a b =
     (let by_eff = compare_date (effective h a) (effective h b);
          by_processed = compare_date_time h (version_processed a) (version_processed b)
      in if by_eff \<noteq> 0 then by_eff else if by_processed \<noteq> 0 then by_processed
         else collate h (version_id a) (version_id b))"

definition sort_timeline_versions :: "timeline_host \<Rightarrow> version list \<Rightarrow> version list" where
  "sort_timeline_versions h vs = sort_by (compare_versions h) vs"

definition should_apply_change_set :: "version \<Rightarrow> bool" where
  "should_apply_change_set v = (upper (trim (version_type v)) = ''ENDORSE'' \<and> version_changes v \<noteq> [])"

text \<open>\<open>replace(/~1/g, '/')\<close> and the like, on a pair of characters.\<close>

fun replace_pair :: "char \<Rightarrow> char \<Rightarrow> char \<Rightarrow> string \<Rightarrow> string" where
  "replace_pair a b r (c # d # cs) =
     (if c = a \<and> d = b then r # replace_pair a b r cs else c # replace_pair a b r (d # cs))"
| "replace_pair a b r cs = cs"

definition pointer_part :: "string \<Rightarrow> string" where
  "pointer_part w = replace_pair CHR ''~'' CHR ''0'' CHR ''~'' (replace_pair CHR ''~'' CHR ''1'' CHR ''/'' w)"

definition pointer_parts :: "string \<Rightarrow> string list" where
  "pointer_parts p = map pointer_part (drop 1 (split_at_char CHR ''/'' p))"

fun put_path :: "jsval \<Rightarrow> string list \<Rightarrow> jsval \<Rightarrow> jsval" where
  "put_path t [] v = v"
| "put_path t [leaf] v = set_prop t leaf v"
| "put_path t (p # q # ps) v =
     (let child = get t p;
          child' = (if is_objlike child then child
                    else if q \<noteq> [] \<and> list_all is_digit q then JArr [] else JObj [])
      in set_prop t p (put_path child' (q # ps) v))"

definition set_by_path :: "jsval \<Rightarrow> string \<Rightarrow> jsval \<Rightarrow> jsval" where
  "set_by_path t path v = (if path = [] \<or> path = ''/'' then v else put_path t (pointer_parts path) v)"

definition apply_changes :: "jsval \<Rightarrow> change list \<Rightarrow> jsval" where
  "apply_changes t changes = foldl (\<lambda>out c. set_by_path out (change_path c) (json_clone (change_value c))) t changes"

definition next_payload :: "jsval option \<Rightarrow> version \<Rightarrow> jsval" where
  "next_payload running v =
     (case running of
        None \<Rightarrow> json_clone (version_payload v)
      | Some p \<Rightarrow> if should_apply_change_set v then apply_changes (json_clone p) (version_changes v)
                  else json_clone (version_payload v))"

subsection \<open>Segments\<close>

definition zero_money :: jsval where
  "zero_money = JObj [(''amount'', jnat 0), (''currency'', JStr ''USD'')]"

definition safe_rate :: "(jsval \<Rightarrow> jsval option) \<Rightarrow> jsval \<Rightarrow> jsval" where
  "safe_rate rate payload =
     (case rate payload of
        Some r \<Rightarrow> r
      | None \<Rightarrow> JObj [(''byCoverage'', JArr []), (''fees'', zero_money), (''taxes'', zero_money), (''total'', zero_money)])"

definition safe_money :: "jsval \<Rightarrow> jnum" where
  "safe_money v = (if is_finite (to_num v) then to_num v else Fin 0)"

definition extract_currency :: "jsval \<Rightarrow> string" where
  "extract_currency premium =
     (case find_first (\<lambda>v. case v of JStr s \<Rightarrow> s \<noteq> [] | _ \<Rightarrow> False)
             (map (\<lambda>part. get (get premium part) ''currency'') [''total'', ''fees'', ''taxes'']) of
        Some v \<Rightarrow> to_str v | None \<Rightarrow> ''USD'')"

definition amount_of :: "jsval \<Rightarrow> string \<Rightarrow> jnum" where
  "amount_of premium part = round2 (safe_money (get (get premium part) ''amount''))"

definition next_distinct_effective :: "timeline_host \<Rightarrow> version \<Rightarrow> version list \<Rightarrow> string \<Rightarrow> string" where
  "next_distinct_effective h cur rest fallback =
     (case find_first (\<lambda>v. effective h cur < effective h v) rest of
        Some v \<Rightarrow> effective h v | None \<Rightarrow> coerce h fallback)"

definition make_segment ::
  "(jsval \<Rightarrow> jsval option) \<Rightarrow> version \<Rightarrow> jsval \<Rightarrow> string \<Rightarrow> string \<Rightarrow> string \<Rightarrow> segment" where
  "make_segment rate v payload start end_exclusive end_date =
     (let rated = safe_rate rate payload
      in \<lparr>seg_version = version_id v, seg_transaction = version_transaction v, seg_type = upper (version_type v),
          seg_number = version_number v, seg_start = start, seg_end = end_date, seg_end_exclusive = end_exclusive,
          seg_payload = json_clone payload, seg_premium = rated,
          seg_total = amount_of rated ''total'', seg_fees = amount_of rated ''fees'',
          seg_taxes = amount_of rated ''taxes'', seg_currency = extract_currency rated\<rparr>)"

fun cut_segments ::
  "timeline_host \<Rightarrow> (jsval \<Rightarrow> jsval option) \<Rightarrow> string \<Rightarrow> string \<Rightarrow> jsval option \<Rightarrow> version list \<Rightarrow> segment list option" where
  "cut_segments h rate term_eff term_exp running [] = Some []"
| "cut_segments h rate term_eff term_exp running (cur # rest) =
     (let payload = next_payload running cur;
          start = max_date (effective h cur) term_eff;
          end_exclusive = min_date (next_distinct_effective h cur rest term_exp) term_exp;
          more = cut_segments h rate term_eff term_exp (Some payload) rest
      in if (case rest of [] \<Rightarrow> False | nxt # _ \<Rightarrow> effective h nxt \<noteq> [] \<and> effective h nxt = effective h cur) then more
         else if end_exclusive \<le> start then more
         else (case day_before h end_exclusive of
                 None \<Rightarrow> None
               | Some d \<Rightarrow> map_option (\<lambda>segs. make_segment rate cur payload start end_exclusive d # segs) more))"

definition in_term :: "timeline_host \<Rightarrow> string \<Rightarrow> version \<Rightarrow> bool" where
  "in_term h term_exp v = (is_objlike (version_payload v) \<and> effective h v < term_exp)"

definition derive_timeline_segments ::
  "timeline_host \<Rightarrow> (jsval \<Rightarrow> jsval option) \<Rightarrow> version list \<Rightarrow> string \<Rightarrow> string \<Rightarrow> segment list option" where
  "derive_timeline_segments h rate versions term_eff term_exp =
     cut_segments h rate (coerce h term_eff) (coerce h term_exp) None
       (filter (in_term h (coerce h term_exp)) (sort_timeline_versions h versions))"

definition find_timeline_state_at_date :: "timeline_host \<Rightarrow> segment list \<Rightarrow> string \<Rightarrow> segment option" where
  "find_timeline_state_at_date h segs date =
     (let as_of = coerce h date
      in case segs of
           [] \<Rightarrow> None
         | first # _ \<Rightarrow>
             (case find_first (\<lambda>s. seg_start s \<le> as_of \<and> as_of < seg_end_exclusive s) segs of
                Some s \<Rightarrow> Some s
              | None \<Rightarrow> if as_of < seg_start first then Some first else Some (last segs)))"

record rebased =
  reb_version :: string
  reb_transaction :: string
  reb_type :: string
  reb_number :: string
  reb_effective :: string

definition find_rebased_transactions :: "timeline_host \<Rightarrow> version list \<Rightarrow> string \<Rightarrow> rebased list" where
  "find_rebased_transactions h versions date =
     map (\<lambda>v. \<lparr>reb_version = version_id v, reb_transaction = version_transaction v, reb_type = upper (version_type v),
                reb_number = version_number v, reb_effective = effective h v\<rparr>)
       (filter (\<lambda>v. coerce h date < effective h v) (sort_timeline_versions h versions))"

subsection \<open>Retroactive premium\<close>

record impact =
  imp_start :: string
  imp_end :: string
  imp_old_premium :: jnum
  imp_new_premium :: jnum
  imp_old_fees :: jnum
  imp_new_fees :: jnum
  imp_old_taxes :: jnum
  imp_new_taxes :: jnum
  imp_premium_delta :: jnum
  imp_fees_delta :: jnum
  imp_taxes_delta :: jnum

record retro =
  retro_total :: jnum
  retro_fees :: jnum
  retro_taxes :: jnum
  retro_impacts :: "impact list"

definition boundaries :: "segment list \<Rightarrow> string \<Rightarrow> string \<Rightarrow> string list" where
  "boundaries segs start term_exp =
     sort (dedupe (start # term_exp # concat (map (\<lambda>s.
       let a = max_date (seg_start s) start; b = min_date (seg_end_exclusive s) term_exp
       in if a < b then [a, b] else []) segs)))"

definition state_amount :: "(segment \<Rightarrow> jnum) \<Rightarrow> segment option \<Rightarrow> jnum" where
  "state_amount f s = (case s of None \<Rightarrow> Fin 0 | Some seg \<Rightarrow> f seg)"

text \<open>\<open>0.0001\<close>, the number nearest to it.\<close>

definition MATERIAL :: jnum where "MATERIAL = fl (1 / 10000)"

definition share_delta :: "(segment \<Rightarrow> jnum) \<Rightarrow> segment option \<Rightarrow> segment option \<Rightarrow> jnum \<Rightarrow> jnum" where
  "share_delta f old new share = jmul (jsub (state_amount f new) (state_amount f old)) share"

definition add_interval ::
  "timeline_host \<Rightarrow> segment list \<Rightarrow> segment list \<Rightarrow> jnum \<Rightarrow> (jnum \<times> jnum \<times> jnum \<times> impact list) option
   \<Rightarrow> string \<times> string \<Rightarrow> (jnum \<times> jnum \<times> jnum \<times> impact list) option" where
  "add_interval h olds news term_days acc interval =
     (case (acc, interval) of (None, _) \<Rightarrow> None | (Some (tot, fees, taxes, impacts), (a, b)) \<Rightarrow>
       let days = timeline_days h a b
       in if b \<le> a \<or> jle days (Fin 0) then Some (tot, fees, taxes, impacts)
          else
            let old = find_timeline_state_at_date h olds a; new = find_timeline_state_at_date h news a;
                share = jdiv days term_days;
                dp = share_delta seg_total old new share;
                df = share_delta seg_fees old new share;
                dt = share_delta seg_taxes old new share;
                acc3 = (jadd tot dp, jadd fees df, jadd taxes dt)
            in if jle MATERIAL (jabs dp) \<or> jle MATERIAL (jabs df) \<or> jle MATERIAL (jabs dt)
               then (case day_before h b of
                       None \<Rightarrow> None
                     | Some d \<Rightarrow> Some (fst acc3, fst (snd acc3), snd (snd acc3), impacts @
                         [\<lparr>imp_start = a, imp_end = d,
                           imp_old_premium = round2 (state_amount seg_total old), imp_new_premium = round2 (state_amount seg_total new),
                           imp_old_fees = round2 (state_amount seg_fees old), imp_new_fees = round2 (state_amount seg_fees new),
                           imp_old_taxes = round2 (state_amount seg_taxes old), imp_new_taxes = round2 (state_amount seg_taxes new),
                           imp_premium_delta = round2 dp, imp_fees_delta = round2 df, imp_taxes_delta = round2 dt\<rparr>]))
               else Some (fst acc3, fst (snd acc3), snd (snd acc3), impacts))"

definition compute_retro_result ::
  "timeline_host \<Rightarrow> segment list \<Rightarrow> segment list \<Rightarrow> string \<Rightarrow> string \<Rightarrow> string \<Rightarrow> retro option" where
  "compute_retro_result h olds news from_date term_eff term_exp =
     (let te = coerce h term_eff; tx = coerce h term_exp; start = max_date (coerce h from_date) te
      in if tx \<le> start then Some \<lparr>retro_total = Fin 0, retro_fees = Fin 0, retro_taxes = Fin 0, retro_impacts = []\<rparr>
         else
           let term_days = jmax (Fin 1) (timeline_days h te tx);
               bs = boundaries (olds @ news) start tx
           in map_option (\<lambda>(tot, fees, taxes, impacts).
                \<lparr>retro_total = round2 tot, retro_fees = round2 fees, retro_taxes = round2 taxes, retro_impacts = impacts\<rparr>)
              (foldl (add_interval h olds news term_days) (Some (Fin 0, Fin 0, Fin 0, [])) (zip bs (tl bs))))"

subsection \<open>Segments tile the term\<close>

lemma max_date [simp]: "max_date a b = max a b"
  by (auto simp: max_date_def compare_date_def max_def)

lemma min_date [simp]: "min_date a b = min a b"
  by (auto simp: min_date_def compare_date_def min_def)

lemma coerce_date [simp]: "date_only d \<Longrightarrow> coerce h d = d"
  by (simp add: coerce_def)

lemma coerce_nonempty: "today_str h \<noteq> [] \<Longrightarrow> coerce h d \<noteq> []"
  by (auto simp: coerce_def coerce_date_only_def date_only_def host.defs Let_def split: option.splits if_splits)

lemma effective_order:
  "compare_versions h a b \<le> 0 \<Longrightarrow> effective h a \<le> effective h b"
  "\<not> compare_versions h a b \<le> 0 \<Longrightarrow> effective h b \<le> effective h a"
  by (auto simp: compare_versions_def compare_date_def Let_def split: if_splits)

lemma sorted_timeline: "sorted (map (effective h) (sort_timeline_versions h vs))"
  unfolding sort_timeline_versions_def by (rule sorted_sort_by) (fact effective_order)+

text \<open>The segments follow each other without a gap or an overlap from the first date to the last.\<close>

fun tiles :: "string \<Rightarrow> segment list \<Rightarrow> string \<Rightarrow> bool" where
  "tiles a [] b = (a = b)"
| "tiles a (s # ss) b = (seg_start s = a \<and> a < seg_end_exclusive s \<and> tiles (seg_end_exclusive s) ss b)"

lemma make_segment_dates [simp]:
  "seg_start (make_segment rate v p a b d) = a" "seg_end_exclusive (make_segment rate v p a b d) = b"
  by (simp_all add: make_segment_def Let_def)

lemma cut_tiles:
  assumes "today_str h \<noteq> []" "coerce h tx = tx" "te < tx"
    and "vs \<noteq> []" "sorted (map (effective h) vs)" "\<forall>v \<in> set vs. effective h v < tx"
    and "cut_segments h rate te tx running vs = Some segs"
  shows "tiles (max (effective h (hd vs)) te) segs tx"
  using assms(4-7)
proof (induction vs arbitrary: running segs)
  case (Cons cur rest)
  let ?p = "next_payload running cur"
  have nonempty: "effective h v \<noteq> []" for v unfolding effective_def by (rule coerce_nonempty [OF assms(1)])
  show ?case
  proof (cases rest)
    case Nil
    then have "\<not> tx \<le> max (effective h cur) te" using Cons.prems(3) assms(3) by (auto simp: le_max_iff_disj)
    with Nil Cons.prems(4) assms(2) show ?thesis
      by (auto simp: next_distinct_effective_def Let_def not_le split: option.splits if_splits)
  next
    case (Cons w r)
    have ih: "tiles (max (effective h w) te) ss tx" if "cut_segments h rate te tx (Some ?p) rest = Some ss" for ss
      using Cons.IH [OF _ _ _ that] Cons.prems(2,3) by (simp add: Cons)
    have le: "effective h cur \<le> effective h w" "effective h w < tx" using Cons.prems(2,3) by (simp_all add: Cons)
    show ?thesis
    proof (cases "effective h w = effective h cur")
      case True
      with Cons.prems(4) have "cut_segments h rate te tx (Some ?p) rest = Some segs"
        by (simp add: Cons Let_def nonempty)
      from ih [OF this] True show ?thesis by simp
    next
      case False
      with le have lt: "effective h cur < effective h w" by simp
      then have nxt: "min (next_distinct_effective h cur rest tx) tx = effective h w"
        using le(2) by (simp add: next_distinct_effective_def Cons)
      show ?thesis
      proof (cases "effective h w \<le> max (effective h cur) te")
        case True
        with Cons.prems(4) False have more: "cut_segments h rate te tx (Some ?p) rest = Some segs"
          by (simp add: Cons Let_def nxt [unfolded Cons])
        have "effective h w \<le> te" using True lt by (auto simp: le_max_iff_disj)
        then have "max (effective h w) te = max (effective h cur) te"
          using order_trans [OF le(1)] by (simp add: max_def)
        with ih [OF more] show ?thesis by simp
      next
        case False
        have guard: "\<not> (case rest of [] \<Rightarrow> False | nxt # _ \<Rightarrow> effective h nxt \<noteq> [] \<and> effective h nxt = effective h cur)"
          using lt by (auto simp: Cons)
        have step: "cut_segments h rate te tx running (cur # rest)
          = (case day_before h (effective h w) of None \<Rightarrow> None
             | Some d \<Rightarrow> map_option (\<lambda>ss. make_segment rate cur ?p (max (effective h cur) te) (effective h w) d # ss)
                 (cut_segments h rate te tx (Some ?p) rest))"
          using guard False by (simp add: Let_def nxt)
        from Cons.prems(4) [unfolded step] obtain d ss where
          more: "cut_segments h rate te tx (Some ?p) rest = Some ss"
          and segs: "segs = make_segment rate cur ?p (max (effective h cur) te) (effective h w) d # ss"
          by (auto split: option.splits)
        have "max (effective h w) te = effective h w" using False by (meson max.cobounded2 max_absorb1 not_le order.trans less_imp_le)
        with ih [OF more] False show ?thesis by (simp only: segs tiles.simps make_segment_dates list.sel not_le)
      qed
    qed
  qed
qed simp

lemma tiles_bounds: "tiles a segs b \<Longrightarrow> a \<le> b"
  by (induction segs arbitrary: a) (force intro: order_trans less_imp_le)+

lemma tiles_find:
  "tiles a segs b \<Longrightarrow> a \<le> d \<Longrightarrow> d < b \<Longrightarrow>
    \<exists>s. find_first (\<lambda>s. seg_start s \<le> d \<and> d < seg_end_exclusive s) segs = Some s"
proof (induction segs arbitrary: a)
  case (Cons s ss)
  then show ?case by (cases "d < seg_end_exclusive s") auto
qed simp

lemma tiles_inside: "tiles a segs b \<Longrightarrow> s \<in> set segs \<Longrightarrow> a \<le> seg_start s \<and> seg_start s < seg_end_exclusive s \<and> seg_end_exclusive s \<le> b"
  by (induction segs arbitrary: a) (force dest: tiles_bounds)+

lemma tiles_disjoint:
  "tiles a segs b \<Longrightarrow> i < j \<Longrightarrow> j < length segs \<Longrightarrow> seg_end_exclusive (segs ! i) \<le> seg_start (segs ! j)"
proof (induction segs arbitrary: a i j)
  case (Cons s ss)
  then obtain j' where j: "j = Suc j'" by (cases j) auto
  show ?case
  proof (cases i)
    case 0
    with Cons.prems j tiles_inside [of "seg_end_exclusive s" ss b "ss ! j'"] show ?thesis by simp
  next
    case (Suc i')
    with Cons.prems Cons.IH [of "seg_end_exclusive s" i' j'] j show ?thesis by simp
  qed
qed simp

text \<open>The first date of the timeline: the earliest effective date of a version in the term.\<close>

definition first_effective :: "timeline_host \<Rightarrow> version list \<Rightarrow> string \<Rightarrow> string" where
  "first_effective h versions tx = effective h (hd (filter (in_term h tx) (sort_timeline_versions h versions)))"

lemma first_effective_least:
  assumes "v \<in> set versions" "in_term h tx v"
  shows "first_effective h versions tx \<le> effective h v" "first_effective h versions tx < tx"
proof -
  let ?vs = "filter (in_term h tx) (sort_timeline_versions h versions)"
  have v: "v \<in> set ?vs" using assms by (simp add: sort_timeline_versions_def)
  then obtain w ws where ws: "?vs = w # ws" by (cases ?vs) auto
  have "sorted (map (effective h) ?vs)"
    using sorted_timeline [of h versions] by (simp add: sorted_filter)
  with v ws show "first_effective h versions tx \<le> effective h v" by (auto simp: first_effective_def)
  have "w \<in> set ?vs" by (simp add: ws)
  then have "in_term h tx w" by simp
  then show "first_effective h versions tx < tx" by (simp add: first_effective_def ws in_term_def)
qed

lemma derive_tiles:
  assumes "today_str h \<noteq> []" "date_only te" "date_only tx" "te < tx" "\<exists>v \<in> set versions. in_term h tx v"
    and "derive_timeline_segments h rate versions te tx = Some segs"
  shows "tiles (max (first_effective h versions tx) te) segs tx"
proof -
  let ?vs = "filter (in_term h tx) (sort_timeline_versions h versions)"
  have "?vs \<noteq> []" using assms(5) by (auto simp: filter_empty_conv sort_timeline_versions_def)
  moreover have "sorted (map (effective h) ?vs)"
    using sorted_timeline [of h versions] by (simp add: sorted_filter)
  moreover have "\<forall>v \<in> set ?vs. effective h v < tx" by (simp add: in_term_def)
  ultimately show ?thesis
    using cut_tiles [of h tx te ?vs rate None segs] assms by (simp add: derive_timeline_segments_def first_effective_def)
qed

subsection \<open>Equal timelines\<close>

lemma MATERIAL_pos: "\<not> jle MATERIAL (Fin 0)"
proof -
  have "round53 (1 / 16384) = 1 / 16384"
    by (rule round53_exact [of _ 1 "- 14"]) (simp_all add: exp2_def)
  then have "fl (1 / 16384) = Fin (1 / 16384)" by (simp add: fl_pos)
  moreover have "jle (fl (1 / 16384)) (fl (1 / 10000))" by (rule fl_mono) simp
  ultimately show ?thesis by (cases "fl (1 / 10000)") (auto simp: MATERIAL_def jle_def jeq_def)
qed

lemma fl_bounded:
  assumes "0 \<le> x" "x \<le> of_int n" "n < 2 ^ 53"
  shows "\<exists>y. fl x = Fin y"
proof -
  have "0 \<le> n" using assms(1,2) by (metis of_int_0_le_iff order_trans)
  then have "fl (of_int n) = Fin (of_int n)" using assms(3) by (intro fl_int) simp
  moreover have "jle (fl x) (fl (of_int n))" using assms(2) by (rule fl_mono)
  moreover have "jnonneg (fl x)" using assms(1) by (rule fl_nonneg)
  ultimately show ?thesis by (cases "fl x") (auto simp: jle_def jeq_def)
qed

lemma timeline_days_dates:
  assumes "in_range a" "in_range b"
  shows "timeline_days h (iso_date a) (iso_date b) = Fin (of_int (max 0 (b - a)))"
  using assms by (simp add: timeline_days_def day_gap_def iso_date_ok jint_def)

lemma share_finite:
  assumes "in_range a" "in_range b" "in_range c" "in_range d"
  shows "\<exists>y. jdiv (timeline_days h (iso_date a) (iso_date b)) (jmax (Fin 1) (timeline_days h (iso_date c) (iso_date d))) = Fin y"
proof -
  let ?n = "max 0 (b - a)" and ?m = "max 1 (d - c)"
  have m: "jmax (Fin 1) (Fin (of_int (max 0 (d - c)))) = Fin (of_int ?m)" by (auto simp: jmax_def max_def)
  have "(of_int ?n :: rat) / of_int ?m \<le> of_int ?n"
    by (rule divide_le_eq [THEN iffD2]) (simp add: mult_le_cancel_left1 max_def)
  moreover have "?n < 2 ^ 53" using in_range_day_bound [OF assms(1)] in_range_day_bound [OF assms(2)] by simp
  ultimately have "\<exists>y. fl (of_int ?n / of_int ?m) = Fin y" by (intro fl_bounded [where n = ?n]) simp_all
  moreover have "(of_int ?m :: rat) \<noteq> 0" by simp
  ultimately show ?thesis using assms by (simp add: timeline_days_dates m)
qed

definition finite_amounts :: "segment list \<Rightarrow> bool" where
  "finite_amounts segs =
     (\<forall>s \<in> set segs. is_finite (seg_total s) \<and> is_finite (seg_fees s) \<and> is_finite (seg_taxes s))"

lemma find_state_in: "find_timeline_state_at_date h segs d = Some s \<Longrightarrow> s \<in> set segs"
  by (auto simp: find_timeline_state_at_date_def Let_def split: list.splits option.splits if_splits dest!: find_first_Some)

lemma share_delta_same:
  assumes "is_finite (state_amount f s)" "\<exists>y. share = Fin y"
  shows "share_delta f s s share = Fin 0"
  using assms by (cases "state_amount f s") (auto simp: share_delta_def jsub_def)

lemma state_amounts_finite:
  assumes "finite_amounts segs"
  shows "is_finite (state_amount seg_total (find_timeline_state_at_date h segs d))"
    "is_finite (state_amount seg_fees (find_timeline_state_at_date h segs d))"
    "is_finite (state_amount seg_taxes (find_timeline_state_at_date h segs d))"
  using assms find_state_in [of h segs d]
  by (cases "find_timeline_state_at_date h segs d"; simp add: state_amount_def finite_amounts_def)+

lemma add_interval_same:
  assumes "finite_amounts segs" "calendar_date a" "calendar_date b" "calendar_date te" "calendar_date tx"
  shows "add_interval h segs segs (jmax (Fin 1) (timeline_days h te tx)) (Some (Fin 0, Fin 0, Fin 0, [])) (a, b)
         = Some (Fin 0, Fin 0, Fin 0, [])"
proof -
  obtain i j k l where "in_range i" "in_range j" "in_range k" "in_range l" "a = iso_date i" "b = iso_date j" "te = iso_date k"
    "tx = iso_date l" using assms(2-5) by (metis calendar_dateE)
  then have fin: "\<exists>y. jdiv (timeline_days h a b) (jmax (Fin 1) (timeline_days h te tx)) = Fin y"
    by (simp add: share_finite)
  show ?thesis
    using MATERIAL_pos
    by (simp add: add_interval_def Let_def share_delta_same state_amounts_finite [OF assms(1)] fin)
qed

lemma retro_same_fold:
  assumes "finite_amounts segs" "\<forall>(a, b) \<in> set intervals. calendar_date a \<and> calendar_date b"
    "calendar_date te" "calendar_date tx"
  shows "foldl (add_interval h segs segs (jmax (Fin 1) (timeline_days h te tx))) (Some (Fin 0, Fin 0, Fin 0, [])) intervals
         = Some (Fin 0, Fin 0, Fin 0, [])"
  using assms(2) by (induction intervals) (auto simp: add_interval_same [OF assms(1) _ _ assms(3,4)])

lemma boundaries_calendar:
  assumes "calendar_date start" "calendar_date tx" "\<forall>s \<in> set segs. calendar_date (seg_start s) \<and> calendar_date (seg_end_exclusive s)"
  shows "\<forall>d \<in> set (boundaries segs start tx). calendar_date d"
proof -
  have "set (boundaries segs start tx) \<subseteq> {start, tx} \<union> seg_start ` set segs \<union> seg_end_exclusive ` set segs"
    unfolding boundaries_def set_sort set_dedupe by (auto simp: Let_def max_def min_def split: if_splits)
  with assms show ?thesis by auto
qed

lemma zip_tl_in: "(a, b) \<in> set (zip xs (tl xs)) \<Longrightarrow> a \<in> set xs \<and> b \<in> set xs"
  by (cases xs) (auto dest: set_zip_leftD set_zip_rightD)

lemma retro_same:
  assumes "finite_amounts segs" "calendar_date from_date" "calendar_date te" "calendar_date tx"
    and "\<forall>s \<in> set segs. calendar_date (seg_start s) \<and> calendar_date (seg_end_exclusive s)"
  shows "compute_retro_result h segs segs from_date te tx
    = Some \<lparr>retro_total = Fin 0, retro_fees = Fin 0, retro_taxes = Fin 0, retro_impacts = []\<rparr>"
proof (cases "tx \<le> max from_date te")
  case True
  then show ?thesis using assms(2-4) by (simp add: compute_retro_result_def Let_def calendar_date_only)
next
  case False
  let ?bs = "boundaries (segs @ segs) (max from_date te) tx"
  have "calendar_date (max from_date te)" using assms(2,3) by (simp add: max_def)
  then have "\<forall>d \<in> set ?bs. calendar_date d" using assms(4,5) by (intro boundaries_calendar) auto
  then have "\<forall>(a, b) \<in> set (zip ?bs (tl ?bs)). calendar_date a \<and> calendar_date b" by (auto dest!: zip_tl_in)
  from retro_same_fold [OF assms(1) this assms(3,4)] False show ?thesis
    using assms(2-4) by (simp add: compute_retro_result_def Let_def calendar_date_only)
qed

subsection \<open>Properties\<close>

definition example_timeline_host :: timeline_host where
  "example_timeline_host =
     \<lparr>today_str = ''2026-01-15'', date_parse = (\<lambda>_. None), local_ymd = (\<lambda>_. (1970, 1, 1)), collate = (\<lambda>a b. 0)\<rparr>"

definition example_version :: "string \<Rightarrow> string \<Rightarrow> version" where
  "example_version name date =
     \<lparr>version_id = name, version_transaction = [], version_type = ''NB'', version_number = [], version_effective = date,
      version_processed = date, version_payload = JObj [], version_changes = []\<rparr>"

text \<open>C25: the segments of a timeline tile the policy term: the first starts at the earliest version of the
  term (or the term's own start), each ends where the next starts, none is empty, and the last ends at
  the term's end; whatever the order the versions come in, and when several share a date.\<close>

theorem segments_tile_the_term:
  assumes "today_str h \<noteq> []" "date_only te" "date_only tx" "te < tx"
    and "v \<in> set versions" "in_term h tx v"
    and "derive_timeline_segments h rate versions te tx = Some segs"
  shows "segs \<noteq> [] \<and> tiles (max (first_effective h versions tx) te) segs tx
    \<and> first_effective h versions tx \<le> effective h v"
proof -
  have t: "tiles (max (first_effective h versions tx) te) segs tx"
    using assms by (intro derive_tiles [where rate = rate]) auto
  moreover have "max (first_effective h versions tx) te < tx" using first_effective_least [OF assms(5,6)] assms(4) by simp
  then have "segs \<noteq> []" using t by (cases segs) (simp_all only: tiles.simps less_irrefl, simp)
  ultimately show ?thesis using first_effective_least [OF assms(5,6)] by simp
qed

theorem segments_tile_the_term_witness:
  "\<exists>segs. derive_timeline_segments example_timeline_host (\<lambda>_. None)
      [example_version ''B'' ''2026-06-01'', example_version ''A'' ''2026-01-01''] ''2026-01-01'' ''2027-01-01'' = Some segs
    \<and> tiles ''2026-01-01'' segs ''2027-01-01''"
proof -
  let ?vs = "[example_version ''B'' ''2026-06-01'', example_version ''A'' ''2026-01-01'']"
  have ok: "today_str example_timeline_host \<noteq> []" "date_only ''2026-01-01''" "date_only ''2027-01-01''"
    "''2026-01-01'' < ''2027-01-01''" "in_term example_timeline_host ''2027-01-01'' (example_version ''A'' ''2026-01-01'')"
    by code_simp+
  have mem: "example_version ''A'' ''2026-01-01'' \<in> set ?vs" by simp
  have first: "first_effective example_timeline_host ?vs ''2027-01-01'' = ''2026-01-01''" by code_simp
  have "derive_timeline_segments example_timeline_host (\<lambda>_. None) ?vs ''2026-01-01'' ''2027-01-01'' \<noteq> None" by code_simp
  then obtain segs where segs: "derive_timeline_segments example_timeline_host (\<lambda>_. None) ?vs ''2026-01-01'' ''2027-01-01'' = Some segs"
    by blast
  from segments_tile_the_term [OF ok(1-4) mem ok(5) segs] segs show ?thesis by (auto simp: first)
qed

text \<open>on segments that tile a period, the state at a date inside it is the one segment whose days
  contain the date: no other segment contains it, so the lookup does not depend on the order.\<close>

theorem state_at_date_is_its_segment:
  assumes "tiles a segs b" "date_only d" "a \<le> d" "d < b"
  shows "\<exists>i < length segs. find_timeline_state_at_date h segs d = Some (segs ! i)
    \<and> seg_start (segs ! i) \<le> d \<and> d < seg_end_exclusive (segs ! i)
    \<and> (\<forall>j < length segs. seg_start (segs ! j) \<le> d \<and> d < seg_end_exclusive (segs ! j) \<longrightarrow> j = i)"
proof -
  from tiles_find [OF assms(1,3,4)] obtain s
    where s: "find_first (\<lambda>s. seg_start s \<le> d \<and> d < seg_end_exclusive s) segs = Some s" by blast
  then have in_s: "s \<in> set segs" "seg_start s \<le> d" "d < seg_end_exclusive s" by (auto dest: find_first_Some)
  then obtain i where i: "i < length segs" "segs ! i = s" by (auto simp: in_set_conv_nth)
  have "j = i" if j: "j < length segs" "seg_start (segs ! j) \<le> d" "d < seg_end_exclusive (segs ! j)" for j
    using tiles_disjoint [OF assms(1), of i j] tiles_disjoint [OF assms(1), of j i] i j in_s
    by (cases i j rule: linorder_cases) auto
  moreover have "find_timeline_state_at_date h segs d = Some s"
    using s assms(2) by (cases segs) (auto simp: find_timeline_state_at_date_def Let_def)
  ultimately show ?thesis using i in_s by blast
qed

definition example_segment :: "string \<Rightarrow> string \<Rightarrow> segment" where
  "example_segment a b =
     \<lparr>seg_version = a, seg_transaction = [], seg_type = ''NB'', seg_number = [], seg_start = a, seg_end = b,
      seg_end_exclusive = b, seg_payload = JNull, seg_premium = JNull, seg_total = Fin 100, seg_fees = Fin 0,
      seg_taxes = Fin 0, seg_currency = ''USD''\<rparr>"

theorem state_at_date_is_its_segment_witness:
  "\<exists>i < 2. find_timeline_state_at_date example_timeline_host
     [example_segment ''2026-01-01'' ''2026-06-01'', example_segment ''2026-06-01'' ''2027-01-01''] ''2026-06-15''
     = Some ([example_segment ''2026-01-01'' ''2026-06-01'', example_segment ''2026-06-01'' ''2027-01-01''] ! i)"
proof -
  let ?segs = "[example_segment ''2026-01-01'' ''2026-06-01'', example_segment ''2026-06-01'' ''2027-01-01'']"
  have "tiles ''2026-01-01'' ?segs ''2027-01-01''" "date_only ''2026-06-15''" "''2026-01-01'' \<le> ''2026-06-15''"
    "''2026-06-15'' < ''2027-01-01''" by code_simp+
  from state_at_date_is_its_segment [OF this, of example_timeline_host] obtain i
    where i: "i < length ?segs" "find_timeline_state_at_date example_timeline_host ?segs ''2026-06-15'' = Some (?segs ! i)"
    by blast
  then have "i < 2" by simp
  with i(2) show ?thesis by blast
qed

text \<open>a retroactive comparison of a timeline with itself charges nothing: no delta in premium, fees or
  taxes and no impacted segment, from any date.\<close>

theorem retro_of_same_timeline_is_zero:
  assumes "finite_amounts segs" "calendar_date from_date" "calendar_date te" "calendar_date tx"
    and "\<forall>s \<in> set segs. calendar_date (seg_start s) \<and> calendar_date (seg_end_exclusive s)"
  shows "compute_retro_result h segs segs from_date te tx
    = Some \<lparr>retro_total = Fin 0, retro_fees = Fin 0, retro_taxes = Fin 0, retro_impacts = []\<rparr>"
  using assms by (rule retro_same)

theorem retro_of_same_timeline_is_zero_witness:
  "compute_retro_result example_timeline_host [example_segment ''2026-01-01'' ''2027-01-01'']
     [example_segment ''2026-01-01'' ''2027-01-01''] ''2026-03-01'' ''2026-01-01'' ''2027-01-01''
    = Some \<lparr>retro_total = Fin 0, retro_fees = Fin 0, retro_taxes = Fin 0, retro_impacts = []\<rparr>"
proof -
  have "finite_amounts [example_segment ''2026-01-01'' ''2027-01-01'']"
    by (simp add: finite_amounts_def example_segment_def)
  moreover have "iso_date 20513 = ''2026-03-01''" "iso_date 20454 = ''2026-01-01''" "iso_date 20819 = ''2027-01-01''"
    "in_range 20513" "in_range 20454" "in_range 20819" by code_simp+
  then have "calendar_date ''2026-03-01''" "calendar_date ''2026-01-01''" "calendar_date ''2027-01-01''"
    by (metis calendar_date_iso)+
  ultimately show ?thesis by (intro retro_of_same_timeline_is_zero) (simp_all add: example_segment_def)
qed

end
