(* ===== verification/QueueUtils.thy ===== *)
theory QueueUtils
  imports JsText
begin

text \<open>
  What the two queues of the server share, written twice in the source: \<open>calculateBackoffSeconds\<close> and
  the readers of environment settings (\<open>server/src/jobs/jobQueue.ts\<close>, \<open>worker.ts\<close>,
  \<open>server/src/asyncMessageWorker.ts\<close>). Times are milliseconds since the epoch, as \<open>Date\<close> counts them.
\<close>

text \<open>\<open>Math.pow(2, n)\<close> for an integer \<open>n\<close> of at least 0.\<close>

definition jpow2 :: "int \<Rightarrow> jnum" where
  "jpow2 n = (if 1024 \<le> n then PInf else Fin (2 ^ nat n))"

definition calculate_backoff_seconds :: "int \<Rightarrow> jnum \<Rightarrow> jnum \<Rightarrow> jnum" where
  "calculate_backoff_seconds attempt base_seconds max_seconds =
     jmin (jround (jmul base_seconds (jpow2 (max (attempt - 1) 0)))) max_seconds"

text \<open>\<open>make_interval(secs => x)\<close> of the database, which refuses a number that is not finite.\<close>

definition interval_ms :: "jnum \<Rightarrow> int option" where
  "interval_ms x = (case x of Fin s \<Rightarrow> Some (round_half_even (s * 1000)) | _ \<Rightarrow> None)"

definition parse_boolean :: "string option \<Rightarrow> bool \<Rightarrow> bool" where
  "parse_boolean value fallback =
     (case value of
        None \<Rightarrow> fallback
      | Some v \<Rightarrow>
          let normalized = lower (trim v)
          in if v = [] then fallback
             else if normalized \<in> set [''1'', ''true'', ''yes'', ''on''] then True
             else if normalized \<in> set [''0'', ''false'', ''no'', ''off''] then False
             else fallback)"

text \<open>\<open>Number.parseInt(text, 10)\<close>: the digits the trimmed text begins with, after a sign.\<close>

definition parse_int10 :: "string \<Rightarrow> jnum" where
  "parse_int10 text =
     (let s = trim_start text; neg = starts_with s ''-'';
          ds = takeWhile is_digit (if neg \<or> starts_with s ''+'' then drop 1 s else s)
      in if ds = [] then NaN else fl (of_int (if neg then - int_of_digits ds else int_of_digits ds)))"

definition parse_positive_int :: "string option \<Rightarrow> jnum \<Rightarrow> jnum" where
  "parse_positive_int value fallback =
     (case value of
        None \<Rightarrow> fallback
      | Some v \<Rightarrow>
          let parsed = parse_int10 v
          in if v = [] \<or> \<not> is_finite parsed \<or> jle parsed (Fin 0) then fallback else parsed)"

subsection \<open>Whole numbers\<close>

lemma jint_arith:
  "\<bar>a + b\<bar> < 2 ^ 53 \<Longrightarrow> jadd (jint a) (jint b) = jint (a + b)"
  "\<bar>a - b\<bar> < 2 ^ 53 \<Longrightarrow> jsub (jint a) (jint b) = jint (a - b)"
  "\<bar>a * b\<bar> < 2 ^ 53 \<Longrightarrow> jmul (jint a) (jint b) = jint (a * b)"
  "jmax (jint a) (jint b) = jint (max a b)"
  "Fin 1 = jint 1" "Fin 0 = jint 0"
  using fl_int [of "a + b"] fl_int [of "a - b"] fl_int [of "a * b"]
  by (simp_all add: jint_def jsub_def jmax_def max_def)

lemma jint_simps [simp]:
  "jfloor (jint a) = jint a" "is_finite (jint a)" "is_integer (jint a)" "jabs (jint a) = jint \<bar>a\<bar>"
  "jle (jint a) (jint b) \<longleftrightarrow> a \<le> b" "jint a = jint b \<longleftrightarrow> a = b" "jint a \<noteq> NaN"
  by (simp_all add: jint_def)

lemma case_jint [simp]: "(case jint a of NaN \<Rightarrow> x | PInf \<Rightarrow> y | NInf \<Rightarrow> z | Fin t \<Rightarrow> f t) = f (of_int a)"
  by (simp add: jint_def)

lemma jint_numeral: "Fin (numeral k) = jint (numeral k)"
  by (simp add: jint_def)

subsection \<open>Backoff\<close>

lemma fl_exp2: "0 \<le> k \<Longrightarrow> k < 1024 \<Longrightarrow> fl (exp2 k) = Fin (exp2 k)"
proof (rule round53_lt_overflow)
  assume "0 \<le> k" "k < 1024"
  then show "round53 (exp2 k) = exp2 k" by (intro round53_exact [where m = 1]) (simp_all, linarith)
  show "exp2 k < 2 ^ 1024" using \<open>k < 1024\<close> exp2_less_iff [of k 1024] by (simp add: exp2_def)
qed simp

lemma jmin_left: "jle (Fin x) (Fin y) \<Longrightarrow> jmin (Fin x) (Fin y) = Fin x"
  by (simp add: jmin_def)

lemma jmin_big: "a = PInf \<or> (\<exists>x. a = Fin x \<and> m \<le> x) \<Longrightarrow> jmin a (Fin m) = Fin m"
  by (auto simp: jmin_def)

lemma jround_big:
  assumes "2 ^ 53 \<le> x"
  shows "jround (fl x) = PInf \<or> (\<exists>y. jround (fl x) = Fin y \<and> 2 ^ 53 \<le> y)"
proof -
  have "fl (exp2 53) = Fin (exp2 53)" by (rule fl_exp2) simp_all
  moreover have "jle (fl (exp2 53)) (fl x)" using assms by (intro fl_mono) (simp add: exp2_def)
  moreover have "exp2 53 = 2 ^ 53" by (simp add: exp2_def)
  ultimately show ?thesis
  proof (cases "fl x")
    case (Fin y)
    with \<open>jle (fl (exp2 53)) (fl x)\<close> \<open>fl (exp2 53) = Fin (exp2 53)\<close> have "exp2 53 \<le> y" by simp
    then have "(2 ^ 53 :: rat) \<le> y" by (simp add: exp2_def)
    then have "2 ^ 53 \<le> \<lfloor>y + 1 / 2\<rfloor>" by (simp add: le_floor_iff)
    then have "(of_int (2 ^ 53) :: rat) \<le> of_int \<lfloor>y + 1 / 2\<rfloor>" by (simp only: of_int_le_iff)
    with Fin show ?thesis by simp
  qed (auto simp: jle_def jeq_def)
qed

text \<open>The closed form of the backoff on whole seconds.\<close>

lemma backoff_int:
  assumes "0 < b" "b < 2 ^ 53" "m < 2 ^ 53" "1 \<le> a"
  shows "calculate_backoff_seconds a (Fin (of_int b)) (Fin (of_int m)) = Fin (of_int (min (b * 2 ^ nat (a - 1)) m))"
proof -
  let ?k = "nat (a - 1)"
  let ?v = "b * 2 ^ ?k"
  have max: "max (a - 1) 0 = a - 1" using assms(4) by simp
  have m: "(of_int m :: rat) \<le> 2 ^ 53"
    using assms(3) of_int_le_iff [of m "2 ^ 53", where 'a = rat] by simp
  consider "a - 1 < 1024" "?v < 2 ^ 53" | "a - 1 < 1024" "2 ^ 53 \<le> ?v" | "1024 \<le> a - 1" by linarith
  then show ?thesis
  proof cases
    case 1
    have "fl (of_int ?v) = Fin (of_int ?v)" using 1(2) assms(1) by (intro fl_int) simp
    then have "jmul (Fin (of_int b)) (jpow2 (a - 1)) = Fin (of_int ?v)" using 1(1) by (simp add: jpow2_def)
    moreover have "\<lfloor>(of_int ?v :: rat) + 1 / 2\<rfloor> = ?v" by linarith
    ultimately have "jround (jmul (Fin (of_int b)) (jpow2 (a - 1))) = Fin (of_int ?v)" by simp
    then show ?thesis unfolding calculate_backoff_seconds_def max
      by (simp only:) (auto simp: jmin_def min_def simp del: of_int_mult of_int_power)
  next
    case 2
    have "(of_int (2 ^ 53) :: rat) \<le> of_int ?v" using 2(2) by (simp only: of_int_le_iff)
    then have big: "(2 ^ 53 :: rat) \<le> of_int ?v" by simp
    have "jmul (Fin (of_int b)) (jpow2 (a - 1)) = fl (of_int ?v)" using 2(1) by (simp add: jpow2_def)
    then have "jmin (jround (jmul (Fin (of_int b)) (jpow2 (a - 1)))) (Fin (of_int m)) = Fin (of_int m)"
      using jround_big [OF big] m by (intro jmin_big) (auto intro: order_trans)
    moreover have "min ?v m = m" using 2(2) assms(3) by linarith
    ultimately show ?thesis by (simp add: calculate_backoff_seconds_def max)
  next
    case 3
    have "(2 :: int) ^ 53 \<le> 2 ^ ?k" using 3 by (intro power_increasing) linarith+
    also have "\<dots> \<le> ?v" using assms(1) by simp
    finally have "min ?v m = m" using assms(3) by linarith
    moreover have "jmul (Fin (of_int b)) (jpow2 (a - 1)) = PInf" using 3 assms(1) by (simp add: jpow2_def jinf_def)
    ultimately show ?thesis by (simp add: calculate_backoff_seconds_def max jmin_def)
  qed
qed

lemma interval_backoff:
  assumes "0 < b" "b < 2 ^ 53" "m < 2 ^ 53" "1 \<le> a"
  shows "interval_ms (calculate_backoff_seconds a (Fin (of_int b)) (Fin (of_int m))) = Some (1000 * min (b * 2 ^ nat (a - 1)) m)"
proof -
  have "(of_int n :: rat) * 1000 = of_int (1000 * n)" for n by simp
  then show ?thesis using assms
    by (simp only: backoff_int interval_ms_def jnum.case round_half_even_int)
qed

subsection \<open>Properties\<close>

text \<open>on whole seconds the delay after a failed attempt is the base doubled with every attempt and
  capped, for every attempt number: however large the power, the cap is the delay and never NaN.\<close>

theorem backoff_doubles_to_the_cap:
  assumes "0 < b" "b < 2 ^ 53" "0 \<le> m" "m < 2 ^ 53" "1 \<le> a"
  shows "calculate_backoff_seconds a (Fin (of_int b)) (Fin (of_int m)) = Fin (of_int (min (b * 2 ^ nat (a - 1)) m))
    \<and> interval_ms (calculate_backoff_seconds a (Fin (of_int b)) (Fin (of_int m))) = Some (1000 * min (b * 2 ^ nat (a - 1)) m)"
  using backoff_int [OF assms(1,2,4,5)] interval_backoff [OF assms(1,2,4,5)] by blast

theorem backoff_doubles_to_the_cap_witness:
  "calculate_backoff_seconds 3 (Fin 10) (Fin 600) = Fin 40 \<and> calculate_backoff_seconds 5000 (Fin 10) (Fin 600) = Fin 600"
proof
  show "calculate_backoff_seconds 3 (Fin 10) (Fin 600) = Fin 40"
    using backoff_doubles_to_the_cap [of 10 600 3] by simp
  have "(600 :: int) \<le> 10 * 2 ^ 6" by simp
  also have "\<dots> \<le> 10 * 2 ^ 4999" by (intro mult_left_mono power_increasing) simp_all
  finally have "min (10 * 2 ^ 4999) (600 :: int) = 600" by (rule min_absorb2)
  then show "calculate_backoff_seconds 5000 (Fin 10) (Fin 600) = Fin 600"
    using backoff_doubles_to_the_cap [of 10 600 5000] by simp
qed

end
