(* ===== verification/JobQueue.thy ===== *)
theory JobQueue
  imports QueueUtils JsValue
begin

text \<open>
  The background jobs, \<open>server/src/jobs/jobQueue.ts\<close>, \<open>registry.ts\<close> and the execution of a run in
  \<open>worker.ts\<close>. The tables \<open>job_definitions\<close>, \<open>job_runs\<close> and
  \<open>job_run_events\<close> are the lists of a record; each SQL statement is
  a definition on them, with the clock as an argument. Row ids come from a counter in place of random
  ones. \<open>FOR UPDATE SKIP LOCKED\<close> passes over the rows other transactions hold: the set \<open>busy\<close>. The
  foreign key of a run on its job definition is the set of known codes. Times are milliseconds.
\<close>

datatype job_status = Queued | Running | Succeeded | Retry | DeadLettered | Cancelled

primrec status_name :: "job_status \<Rightarrow> string" where
  "status_name Queued = ''Queued''" | "status_name Running = ''Running''" | "status_name Succeeded = ''Succeeded''"
| "status_name Retry = ''Retry''" | "status_name DeadLettered = ''DeadLettered''" | "status_name Cancelled = ''Cancelled''"

record job_run =
  run_id :: nat
  run_tenant :: string
  run_job :: string
  run_schedule :: "nat option"
  run_key :: string
  run_status :: job_status
  run_attempts :: int
  run_max :: int
  run_checkpoint :: jsval
  run_request :: jsval
  run_result :: jsval
  run_error :: "string option"
  run_locked_by :: "string option"
  run_locked_until :: "int option"
  run_next :: int
  run_started :: "int option"
  run_finished :: "int option"
  run_created :: int
  run_updated :: int

record job_event =
  ev_tenant :: string
  ev_run :: nat
  ev_type :: string
  ev_message :: "string option"
  ev_payload :: jsval
  ev_at :: int

record definition_row =
  row_code :: string
  row_enabled :: bool
  row_default_schedule :: "string option"
  row_default_max :: int

record job_store =
  definitions :: "definition_row list"
  runs :: "job_run list"
  events :: "job_event list"
  next_id :: nat

definition known_jobs :: "job_store \<Rightarrow> string list" where
  "known_jobs st = map row_code (definitions st)"

text \<open>\<open>JSON.stringify(v ?? {})\<close> read back from the json column.\<close>

definition json_or_empty :: "jsval \<Rightarrow> jsval" where
  "json_or_empty v = (if nullish v then JObj [] else json_clone v)"

definition update_run :: "nat \<Rightarrow> (job_run \<Rightarrow> job_run) \<Rightarrow> job_store \<Rightarrow> job_store" where
  "update_run i f st = st\<lparr>runs := map (\<lambda>r. if run_id r = i then f r else r) (runs st)\<rparr>"

definition record_run_event :: "int \<Rightarrow> string \<Rightarrow> nat \<Rightarrow> string \<Rightarrow> string option \<Rightarrow> jsval \<Rightarrow> job_store \<Rightarrow> job_store" where
  "record_run_event now tenant i event_type message payload st =
     st\<lparr>events := events st @ [\<lparr>ev_tenant = tenant, ev_run = i, ev_type = event_type, ev_message = message,
        ev_payload = json_or_empty payload, ev_at = now\<rparr>]\<rparr>"

subsection \<open>Enqueue\<close>

record enqueue_params =
  enq_tenant :: string
  enq_job :: string
  enq_key :: string
  enq_request :: jsval
  enq_schedule :: "nat option"
  enq_max :: "int option"

definition new_run :: "int \<Rightarrow> nat \<Rightarrow> enqueue_params \<Rightarrow> job_run" where
  "new_run now i p =
     \<lparr>run_id = i, run_tenant = enq_tenant p, run_job = enq_job p, run_schedule = enq_schedule p, run_key = enq_key p,
      run_status = Queued, run_attempts = 0, run_max = (case enq_max p of None \<Rightarrow> 5 | Some m \<Rightarrow> m),
      run_checkpoint = JObj [], run_request = json_or_empty (enq_request p), run_result = JObj [], run_error = None,
      run_locked_by = None, run_locked_until = None, run_next = now, run_started = None, run_finished = None,
      run_created = now, run_updated = now\<rparr>"

definition find_run :: "job_store \<Rightarrow> string \<Rightarrow> string \<Rightarrow> job_run option" where
  "find_run st tenant key = find_first (\<lambda>r. run_tenant r = tenant \<and> run_key r = key) (runs st)"

text \<open>The run, whether it was created, and the store; \<open>None\<close> when the database refuses the job code.\<close>

definition enqueue_job :: "int \<Rightarrow> enqueue_params \<Rightarrow> job_store \<Rightarrow> (job_run \<times> bool \<times> job_store) option" where
  "enqueue_job now p st =
     (case find_run st (enq_tenant p) (enq_key p) of
        Some r \<Rightarrow> Some (r, False, st)
      | None \<Rightarrow>
          if enq_job p \<notin> set (known_jobs st) then None
          else let r = new_run now (next_id st) p
               in Some (r, True, st\<lparr>runs := runs st @ [r], next_id := Suc (next_id st)\<rparr>))"

subsection \<open>Claim\<close>

definition due :: "int \<Rightarrow> nat set \<Rightarrow> string option \<Rightarrow> job_run \<Rightarrow> bool" where
  "due now busy tenant r =
     ((run_status r = Queued \<or> run_status r = Retry) \<and> run_next r \<le> now \<and> run_attempts r < run_max r
      \<and> (case tenant of None \<Rightarrow> True | Some t \<Rightarrow> run_tenant r = t) \<and> run_id r \<notin> busy)"

definition claim_order :: "job_run \<Rightarrow> job_run \<Rightarrow> int" where
  "claim_order a b =
     (if run_next a < run_next b then - 1 else if run_next b < run_next a then 1
      else if run_created a < run_created b then - 1 else if run_created b < run_created a then 1 else 0)"

definition candidates :: "int \<Rightarrow> nat set \<Rightarrow> nat \<Rightarrow> string option \<Rightarrow> job_store \<Rightarrow> job_run list" where
  "candidates now busy limit tenant st = take limit (sort_by claim_order (filter (due now busy tenant) (runs st)))"

definition claim_run :: "int \<Rightarrow> string \<Rightarrow> int \<Rightarrow> job_run \<Rightarrow> job_run" where
  "claim_run now worker lock_seconds r =
     r\<lparr>run_status := Running, run_attempts := run_attempts r + 1, run_locked_by := Some worker,
       run_locked_until := Some (now + lock_seconds * 1000),
       run_started := (case run_started r of None \<Rightarrow> Some now | s \<Rightarrow> s), run_updated := now\<rparr>"

definition claim_due_runs ::
  "int \<Rightarrow> nat set \<Rightarrow> nat \<Rightarrow> string \<Rightarrow> int \<Rightarrow> string option \<Rightarrow> job_store \<Rightarrow> job_run list \<times> job_store" where
  "claim_due_runs now busy limit worker lock_seconds tenant st =
     (let cs = candidates now busy limit tenant st; ids = map run_id cs; f = claim_run now worker lock_seconds
      in (map f cs, st\<lparr>runs := map (\<lambda>r. if run_id r \<in> set ids then f r else r) (runs st)\<rparr>))"

subsection \<open>Ends of a run\<close>

text \<open>The argument \<open>r\<close> is the row as the worker claimed it; the statements address the table by its id.\<close>

definition checkpoint_run :: "int \<Rightarrow> job_run \<Rightarrow> jsval \<Rightarrow> job_store \<Rightarrow> job_store" where
  "checkpoint_run now r data st =
     record_run_event now (run_tenant r) (run_id r) ''checkpointed'' None data
       (update_run (run_id r) (\<lambda>x. x\<lparr>run_checkpoint := json_or_empty data, run_updated := now\<rparr>) st)"

definition complete_run :: "int \<Rightarrow> job_run \<Rightarrow> jsval \<Rightarrow> job_store \<Rightarrow> job_store" where
  "complete_run now r result st =
     record_run_event now (run_tenant r) (run_id r) ''completed'' None result
       (update_run (run_id r) (\<lambda>x. x\<lparr>run_status := Succeeded, run_result := json_or_empty result,
          run_finished := Some now, run_locked_by := None, run_locked_until := None, run_updated := now\<rparr>) st)"

record backoff_policy =
  base_seconds :: jnum
  max_seconds :: jnum

text \<open>\<open>None\<close> when the database refuses the delay, which it does for no finite policy.\<close>

definition retry_or_dead_letter_run ::
  "int \<Rightarrow> job_run \<Rightarrow> string \<Rightarrow> backoff_policy \<Rightarrow> job_store \<Rightarrow> job_store option" where
  "retry_or_dead_letter_run now r error backoff st =
     (let exhausted = (run_max r \<le> run_attempts r);
          error_text = take 3000 error;
          delay = (if exhausted then Fin 0
                   else calculate_backoff_seconds (run_attempts r) (base_seconds backoff) (max_seconds backoff))
      in case interval_ms delay of
           None \<Rightarrow> None
         | Some ms \<Rightarrow> Some (record_run_event now (run_tenant r) (run_id r)
             (if exhausted then ''dead_lettered'' else ''retry_scheduled'') (Some error_text) JUndef
             (update_run (run_id r) (\<lambda>x. x\<lparr>run_status := (if exhausted then DeadLettered else Retry),
                run_error := Some error_text, run_locked_by := None, run_locked_until := None,
                run_next := now + ms, run_finished := (if exhausted then Some now else run_finished x),
                run_updated := now\<rparr>) st)))"

definition retry_key :: "int \<Rightarrow> job_run \<Rightarrow> string" where
  "retry_key now r = run_key r @ '':manual-retry:'' @ int_str now"

definition not_dead_lettered :: "job_run \<Rightarrow> string" where
  "not_dead_lettered r =
     ''Run '' @ nat_str (run_id r) @ '' is not dead-lettered (status: '' @ status_name (run_status r) @ '')''"

definition retry_dead_lettered_run ::
  "int \<Rightarrow> job_run \<Rightarrow> string option \<Rightarrow> job_store \<Rightarrow> (string, job_run \<times> job_store) outcome option" where
  "retry_dead_lettered_run now r actor st =
     (if run_status r \<noteq> DeadLettered then Some (Inl (not_dead_lettered r))
      else map_option (\<lambda>(new, _, st'). Inr (new,
             record_run_event now (run_tenant r) (run_id new) ''manual_retry_enqueued'' actor
               (JObj [(''sourceRunId'', JStr (nat_str (run_id r)))]) st'))
           (enqueue_job now \<lparr>enq_tenant = run_tenant r, enq_job = run_job r, enq_key = retry_key now r,
              enq_request = run_request r, enq_schedule = run_schedule r, enq_max = Some (run_max r)\<rparr> st))"

subsection \<open>Registry and execution\<close>

text \<open>
  A handler is code outside the queue: from the start time and the claimed row it gives the
  checkpoints it writes and their times, its end time and its result or the message it throws. A
  payload schema gives the parsed payload or the message of the parser.
\<close>

type_synonym handler = "int \<Rightarrow> job_run \<Rightarrow> (int \<times> jsval) list \<times> int \<times> (string, jsval) outcome"

record job_definition =
  def_code :: string
  def_handler :: handler
  def_schema :: "(jsval \<Rightarrow> (string, jsval) outcome) option"
  def_max_attempts :: int
  def_backoff :: backoff_policy

type_synonym registry = "(string \<times> job_definition) list"

definition register_job :: "job_definition \<Rightarrow> registry \<Rightarrow> registry" where
  "register_job d reg = aput reg (def_code d) d"

definition get_job_definition :: "registry \<Rightarrow> string \<Rightarrow> job_definition option" where
  "get_job_definition reg code = aget reg code"

definition list_registered_job_codes :: "registry \<Rightarrow> string list" where
  "list_registered_job_codes reg = map fst reg"

definition is_job_code_registered :: "registry \<Rightarrow> string \<Rightarrow> bool" where
  "is_job_code_registered reg code = (aget reg code \<noteq> None)"

definition validate_job_payload :: "registry \<Rightarrow> string \<Rightarrow> jsval \<Rightarrow> (string, jsval) outcome" where
  "validate_job_payload reg code payload =
     (case get_job_definition reg code of
        None \<Rightarrow> Inl (''Unknown job code: '' @ code)
      | Some d \<Rightarrow>
          (case def_schema d of
             None \<Rightarrow> Inr payload
           | Some parse_payload \<Rightarrow>
               (case parse_payload payload of
                  Inl e \<Rightarrow> Inl (''Invalid payload for job '' @ code @ '': '' @ e)
                | Inr v \<Rightarrow> Inr v)))"

definition unknown_policy :: backoff_policy where
  "unknown_policy = \<lparr>base_seconds = Fin 1, max_seconds = Fin 1\<rparr>"

definition no_handler :: "job_run \<Rightarrow> string" where
  "no_handler r = ''No handler registered for job code '' @ run_job r"

text \<open>What follows the handler: the run is completed, or fails with the handler's policy.\<close>

definition finish_run :: "registry \<Rightarrow> int \<Rightarrow> job_run \<Rightarrow> (string, jsval) outcome \<Rightarrow> job_store \<Rightarrow> job_store option" where
  "finish_run reg now r result st =
     (case get_job_definition reg (run_job r) of
        None \<Rightarrow> retry_or_dead_letter_run now (r\<lparr>run_attempts := run_max r\<rparr>)
                  (no_handler r) unknown_policy st
      | Some d \<Rightarrow>
          (case result of
             Inr v \<Rightarrow> Some (complete_run now r (if nullish v then JObj [] else v) st)
           | Inl e \<Rightarrow> retry_or_dead_letter_run now r e (def_backoff d) st))"

definition execute_run :: "registry \<Rightarrow> int \<Rightarrow> job_run \<Rightarrow> job_store \<Rightarrow> (int \<times> job_store) option" where
  "execute_run reg now r st =
     (case get_job_definition reg (run_job r) of
        None \<Rightarrow> map_option (\<lambda>st'. (now, st')) (finish_run reg now r (Inl []) st)
      | Some d \<Rightarrow>
          (case def_handler d now r of
             (checkpoints, end_time, result) \<Rightarrow>
               map_option (\<lambda>st'. (end_time, st'))
                 (finish_run reg end_time r result (foldl (\<lambda>s (t, data). checkpoint_run t r data s) st checkpoints))))"

end
