(* ===== verification/JobScheduler.thy ===== *)
theory JobScheduler
  imports JobQueue DateUtils
begin

text \<open>
  The scheduler of the background jobs, \<open>server/src/jobs/scheduler.ts\<close>: the next time of an interval
  schedule in the source's double arithmetic, and one tick, which turns due schedules into queued runs
  and moves them on. A tick is one transaction: a statement that fails rolls all of it back (\<open>None\<close>).
\<close>

definition UNIT_MILLISECONDS :: "char \<Rightarrow> int option" where
  "UNIT_MILLISECONDS c =
     (if c = CHR ''s'' then Some 1000 else if c = CHR ''m'' then Some 60000
      else if c = CHR ''h'' then Some 3600000 else if c = CHR ''d'' then Some 86400000 else None)"

text \<open>\<open>/^interval:(\d+)(s|m|h|d)$/i\<close>: the number and the milliseconds of the unit.\<close>

definition interval_pattern :: "string \<Rightarrow> (string \<times> int) option" where
  "interval_pattern s =
     (let body = drop 9 s; ds = takeWhile is_digit body; rest = dropWhile is_digit body
      in if lower (take 9 s) = ''interval:'' \<and> ds \<noteq> []
         then (case rest of
                 [c] \<Rightarrow> map_option (Pair ds) (UNIT_MILLISECONDS (to_lower c))
               | _ \<Rightarrow> None)
         else None)"

definition is_safe_integer :: "jnum \<Rightarrow> bool" where
  "is_safe_integer x = (is_integer x \<and> jle (jabs x) (Fin 9007199254740991))"

text \<open>\<open>new Date(x)\<close> of a whole number: beyond 8.64e15 it is an invalid date.\<close>

definition time_clip :: "jnum \<Rightarrow> jnum" where
  "time_clip x = (if is_finite x \<and> jle (jabs x) (Fin 8640000000000000) then x else NaN)"

definition calculate_next_run_at :: "string \<Rightarrow> jnum \<Rightarrow> jnum \<Rightarrow> (string, jnum) outcome" where
  "calculate_next_run_at expression scheduled now =
     (case interval_pattern (trim expression) of
        None \<Rightarrow> Inl (''Unsupported schedule expression: '' @ expression)
      | Some (ds, unit_ms) \<Rightarrow>
          let interval = jmul (fl (of_int (int_of_digits ds))) (jint unit_ms)
          in if \<not> is_safe_integer interval \<or> jle interval (Fin 0)
             then Inl (''Invalid schedule interval: '' @ expression)
             else if \<not> is_finite scheduled \<or> \<not> is_finite now
             then Inl ''Schedule timestamps must be valid dates''
             else let elapsed = jmax (Fin 1) (jadd (jfloor (jdiv (jsub now scheduled) interval)) (Fin 1))
                  in Inr (time_clip (jadd scheduled (jmul elapsed interval))))"

record schedule =
  sch_id :: nat
  sch_tenant :: string
  sch_job :: string
  sch_enabled :: bool
  sch_expression :: "string option"
  sch_request :: jsval
  sch_next :: "int option"
  sch_last :: "int option"
  sch_created :: int

text \<open>The first definition row of the job code: the code is the key of that table.\<close>

definition job_row :: "job_store \<Rightarrow> string \<Rightarrow> definition_row option" where
  "job_row st code = find_first (\<lambda>d. row_code d = code) (definitions st)"

definition schedule_due :: "int \<Rightarrow> nat set \<Rightarrow> string option \<Rightarrow> job_store \<Rightarrow> schedule \<Rightarrow> bool" where
  "schedule_due now busy tenant st s =
     (sch_enabled s \<and> (case job_row st (sch_job s) of None \<Rightarrow> False | Some d \<Rightarrow> row_enabled d)
      \<and> (case sch_next s of None \<Rightarrow> False | Some t \<Rightarrow> t \<le> now)
      \<and> (case tenant of None \<Rightarrow> True | Some t \<Rightarrow> sch_tenant s = t) \<and> sch_id s \<notin> busy)"

definition next_of :: "schedule \<Rightarrow> int" where
  "next_of s = (case sch_next s of None \<Rightarrow> 0 | Some t \<Rightarrow> t)"

definition schedule_order :: "schedule \<Rightarrow> schedule \<Rightarrow> int" where
  "schedule_order a b =
     (if next_of a < next_of b then - 1 else if next_of b < next_of a then 1
      else if sch_created a < sch_created b then - 1 else if sch_created b < sch_created a then 1 else 0)"

definition schedule_key :: "schedule \<Rightarrow> int \<Rightarrow> string" where
  "schedule_key s fire_at = ''schedule:'' @ nat_str (sch_id s) @ '':'' @ iso_time fire_at"

record tick =
  tick_schedules :: "schedule list"
  tick_store :: job_store
  tick_created :: nat
  tick_invalid :: nat

definition update_schedule :: "nat \<Rightarrow> (schedule \<Rightarrow> schedule) \<Rightarrow> schedule list \<Rightarrow> schedule list" where
  "update_schedule i f ss = map (\<lambda>s. if sch_id s = i then f s else s) ss"

definition expression_of :: "schedule \<Rightarrow> definition_row \<Rightarrow> string" where
  "expression_of s d =
     (case sch_expression s of
        Some (c # cs) \<Rightarrow> c # cs
      | _ \<Rightarrow> (case row_default_schedule d of None \<Rightarrow> [] | Some e \<Rightarrow> e))"

definition schedule_params :: "schedule \<Rightarrow> definition_row \<Rightarrow> int \<Rightarrow> enqueue_params" where
  "schedule_params s d fire_at =
     \<lparr>enq_tenant = sch_tenant s, enq_job = sch_job s, enq_key = schedule_key s fire_at, enq_request = sch_request s,
      enq_schedule = Some (sch_id s), enq_max = Some (row_default_max d)\<rparr>"

definition fire_schedule :: "int \<Rightarrow> tick \<Rightarrow> schedule \<times> definition_row \<Rightarrow> tick option" where
  "fire_schedule now tk sd =
     (case sd of (s, d) \<Rightarrow>
       let fire_at = next_of s
       in case calculate_next_run_at (expression_of s d) (jint fire_at) (jint now) of
            Inl _ \<Rightarrow>
              Some (tk\<lparr>tick_invalid := Suc (tick_invalid tk),
                       tick_schedules := update_schedule (sch_id s) (\<lambda>x. x\<lparr>sch_enabled := False\<rparr>) (tick_schedules tk)\<rparr>)
          | Inr next_at \<Rightarrow>
              (case (next_at, enqueue_job now (schedule_params s d fire_at) (tick_store tk)) of
                 (Fin t, Some (_, created, st)) \<Rightarrow>
                   Some (tk\<lparr>tick_store := st, tick_created := tick_created tk + (if created then 1 else 0),
                            tick_schedules := update_schedule (sch_id s)
                              (\<lambda>x. x\<lparr>sch_last := Some fire_at, sch_next := Some \<lfloor>t\<rfloor>\<rparr>) (tick_schedules tk)\<rparr>)
               | _ \<Rightarrow> None))"

definition due_schedules :: "int \<Rightarrow> nat set \<Rightarrow> nat \<Rightarrow> string option \<Rightarrow> schedule list \<Rightarrow> job_store \<Rightarrow> (schedule \<times> definition_row) list" where
  "due_schedules now busy limit tenant ss st =
     List.map_filter (\<lambda>s. map_option (Pair s) (job_row st (sch_job s)))
       (take limit (sort_by schedule_order (filter (schedule_due now busy tenant st) ss)))"

fun fire_all :: "int \<Rightarrow> tick \<Rightarrow> (schedule \<times> definition_row) list \<Rightarrow> tick option" where
  "fire_all now tk [] = Some tk"
| "fire_all now tk (sd # sds) = (case fire_schedule now tk sd of None \<Rightarrow> None | Some tk' \<Rightarrow> fire_all now tk' sds)"

definition run_scheduler_tick ::
  "int \<Rightarrow> nat set \<Rightarrow> nat \<Rightarrow> string option \<Rightarrow> schedule list \<Rightarrow> job_store \<Rightarrow> (nat \<times> tick) option" where
  "run_scheduler_tick now busy limit tenant ss st =
     (let due = due_schedules now busy limit tenant ss st
      in map_option (Pair (length due))
           (fire_all now \<lparr>tick_schedules = ss, tick_store = st, tick_created = 0, tick_invalid = 0\<rparr> due))"

subsection \<open>The next time\<close>

text \<open>In the range of real timestamps the division in doubles and the floor give the exact quotient.\<close>

lemma floor_fl_div:
  assumes "0 \<le> a" "0 < b" "a + b \<le> 2 ^ 51"
  shows "\<exists>x. fl (of_int a / of_int b) = Fin x \<and> \<lfloor>x\<rfloor> = a div b"
proof -
  let ?q = "a div b" and ?m = "blen b"
  let ?x = "of_int a / of_int b :: rat"
  define y where "y = of_int ((?q + 1) * 2 ^ nat ?m - 1) * exp2 (- ?m)"
  have bl: "exp2 (?m - 1) \<le> of_int b" "of_int b + 1 \<le> exp2 ?m" using blen_bounds [OF assms(2)] by auto
  have m0: "0 \<le> ?m"
  proof (rule ccontr)
    assume "\<not> 0 \<le> ?m"
    then have "exp2 ?m \<le> exp2 0" by simp
    with bl(2) assms(2) show False by (simp add: exp2_def)
  qed
  have e: "exp2 ?m = 2 ^ nat ?m" using m0 by (simp add: exp2_def)
  have "exp2 ?m = 2 * exp2 (?m - 1)" using exp2_add [of 1 "?m - 1"] by (simp add: exp2_def)
  with bl(1) have "exp2 ?m \<le> 2 * of_int b" by simp
  then have "(of_int (2 ^ nat ?m) :: rat) \<le> of_int (2 * b)" by (simp add: e)
  then have pow: "2 ^ nat ?m \<le> 2 * b" by (simp only: of_int_le_iff)
  have "(of_int (b + 1) :: rat) \<le> of_int (2 ^ nat ?m)" using bl(2) by (simp add: e)
  then have big: "b < 2 ^ nat ?m" by (simp only: of_int_le_iff)
  have "b * ?q + a mod b = a" "0 \<le> a mod b" "a mod b < b" using assms(2) by simp_all
  then have q: "b * ?q \<le> a" "a < b * ?q + b" by linarith+
  have q0: "0 \<le> ?q" using assms(1,2) by (simp add: pos_imp_zdiv_nonneg_iff)
  have "(?q + 1) * 2 ^ nat ?m \<le> (?q + 1) * (2 * b)" using pow q0 by (intro mult_left_mono) simp_all
  also have "\<dots> \<le> 2 * a + 2 * b" using q(1) by (simp add: algebra_simps)
  finally have num: "(?q + 1) * 2 ^ nat ?m - 1 < 2 ^ 53" using assms(3) by simp
  have one: "1 * 2 ^ nat ?m \<le> (?q + 1) * 2 ^ nat ?m" using q0 by (intro mult_right_mono) simp_all
  have two: "(2 :: int) ^ nat ?m > 1" using big assms(2) by linarith
  have y_eq: "y = of_int (?q + 1) - exp2 (- ?m)"
    using exp2_add [of ?m "- ?m"] by (simp add: y_def e [symmetric] algebra_simps exp2_def [of 0])
  have "?x \<le> of_int (?q + 1) - 1 / of_int b"
  proof -
    have "a \<le> b * (?q + 1) - 1" using q(2) by (simp add: algebra_simps)
    then have "(of_int a :: rat) \<le> of_int (b * (?q + 1) - 1)" by (simp only: of_int_le_iff)
    then have "?x \<le> of_int (b * (?q + 1) - 1) / of_int b" using assms(2) by (simp add: divide_right_mono)
    also have "\<dots> = of_int (?q + 1) - 1 / of_int b" using assms(2) by (simp add: field_simps)
    finally show ?thesis .
  qed
  moreover have "exp2 (- ?m) \<le> 1 / of_int b"
  proof -
    have "exp2 (- ?m) = 1 / exp2 ?m" using exp2_add [of ?m "- ?m"] by (simp add: exp2_def [of 0] field_simps)
    moreover have "(of_int b :: rat) \<le> exp2 ?m" using bl(2) by simp
    ultimately show ?thesis using assms(2) by (simp add: frac_le)
  qed
  ultimately have "?x \<le> y" by (simp add: y_eq)
  have "(2 :: int) ^ nat ?m \<le> 2 ^ 52" using pow assms(1,3) by simp
  then have "nat ?m \<le> 52" by (rule power_le_imp_le_exp [rotated]) simp
  then have "?m \<le> 1074" by simp
  have "0 < (?q + 1) * 2 ^ nat ?m - 1" using one two by linarith
  then have "(0 :: rat) < of_int ((?q + 1) * 2 ^ nat ?m - 1)" by (simp only: of_int_0_less_iff)
  then have y0: "0 < y" unfolding y_def by (intro mult_pos_pos exp2_pos)
  have "fl y = Fin y"
  proof (rule round53_lt_overflow)
    show "round53 y = y"
      using num one two \<open>?m \<le> 1074\<close> by (intro round53_exact [OF y_def]) linarith+
    have "y \<le> of_int (?q + 1)" by (simp add: y_eq)
    moreover have "?q + 1 < 2 ^ 1024"
    proof -
      have "1 * ?q \<le> b * ?q" using assms(2) q0 by (intro mult_right_mono) simp_all
      then have "?q + 1 \<le> 2 ^ 51" using q(1) assms by linarith
      then show ?thesis by (rule le_less_trans) simp
    qed
    then have "(of_int (?q + 1) :: rat) < of_int (2 ^ 1024)" by (simp only: of_int_less_iff)
    ultimately show "y < 2 ^ 1024" by simp
  qed (rule y0)
  then have up: "jle (fl ?x) (Fin y)" using fl_mono [OF \<open>?x \<le> y\<close>] by simp
  have "(of_int ?q :: rat) \<le> ?x"
  proof -
    have "(of_int (b * ?q) :: rat) \<le> of_int a" using q(1) by (simp only: of_int_le_iff)
    then show ?thesis using assms(2) by (simp add: field_simps)
  qed
  moreover have "fl (of_int ?q) = Fin (of_int ?q)"
  proof (rule fl_int)
    have "1 * ?q \<le> b * ?q" using assms(2) q0 by (intro mult_right_mono) simp_all
    then have "?q \<le> 2 ^ 51" using q(1) assms by linarith
    then show "\<bar>?q\<bar> < 2 ^ 53" using q0 by simp
  qed
  ultimately have down: "jle (Fin (of_int ?q)) (fl ?x)" using fl_mono [of "of_int ?q" ?x] by simp
  from up down obtain x where x: "fl ?x = Fin x" "of_int ?q \<le> x" "x \<le> y"
    by (cases "fl ?x") (auto simp: jle_def jeq_def)
  moreover have "y < of_int (?q + 1)" by (simp add: y_eq)
  ultimately have "\<lfloor>x\<rfloor> = ?q" by (intro floor_unique) linarith+
  with x(1) show ?thesis by blast
qed

text \<open>Real timestamps: 17,000 years around 1970; and the intervals that keep the next one a date.\<close>

definition plausible_time :: "int \<Rightarrow> bool" where
  "plausible_time t = (\<bar>t\<bar> \<le> 2 ^ 49)"

definition interval_of :: "string \<Rightarrow> int option" where
  "interval_of expression = map_option (\<lambda>(ds, u). int_of_digits ds * u) (interval_pattern (trim expression))"

definition next_time :: "int \<Rightarrow> int \<Rightarrow> int \<Rightarrow> int" where
  "next_time i scheduled now = scheduled + max 1 ((now - scheduled) div i + 1) * i"

lemma unit_pos: "UNIT_MILLISECONDS c = Some u \<Longrightarrow> 1 \<le> u \<and> u \<le> 86400000"
  by (auto simp: UNIT_MILLISECONDS_def split: if_splits)

lemma elapsed_exact:
  assumes "plausible_time scheduled" "plausible_time now" "0 < i" "i \<le> 2 ^ 50"
  shows "jmax (Fin 1) (jadd (jfloor (jdiv (jsub (jint now) (jint scheduled)) (jint i))) (Fin 1))
    = jint (max 1 ((now - scheduled) div i + 1))"
proof -
  let ?a = "now - scheduled"
  have a: "\<bar>?a\<bar> \<le> 2 ^ 50" using assms(1,2) by (simp add: plausible_time_def)
  have sub: "jsub (jint now) (jint scheduled) = jint ?a" using a by (intro jint_arith) simp
  have div: "jdiv (jint ?a) (jint i) = fl (of_int ?a / of_int i)" using assms(3) by (simp add: jint_def)
  show ?thesis
  proof (cases "0 \<le> ?a")
    case True
    have "?a + i \<le> 2 ^ 51" using a assms(4) by simp
    from floor_fl_div [OF True assms(3) this] obtain x
      where x: "fl (of_int ?a / of_int i) = Fin x" "\<lfloor>x\<rfloor> = ?a div i" by blast
    have q0: "0 \<le> ?a div i" using assms(3) True by (simp add: pos_imp_zdiv_nonneg_iff)
    then have "1 * (?a div i) \<le> i * (?a div i)" using assms(3) by (intro mult_right_mono) simp_all
    also have "\<dots> \<le> ?a" using pos_mod_sign [OF assms(3), of ?a] by (simp add: minus_mod_eq_mult_div [symmetric])
    finally have small: "\<bar>?a div i + 1\<bar> < 2 ^ 53" using a q0 by simp
    have "jfloor (jdiv (jint ?a) (jint i)) = jint (?a div i)" by (simp only: div x(1)) (simp add: x(2) jint_def)
    then show ?thesis using small by (simp only: sub jint_arith)
  next
    case False
    then have neg: "?a div i < 0" using assms(3) by (simp add: pos_imp_zdiv_neg_iff)
    let ?f = "fl (of_int ?a / of_int i)"
    have "(of_int ?a :: rat) / of_int i \<le> 0" using False assms(3) by (simp add: divide_le_0_iff)
    from fl_mono [OF this] have f: "jle ?f (Fin 0)" by simp
    have "jmax (Fin 1) (jadd (jfloor ?f) (Fin 1)) = Fin 1"
    proof (cases ?f)
      case (Fin x)
      with f have "(of_int \<lfloor>x\<rfloor> :: rat) + 1 \<le> 1" by (simp add: floor_le_iff)
      from fl_mono [OF this] have "jle (fl (of_int \<lfloor>x\<rfloor> + 1)) (Fin 1)" by simp
      with Fin show ?thesis by (cases "fl (of_int \<lfloor>x\<rfloor> + 1 :: rat)") (auto simp: jmax_def jle_def jeq_def)
    qed (use f in \<open>auto simp: jmax_def jle_def jeq_def\<close>)
    moreover have "max 1 (?a div i + 1) = 1" using neg by simp
    ultimately show ?thesis by (simp only: sub div jint_arith(5))
  qed
qed

lemma next_time_props:
  assumes "0 < i"
  shows "now < next_time i scheduled now" "scheduled < next_time i scheduled now"
    "scheduled \<le> now \<Longrightarrow> next_time i scheduled now \<le> now + i"
    "now < scheduled \<Longrightarrow> next_time i scheduled now = scheduled + i"
    "(next_time i scheduled now - scheduled) mod i = 0"
proof -
  let ?a = "now - scheduled" and ?k = "max 1 ((now - scheduled) div i + 1)"
  have split: "i * (?a div i) + ?a mod i = ?a" "0 \<le> ?a mod i" "?a mod i < i" using assms by simp_all
  have k: "1 \<le> ?k" "?a div i + 1 \<le> ?k" by simp_all
  have "1 * i \<le> ?k * i" using assms k(1) by (intro mult_right_mono) simp_all
  then show "scheduled < next_time i scheduled now" using assms by (simp add: next_time_def)
  have "(?a div i + 1) * i \<le> ?k * i" using assms k(2) by (intro mult_right_mono) simp_all
  then show "now < next_time i scheduled now" using split unfolding next_time_def by (simp only: algebra_simps)
  show "next_time i scheduled now \<le> now + i" if "scheduled \<le> now"
  proof -
    have "0 \<le> ?a div i" using that assms by (simp add: pos_imp_zdiv_nonneg_iff)
    then have "max 1 (?a div i + 1) = ?a div i + 1" by simp
    then show ?thesis using split unfolding next_time_def by (simp only: algebra_simps)
  qed
  show "next_time i scheduled now = scheduled + i" if "now < scheduled"
  proof -
    have "?a div i < 0" using that assms by (simp add: pos_imp_zdiv_neg_iff)
    then show ?thesis by (simp add: next_time_def max_def)
  qed
  show "(next_time i scheduled now - scheduled) mod i = 0" by (simp add: next_time_def)
qed

lemma calculate_next:
  assumes "interval_of expression = Some i" "0 < i" "i \<le> 2 ^ 50" "plausible_time scheduled" "plausible_time now"
  shows "calculate_next_run_at expression (jint scheduled) (jint now) = Inr (jint (next_time i scheduled now))"
proof -
  from assms(1) obtain ds u where p: "interval_pattern (trim expression) = Some (ds, u)" and i: "i = int_of_digits ds * u"
    by (auto simp: interval_of_def)
  then have u: "1 \<le> u" "u \<le> 86400000" using unit_pos
    by (auto simp: interval_pattern_def Let_def split: if_splits list.splits)
  have "0 < int_of_digits ds" using assms(2) u by (simp add: i zero_less_mult_iff)
  moreover from this have "int_of_digits ds * 1 \<le> int_of_digits ds * u" using u by (intro mult_left_mono) simp_all
  then have "int_of_digits ds \<le> i" by (simp only: i mult_1_right)
  ultimately have d: "fl (of_int (int_of_digits ds)) = jint (int_of_digits ds)"
    using assms(3) unfolding jint_def by (intro fl_int) simp
  have int: "jmul (jint (int_of_digits ds)) (jint u) = jint i" using assms(2,3) by (simp add: jint_arith i)
  have ok: "is_safe_integer (jint i)" "\<not> jle (jint i) (Fin 0)"
    using assms(2,3) by (simp_all add: is_safe_integer_def jint_numeral jint_arith(6))
  let ?t = "next_time i scheduled now" and ?k = "max 1 ((now - scheduled) div i + 1)"
  have t: "scheduled < ?t" "?t \<le> 2 ^ 49 + 2 ^ 50"
    using next_time_props [OF assms(2), where now = now and scheduled = scheduled] assms(3-5)
    by (cases "scheduled \<le> now"; simp add: plausible_time_def)+
  have "\<bar>?k * i\<bar> < 2 ^ 53" "\<bar>scheduled + ?k * i\<bar> < 2 ^ 53"
    using t assms(4) by (simp_all add: next_time_def plausible_time_def)
  then have sum: "jadd (jint scheduled) (jmul (jint ?k) (jint i)) = jint ?t"
    by (simp only: jint_arith next_time_def)
  have "\<bar>?t\<bar> \<le> 8640000000000000" using t assms(4) by (simp add: plausible_time_def abs_le_iff)
  then have "time_clip (jint ?t) = jint ?t" by (simp add: time_clip_def jint_numeral)
  then show ?thesis
    using ok elapsed_exact [OF assms(4,5,2,3)]
    by (simp add: calculate_next_run_at_def p d int Let_def sum)
qed

subsection \<open>A tick\<close>

definition settled :: "int \<Rightarrow> schedule \<Rightarrow> bool" where
  "settled now s = (\<not> sch_enabled s \<or> now < next_of s)"

text \<open>A change of the schedules that settles some of them and unsettles none.\<close>

definition settles :: "int \<Rightarrow> (schedule \<Rightarrow> schedule) \<Rightarrow> nat set \<Rightarrow> bool" where
  "settles now g ids =
     (\<forall>x. sch_id (g x) = sch_id x \<and> (settled now x \<or> sch_id x \<in> ids \<longrightarrow> settled now (g x)) \<and> (sch_id x \<notin> ids \<longrightarrow> g x = x))"

lemma settles_update:
  assumes "ss' = update_schedule i f ss" "\<And>x. sch_id (f x) = sch_id x" "\<And>x. settled now (f x)"
  shows "\<exists>g. settles now g {i} \<and> ss' = map g ss"
  using assms by (intro exI [of _ "\<lambda>s. if sch_id s = i then f s else s"]) (simp add: settles_def update_schedule_def)

text \<open>A schedule whose interval the arithmetic keeps exact, or whose expression is refused.\<close>

definition plausible_schedule :: "schedule \<times> definition_row \<Rightarrow> bool" where
  "plausible_schedule sd =
     (plausible_time (next_of (fst sd))
      \<and> (case interval_of (expression_of (fst sd) (snd sd)) of None \<Rightarrow> True | Some i \<Rightarrow> i \<le> 2 ^ 50))"

lemma zero_interval: "interval_of expression = Some i \<Longrightarrow> i \<le> 0 \<Longrightarrow> \<exists>e. calculate_next_run_at expression (jint a) (jint b) = Inl e"
proof -
  assume a: "interval_of expression = Some i" "i \<le> 0"
  then obtain ds u where p: "interval_pattern (trim expression) = Some (ds, u)" "i = int_of_digits ds * u"
    by (auto simp: interval_of_def)
  then have "1 \<le> u" "list_all is_digit ds" using unit_pos
    by (auto simp: interval_pattern_def Let_def list_all_iff dest!: set_takeWhileD split: if_splits list.splits)
  then have "int_of_digits ds = 0" using a(2) p(2) int_of_digits_nonneg [of ds]
    by (simp add: mult_le_0_iff)
  then have "jmul (fl (of_int (int_of_digits ds))) (jint u) = jint 0" by (simp add: jint_def)
  then show ?thesis by (simp add: calculate_next_run_at_def p(1) Let_def jint_arith(6))
qed

lemma no_pattern: "interval_of expression = None \<Longrightarrow> \<exists>e. calculate_next_run_at expression a b = Inl e"
  by (simp add: interval_of_def calculate_next_run_at_def)

lemma fire_schedule_step:
  assumes "plausible_time now" "plausible_schedule (s, d)" "fire_schedule now tk (s, d) = Some tk'"
  shows "\<exists>g. settles now g {sch_id s} \<and> tick_schedules tk' = map g (tick_schedules tk)"
proof (cases "\<exists>e. calculate_next_run_at (expression_of s d) (jint (next_of s)) (jint now) = Inl e")
  case True
  then have "tick_schedules tk' = update_schedule (sch_id s) (\<lambda>x. x\<lparr>sch_enabled := False\<rparr>) (tick_schedules tk)"
    using assms(3) by (auto simp: fire_schedule_def Let_def)
  then show ?thesis by (rule settles_update) (simp_all add: settled_def)
next
  case False
  with no_pattern zero_interval obtain i where i: "interval_of (expression_of s d) = Some i" "0 < i"
    by (metis not_le option.exhaust)
  with assms(1,2) have "calculate_next_run_at (expression_of s d) (jint (next_of s)) (jint now) = Inr (jint (next_time i (next_of s) now))"
    by (intro calculate_next) (simp_all add: plausible_schedule_def)
  with assms(3) have "tick_schedules tk' = update_schedule (sch_id s)
      (\<lambda>x. x\<lparr>sch_last := Some (next_of s), sch_next := Some (next_time i (next_of s) now)\<rparr>) (tick_schedules tk)"
    by (auto simp: fire_schedule_def Let_def jint_def split: option.splits)
  then show ?thesis using next_time_props(1) [OF i(2), of now "next_of s"]
    by (intro settles_update [OF \<open>tick_schedules tk' = _\<close>]) (simp_all add: settled_def next_of_def)
qed

lemma fire_all_settles:
  assumes "plausible_time now" "\<forall>sd \<in> set sds. plausible_schedule sd" "fire_all now tk sds = Some tk'"
  shows "\<exists>g. settles now g ((\<lambda>sd. sch_id (fst sd)) ` set sds) \<and> tick_schedules tk' = map g (tick_schedules tk)"
  using assms(2,3)
proof (induction sds arbitrary: tk)
  case Nil
  then show ?case by (intro exI [of _ "\<lambda>x. x"]) (simp add: settles_def)
next
  case (Cons sd sds)
  from Cons.prems(2) obtain tk1 where tk1: "fire_schedule now tk sd = Some tk1" "fire_all now tk1 sds = Some tk'"
    by (auto split: option.splits)
  obtain s d where sd: "sd = (s, d)" by (cases sd)
  from Cons.prems(1) tk1(1) have "plausible_schedule (s, d)" "fire_schedule now tk (s, d) = Some tk1" by (simp_all add: sd)
  from fire_schedule_step [OF assms(1) this] obtain g
    where g: "settles now g {sch_id s}" "tick_schedules tk1 = map g (tick_schedules tk)" by blast
  from Cons.IH [OF _ tk1(2)] Cons.prems(1) obtain g'
    where "settles now g' ((\<lambda>sd. sch_id (fst sd)) ` set sds)" "tick_schedules tk' = map g' (tick_schedules tk1)" by auto
  with g show ?case by (intro exI [of _ "g' \<circ> g"]) (auto simp: settles_def sd)
qed

lemma settled_not_due: "settled now s \<Longrightarrow> \<not> schedule_due now busy tenant st s"
  by (auto simp: settled_def schedule_due_def next_of_def split: option.splits)

lemma due_schedules_ids:
  assumes "s \<in> set ss" "schedule_due now busy tenant st s" "length (filter (schedule_due now busy tenant st) ss) \<le> limit"
  shows "sch_id s \<in> (\<lambda>sd. sch_id (fst sd)) ` set (due_schedules now busy limit tenant ss st)"
proof -
  obtain d where "job_row st (sch_job s) = Some d" using assms(2) by (auto simp: schedule_due_def split: option.splits)
  then have "(s, d) \<in> set (due_schedules now busy limit tenant ss st)"
    using assms by (force simp: due_schedules_def List.map_filter_def)
  then show ?thesis by force
qed

subsection \<open>Properties\<close>

text \<open>the next time of an interval schedule is the first one after the current time on the schedule's
  own grid: a whole number of intervals after the scheduled time, at least one, in the future, and no
  further than one interval from now when the schedule was due; the double arithmetic does not move it.\<close>

theorem next_run_on_the_grid:
  assumes "interval_of expression = Some i" "0 < i" "i \<le> 2 ^ 50" "plausible_time scheduled" "plausible_time now"
  shows "\<exists>t. calculate_next_run_at expression (jint scheduled) (jint now) = Inr (jint t)
    \<and> (t - scheduled) mod i = 0 \<and> scheduled < t \<and> now < t
    \<and> (if scheduled \<le> now then t \<le> now + i else t = scheduled + i)"
  using calculate_next [OF assms] next_time_props [OF assms(2), where now = now and scheduled = scheduled]
  by (intro exI [of _ "next_time i scheduled now"]) simp

theorem next_run_on_the_grid_witness:
  "interval_of '' Interval:15m'' = Some 900000
   \<and> calculate_next_run_at '' Interval:15m'' (jint 1000000) (jint 5000000) = Inr (jint 5500000)"
proof
  show i: "interval_of '' Interval:15m'' = Some 900000" by code_simp
  have "plausible_time 1000000" "plausible_time 5000000" by (simp_all add: plausible_time_def)
  from next_run_on_the_grid [OF i _ _ this] obtain t
    where t: "calculate_next_run_at '' Interval:15m'' (jint 1000000) (jint 5000000) = Inr (jint t)"
      "(t - 1000000) mod 900000 = 0" "5000000 < t" "t \<le> 5900000" by auto
  from t(2) have "900000 dvd t - 1000000" by (simp add: dvd_eq_mod_eq_0)
  then obtain k where k: "t - 1000000 = 900000 * k" by (elim dvdE)
  with t(3,4) have "k = 5" by simp
  with k have "t = 5500000" by simp
  with t(1) show "calculate_next_run_at '' Interval:15m'' (jint 1000000) (jint 5000000) = Inr (jint 5500000)" by simp
qed

text \<open>a tick settles every schedule it had room for: afterwards none that was due is due at the same
  time, because it moved past the current time or, when its expression is no schedule, was disabled; so
  a second tick at that time fires nothing, and missed occurrences are not made up for one by one.\<close>

theorem tick_settles_due_schedules:
  assumes "plausible_time now" "\<forall>sd \<in> set (due_schedules now busy limit tenant ss st). plausible_schedule sd"
    and "length (filter (schedule_due now busy tenant st) ss) \<le> limit"
    and "run_scheduler_tick now busy limit tenant ss st = Some (n, tk)"
  shows "\<forall>x \<in> set (tick_schedules tk). \<not> schedule_due now busy tenant st x"
proof
  fix x assume x: "x \<in> set (tick_schedules tk)"
  from assms(4) have "fire_all now \<lparr>tick_schedules = ss, tick_store = st, tick_created = 0, tick_invalid = 0\<rparr>
      (due_schedules now busy limit tenant ss st) = Some tk" by (auto simp: run_scheduler_tick_def Let_def)
  from fire_all_settles [OF assms(1,2) this] obtain g
    where g: "settles now g ((\<lambda>sd. sch_id (fst sd)) ` set (due_schedules now busy limit tenant ss st))"
      "tick_schedules tk = map g ss" by auto
  with x obtain s where s: "s \<in> set ss" "x = g s" by auto
  show "\<not> schedule_due now busy tenant st x"
  proof (cases "sch_id s \<in> (\<lambda>sd. sch_id (fst sd)) ` set (due_schedules now busy limit tenant ss st)")
    case True
    with g(1) have "settled now x" by (auto simp: settles_def s(2))
    then show ?thesis by (rule settled_not_due)
  next
    case False
    with g(1) have "x = s" by (simp add: settles_def s(2))
    with False due_schedules_ids [OF s(1) _ assms(3)] show ?thesis by blast
  qed
qed

definition example_row :: definition_row where
  "example_row = \<lparr>row_code = ''scan'', row_enabled = True, row_default_schedule = Some ''interval:60s'', row_default_max = 3\<rparr>"

definition example_schedule :: "nat \<Rightarrow> string \<Rightarrow> schedule" where
  "example_schedule i e =
     \<lparr>sch_id = i, sch_tenant = ''t'', sch_job = ''scan'', sch_enabled = True, sch_expression = Some e, sch_request = JNull,
      sch_next = Some 1000, sch_last = None, sch_created = 0\<rparr>"

definition example_store :: job_store where
  "example_store = \<lparr>definitions = [example_row], runs = [], events = [], next_id = 0\<rparr>"

lemma next_60s: "calculate_next_run_at ''interval:60s'' (jint 1000) (jint 5000) = Inr (jint 61000)"
proof -
  have "interval_of ''interval:60s'' = Some 60000" by code_simp
  from calculate_next [OF this, of 1000 5000] show ?thesis by (simp add: plausible_time_def next_time_def)
qed

lemma example_parts:
  "expression_of (example_schedule i x) example_row = (if x = [] then ''interval:60s'' else x)"
  "next_of (example_schedule i x) = 1000"
  by (auto simp: expression_of_def next_of_def example_schedule_def example_row_def split: list.splits)

lemma fire_60s:
  "\<exists>tk. fire_schedule 5000 \<lparr>tick_schedules = ss, tick_store = example_store, tick_created = 0, tick_invalid = 0\<rparr>
      (example_schedule 2 ''interval:60s'', example_row) = Some tk \<and> tick_created tk = 1 \<and> tick_invalid tk = 0"
proof -
  have "enq_job (schedule_params (example_schedule 2 ''interval:60s'') example_row 1000) = ''scan''"
    by (simp add: schedule_params_def example_schedule_def)
  then have "\<exists>r st. enqueue_job 5000 (schedule_params (example_schedule 2 ''interval:60s'') example_row 1000) example_store = Some (r, True, st)"
    by (simp add: enqueue_job_def find_run_def example_store_def known_jobs_def example_row_def Let_def)
  then show ?thesis by (auto simp: fire_schedule_def example_parts next_60s)
qed

theorem tick_settles_due_schedules_witness:
  "\<exists>tk. run_scheduler_tick 5000 {} 10 None [example_schedule 2 ''interval:60s'', example_schedule 3 ''daily''] example_store = Some (2, tk)
    \<and> tick_invalid tk = 1 \<and> tick_created tk = 1
    \<and> \<not> list_ex (schedule_due 5000 {} None example_store) (tick_schedules tk)"
proof -
  let ?ss = "[example_schedule 2 ''interval:60s'', example_schedule 3 ''daily'']"
  have due: "due_schedules 5000 {} 10 None ?ss example_store
      = [(example_schedule 2 ''interval:60s'', example_row), (example_schedule 3 ''daily'', example_row)]" by code_simp
  have ok: "interval_of (expression_of (example_schedule 2 ''interval:60s'') example_row) = Some 60000"
    "interval_of (expression_of (example_schedule 3 ''daily'') example_row) = None"
    by code_simp+
  have h: "plausible_time 5000" "\<forall>sd \<in> set (due_schedules 5000 {} 10 None ?ss example_store). plausible_schedule sd"
    unfolding due by (simp_all add: plausible_schedule_def plausible_time_def example_parts ok [unfolded example_parts, simplified])
  have len: "length (filter (schedule_due 5000 {} None example_store) ?ss) \<le> 10" by code_simp
  have "\<exists>e. calculate_next_run_at ''daily'' (jint 1000) (jint 5000) = Inl e" using ok(2) by (intro no_pattern) (simp add: example_parts)
  then obtain e where e: "calculate_next_run_at ''daily'' (jint 1000) (jint 5000) = Inl e" by blast
  obtain tk1 where tk1: "fire_schedule 5000 \<lparr>tick_schedules = ?ss, tick_store = example_store, tick_created = 0, tick_invalid = 0\<rparr>
      (example_schedule 2 ''interval:60s'', example_row) = Some tk1" "tick_created tk1 = 1" "tick_invalid tk1 = 0"
    using fire_60s by blast
  then obtain tk where tk: "run_scheduler_tick 5000 {} 10 None ?ss example_store = Some (2, tk)" "tick_invalid tk = 1" "tick_created tk = 1"
    by (simp add: run_scheduler_tick_def due) (simp add: fire_schedule_def example_parts e)
  with tick_settles_due_schedules [OF h len tk(1)] tk show ?thesis by (auto simp: list_ex_iff)
qed

text \<open>an interval that passes the check of the source can still leave the range of dates: the next
  time is then no date, the statement that stores it fails, and the whole tick is rolled back, the
  valid schedules of it included, at every tick.\<close>

theorem huge_interval_blocks_the_tick:
  "calculate_next_run_at ''interval:100000000d'' (jint 1000) (jint 5000) = Inr NaN
   \<and> run_scheduler_tick 5000 {} 10 None [example_schedule 2 ''interval:60s'', example_schedule 3 ''interval:100000000d''] example_store = None
   \<and> (\<exists>tk. run_scheduler_tick 5000 {} 10 None [example_schedule 2 ''interval:60s''] example_store = Some (1, tk))"
proof (intro conjI)
  show next_at: "calculate_next_run_at ''interval:100000000d'' (jint 1000) (jint 5000) = Inr NaN"
  proof -
    have p: "interval_pattern (trim ''interval:100000000d'') = Some (''100000000'', 86400000)" by code_simp
    have ds: "int_of_digits ''100000000'' = 100000000" by code_simp
    have "jle (fl (4000 / 8640000000000000)) (fl (1 / 2))" "fl (1 / 2) = Fin (1 / 2)" "jnonneg (fl (4000 / 8640000000000000))"
      by (rule fl_mono, simp, rule round53_lt_overflow, rule round53_exact [where m = 1 and k = "- 1"]) (simp_all add: exp2_def fl_nonneg)
    then obtain x where x: "fl (4000 / 8640000000000000) = Fin x" "0 \<le> x" "x \<le> 1 / 2"
      by (cases "fl (4000 / 8640000000000000)") (auto simp: jle_def jeq_def)
    then have "\<lfloor>x\<rfloor> = 0" by (intro floor_unique) simp_all
    then have q: "jmax (Fin 1) (jadd (jfloor (jdiv (jint 4000) (jint 8640000000000000))) (Fin 1)) = jint 1"
      using x(1) by (simp add: jint_def jmax_def)
    show ?thesis
      by (simp add: calculate_next_run_at_def p ds jint_arith jint_numeral is_safe_integer_def Let_def q [unfolded jint_arith]
          time_clip_def)
  qed
  have "fire_schedule 5000 tk (example_schedule 3 ''interval:100000000d'', example_row) = None" for tk
    by (simp add: fire_schedule_def example_parts next_at)
  moreover have "due_schedules 5000 {} 10 None [example_schedule 2 ''interval:60s'', example_schedule 3 ''interval:100000000d''] example_store
      = [(example_schedule 2 ''interval:60s'', example_row), (example_schedule 3 ''interval:100000000d'', example_row)]" by code_simp
  ultimately show "run_scheduler_tick 5000 {} 10 None
      [example_schedule 2 ''interval:60s'', example_schedule 3 ''interval:100000000d''] example_store = None"
    by (simp add: run_scheduler_tick_def split: option.splits)
  have "due_schedules 5000 {} 10 None [example_schedule 2 ''interval:60s''] example_store
      = [(example_schedule 2 ''interval:60s'', example_row)]" by code_simp
  with fire_60s [of "[example_schedule 2 ''interval:60s'']"]
  show "\<exists>tk. run_scheduler_tick 5000 {} 10 None [example_schedule 2 ''interval:60s''] example_store = Some (1, tk)"
    by (auto simp: run_scheduler_tick_def)
qed

end
