(* ===== verification/Traces.thy ===== *)
theory Traces
  imports Prelude
begin

text \<open>
  Histories of a component: a step relation carries a list of what the step did, and a trace runs
  steps in sequence and appends those lists. The locale is the contract of an invariant: what every
  step keeps holds along every trace.
\<close>

inductive trace :: "('s \<Rightarrow> 'l list \<Rightarrow> 's \<Rightarrow> bool) \<Rightarrow> 's \<Rightarrow> 'l list \<Rightarrow> 's \<Rightarrow> bool" for step where
  trace_start: "trace step s [] s"
| trace_more: "trace step s xs s' \<Longrightarrow> step s' ys s'' \<Longrightarrow> trace step s (xs @ ys) s''"

lemma trace_single: "step s ys s' \<Longrightarrow> trace step s ys s'"
  using trace_more [OF trace_start] by fastforce

lemma trace_append: "trace step s xs s' \<Longrightarrow> trace step s' ys s'' \<Longrightarrow> trace step s (xs @ ys) s''"
proof (rotate_tac, induction rule: trace.induct)
  case (trace_more s' ys t zs s'')
  then show ?case using trace.trace_more [of step s "xs @ ys" t zs s''] by simp
qed simp

lemma trace_silent: "trace step s [] s' \<Longrightarrow> trace step s' [] s'' \<Longrightarrow> trace step s [] s''"
  using trace_append [of step s "[]" s' "[]"] by simp

locale step_invariant =
  fixes step :: "'s \<Rightarrow> 'l list \<Rightarrow> 's \<Rightarrow> bool" and inv :: "'s \<Rightarrow> bool"
  assumes inv_step: "step s ys s' \<Longrightarrow> inv s \<Longrightarrow> inv s'"
begin

lemma inv_trace: "trace step s ys s' \<Longrightarrow> inv s \<Longrightarrow> inv s'"
  by (induction rule: trace.induct) (auto intro: inv_step)

end

text \<open>With an invariant, a second property every step keeps, and a condition on what it does.\<close>

locale step_property = step_invariant +
  fixes kept :: "'s \<Rightarrow> bool" and allowed :: "'l \<Rightarrow> bool"
  assumes kept_step: "step s ys s' \<Longrightarrow> inv s \<Longrightarrow> kept s \<Longrightarrow> kept s' \<and> list_all allowed ys"
begin

lemma kept_trace: "trace step s ys s' \<Longrightarrow> inv s \<Longrightarrow> kept s \<Longrightarrow> kept s' \<and> list_all allowed ys"
proof (induction rule: trace.induct)
  case (trace_more s xs s' ys s'')
  then have "inv s'" by (auto intro: inv_trace)
  with trace_more kept_step [OF trace_more.hyps(2)] show ?case by simp
qed simp

end

text \<open>An invariant of the history so far together with the state.\<close>

locale history_invariant =
  fixes step :: "'s \<Rightarrow> 'l list \<Rightarrow> 's \<Rightarrow> bool" and ok :: "'l list \<Rightarrow> 's \<Rightarrow> bool"
  assumes ok_step: "step s ys s' \<Longrightarrow> ok es s \<Longrightarrow> ok (es @ ys) s'"
begin

lemma ok_trace: "trace step s ys s' \<Longrightarrow> ok es s \<Longrightarrow> ok (es @ ys) s'"
proof (induction rule: trace.induct)
  case (trace_more s xs s' ys s'')
  from ok_step [OF trace_more.hyps(2) trace_more.IH [OF trace_more.prems]] show ?case by simp
qed simp

end

text \<open>Every event of a history stands in the relation to the events before it.\<close>

definition each_after :: "('l list \<Rightarrow> 'l \<Rightarrow> bool) \<Rightarrow> 'l list \<Rightarrow> bool" where
  "each_after P es \<longleftrightarrow> (\<forall>xs e ys. es = xs @ e # ys \<longrightarrow> P xs e)"

lemma each_after_Nil [simp]: "each_after P []"
  by (simp add: each_after_def)

lemma each_afterD: "each_after P (xs @ e # ys) \<Longrightarrow> P xs e"
  by (simp add: each_after_def)

lemma each_after_snoc: "each_after P es \<Longrightarrow> P es e \<Longrightarrow> each_after P (es @ [e])"
  unfolding each_after_def
proof (intro allI impI)
  fix xs e' ys
  assume P: "\<forall>xs e ys. es = xs @ e # ys \<longrightarrow> P xs e" "P es e" and eq: "es @ [e] = xs @ e' # ys"
  then show "P xs e'" by (cases ys rule: rev_cases) auto
qed

end
