(* ===== verification/JobSystem.thy ===== *)
theory JobSystem
  imports JobScheduler Traces "HOL-Library.Product_Lexorder"
begin

text \<open>
  The job queue as a system of workers: the database and what each worker holds, that is the rows it
  has claimed and not finished. A step is one transaction of the code (\<open>jobQueue.ts\<close>, \<open>scheduler.ts\<close>),
  the death of a worker, or the passing of time; \<open>job_reach\<close> collects the ids of the runs handed to
  workers. \<open>run_job_worker_iteration\<close> is the loop body of \<open>worker.ts\<close>.
\<close>

record job_system =
  sys_now :: int
  sys_schedules :: "schedule list"
  sys_store :: job_store
  sys_held :: "(string \<times> job_run) list"

abbreviation held_ids :: "job_system \<Rightarrow> nat set" where
  "held_ids s \<equiv> (\<lambda>h. run_id (snd h)) ` set (sys_held s)"

abbreviation release :: "nat \<Rightarrow> (string \<times> job_run) list \<Rightarrow> (string \<times> job_run) list" where
  "release i hs \<equiv> filter (\<lambda>h. run_id (snd h) \<noteq> i) hs"

inductive job_step :: "registry \<Rightarrow> job_system \<Rightarrow> nat list \<Rightarrow> job_system \<Rightarrow> bool" for reg where
  step_enqueue: "enqueue_job (sys_now s) p (sys_store s) = Some (r, created, st) \<Longrightarrow>
    job_step reg s [] (s\<lparr>sys_store := st\<rparr>)"
| step_claim: "claim_due_runs (sys_now s) busy limit w lock_seconds tenant (sys_store s) = (rs, st) \<Longrightarrow>
    job_step reg s (map run_id rs) (s\<lparr>sys_store := st, sys_held := sys_held s @ map (Pair w) rs\<rparr>)"
| step_checkpoint: "(w, r) \<in> set (sys_held s) \<Longrightarrow>
    job_step reg s [] (s\<lparr>sys_store := checkpoint_run (sys_now s) r data (sys_store s)\<rparr>)"
| step_finish: "(w, r) \<in> set (sys_held s) \<Longrightarrow> finish_run reg (sys_now s) r result (sys_store s) = Some st \<Longrightarrow>
    job_step reg s [] (s\<lparr>sys_store := st, sys_held := release (run_id r) (sys_held s)\<rparr>)"
| step_retry: "r \<in> set (runs (sys_store s)) \<Longrightarrow>
    retry_dead_lettered_run (sys_now s) r actor (sys_store s) = Some (Inr (new, st)) \<Longrightarrow>
    job_step reg s [] (s\<lparr>sys_store := st\<rparr>)"
| step_schedule: "run_scheduler_tick (sys_now s) busy limit tenant (sys_schedules s) (sys_store s) = Some (n, tk) \<Longrightarrow>
    job_step reg s [] (s\<lparr>sys_schedules := tick_schedules tk, sys_store := tick_store tk\<rparr>)"
| step_crash: "job_step reg s [] (s\<lparr>sys_held := filter (\<lambda>h. fst h \<noteq> w) (sys_held s)\<rparr>)"
| step_pass: "sys_now s \<le> t \<Longrightarrow> job_step reg s [] (s\<lparr>sys_now := t\<rparr>)"

abbreviation job_reach :: "registry \<Rightarrow> job_system \<Rightarrow> nat list \<Rightarrow> job_system \<Rightarrow> bool" where
  "job_reach reg \<equiv> trace (job_step reg)"

subsection \<open>The worker\<close>

fun execute_all :: "registry \<Rightarrow> job_run list \<Rightarrow> job_system \<Rightarrow> job_system option" where
  "execute_all reg [] s = Some s"
| "execute_all reg (r # rs) s =
     (case execute_run reg (sys_now s) r (sys_store s) of
        None \<Rightarrow> None
      | Some (t, st) \<Rightarrow>
          execute_all reg rs (s\<lparr>sys_now := t, sys_store := st, sys_held := release (run_id r) (sys_held s)\<rparr>))"

definition run_job_worker_iteration ::
  "registry \<Rightarrow> nat set \<Rightarrow> nat set \<Rightarrow> nat \<Rightarrow> string \<Rightarrow> int \<Rightarrow> string option \<Rightarrow> job_system \<Rightarrow> job_system option" where
  "run_job_worker_iteration reg busy_schedules busy batch_size worker lock_seconds tenant s =
     (case run_scheduler_tick (sys_now s) busy_schedules batch_size tenant (sys_schedules s) (sys_store s) of
        None \<Rightarrow> None
      | Some (n, tk) \<Rightarrow>
          (case claim_due_runs (sys_now s) busy batch_size worker lock_seconds tenant (tick_store tk) of
             (rs, st) \<Rightarrow>
               execute_all reg rs (s\<lparr>sys_schedules := tick_schedules tk, sys_store := st,
                 sys_held := sys_held s @ map (Pair worker) rs\<rparr>)))"

subsection \<open>The store\<close>

definition idents :: "job_store \<Rightarrow> (nat \<times> string \<times> string) list" where
  "idents st = map (\<lambda>r. (run_id r, run_tenant r, run_key r)) (runs st)"

definition store_ok :: "job_store \<Rightarrow> bool" where
  "store_ok st =
     (distinct (map run_id (runs st)) \<and> distinct (map (\<lambda>r. (run_tenant r, run_key r)) (runs st))
      \<and> (\<forall>r \<in> set (runs st). run_id r < next_id st \<and> 0 \<le> run_attempts r \<and> run_attempts r \<le> max 0 (run_max r)))"

text \<open>A row stays the row it is: same key and limit, no attempt lost or taken past the limit.\<close>

definition keeps :: "(job_run \<Rightarrow> job_run) \<Rightarrow> bool" where
  "keeps f =
     (\<forall>x. run_id (f x) = run_id x \<and> run_tenant (f x) = run_tenant x \<and> run_key (f x) = run_key x \<and> run_max (f x) = run_max x)"

definition changes :: "(job_run \<Rightarrow> job_run) \<Rightarrow> job_store \<Rightarrow> job_store \<Rightarrow> bool" where
  "changes f st st' = (keeps f \<and> runs st' = map f (runs st) \<and> next_id st' = next_id st)"

definition grows :: "job_store \<Rightarrow> job_store \<Rightarrow> bool" where
  "grows st st' =
     (\<exists>new. runs st' = runs st @ new \<and> next_id st \<le> next_id st'
        \<and> (\<forall>r \<in> set new. run_status r = Queued \<and> run_attempts r = 0 \<and> next_id st \<le> run_id r))"

lemma same_id: "store_ok st \<Longrightarrow> x \<in> set (runs st) \<Longrightarrow> y \<in> set (runs st) \<Longrightarrow> run_id x = run_id y \<Longrightarrow> x = y"
  by (auto simp: store_ok_def distinct_map inj_on_def)

lemma changes_ok:
  assumes "store_ok st" "changes f st st'"
    and "\<And>x. x \<in> set (runs st) \<Longrightarrow> run_attempts (f x) = run_attempts x \<or> run_attempts (f x) = run_attempts x + 1 \<and> run_attempts x < run_max x"
  shows "store_ok st'" "idents st' = idents st"
proof -
  have m: "map (g \<circ> f) (runs st) = map g (runs st)" if "\<And>x. g (f x) = g x" for g :: "job_run \<Rightarrow> 'b"
    using that by simp
  show "idents st' = idents st" using assms(2) by (simp add: idents_def changes_def keeps_def)
  have "0 \<le> run_attempts (f x) \<and> run_attempts (f x) \<le> max 0 (run_max x)" if "x \<in> set (runs st)" for x
    using assms(1) assms(3) [OF that] that by (force simp: store_ok_def)
  then show "store_ok st'"
    using assms(1,2) by (auto simp: store_ok_def changes_def keeps_def comp_def)
qed

lemma grows_refl [intro]: "grows st st"
  by (simp add: grows_def)

lemma grows_trans: "grows a b \<Longrightarrow> grows b c \<Longrightarrow> grows a c"
  by (fastforce simp: grows_def)

lemma enqueue_cases:
  assumes "enqueue_job now p st = Some (r, created, st')"
  obtains "\<not> created" "st' = st" "find_run st (enq_tenant p) (enq_key p) = Some r"
  | "created" "find_run st (enq_tenant p) (enq_key p) = None" "r = new_run now (next_id st) p"
    "runs st' = runs st @ [r]" "next_id st' = Suc (next_id st)"
  using assms by (auto simp: enqueue_job_def Let_def split: option.splits if_splits)

lemma enqueue_grows:
  assumes "enqueue_job now p st = Some (r, created, st')"
  shows "grows st st'" "store_ok st \<Longrightarrow> store_ok st'"
  using assms
  by (cases rule: enqueue_cases;
      force simp: grows_def store_ok_def new_run_def find_run_def find_first_None_iff)+

lemma fire_all_grows:
  assumes "fire_all now tk sds = Some tk'"
  shows "grows (tick_store tk) (tick_store tk') \<and> (store_ok (tick_store tk) \<longrightarrow> store_ok (tick_store tk'))"
  using assms
proof (induction sds arbitrary: tk)
  case (Cons sd sds)
  then obtain tk1 where tk1: "fire_schedule now tk sd = Some tk1" "fire_all now tk1 sds = Some tk'"
    by (auto split: option.splits)
  then have "grows (tick_store tk) (tick_store tk1) \<and> (store_ok (tick_store tk) \<longrightarrow> store_ok (tick_store tk1))"
    by (auto simp: fire_schedule_def Let_def dest: enqueue_grows split: prod.splits sum.splits jnum.splits option.splits)
  with Cons.IH [OF tk1(2)] show ?case by (blast intro: grows_trans)
qed auto

subsection \<open>The effect of a step\<close>

definition touch :: "nat \<Rightarrow> (job_run \<Rightarrow> job_run) \<Rightarrow> job_run \<Rightarrow> job_run" where
  "touch i f x = (if run_id x = i then f x else x)"

text \<open>A change of one row that keeps its attempts; with \<open>open_row\<close> also its status and lock.\<close>

definition row_change :: "bool \<Rightarrow> (job_run \<Rightarrow> job_run) \<Rightarrow> bool" where
  "row_change open_row f =
     (keeps f \<and> (\<forall>x. run_attempts (f x) = run_attempts x \<and> run_job (f x) = run_job x)
      \<and> (open_row \<longrightarrow> (\<forall>x. run_status (f x) = run_status x \<and> run_locked_by (f x) = run_locked_by x)))"

lemma checkpoint_effect:
  "\<exists>f. row_change True f \<and> runs (checkpoint_run now r data st) = map (touch (run_id r) f) (runs st)
    \<and> next_id (checkpoint_run now r data st) = next_id st"
  by (intro exI [of _ "\<lambda>x. x\<lparr>run_checkpoint := json_or_empty data, run_updated := now\<rparr>"])
    (simp add: checkpoint_run_def record_run_event_def update_run_def touch_def row_change_def keeps_def)

lemma retry_effect:
  assumes "retry_or_dead_letter_run now r e policy st = Some st'"
  shows "\<exists>f. row_change False f \<and> runs st' = map (touch (run_id r) f) (runs st) \<and> next_id st' = next_id st"
proof -
  let ?f = "\<lambda>ms x. x\<lparr>run_status := (if run_max r \<le> run_attempts r then DeadLettered else Retry),
    run_error := Some (take 3000 e), run_locked_by := None, run_locked_until := None,
    run_next := now + ms, run_finished := (if run_max r \<le> run_attempts r then Some now else run_finished x),
    run_updated := now\<rparr>"
  have ch: "row_change False (?f ms)" for ms by (simp add: row_change_def keeps_def)
  show ?thesis
  proof (cases "interval_ms (if run_max r \<le> run_attempts r then Fin 0
      else calculate_backoff_seconds (run_attempts r) (base_seconds policy) (max_seconds policy))")
    case None
    with assms show ?thesis unfolding retry_or_dead_letter_run_def Let_def None by simp
  next
    case (Some ms)
    have "runs st' = map (touch (run_id r) (?f ms)) (runs st) \<and> next_id st' = next_id st"
      using assms [symmetric] unfolding retry_or_dead_letter_run_def Let_def Some
      by (simp add: record_run_event_def update_run_def touch_def)
    with ch show ?thesis by blast
  qed
qed

lemma complete_effect:
  "\<exists>f. row_change False f \<and> runs (complete_run now r v st) = map (touch (run_id r) f) (runs st)
    \<and> next_id (complete_run now r v st) = next_id st"
  by (intro exI [of _ "\<lambda>x. x\<lparr>run_status := Succeeded, run_result := json_or_empty v, run_finished := Some now,
      run_locked_by := None, run_locked_until := None, run_updated := now\<rparr>"])
    (simp add: complete_run_def record_run_event_def update_run_def touch_def row_change_def keeps_def)

lemma finish_effect:
  assumes "finish_run reg now r result st = Some st'"
  shows "\<exists>f. row_change False f \<and> runs st' = map (touch (run_id r) f) (runs st) \<and> next_id st' = next_id st"
proof (cases "get_job_definition reg (run_job r)")
  case None
  with assms retry_effect [of now "r\<lparr>run_attempts := run_max r\<rparr>"] show ?thesis by (simp add: finish_run_def)
next
  case (Some d)
  show ?thesis
  proof (cases result)
    case (Inl e)
    with assms Some have "retry_or_dead_letter_run now r e (def_backoff d) st = Some st'" by (simp add: finish_run_def)
    then show ?thesis by (rule retry_effect)
  next
    case (Inr v)
    with assms Some have "st' = complete_run now r (if nullish v then JObj [] else v) st" by (simp add: finish_run_def)
    then show ?thesis by (simp only: complete_effect)
  qed
qed

lemma retry_grows:
  assumes "retry_dead_lettered_run now r actor st = Some (Inr (new, st'))"
  shows "grows st st' \<and> (store_ok st \<longrightarrow> store_ok st')"
proof -
  let ?p = "\<lparr>enq_tenant = run_tenant r, enq_job = run_job r, enq_key = retry_key now r,
    enq_request = run_request r, enq_schedule = run_schedule r, enq_max = Some (run_max r)\<rparr>"
  show ?thesis
  proof (cases "enqueue_job now ?p st")
    case None
    with assms show ?thesis unfolding retry_dead_lettered_run_def None by (cases "run_status r = DeadLettered") simp_all
  next
    case (Some rcs)
    obtain r1 created st1 where e: "enqueue_job now ?p st = Some (r1, created, st1)" using Some by (cases rcs) auto
    have "run_status r = DeadLettered" using assms by (cases "run_status r") (simp_all add: retry_dead_lettered_run_def)
    then have "runs st' = runs st1 \<and> next_id st' = next_id st1"
      using assms [symmetric] unfolding retry_dead_lettered_run_def e by (simp add: record_run_event_def)
    then have "grows st st' = grows st st1" "store_ok st' = store_ok st1" by (simp_all only: grows_def store_ok_def)
    with enqueue_grows [OF e] show ?thesis by simp
  qed
qed

lemma tick_grows:
  assumes "run_scheduler_tick now busy limit tenant ss st = Some (n, tk)"
  shows "grows st (tick_store tk) \<and> (store_ok st \<longrightarrow> store_ok (tick_store tk))"
proof -
  from assms have "fire_all now \<lparr>tick_schedules = ss, tick_store = st, tick_created = 0, tick_invalid = 0\<rparr>
      (due_schedules now busy limit tenant ss st) = Some tk" by (auto simp: run_scheduler_tick_def Let_def)
  from fire_all_grows [OF this] show ?thesis by simp
qed

lemma distinct_candidates:
  assumes "store_ok st"
  shows "distinct (map run_id (candidates now busy limit tenant st))"
proof -
  let ?xs = "filter (due now busy tenant) (runs st)"
  have "distinct (map run_id ?xs)" using assms by (simp add: store_ok_def distinct_map_filter)
  then have "card (set (map run_id (sort_by claim_order ?xs))) = length (map run_id (sort_by claim_order ?xs))"
    using distinct_card [of "map run_id ?xs"] by simp
  then have "distinct (map run_id (sort_by claim_order ?xs))" by (rule card_distinct)
  then show ?thesis by (simp add: candidates_def take_map [symmetric] distinct_take)
qed

lemma candidates_due: "r \<in> set (candidates now busy limit tenant st) \<Longrightarrow> r \<in> set (runs st) \<and> due now busy tenant r"
  by (auto simp: candidates_def dest: in_set_takeD)

text \<open>What a worker holds is its own running row, with the attempts it claimed it with.\<close>

definition holds_row :: "job_store \<Rightarrow> string \<times> job_run \<Rightarrow> bool" where
  "holds_row st wh =
     (\<exists>x \<in> set (runs st). run_id x = run_id (snd wh) \<and> run_status x = Running \<and> run_locked_by x = Some (fst wh)
        \<and> run_attempts x = run_attempts (snd wh) \<and> run_max x = run_max (snd wh) \<and> run_job x = run_job (snd wh))"

lemma holds_rowE:
  assumes "holds_row st wh"
  obtains x where "x \<in> set (runs st)" "run_id x = run_id (snd wh)" "run_status x = Running" "run_locked_by x = Some (fst wh)"
    "run_attempts x = run_attempts (snd wh)" "run_max x = run_max (snd wh)" "run_job x = run_job (snd wh)"
  using assms unfolding holds_row_def by blast

lemma holds_rowI:
  "x \<in> set (runs st) \<Longrightarrow> run_id x = run_id (snd wh) \<Longrightarrow> run_status x = Running \<Longrightarrow> run_locked_by x = Some (fst wh) \<Longrightarrow>
    run_attempts x = run_attempts (snd wh) \<Longrightarrow> run_max x = run_max (snd wh) \<Longrightarrow> run_job x = run_job (snd wh) \<Longrightarrow> holds_row st wh"
  unfolding holds_row_def by blast

definition held_ok :: "job_system \<Rightarrow> bool" where
  "held_ok s =
     (distinct (map (\<lambda>h. run_id (snd h)) (sys_held s)) \<and> (\<forall>wh \<in> set (sys_held s). holds_row (sys_store s) wh))"

definition sys_ok :: "job_system \<Rightarrow> bool" where
  "sys_ok s = (store_ok (sys_store s) \<and> held_ok s)"

text \<open>Every step adds rows and lets go of held ones, or claims due rows, or changes one held row.\<close>

inductive effect :: "job_system \<Rightarrow> nat list \<Rightarrow> job_system \<Rightarrow> bool" where
  effect_grow: "grows (sys_store s) (sys_store s') \<Longrightarrow> (store_ok (sys_store s) \<Longrightarrow> store_ok (sys_store s')) \<Longrightarrow>
    sys_held s' = filter P (sys_held s) \<Longrightarrow> effect s [] s'"
| effect_claim: "cs = candidates now busy limit tenant (sys_store s) \<Longrightarrow> f = claim_run now w secs \<Longrightarrow>
    runs (sys_store s') = map (\<lambda>r. if run_id r \<in> run_id ` set cs then f r else r) (runs (sys_store s)) \<Longrightarrow>
    next_id (sys_store s') = next_id (sys_store s) \<Longrightarrow>
    sys_held s' = sys_held s @ map (\<lambda>c. (w, f c)) cs \<Longrightarrow> effect s (map run_id cs) s'"
| effect_touch: "(w, r) \<in> set (sys_held s) \<Longrightarrow> row_change open_row f \<Longrightarrow>
    runs (sys_store s') = map (touch (run_id r) f) (runs (sys_store s)) \<Longrightarrow>
    next_id (sys_store s') = next_id (sys_store s) \<Longrightarrow>
    sys_held s' = (if open_row then sys_held s else release (run_id r) (sys_held s)) \<Longrightarrow> effect s [] s'"

lemma step_effect: "job_step reg s ids s' \<Longrightarrow> effect s ids s'"
proof (induction rule: job_step.induct)
  case (step_enqueue s p r created st)
  from enqueue_grows [OF step_enqueue] show ?case by (intro effect_grow [where P = "\<lambda>_. True"]) simp_all
next
  case (step_claim s busy limit w secs tenant rs st)
  let ?cs = "candidates (sys_now s) busy limit tenant (sys_store s)"
  have rs: "rs = map (claim_run (sys_now s) w secs) ?cs"
    "runs st = map (\<lambda>r. if run_id r \<in> run_id ` set ?cs then claim_run (sys_now s) w secs r else r) (runs (sys_store s))"
    "next_id st = next_id (sys_store s)"
    using step_claim by (auto simp: claim_due_runs_def Let_def)
  have "map run_id rs = map run_id ?cs" by (simp add: rs claim_run_def)
  moreover have "effect s (map run_id ?cs) (s\<lparr>sys_store := st, sys_held := sys_held s @ map (Pair w) rs\<rparr>)"
    by (rule effect_claim [OF refl refl, where w = w and secs = secs]) (simp_all add: rs)
  ultimately show ?case by simp
next
  case (step_checkpoint w r s data)
  from checkpoint_effect [of "sys_now s" r data "sys_store s"] obtain f where f: "row_change True f"
    "runs (checkpoint_run (sys_now s) r data (sys_store s)) = map (touch (run_id r) f) (runs (sys_store s))"
    "next_id (checkpoint_run (sys_now s) r data (sys_store s)) = next_id (sys_store s)" by blast
  show ?case by (rule effect_touch [OF step_checkpoint f(1)]) (simp_all add: f)
next
  case (step_finish w r s result st)
  from finish_effect [OF step_finish(2)] obtain f where f: "row_change False f"
    "runs st = map (touch (run_id r) f) (runs (sys_store s))" "next_id st = next_id (sys_store s)" by blast
  show ?case by (rule effect_touch [OF step_finish(1) f(1)]) (simp_all add: f)
next
  case (step_retry r s actor new st)
  from retry_grows [OF step_retry(2)] show ?case by (intro effect_grow [where P = "\<lambda>_. True"]) simp_all
next
  case (step_schedule s busy limit tenant n tk)
  from tick_grows [OF step_schedule] show ?case by (intro effect_grow [where P = "\<lambda>_. True"]) simp_all
next
  case (step_crash s w)
  show ?case by (intro effect_grow [where P = "\<lambda>h. fst h \<noteq> w"]) auto
next
  case (step_pass s t)
  show ?case by (intro effect_grow [where P = "\<lambda>_. True"]) auto
qed

lemma touch_props:
  assumes "row_change open_row f"
  shows "run_id (touch i f x) = run_id x" "run_tenant (touch i f x) = run_tenant x" "run_key (touch i f x) = run_key x"
    "run_max (touch i f x) = run_max x" "run_attempts (touch i f x) = run_attempts x" "run_job (touch i f x) = run_job x"
    "run_id x \<noteq> i \<Longrightarrow> touch i f x = x"
    "open_row \<Longrightarrow> run_status (touch i f x) = run_status x \<and> run_locked_by (touch i f x) = run_locked_by x"
  using assms by (simp_all add: touch_def row_change_def keeps_def)

lemma claim_run_props [simp]:
  "run_id (claim_run now w secs r) = run_id r" "run_tenant (claim_run now w secs r) = run_tenant r"
  "run_key (claim_run now w secs r) = run_key r" "run_max (claim_run now w secs r) = run_max r"
  "run_attempts (claim_run now w secs r) = run_attempts r + 1" "run_job (claim_run now w secs r) = run_job r"
  "run_status (claim_run now w secs r) = Running" "run_locked_by (claim_run now w secs r) = Some w"
  by (simp_all add: claim_run_def)

lemma due_props: "due now busy tenant r \<Longrightarrow> (run_status r = Queued \<or> run_status r = Retry) \<and> run_attempts r < run_max r"
  by (simp add: due_def)

lemma effect_store_ok: "effect s ids s' \<Longrightarrow> store_ok (sys_store s) \<Longrightarrow> store_ok (sys_store s')"
proof (induction rule: effect.induct)
  case (effect_claim cs now busy limit tenant s f w secs s')
  let ?f = "\<lambda>r. if run_id r \<in> run_id ` set cs then f r else r"
  have "changes ?f (sys_store s) (sys_store s')" using effect_claim by (simp add: changes_def keeps_def)
  moreover have "run_attempts (?f x) = run_attempts x \<or> run_attempts (?f x) = run_attempts x + 1 \<and> run_attempts x < run_max x"
    if x: "x \<in> set (runs (sys_store s))" for x
  proof (cases "run_id x \<in> run_id ` set cs")
    case True
    then obtain c where c: "c \<in> set cs" "run_id c = run_id x" by auto
    with effect_claim.hyps(1) have "c \<in> set (runs (sys_store s))" "due now busy tenant c" by (auto dest: candidates_due)
    with same_id [OF effect_claim.prems x] c(2) have "x = c" by simp
    with \<open>due now busy tenant c\<close> True show ?thesis by (auto simp: effect_claim.hyps(2) dest: due_props)
  qed simp
  ultimately show ?case using changes_ok(1) [OF effect_claim.prems] by blast
next
  case (effect_touch w r s open_row f s')
  have "changes (touch (run_id r) f) (sys_store s) (sys_store s')"
    using effect_touch.hyps by (simp add: changes_def keeps_def touch_props [OF effect_touch.hyps(2)])
  then show ?case
    by (rule changes_ok(1) [OF effect_touch.prems]) (simp add: touch_props [OF effect_touch.hyps(2)])
qed simp

lemma effect_held_ok:
  assumes "effect s ids s'" "store_ok (sys_store s)" "held_ok s"
  shows "held_ok s'"
  using assms
proof (induction rule: effect.induct)
  case (effect_grow s s' P)
  then have "holds_row (sys_store s') wh" if "holds_row (sys_store s) wh" for wh
    using that by (auto simp: grows_def holds_row_def)
  with effect_grow show ?case by (auto simp: held_ok_def distinct_map_filter)
next
  case (effect_claim cs now busy limit tenant s f w secs s')
  have due: "c \<in> set (runs (sys_store s)) \<and> due now busy tenant c" if "c \<in> set cs" for c
    using that effect_claim.hyps(1) by (auto dest: candidates_due)
  have free: "run_id c \<notin> held_ids s" if "c \<in> set cs" for c
  proof
    assume "run_id c \<in> held_ids s"
    then obtain wh where wh: "holds_row (sys_store s) wh" "run_id (snd wh) = run_id c"
      using effect_claim.prems(2) by (auto simp: held_ok_def)
    from wh(1) obtain x where "x \<in> set (runs (sys_store s))" "run_id x = run_id c" "run_status x = Running"
      by (rule holds_rowE) (auto simp: wh(2))
    with same_id [OF effect_claim.prems(1)] due [OF that] have "run_status c = Running" by blast
    with due [OF that] show False by (auto dest: due_props)
  qed
  have "holds_row (sys_store s') (w, f c)" if "c \<in> set cs" for c
  proof -
    have "f c \<in> set (runs (sys_store s'))" using that due [OF that] by (force simp: effect_claim.hyps(3))
    then show ?thesis by (rule holds_rowI) (simp_all add: effect_claim.hyps(2))
  qed
  moreover have "holds_row (sys_store s') wh" if "wh \<in> set (sys_held s)" for wh
  proof -
    from that effect_claim.prems(2) have "holds_row (sys_store s) wh" by (simp add: held_ok_def)
    then obtain x where x: "x \<in> set (runs (sys_store s))" "run_id x = run_id (snd wh)" "run_status x = Running"
      "run_locked_by x = Some (fst wh)" "run_attempts x = run_attempts (snd wh)" "run_max x = run_max (snd wh)"
      "run_job x = run_job (snd wh)" by (rule holds_rowE)
    have "run_id x \<notin> run_id ` set cs" using free that x(2) by force
    with x(1) have "x \<in> set (runs (sys_store s'))" by (force simp: effect_claim.hyps(3))
    then show ?thesis using x(2-) by (rule holds_rowI)
  qed
  moreover have "distinct (map run_id cs)" using effect_claim.prems(1) by (simp add: effect_claim.hyps(1) distinct_candidates)
  moreover have "run_id ` set cs \<inter> held_ids s = {}" using free by auto
  ultimately show ?case using effect_claim.prems(2)
    by (auto simp: held_ok_def effect_claim.hyps(2,5) comp_def)
next
  case (effect_touch w r s open_row f s')
  have keep: "holds_row (sys_store s') wh" if wh: "wh \<in> set (sys_held s)" "open_row \<or> run_id (snd wh) \<noteq> run_id r" for wh
  proof -
    from wh(1) effect_touch.prems(2) have "holds_row (sys_store s) wh" by (simp add: held_ok_def)
    then obtain x where x: "x \<in> set (runs (sys_store s))" "run_id x = run_id (snd wh)" "run_status x = Running"
      "run_locked_by x = Some (fst wh)" "run_attempts x = run_attempts (snd wh)" "run_max x = run_max (snd wh)"
      "run_job x = run_job (snd wh)" by (rule holds_rowE)
    let ?y = "touch (run_id r) f x"
    have "?y \<in> set (runs (sys_store s'))" using x(1) by (simp add: effect_touch.hyps(3))
    moreover have "run_status ?y = Running \<and> run_locked_by ?y = Some (fst wh)"
      using wh(2) x touch_props(7,8) [OF effect_touch.hyps(2)] by metis
    ultimately show ?thesis by (intro holds_rowI [of ?y]) (simp_all add: x touch_props(1-6) [OF effect_touch.hyps(2)])
  qed
  with effect_touch.prems(2) show ?case
    by (cases open_row) (auto simp: held_ok_def effect_touch.hyps(5) distinct_map_filter)
qed

lemma step_ok: "job_step reg s ids s' \<Longrightarrow> sys_ok s \<Longrightarrow> sys_ok s'"
  by (auto simp: sys_ok_def dest!: step_effect dest: effect_store_ok effect_held_ok)

interpretation jobs: step_invariant "job_step reg" sys_ok for reg
  by unfold_locales (rule step_ok)

subsection \<open>Histories\<close>

definition fresh_system :: "job_system \<Rightarrow> bool" where
  "fresh_system s = (runs (sys_store s) = [] \<and> sys_held s = [])"

lemma fresh_ok: "fresh_system s \<Longrightarrow> sys_ok s"
  by (simp add: fresh_system_def sys_ok_def store_ok_def held_ok_def)

text \<open>How often a run was handed out: its attempts; nothing else was handed out.\<close>

definition counted :: "nat list \<Rightarrow> job_system \<Rightarrow> bool" where
  "counted ids s =
     ((\<forall>x \<in> set (runs (sys_store s)). int (count_list ids (run_id x)) = run_attempts x)
      \<and> set ids \<subseteq> run_id ` set (runs (sys_store s)))"

lemma count_list_distinct: "distinct xs \<Longrightarrow> count_list xs x = (if x \<in> set xs then 1 else 0)"
  by (induction xs) auto

lemma effect_counted:
  assumes "effect s new s'" "store_ok (sys_store s)" "counted ids s"
  shows "counted (ids @ new) s'"
  using assms
proof (induction rule: effect.induct)
  case (effect_grow s s' P)
  obtain more_rows where more_rows: "runs (sys_store s') = runs (sys_store s) @ more_rows"
    "\<forall>r \<in> set more_rows. run_attempts r = 0 \<and> next_id (sys_store s) \<le> run_id r"
    using effect_grow.hyps(1) by (auto simp: grows_def)
  have "count_list ids (run_id r) = 0" if "r \<in> set more_rows" for r
  proof (rule count_notin, rule notI)
    assume "run_id r \<in> set ids"
    with effect_grow.prems obtain x where "x \<in> set (runs (sys_store s))" "run_id x = run_id r" by (auto simp: counted_def)
    with effect_grow.prems(1) more_rows(2) that show False by (force simp: store_ok_def)
  qed
  with effect_grow.prems(2) more_rows show ?case by (auto simp: counted_def)
next
  case (effect_claim cs now busy limit tenant s f w secs s')
  have d: "distinct (map run_id cs)" using effect_claim.prems(1) by (simp add: effect_claim.hyps(1) distinct_candidates)
  have "set cs \<subseteq> set (runs (sys_store s))" using effect_claim.hyps(1) by (auto dest: candidates_due)
  moreover have "map run_id (runs (sys_store s')) = map run_id (runs (sys_store s))"
    by (simp add: effect_claim.hyps(2,3))
  then have "run_id ` set (runs (sys_store s')) = run_id ` set (runs (sys_store s))" by (simp flip: set_map)
  moreover have "int (count_list (ids @ map run_id cs) (run_id x)) = run_attempts x" if "x \<in> set (runs (sys_store s'))" for x
    using that effect_claim.prems(2)
    by (auto simp: counted_def effect_claim.hyps(2,3) count_list_append count_list_distinct [OF d])
  ultimately show ?case using effect_claim.prems(2) by (auto simp: counted_def)
next
  case (effect_touch w r s open_row f s')
  with effect_touch.prems(2) show ?case
    by (simp add: counted_def touch_props [OF effect_touch.hyps(2)] image_image)
qed

lemma reach_counted: "job_reach reg s ids s' \<Longrightarrow> fresh_system s \<Longrightarrow> counted ids s'"
proof (induction rule: trace.induct)
  case (trace_start s)
  then show ?case by (simp add: counted_def fresh_system_def)
next
  case (trace_more s ids s' claimed s'')
  then have "sys_ok s'" using jobs.inv_trace fresh_ok by blast
  with trace_more effect_counted [OF step_effect] show ?case by (auto simp: sys_ok_def)
qed

text \<open>A row no worker holds and no claim can take stays as it is.\<close>

definition at_rest :: "job_run \<Rightarrow> job_system \<Rightarrow> bool" where
  "at_rest x s = (x \<in> set (runs (sys_store s)) \<and> run_id x \<notin> held_ids s \<and> run_status x \<noteq> Queued \<and> run_status x \<noteq> Retry)"

lemma effect_at_rest:
  assumes "effect s ids s'" "store_ok (sys_store s)" "at_rest x s"
  shows "at_rest x s' \<and> run_id x \<notin> set ids"
  using assms
proof (induction rule: effect.induct)
  case (effect_grow s s' P)
  then show ?case by (auto simp: at_rest_def grows_def)
next
  case (effect_claim cs now busy limit tenant s f w secs s')
  have "run_id x \<notin> run_id ` set cs"
  proof
    assume "run_id x \<in> run_id ` set cs"
    then obtain c where "c \<in> set cs" "run_id c = run_id x" by auto
    with effect_claim.hyps(1) have c: "c \<in> set (runs (sys_store s))" "due now busy tenant c" "run_id c = run_id x"
      by (auto dest: candidates_due)
    with same_id [OF effect_claim.prems(1)] effect_claim.prems(2) have "c = x" by (simp add: at_rest_def)
    with c(2) effect_claim.prems(2) show False by (auto simp: at_rest_def dest: due_props)
  qed
  with effect_claim.prems(2) show ?case by (auto simp: at_rest_def effect_claim.hyps(2,3,5) image_iff)
next
  case (effect_touch w r s open_row f s')
  then have "run_id x \<noteq> run_id r" by (force simp: at_rest_def)
  with effect_touch.prems(2) touch_props(7) [OF effect_touch.hyps(2), of x "run_id r"] show ?case
    by (auto simp: at_rest_def effect_touch.hyps(3,5) intro: image_eqI [OF sym])
qed

interpretation resting: step_property "job_step reg" sys_ok "at_rest x" "\<lambda>i. i \<noteq> run_id x" for reg x
  by unfold_locales (auto simp: sys_ok_def list_all_iff dest: step_effect effect_at_rest)

text \<open>The identity of the rows: rows are added and never renamed or dropped.\<close>

lemma effect_idents: "effect s ids s' \<Longrightarrow> set (idents (sys_store s)) \<subseteq> set (idents (sys_store s'))"
proof (induction rule: effect.induct)
  case (effect_touch w r s open_row f s')
  then show ?case by (simp add: idents_def touch_props [OF effect_touch.hyps(2)] comp_def)
qed (auto simp: idents_def grows_def image_iff intro!: bexI)

lemma reach_idents: "job_reach reg s ids s' \<Longrightarrow> set (idents (sys_store s)) \<subseteq> set (idents (sys_store s'))"
  by (induction rule: trace.induct) (auto dest: step_effect effect_idents)

subsection \<open>The worker as steps\<close>

text \<open>The clock of a handler does not run backwards.\<close>

definition clock_forward :: "registry \<Rightarrow> bool" where
  "clock_forward reg =
     (\<forall>code d t r cps e res. get_job_definition reg code = Some d \<longrightarrow> def_handler d t r = (cps, e, res) \<longrightarrow>
        sorted (t # map fst cps @ [e]))"

lemma checkpoints_reach:
  assumes "(w, r) \<in> set (sys_held s)" "sorted (sys_now s # map fst cps)"
  shows "job_reach reg s [] (s\<lparr>sys_now := last (sys_now s # map fst cps),
    sys_store := foldl (\<lambda>st (t, data). checkpoint_run t r data st) (sys_store s) cps\<rparr>)"
  using assms
proof (induction cps arbitrary: s)
  case Nil
  then show ?case by (simp add: trace_start)
next
  case (Cons cp cps)
  obtain t data where cp: "cp = (t, data)" by (cases cp)
  let ?s1 = "s\<lparr>sys_now := t\<rparr>"
  let ?s2 = "?s1\<lparr>sys_store := checkpoint_run (sys_now ?s1) r data (sys_store ?s1)\<rparr>"
  have "job_reach reg s [] ?s1" using Cons.prems by (intro trace_single step_pass) (simp add: cp)
  moreover have "job_reach reg ?s1 [] ?s2" using Cons.prems(1) by (intro trace_single step_checkpoint) simp
  moreover have "job_reach reg ?s2 [] (?s2\<lparr>sys_now := last (sys_now ?s2 # map fst cps),
      sys_store := foldl (\<lambda>st (t, data). checkpoint_run t r data st) (sys_store ?s2) cps\<rparr>)"
    using Cons.prems by (intro Cons.IH) (simp_all add: cp)
  ultimately have "job_reach reg s [] (?s2\<lparr>sys_now := last (sys_now ?s2 # map fst cps),
      sys_store := foldl (\<lambda>st (t, data). checkpoint_run t r data st) (sys_store ?s2) cps\<rparr>)"
    by (blast intro: trace_silent)
  then show ?case by (simp add: cp)
qed

lemma execute_reach:
  assumes "clock_forward reg" "(w, r) \<in> set (sys_held s)" "execute_run reg (sys_now s) r (sys_store s) = Some (t, st)"
  shows "job_reach reg s [] (s\<lparr>sys_now := t, sys_store := st, sys_held := release (run_id r) (sys_held s)\<rparr>)"
proof (cases "get_job_definition reg (run_job r)")
  case None
  with assms(3) have "finish_run reg (sys_now s) r (Inl []) (sys_store s) = Some st" "t = sys_now s"
    by (auto simp: execute_run_def)
  with step_finish [OF assms(2) this(1)] show ?thesis by (intro trace_single) simp
next
  case (Some d)
  obtain cps e res where h: "def_handler d (sys_now s) r = (cps, e, res)" by (cases "def_handler d (sys_now s) r")
  let ?st = "foldl (\<lambda>st (t, data). checkpoint_run t r data st) (sys_store s) cps"
  from assms(3) Some h have fin: "finish_run reg e r res ?st = Some st" "t = e" by (auto simp: execute_run_def)
  have sorted: "sorted (sys_now s # map fst cps @ [e])" using assms(1) Some h unfolding clock_forward_def by blast
  then have ord: "sorted (sys_now s # map fst cps)" "last (sys_now s # map fst cps) \<le> e"
    using last_in_set [of "sys_now s # map fst cps"] by (auto simp: sorted_append)
  let ?s1 = "s\<lparr>sys_now := last (sys_now s # map fst cps), sys_store := ?st\<rparr>"
  let ?s2 = "?s1\<lparr>sys_now := e\<rparr>"
  have "job_reach reg s [] ?s1" using assms(2) ord(1) by (rule checkpoints_reach)
  moreover have "job_reach reg ?s1 [] ?s2" using ord(2) by (intro trace_single step_pass) simp
  moreover have "job_reach reg ?s2 [] (?s2\<lparr>sys_store := st, sys_held := release (run_id r) (sys_held ?s2)\<rparr>)"
    using assms(2) fin(1) by (intro trace_single step_finish) simp_all
  ultimately have "job_reach reg s [] (?s2\<lparr>sys_store := st, sys_held := release (run_id r) (sys_held ?s2)\<rparr>)"
    by (blast intro: trace_silent)
  then show ?thesis by (simp add: fin(2))
qed

lemma execute_all_reach:
  assumes "clock_forward reg" "distinct (map run_id rs)" "\<forall>r \<in> set rs. (w, r) \<in> set (sys_held s)"
    and "execute_all reg rs s = Some s'"
  shows "job_reach reg s [] s'"
  using assms(2-4)
proof (induction rs arbitrary: s)
  case Nil
  then show ?case by (simp add: trace_start)
next
  case (Cons r rs)
  then obtain t st where e: "execute_run reg (sys_now s) r (sys_store s) = Some (t, st)"
    and rest: "execute_all reg rs (s\<lparr>sys_now := t, sys_store := st, sys_held := release (run_id r) (sys_held s)\<rparr>) = Some s'"
    by (auto split: option.splits)
  have "job_reach reg s [] (s\<lparr>sys_now := t, sys_store := st, sys_held := release (run_id r) (sys_held s)\<rparr>)"
    using assms(1) Cons.prems(2) e by (intro execute_reach) auto
  moreover have "job_reach reg (s\<lparr>sys_now := t, sys_store := st, sys_held := release (run_id r) (sys_held s)\<rparr>) [] s'"
    using Cons.prems rest by (intro Cons.IH) (auto simp: image_iff)
  ultimately show ?case by (rule trace_silent)
qed

subsection \<open>Facts behind the properties\<close>

lemma held_running:
  assumes "sys_ok s" "(w, h) \<in> set (sys_held s)"
  shows "\<exists>x \<in> set (runs (sys_store s)). run_id x = run_id h \<and> run_status x = Running \<and> run_locked_by x = Some w
    \<and> run_attempts x = run_attempts h"
  using assms by (force simp: sys_ok_def held_ok_def elim!: holds_rowE)

lemma not_running_not_held:
  assumes "sys_ok s" "x \<in> set (runs (sys_store s))" "run_status x \<noteq> Running"
  shows "run_id x \<notin> held_ids s"
proof
  assume "run_id x \<in> held_ids s"
  then obtain w h where h: "(w, h) \<in> set (sys_held s)" "run_id h = run_id x" by force
  from held_running [OF assms(1) h(1)] obtain y
    where "y \<in> set (runs (sys_store s))" "run_id y = run_id x" "run_status y = Running" using h(2) by auto
  with same_id [of "sys_store s" x y] assms show False by (auto simp: sys_ok_def)
qed

lemma find_run_in_idents:
  assumes "store_ok st" "(i, tenant, key) \<in> set (idents st)"
  shows "\<exists>r. find_run st tenant key = Some r \<and> run_id r = i"
proof -
  obtain x where x: "x \<in> set (runs st)" "run_id x = i" "run_tenant x = tenant" "run_key x = key"
    using assms(2) by (auto simp: idents_def)
  then obtain r where r: "find_run st tenant key = Some r"
    by (cases "find_run st tenant key") (auto simp: find_run_def find_first_None_iff)
  then have "r \<in> set (runs st)" "run_tenant r = tenant" "run_key r = key" by (auto simp: find_run_def dest: find_first_Some)
  with x assms(1) have "r = x" by (auto simp: store_ok_def distinct_map inj_on_def)
  with r x(2) show ?thesis by blast
qed

lemma enqueue_in_idents:
  assumes "enqueue_job now p st = Some (r, created, st')"
  shows "(run_id r, enq_tenant p, enq_key p) \<in> set (idents st')"
  using assms
proof (cases rule: enqueue_cases)
  case 1
  then have "r \<in> set (runs st)" "run_tenant r = enq_tenant p" "run_key r = enq_key p"
    by (auto simp: find_run_def dest: find_first_Some)
  with 1 show ?thesis by (auto simp: idents_def image_iff intro!: bexI [of _ r])
next
  case 2
  then show ?thesis by (simp add: idents_def new_run_def)
qed

lemma sorted_candidates:
  "sorted (map (\<lambda>r. (run_next r, run_created r)) (sort_by claim_order xs))"
  by (rule sorted_sort_by) (auto simp: claim_order_def split: if_splits)

lemma left_for_later:
  assumes "r \<in> set (runs st)" "due now busy tenant r" "r \<notin> set (candidates now busy limit tenant st)"
    and "c \<in> set (candidates now busy limit tenant st)"
  shows "(run_next c, run_created c) \<le> (run_next r, run_created r)"
proof -
  let ?xs = "sort_by claim_order (filter (due now busy tenant) (runs st))"
  have "r \<in> set ?xs" using assms(1,2) by simp
  with assms(3) have "r \<in> set (drop limit ?xs)"
    by (metis UnE append_take_drop_id candidates_def set_append)
  moreover have "c \<in> set (take limit ?xs)" using assms(4) by (simp add: candidates_def)
  moreover have "sorted (map (\<lambda>r. (run_next r, run_created r)) (take limit ?xs @ drop limit ?xs))"
    by (simp only: append_take_drop_id sorted_candidates)
  ultimately show ?thesis unfolding map_append sorted_append set_map by blast
qed

lemma retry_row:
  assumes "interval_ms (if run_max r \<le> run_attempts r then Fin 0
      else calculate_backoff_seconds (run_attempts r) (base_seconds policy) (max_seconds policy)) = Some ms"
    and "x \<in> set (runs st)" "run_id x = run_id r"
  shows "\<exists>st'. retry_or_dead_letter_run now r e policy st = Some st'
    \<and> (\<exists>y \<in> set (runs st'). run_id y = run_id r \<and> run_locked_by y = None \<and> run_next y = now + ms
         \<and> (if run_max r \<le> run_attempts r then run_status y = DeadLettered \<and> run_finished y = Some now else run_status y = Retry))
    \<and> (\<forall>z \<in> set (runs st). run_id z \<noteq> run_id r \<longrightarrow> z \<in> set (runs st'))"
proof -
  let ?f = "\<lambda>x. x\<lparr>run_status := (if run_max r \<le> run_attempts r then DeadLettered else Retry),
    run_error := Some (take 3000 e), run_locked_by := None, run_locked_until := None,
    run_next := now + ms, run_finished := (if run_max r \<le> run_attempts r then Some now else run_finished x),
    run_updated := now\<rparr>"
  obtain st' where st': "retry_or_dead_letter_run now r e policy st = Some st'" "runs st' = map (touch (run_id r) ?f) (runs st)"
    unfolding retry_or_dead_letter_run_def Let_def assms(1)
    by (simp add: record_run_event_def update_run_def touch_def)
  have "touch (run_id r) ?f x \<in> set (runs st')" using assms(2) by (simp add: st'(2))
  moreover have "touch (run_id r) ?f x = ?f x" by (simp add: touch_def assms(3))
  ultimately have "?f x \<in> set (runs st')" by simp
  moreover have "z \<in> set (runs st')" if "z \<in> set (runs st)" "run_id z \<noteq> run_id r" for z
  proof -
    have "touch (run_id r) ?f z \<in> set (runs st')" using that(1) by (simp add: st'(2))
    with that(2) show ?thesis by (simp add: touch_def)
  qed
  ultimately show ?thesis by (intro exI [of _ st'] conjI st'(1) bexI [of _ "?f x"]) (auto simp: assms(3))
qed

subsection \<open>Properties\<close>

text \<open>C4: however enqueues, claims, handlers, retries, scheduler ticks and worker deaths interleave, the table
  stays well formed (no two rows with one id or with one tenant and key, attempts within the limit) and
  no two workers hold the same run: what a worker holds is a distinct running row locked by it.\<close>

theorem workers_never_share_a_run:
  assumes "fresh_system s" "job_reach reg s ids s'"
  shows "distinct (map run_id (runs (sys_store s')))
    \<and> distinct (map (\<lambda>r. (run_tenant r, run_key r)) (runs (sys_store s')))
    \<and> (\<forall>x \<in> set (runs (sys_store s')). 0 \<le> run_attempts x \<and> run_attempts x \<le> max 0 (run_max x))
    \<and> distinct (map (\<lambda>h. run_id (snd h)) (sys_held s'))
    \<and> (\<forall>(w, h) \<in> set (sys_held s'). \<exists>x \<in> set (runs (sys_store s')). run_id x = run_id h \<and> run_status x = Running
         \<and> run_locked_by x = Some w \<and> run_attempts x = run_attempts h)"
proof -
  have ok: "sys_ok s'" using jobs.inv_trace [OF assms(2)] fresh_ok [OF assms(1)] .
  with held_running [OF ok] show ?thesis by (auto simp: sys_ok_def store_ok_def held_ok_def)
qed

text \<open>C6: in every history a run is handed to workers exactly as often as its attempts say, so never more
  often than its limit, whatever crashes, and nothing that is no row is handed out.\<close>

theorem run_handed_out_at_most_max_times:
  assumes "fresh_system s" "job_reach reg s ids s'"
  shows "set ids \<subseteq> run_id ` set (runs (sys_store s'))
    \<and> (\<forall>x \<in> set (runs (sys_store s')). int (count_list ids (run_id x)) = run_attempts x
         \<and> int (count_list ids (run_id x)) \<le> max 0 (run_max x))"
proof -
  have "sys_ok s'" using jobs.inv_trace [OF assms(2)] fresh_ok [OF assms(1)] .
  with reach_counted [OF assms(2,1)] show ?thesis by (auto simp: counted_def sys_ok_def store_ok_def)
qed

text \<open>a run that succeeded or was dead-lettered is final: in every later state its row is the same row,
  and it is never handed out again; a manual retry makes a new row.\<close>

theorem finished_runs_are_final:
  assumes "fresh_system s" "job_reach reg s ids s'" "x \<in> set (runs (sys_store s'))"
    and "run_status x = Succeeded \<or> run_status x = DeadLettered" "job_reach reg s' later s''"
  shows "x \<in> set (runs (sys_store s'')) \<and> run_id x \<notin> set later"
proof -
  have ok: "sys_ok s'" using jobs.inv_trace [OF assms(2)] fresh_ok [OF assms(1)] .
  have "at_rest x s'" using not_running_not_held [OF ok assms(3)] assms(3,4)
    unfolding at_rest_def by (cases "run_status x") simp_all
  with resting.kept_trace [OF assms(5) ok] show ?thesis by (auto simp: at_rest_def list_all_iff)
qed

text \<open>C5: a run whose worker died is lost: the lock has an expiry time, but no operation reads it, so in
  every later state, however late, the row is still running, locked by the dead worker, with the
  attempts it had, and it is never handed out again.\<close>

theorem abandoned_run_is_stuck:
  assumes "fresh_system s" "job_reach reg s ids s'" "(w, h) \<in> set (sys_held s')"
    and "job_reach reg (s'\<lparr>sys_held := filter (\<lambda>h. fst h \<noteq> w) (sys_held s')\<rparr>) later s''"
  shows "\<exists>x \<in> set (runs (sys_store s'')). run_id x = run_id h \<and> run_status x = Running \<and> run_locked_by x = Some w
    \<and> run_attempts x = run_attempts h \<and> run_id h \<notin> set later"
proof -
  let ?dead = "s'\<lparr>sys_held := filter (\<lambda>h. fst h \<noteq> w) (sys_held s')\<rparr>"
  have ok: "sys_ok s'" using jobs.inv_trace [OF assms(2)] fresh_ok [OF assms(1)] .
  have ok_dead: "sys_ok ?dead" using jobs.inv_step [OF step_crash ok] .
  from held_running [OF ok assms(3)] obtain x where x: "x \<in> set (runs (sys_store s'))" "run_id x = run_id h"
    "run_status x = Running" "run_locked_by x = Some w" "run_attempts x = run_attempts h" by blast
  have "run_id x \<notin> held_ids ?dead"
  proof
    assume "run_id x \<in> held_ids ?dead"
    then obtain v g where g: "(v, g) \<in> set (sys_held s')" "v \<noteq> w" "run_id g = run_id h" using x(2) by auto
    have "inj_on (\<lambda>h. run_id (snd h)) (set (sys_held s'))" using ok by (simp add: sys_ok_def held_ok_def distinct_map)
    from inj_onD [OF this _ g(1) assms(3)] g(3) have "(v, g) = (w, h)" by simp
    with g(2) show False by simp
  qed
  with x have "at_rest x ?dead" by (simp add: at_rest_def)
  from resting.kept_trace [OF assms(4) ok_dead this] have "at_rest x s''" "run_id x \<notin> set later"
    by (auto simp: list_all_iff)
  with x show ?thesis by (auto simp: at_rest_def)
qed

text \<open>enqueueing is idempotent over histories: after a run was enqueued under a tenant and key, then or
  earlier, enqueueing under the same tenant and key at any later time returns that run, whatever
  became of it, creates nothing and leaves the store as it is.\<close>

theorem enqueue_once:
  assumes "fresh_system s" "job_reach reg s ids s1" "enqueue_job (sys_now s1) p (sys_store s1) = Some (r, created, st)"
    and "job_reach reg (s1\<lparr>sys_store := st\<rparr>) later s2" "enq_tenant q = enq_tenant p" "enq_key q = enq_key p"
  shows "\<exists>r'. enqueue_job now q (sys_store s2) = Some (r', False, sys_store s2) \<and> run_id r' = run_id r"
proof -
  have "sys_ok s1" using jobs.inv_trace [OF assms(2)] fresh_ok [OF assms(1)] .
  then have "sys_ok (s1\<lparr>sys_store := st\<rparr>)" using jobs.inv_step [OF step_enqueue [OF assms(3)]] by blast
  with assms(4) have "store_ok (sys_store s2)" using jobs.inv_trace sys_ok_def by blast
  moreover have "(run_id r, enq_tenant p, enq_key p) \<in> set (idents (sys_store s2))"
    using enqueue_in_idents [OF assms(3)] reach_idents [OF assms(4)] by auto
  ultimately obtain r' where "find_run (sys_store s2) (enq_tenant q) (enq_key q) = Some r'" "run_id r' = run_id r"
    unfolding assms(5,6) using find_run_in_idents by blast
  then show ?thesis by (simp add: enqueue_job_def)
qed

text \<open>C28: one iteration of a worker (tick, claim, then each run's handler with its checkpoints and end) is a
  history of single transactions that hands out exactly the claimed runs; what holds in every history
  of the system holds for workers that run this loop.\<close>

theorem worker_iteration_refines_steps:
  assumes "clock_forward reg" "sys_ok s"
    and "run_job_worker_iteration reg busy_schedules busy batch worker secs tenant s = Some s'"
  shows "\<exists>ids. job_reach reg s ids s' \<and> length ids \<le> batch \<and> distinct ids"
proof -
  obtain n tk where tick: "run_scheduler_tick (sys_now s) busy_schedules batch tenant (sys_schedules s) (sys_store s) = Some (n, tk)"
    using assms(3) by (auto simp: run_job_worker_iteration_def split: option.splits)
  obtain rs st where claim: "claim_due_runs (sys_now s) busy batch worker secs tenant (tick_store tk) = (rs, st)"
    by (cases "claim_due_runs (sys_now s) busy batch worker secs tenant (tick_store tk)")
  let ?s1 = "s\<lparr>sys_schedules := tick_schedules tk, sys_store := tick_store tk\<rparr>"
  let ?s2 = "?s1\<lparr>sys_store := st, sys_held := sys_held ?s1 @ map (Pair worker) rs\<rparr>"
  have run: "execute_all reg rs ?s2 = Some s'" using assms(3) by (simp add: run_job_worker_iteration_def tick claim)
  have step1: "job_reach reg s [] ?s1" by (rule trace_single, rule step_schedule [OF tick])
  have step2: "job_reach reg ?s1 (map run_id rs) ?s2" using claim by (intro trace_single step_claim) simp
  have "store_ok (tick_store tk)" using tick_grows [OF tick] assms(2) by (simp add: sys_ok_def)
  then have d: "distinct (map run_id rs)" "length rs \<le> batch"
    using claim distinct_candidates by (auto simp: claim_due_runs_def Let_def candidates_def comp_def)
  have "job_reach reg ?s2 [] s'" by (rule execute_all_reach [OF assms(1) d(1) _ run]) auto
  from trace_append [OF step1 trace_append [OF step2 this]] have "job_reach reg s (map run_id rs) s'" by simp
  with d show ?thesis by (intro exI [of _ "map run_id rs"]) simp
qed

text \<open>a claim takes at most its limit, and a due run that no transaction holds is left behind only when
  the claim is full with runs that were due at least as early: the oldest due run always gets its turn.\<close>

theorem claim_takes_the_oldest:
  assumes "claim_due_runs now busy limit w secs tenant st = (rs, st')" "r \<in> set (runs st)" "due now busy tenant r"
  shows "length rs \<le> limit
    \<and> (claim_run now w secs r \<in> set rs
       \<or> length rs = limit \<and> (\<forall>c \<in> set rs. run_next c < run_next r \<or> run_next c = run_next r \<and> run_created c \<le> run_created r))"
proof -
  let ?xs = "sort_by claim_order (filter (due now busy tenant) (runs st))"
  have rs: "rs = map (claim_run now w secs) (candidates now busy limit tenant st)"
    using assms(1) by (simp add: claim_due_runs_def Let_def)
  have "length rs \<le> limit" by (simp add: rs candidates_def)
  moreover have "length rs = limit" if "r \<notin> set (candidates now busy limit tenant st)"
  proof -
    have "r \<in> set ?xs" using assms(2,3) by simp
    with that have "\<not> length ?xs \<le> limit" by (auto simp: candidates_def)
    then show ?thesis by (simp add: rs candidates_def)
  qed
  moreover have "run_next c < run_next r \<or> run_next c = run_next r \<and> run_created c \<le> run_created r"
    if later: "r \<notin> set (candidates now busy limit tenant st)" and c: "c \<in> set rs" for c
  proof -
    obtain c0 where c0: "c0 \<in> set (candidates now busy limit tenant st)" "c = claim_run now w secs c0"
      using c by (auto simp: rs)
    have "run_next c = run_next c0" "run_created c = run_created c0" by (simp_all add: c0(2) claim_run_def)
    with left_for_later [OF assms(2,3) later c0(1)] show ?thesis by (auto simp: less_eq_prod_def)
  qed
  moreover have "claim_run now w secs r \<in> set rs" if "r \<in> set (candidates now busy limit tenant st)"
    using that by (simp add: rs)
  ultimately show ?thesis by blast
qed

text \<open>a failed run with a registered handler is scheduled again after the capped, doubled delay as long as
  it has attempts left and is dead-lettered with them used up; a run of an unknown job code is
  dead-lettered at once; either way the lock is released and no other row changes.\<close>

theorem failed_run_is_retried_or_dead_lettered:
  assumes "x \<in> set (runs st)" "run_id x = run_id r" "1 \<le> run_attempts r"
    and "\<And>d. get_job_definition reg (run_job r) = Some d \<Longrightarrow>
      def_backoff d = \<lparr>base_seconds = Fin (of_int base), max_seconds = Fin (of_int cap)\<rparr>"
    and "0 < base" "base < 2 ^ 53" "0 \<le> cap" "cap < 2 ^ 53"
  shows "\<exists>st'. finish_run reg now r (Inl e) st = Some st'
    \<and> (\<exists>y \<in> set (runs st'). run_id y = run_id r \<and> run_locked_by y = None
         \<and> (if get_job_definition reg (run_job r) = None \<or> run_max r \<le> run_attempts r
            then run_status y = DeadLettered \<and> run_finished y = Some now
            else run_status y = Retry \<and> run_next y = now + 1000 * min (base * 2 ^ nat (run_attempts r - 1)) cap))
    \<and> (\<forall>z \<in> set (runs st). run_id z \<noteq> run_id r \<longrightarrow> z \<in> set (runs st'))"
proof -
  have ms0: "interval_ms (Fin 0) = Some 0" by (simp add: interval_ms_def round_half_even_def)
  have ms: "interval_ms (calculate_backoff_seconds (run_attempts r) (Fin (of_int base)) (Fin (of_int cap)))
      = Some (1000 * min (base * 2 ^ nat (run_attempts r - 1)) cap)"
    by (rule interval_backoff [OF assms(5,6,8,3)])
  show ?thesis
  proof (cases "get_job_definition reg (run_job r)")
    case None
    with retry_row [of "r\<lparr>run_attempts := run_max r\<rparr>" unknown_policy 0 x st now "no_handler r"] assms(1,2) ms0 show ?thesis
      by (auto simp: finish_run_def)
  next
    case (Some d)
    with retry_row [of r "def_backoff d" _ x st now e] assms(1,2) assms(4) [OF Some] ms ms0 show ?thesis
      by (cases "run_max r \<le> run_attempts r") (auto simp: finish_run_def)
  qed
qed

subsection \<open>A small history\<close>

definition example_registry :: registry where
  "example_registry = [(''scan'', \<lparr>def_code = ''scan'', def_handler = (\<lambda>t r. ([], t, Inl ''down'')), def_schema = None,
     def_max_attempts = 2, def_backoff = \<lparr>base_seconds = Fin 10, max_seconds = Fin 600\<rparr>\<rparr>)]"

definition example_params :: enqueue_params where
  "example_params = \<lparr>enq_tenant = ''t'', enq_job = ''scan'', enq_key = ''k'', enq_request = JNull, enq_schedule = None, enq_max = Some 2\<rparr>"

definition example_system :: job_system where
  "example_system = \<lparr>sys_now = 5, sys_schedules = [], sys_store = example_store, sys_held = []\<rparr>"

abbreviation (input) example_run :: job_run where
  "example_run \<equiv> new_run 5 0 example_params"

definition example_queued :: job_store where
  "example_queued = example_store\<lparr>runs := [example_run], next_id := 1\<rparr>"

definition example_claimed :: job_system where
  "example_claimed = example_system\<lparr>sys_store := example_queued\<lparr>runs := [claim_run 5 ''w'' 60 example_run]\<rparr>,
     sys_held := [(''w'', claim_run 5 ''w'' 60 example_run)]\<rparr>"

lemma example_fresh: "fresh_system example_system"
  by (simp add: fresh_system_def example_system_def example_store_def)

lemma example_enqueue: "enqueue_job 5 example_params example_store = Some (example_run, True, example_queued)"
  by (simp add: enqueue_job_def find_run_def example_store_def example_queued_def known_jobs_def example_params_def example_row_def Let_def)

lemma example_claim: "claim_due_runs 5 {} 3 ''w'' 60 None example_queued
    = ([claim_run 5 ''w'' 60 example_run], example_queued\<lparr>runs := [claim_run 5 ''w'' 60 example_run]\<rparr>)"
  by (simp add: claim_due_runs_def candidates_def due_def example_queued_def new_run_def example_params_def sort_by_def Let_def)

lemma example_history: "job_reach example_registry example_system [0] example_claimed"
proof -
  have "job_reach example_registry example_system [] (example_system\<lparr>sys_store := example_queued\<rparr>)"
    by (intro trace_single step_enqueue [where p = example_params]) (simp add: example_system_def example_enqueue)
  moreover have "job_reach example_registry (example_system\<lparr>sys_store := example_queued\<rparr>) [0] example_claimed"
  proof (rule trace_single)
    have "claim_due_runs (sys_now (example_system\<lparr>sys_store := example_queued\<rparr>)) {} 3 ''w'' 60 None
        (sys_store (example_system\<lparr>sys_store := example_queued\<rparr>))
      = ([claim_run 5 ''w'' 60 example_run], example_queued\<lparr>runs := [claim_run 5 ''w'' 60 example_run]\<rparr>)"
      by (simp add: example_claim example_system_def)
    from step_claim [OF this, of example_registry]
    show "job_step example_registry (example_system\<lparr>sys_store := example_queued\<rparr>) [0] example_claimed"
      by (simp add: example_claimed_def example_system_def new_run_def)
  qed
  ultimately show ?thesis using trace_append [of "job_step example_registry"] by fastforce
qed

theorem workers_never_share_a_run_witness:
  "job_reach example_registry example_system [0] example_claimed \<and> distinct (map (\<lambda>h. run_id (snd h)) (sys_held example_claimed))"
  using workers_never_share_a_run [OF example_fresh example_history] example_history by blast

theorem run_handed_out_at_most_max_times_witness:
  "list_all (\<lambda>x. int (count_list [0] (run_id x)) = run_attempts x) (runs (sys_store example_claimed))"
  using run_handed_out_at_most_max_times [OF example_fresh example_history] by (simp add: list_all_iff)

theorem abandoned_run_is_stuck_witness:
  "\<exists>x \<in> set (runs (sys_store (example_claimed\<lparr>sys_held := [], sys_now := 10 ^ 12\<rparr>))). run_status x = Running \<and> run_attempts x < run_max x
     \<and> run_locked_until x = Some 60005"
proof -
  let ?h = "claim_run 5 ''w'' 60 example_run"
  have h: "(''w'', ?h) \<in> set (sys_held example_claimed)" by (simp add: example_claimed_def)
  have dead: "filter (\<lambda>h. fst h \<noteq> ''w'') (sys_held example_claimed) = []" by (simp add: example_claimed_def)
  have "job_reach example_registry (example_claimed\<lparr>sys_held := []\<rparr>) [] (example_claimed\<lparr>sys_held := [], sys_now := 10 ^ 12\<rparr>)"
    by (rule trace_single) (use step_pass [of "example_claimed\<lparr>sys_held := []\<rparr>" "10 ^ 12" example_registry]
        in \<open>simp add: example_claimed_def example_system_def\<close>)
  from abandoned_run_is_stuck [OF example_fresh example_history h, unfolded dead, OF this]
  obtain x where "x \<in> set (runs (sys_store example_claimed))" "run_status x = Running" by auto
  then show ?thesis
    by (auto simp: example_claimed_def claim_run_def new_run_def example_params_def)
qed

theorem finished_runs_are_final_witness:
  "\<exists>s x. job_reach example_registry example_system [0] s \<and> x \<in> set (runs (sys_store s)) \<and> run_status x = Succeeded"
proof -
  let ?h = "claim_run 5 ''w'' 60 example_run"
  have h: "(''w'', ?h) \<in> set (sys_held example_claimed)" by (simp add: example_claimed_def)
  have "finish_run example_registry (sys_now example_claimed) ?h (Inr JNull) (sys_store example_claimed)
      = Some (complete_run 5 ?h (JObj []) (sys_store example_claimed))"
    by (simp add: finish_run_def get_job_definition_def example_registry_def new_run_def example_params_def
        example_claimed_def example_system_def)
  from trace_append [OF example_history trace_single [of "job_step example_registry", OF step_finish [OF h this]]]
  obtain s where s: "job_reach example_registry example_system [0] s"
    "sys_store s = complete_run 5 ?h (JObj []) (sys_store example_claimed)" by fastforce
  have "runs (sys_store s) = [?h\<lparr>run_status := Succeeded, run_result := json_or_empty (JObj []), run_finished := Some 5,
      run_locked_by := None, run_locked_until := None, run_updated := 5\<rparr>]"
    by (simp add: s(2) complete_run_def record_run_event_def update_run_def example_claimed_def)
  then obtain x where x: "x \<in> set (runs (sys_store s))" "run_status x = Succeeded" by fastforce
  then have "x \<in> set (runs (sys_store s))" using finished_runs_are_final [OF example_fresh s(1) x(1) _ trace_start] by blast
  with s(1) x(2) show ?thesis by blast
qed

theorem enqueue_once_witness:
  "\<exists>r. enqueue_job 9 (example_params\<lparr>enq_request := JNum (Fin 1)\<rparr>) example_queued = Some (r, False, example_queued) \<and> run_id r = 0"
proof -
  have e: "enqueue_job (sys_now example_system) example_params (sys_store example_system) = Some (example_run, True, example_queued)"
    by (simp add: example_system_def example_enqueue)
  from enqueue_once [OF example_fresh trace_start e trace_start, of "example_params\<lparr>enq_request := JNum (Fin 1)\<rparr>" 9]
  show ?thesis by (simp add: example_params_def new_run_def)
qed

theorem worker_iteration_refines_steps_witness:
  "\<exists>ids s'. run_job_worker_iteration example_registry {} {} 3 ''w'' 60 None (example_system\<lparr>sys_store := example_queued\<rparr>) = Some s'
     \<and> job_reach example_registry (example_system\<lparr>sys_store := example_queued\<rparr>) ids s'"
proof -
  let ?s = "example_system\<lparr>sys_store := example_queued\<rparr>"
  have tick: "run_scheduler_tick 5 {} 3 None [] example_queued
      = Some (0, \<lparr>tick_schedules = [], tick_store = example_queued, tick_created = 0, tick_invalid = 0\<rparr>)"
    by (simp add: run_scheduler_tick_def due_schedules_def sort_by_def List.map_filter_def)
  have ms: "interval_ms (calculate_backoff_seconds 1 (Fin 10) (Fin 600)) = Some 10000"
    using interval_backoff [of 10 600 1] by simp
  have "run_job_worker_iteration example_registry {} {} 3 ''w'' 60 None ?s \<noteq> None"
    by (simp add: run_job_worker_iteration_def example_system_def tick example_claim execute_run_def finish_run_def
        get_job_definition_def example_registry_def retry_or_dead_letter_run_def)
      (simp add: new_run_def example_params_def ms Let_def)
  then obtain s' where s': "run_job_worker_iteration example_registry {} {} 3 ''w'' 60 None ?s = Some s'" by blast
  have "clock_forward example_registry"
    by (auto simp: clock_forward_def get_job_definition_def example_registry_def split: if_splits)
  moreover have "sys_ok ?s" by (simp add: sys_ok_def held_ok_def store_ok_def example_system_def example_queued_def new_run_def example_params_def)
  ultimately show ?thesis using worker_iteration_refines_steps [OF _ _ s'] s' by blast
qed

theorem claim_takes_the_oldest_witness:
  "claim_run 5 ''w'' 60 example_run \<in> set (fst (claim_due_runs 5 {} 3 ''w'' 60 None example_queued))"
proof -
  have "example_run \<in> set (runs example_queued)" by (simp add: example_queued_def)
  moreover have "due 5 {} None example_run" by (simp add: due_def new_run_def example_params_def)
  moreover have "length [claim_run 5 ''w'' 60 example_run] \<noteq> 3" by simp
  ultimately show ?thesis using claim_takes_the_oldest [OF example_claim, of example_run]
    unfolding example_claim fst_conv by blast
qed

theorem failed_run_is_retried_or_dead_lettered_witness:
  "\<exists>st'. finish_run example_registry 5 (claim_run 5 ''w'' 60 example_run) (Inl ''down'') (sys_store example_claimed) = Some st'
     \<and> (\<exists>y \<in> set (runs st'). run_status y = Retry \<and> run_next y = 10005)"
proof -
  let ?h = "claim_run 5 ''w'' 60 example_run"
  have n: "run_attempts example_run = 0" "run_max example_run = 2" "run_job example_run = ''scan''"
    by (simp_all add: new_run_def example_params_def)
  have h: "?h \<in> set (runs (sys_store example_claimed))" "1 \<le> run_attempts ?h"
    by (simp_all add: example_claimed_def n)
  obtain d where d: "get_job_definition example_registry ''scan'' = Some d"
    by (simp add: get_job_definition_def example_registry_def)
  have reg: "get_job_definition example_registry (run_job ?h) = Some d' \<Longrightarrow>
      def_backoff d' = \<lparr>base_seconds = Fin (of_int 10), max_seconds = Fin (of_int 600)\<rparr>" for d'
    by (auto simp: get_job_definition_def example_registry_def n)
  have "(0 :: int) < 10" "(10 :: int) < 2 ^ 53" "(0 :: int) \<le> 600" "(600 :: int) < 2 ^ 53" by simp_all
  from failed_run_is_retried_or_dead_lettered [where reg = example_registry, OF h(1) refl h(2) reg this, where now = 5 and e = "''down''"]
  show ?thesis by (simp add: n d) blast
qed

end
