(* ===== verification/Outbox.thy ===== *)
theory Outbox
  imports QueueUtils DateUtils Traces
begin

text \<open>
  The outbox of event messages, \<open>server/src/asyncMessageWorker.ts\<close> and \<open>server/src/events/envelope.ts\<close>: the
  table \<open>async_message_outbox\<close> as a list of rows, the claim with its lease, the delivery of one row and
  the envelope it goes out in. The transport and the mailer are arguments. A message is written by the
  rest of the server with an \<open>INSERT\<close> that its source makes idempotent. Times are milliseconds.
\<close>

datatype outbox_status = Pending | Processing | Retry | Sent | Failed

record message =
  msg_id :: nat
  msg_tenant :: string
  msg_source :: string
  msg_topic :: string
  msg_payload :: jsval
  msg_status :: outbox_status
  msg_attempts :: int
  msg_max :: int
  msg_next :: int
  msg_last :: "int option"
  msg_sent :: "int option"
  msg_error :: "string option"
  msg_created :: int
  msg_updated :: int

type_synonym outbox = "message list"

definition PENDING_STATUSES :: "outbox_status list" where
  "PENDING_STATUSES = [Pending, Retry]"

record push_config =
  push_enabled :: bool
  webhook_url :: string
  auth_header :: string
  poll_ms :: jnum
  batch_size :: jnum
  request_timeout_ms :: jnum
  base_backoff_seconds :: jnum
  max_backoff_seconds :: jnum

text \<open>The environment: \<open>None\<close> for a variable that is not set.\<close>

type_synonym environment = "string \<Rightarrow> string option"

definition env_text :: "environment \<Rightarrow> string \<Rightarrow> string" where
  "env_text env name = trim (case env name of None \<Rightarrow> [] | Some v \<Rightarrow> v)"

definition load_config :: "environment \<Rightarrow> push_config" where
  "load_config env =
     \<lparr>push_enabled = parse_boolean (env ''ASYNC_PUSH_ENABLED'') True,
      webhook_url = env_text env ''ASYNC_PUSH_WEBHOOK_URL'',
      auth_header = env_text env ''ASYNC_PUSH_AUTH_HEADER'',
      poll_ms = parse_positive_int (env ''ASYNC_PUSH_POLL_MS'') (Fin 1500),
      batch_size = parse_positive_int (env ''ASYNC_PUSH_BATCH_SIZE'') (Fin 25),
      request_timeout_ms = parse_positive_int (env ''ASYNC_PUSH_TIMEOUT_MS'') (Fin 5000),
      base_backoff_seconds = parse_positive_int (env ''ASYNC_PUSH_BASE_BACKOFF_SECONDS'') (Fin 10),
      max_backoff_seconds = parse_positive_int (env ''ASYNC_PUSH_MAX_BACKOFF_SECONDS'') (Fin 600)\<rparr>"

definition claim_lease_seconds :: "environment \<Rightarrow> jnum" where
  "claim_lease_seconds env = parse_positive_int (env ''ASYNC_PUSH_CLAIM_LEASE_SECONDS'') (Fin 300)"

subsection \<open>Claim\<close>

definition claimable :: "int \<Rightarrow> int \<Rightarrow> nat set \<Rightarrow> string option \<Rightarrow> message \<Rightarrow> bool" where
  "claimable now lease_ms busy tenant m =
     ((msg_status m \<in> set PENDING_STATUSES \<and> msg_next m \<le> now
       \<or> msg_status m = Processing \<and> (case msg_last m of None \<Rightarrow> False | Some t \<Rightarrow> t < now - lease_ms))
      \<and> msg_attempts m < msg_max m
      \<and> (case tenant of None \<Rightarrow> True | Some t \<Rightarrow> msg_tenant m = t) \<and> msg_id m \<notin> busy)"

definition outbox_order :: "message \<Rightarrow> message \<Rightarrow> int" where
  "outbox_order a b =
     (if msg_next a < msg_next b then - 1 else if msg_next b < msg_next a then 1
      else if msg_created a < msg_created b then - 1 else if msg_created b < msg_created a then 1 else 0)"

definition outbox_candidates :: "int \<Rightarrow> int \<Rightarrow> nat set \<Rightarrow> nat \<Rightarrow> string option \<Rightarrow> outbox \<Rightarrow> message list" where
  "outbox_candidates now lease_ms busy limit tenant box =
     take limit (sort_by outbox_order (filter (claimable now lease_ms busy tenant) box))"

definition claim_message :: "int \<Rightarrow> message \<Rightarrow> message" where
  "claim_message now m = m\<lparr>msg_status := Processing, msg_last := Some now, msg_updated := now\<rparr>"

text \<open>The claimed rows and the table; the order of the rows is the claim's, which the database does not promise.\<close>

definition claim_outbox_rows ::
  "int \<Rightarrow> int \<Rightarrow> nat set \<Rightarrow> nat \<Rightarrow> string option \<Rightarrow> outbox \<Rightarrow> message list \<times> outbox" where
  "claim_outbox_rows now lease_ms busy limit tenant box =
     (let cs = outbox_candidates now lease_ms busy limit tenant box
      in (map (claim_message now) cs,
          map (\<lambda>m. if msg_id m \<in> msg_id ` set cs then claim_message now m else m) box))"

subsection \<open>Delivery\<close>

record envelope =
  spec_version :: string
  env_message :: nat
  env_tenant :: string
  env_type :: string
  env_topic :: string
  schema_version :: "string option"
  env_attempt :: int
  created_at :: string
  env_payload :: jsval

definition EVENT_ENVELOPE_VERSION :: string where "EVENT_ENVELOPE_VERSION = ''1''"

definition payload_schema_version :: "jsval \<Rightarrow> string option" where
  "payload_schema_version p =
     (case find_first (\<lambda>c. case c of JStr s \<Rightarrow> trim s \<noteq> [] | _ \<Rightarrow> False)
             [get p ''schemaVersion'', get (get p ''payload'') ''schemaVersion''] of
        Some v \<Rightarrow> Some (trim (to_str v)) | None \<Rightarrow> None)"

definition build_event_envelope :: "message \<Rightarrow> int \<Rightarrow> envelope" where
  "build_event_envelope m attempt =
     \<lparr>spec_version = EVENT_ENVELOPE_VERSION, env_message = msg_id m, env_tenant = msg_tenant m, env_type = msg_topic m,
      env_topic = msg_topic m, schema_version = payload_schema_version (msg_payload m), env_attempt = attempt,
      created_at = iso_time (msg_created m), env_payload = msg_payload m\<rparr>"

definition event_ordering_key :: "envelope \<Rightarrow> string" where
  "event_ordering_key e =
     (let p = env_payload e;
          entity = js_nc (get p ''entityId'') (js_nc (get p ''policyId'') (js_nc (get (get p ''payload'') ''policyId'')
                     (js_nc (get (get p ''policy'') ''policyId'') (JStr (nat_str (env_message e))))))
      in env_tenant e @ '':'' @ to_str entity)"

text \<open>The mailer of release notifications and the transport: \<open>Inl\<close> is the message of what they throw.\<close>

record channels =
  send_release_email :: "string \<Rightarrow> string \<Rightarrow> int \<Rightarrow> int \<Rightarrow> (string, unit) outcome"
  publish :: "envelope \<Rightarrow> (string, unit) outcome"

definition push_message :: "channels \<Rightarrow> message \<Rightarrow> int \<Rightarrow> (string, unit) outcome" where
  "push_message ch m attempt =
     (if msg_topic m = ''notification.llm_candidate_ready''
      then send_release_email ch (msg_tenant m) (to_str (js_or (get (msg_payload m) ''notificationId'') (JStr []))) attempt (msg_max m)
      else publish ch (build_event_envelope m attempt))"

definition update_message :: "message \<Rightarrow> (message \<Rightarrow> message) \<Rightarrow> outbox \<Rightarrow> outbox" where
  "update_message m f box = map (\<lambda>x. if msg_id x = msg_id m \<and> msg_tenant x = msg_tenant m then f x else x) box"

definition mark_sent :: "int \<Rightarrow> message \<Rightarrow> message \<Rightarrow> message" where
  "mark_sent now m x = x\<lparr>msg_status := Sent, msg_attempts := msg_attempts m + 1, msg_sent := Some now, msg_error := None,
     msg_next := now, msg_updated := now\<rparr>"

definition mark_failed :: "int \<Rightarrow> int \<Rightarrow> string \<Rightarrow> message \<Rightarrow> message \<Rightarrow> message" where
  "mark_failed now ms error m x =
     x\<lparr>msg_status := (if msg_max m \<le> msg_attempts m + 1 then Failed else Retry), msg_attempts := msg_attempts m + 1,
       msg_error := Some (take 3000 error), msg_next := now + ms, msg_updated := now\<rparr>"

text \<open>Whether it was sent, and the table; the argument \<open>m\<close> is the row as claimed.\<close>

definition dispatch_outbox_row :: "int \<Rightarrow> push_config \<Rightarrow> channels \<Rightarrow> message \<Rightarrow> outbox \<Rightarrow> (bool \<times> outbox) option" where
  "dispatch_outbox_row now config ch m box =
     (let next_attempts = msg_attempts m + 1
      in case push_message ch m next_attempts of
           Inr _ \<Rightarrow> Some (True, update_message m (mark_sent now m) box)
         | Inl e \<Rightarrow>
             (let exhausted = (msg_max m \<le> next_attempts);
                  delay = (if exhausted then Fin 0
                           else calculate_backoff_seconds next_attempts (base_backoff_seconds config) (max_backoff_seconds config))
              in map_option (\<lambda>ms. (False, update_message m (mark_failed now ms e m) box)) (interval_ms delay)))"

subsection \<open>The outbox as a system of dispatchers\<close>

record outbox_system =
  out_now :: int
  out_next_id :: nat
  out_box :: outbox
  out_held :: "(string \<times> int \<times> message) list" \<comment> \<open>dispatcher, time of the claim, row as claimed\<close>

definition write_message :: "int \<Rightarrow> nat \<Rightarrow> string \<Rightarrow> string \<Rightarrow> string \<Rightarrow> jsval \<Rightarrow> outbox \<Rightarrow> outbox" where
  "write_message now i tenant source topic payload box =
     (if list_ex (\<lambda>m. msg_tenant m = tenant \<and> msg_source m = source \<and> msg_topic m = topic) box then box
      else box @ [\<lparr>msg_id = i, msg_tenant = tenant, msg_source = source, msg_topic = topic, msg_payload = payload,
        msg_status = Pending, msg_attempts = 0, msg_max = 8, msg_next = now, msg_last = None, msg_sent = None,
        msg_error = None, msg_created = now, msg_updated = now\<rparr>])"

text \<open>
  A step carries the ids of the messages whose delivery it finished. Time passes only as far as no
  claim that is still held outlives its lease: the condition the source states for the lease.
\<close>

inductive outbox_step :: "int \<Rightarrow> push_config \<Rightarrow> outbox_system \<Rightarrow> nat list \<Rightarrow> outbox_system \<Rightarrow> bool" for lease_ms config where
  out_write: "outbox_step lease_ms config s [] (s\<lparr>out_next_id := Suc (out_next_id s),
    out_box := write_message (out_now s) (out_next_id s) tenant source topic payload (out_box s)\<rparr>)"
| out_claim: "claim_outbox_rows (out_now s) lease_ms busy limit tenant (out_box s) = (ms, box) \<Longrightarrow>
    outbox_step lease_ms config s [] (s\<lparr>out_box := box, out_held := out_held s @ map (\<lambda>m. (d, out_now s, m)) ms\<rparr>)"
| out_dispatch: "(d, t, m) \<in> set (out_held s) \<Longrightarrow>
    dispatch_outbox_row (out_now s) config ch m (out_box s) = Some (ok, box) \<Longrightarrow>
    outbox_step lease_ms config s [msg_id m] (s\<lparr>out_box := box, out_held := filter (\<lambda>h. h \<noteq> (d, t, m)) (out_held s)\<rparr>)"
| out_crash: "outbox_step lease_ms config s [] (s\<lparr>out_held := filter (\<lambda>h. fst h \<noteq> d) (out_held s)\<rparr>)"
| out_pass: "out_now s \<le> now \<Longrightarrow> \<forall>(d, t, m) \<in> set (out_held s). now \<le> t + lease_ms \<Longrightarrow>
    outbox_step lease_ms config s [] (s\<lparr>out_now := now\<rparr>)"

subsection \<open>The invariant\<close>

definition box_ok :: "nat \<Rightarrow> outbox \<Rightarrow> bool" where
  "box_ok next box =
     (distinct (map msg_id box) \<and> (\<forall>x \<in> set box. msg_id x < next \<and> 0 \<le> msg_attempts x \<and> msg_attempts x \<le> msg_max x))"

text \<open>What a dispatcher holds is its own row, in the state the claim left it in, within the lease.\<close>

definition holds :: "int \<Rightarrow> int \<Rightarrow> outbox \<Rightarrow> string \<times> int \<times> message \<Rightarrow> bool" where
  "holds lease_ms now box h =
     (case h of (d, t, m) \<Rightarrow> now \<le> t + lease_ms
        \<and> (\<exists>x \<in> set box. msg_id x = msg_id m \<and> msg_tenant x = msg_tenant m \<and> msg_status x = Processing \<and> msg_last x = Some t
             \<and> msg_attempts x = msg_attempts m \<and> msg_max x = msg_max m \<and> msg_attempts x < msg_max x))"

abbreviation held_message :: "string \<times> int \<times> message \<Rightarrow> nat" where
  "held_message h \<equiv> msg_id (snd (snd h))"

definition out_ok :: "int \<Rightarrow> outbox_system \<Rightarrow> bool" where
  "out_ok lease_ms s =
     (box_ok (out_next_id s) (out_box s) \<and> distinct (map held_message (out_held s))
      \<and> (\<forall>h \<in> set (out_held s). holds lease_ms (out_now s) (out_box s) h))"

lemma same_message: "box_ok n box \<Longrightarrow> x \<in> set box \<Longrightarrow> y \<in> set box \<Longrightarrow> msg_id x = msg_id y \<Longrightarrow> x = y"
  by (auto simp: box_ok_def distinct_map inj_on_def)

lemma holds_mono: "holds lease_ms now box h \<Longrightarrow> set box \<subseteq> set box' \<Longrightarrow> holds lease_ms now box' h"
  unfolding holds_def by (cases h) blast

lemma holds_later: "holds lease_ms now box h \<Longrightarrow> now' \<le> fst (snd h) + lease_ms \<Longrightarrow> holds lease_ms now' box h"
  unfolding holds_def by (cases h) simp

lemma holds_map:
  assumes "holds lease_ms now box h" "\<And>x. x \<in> set box \<Longrightarrow> msg_id x = held_message h \<Longrightarrow> f x = x"
  shows "holds lease_ms now (map f box) h"
proof -
  obtain d t m where h: "h = (d, t, m)" by (cases h)
  from assms(1) obtain x where x: "now \<le> t + lease_ms" "x \<in> set box" "msg_id x = msg_id m \<and> msg_tenant x = msg_tenant m
      \<and> msg_status x = Processing \<and> msg_last x = Some t \<and> msg_attempts x = msg_attempts m \<and> msg_max x = msg_max m
      \<and> msg_attempts x < msg_max x"
    by (auto simp: holds_def h)
  have "f x = x" using assms(2) [OF x(2)] x(3) by (simp add: h)
  then have "x \<in> set (map f box)" using x(2) by force
  with x(1,3) show ?thesis by (auto simp: holds_def h)
qed

lemma box_ok_map:
  assumes "box_ok n box" "\<And>x. x \<in> set box \<Longrightarrow> msg_id (f x) = msg_id x"
    and "\<And>x. x \<in> set box \<Longrightarrow> 0 \<le> msg_attempts (f x) \<and> msg_attempts (f x) \<le> msg_max (f x)"
  shows "box_ok n (map f box)"
proof -
  have "map msg_id (map f box) = map msg_id box" using assms(2) by simp
  with assms(1) have "distinct (map msg_id (map f box))" by (simp only: box_ok_def)
  then show ?thesis using assms by (simp add: box_ok_def del: map_map)
qed

lemma claim_message_props [simp]:
  "msg_id (claim_message now m) = msg_id m" "msg_tenant (claim_message now m) = msg_tenant m"
  "msg_attempts (claim_message now m) = msg_attempts m" "msg_max (claim_message now m) = msg_max m"
  "msg_status (claim_message now m) = Processing" "msg_last (claim_message now m) = Some now"
  by (simp_all add: claim_message_def)

lemma candidates_claimable:
  "m \<in> set (outbox_candidates now lease_ms busy limit tenant box) \<Longrightarrow> m \<in> set box \<and> claimable now lease_ms busy tenant m"
  by (auto simp: outbox_candidates_def dest: in_set_takeD)

lemma claim_effect:
  assumes "claim_outbox_rows now lease_ms busy limit tenant box = (ms, box')"
  shows "\<exists>g. box' = map g box \<and> (\<forall>x. msg_id (g x) = msg_id x \<and> msg_attempts (g x) = msg_attempts x)"
  using assms by (intro exI [of _ "\<lambda>m. if msg_id m \<in> msg_id ` set (outbox_candidates now lease_ms busy limit tenant box)
    then claim_message now m else m"]) (simp add: claim_outbox_rows_def Let_def)

lemma candidates_distinct:
  assumes "distinct (map msg_id box)"
  shows "distinct (map msg_id (outbox_candidates now lease_ms busy limit tenant box))"
proof -
  let ?xs = "filter (claimable now lease_ms busy tenant) box"
  have "distinct (map msg_id ?xs)" using assms by (simp add: distinct_map_filter)
  then have "card (set (map msg_id (sort_by outbox_order ?xs))) = length (map msg_id (sort_by outbox_order ?xs))"
    using distinct_card [of "map msg_id ?xs"] by simp
  then have "distinct (map msg_id (sort_by outbox_order ?xs))" by (rule card_distinct)
  then show ?thesis by (simp add: outbox_candidates_def take_map [symmetric] distinct_take)
qed

text \<open>Nothing held within its lease is claimable.\<close>

lemma held_not_claimable:
  assumes "box_ok n box" "holds lease_ms now box h" "c \<in> set box" "msg_id c = held_message h"
  shows "\<not> claimable now lease_ms busy tenant c"
proof -
  obtain d t m where h: "h = (d, t, m)" by (cases h)
  from assms(2) obtain x where x: "x \<in> set box" "msg_id x = msg_id m" "msg_status x = Processing" "msg_last x = Some t"
    and now: "now \<le> t + lease_ms" by (auto simp: holds_def h)
  have "c = x" using same_message [OF assms(1,3) x(1)] assms(4) x(2) by (simp add: h)
  with x(3,4) now show ?thesis by (auto simp: claimable_def PENDING_STATUSES_def)
qed

lemma claim_ok:
  assumes lease: "0 \<le> lease_ms" and ok: "out_ok lease_ms s"
    and claim: "claim_outbox_rows (out_now s) lease_ms busy limit tenant (out_box s) = (ms, box)"
  shows "out_ok lease_ms (s\<lparr>out_box := box, out_held := out_held s @ map (\<lambda>m. (d, out_now s, m)) ms\<rparr>)"
proof -
  let ?cs = "outbox_candidates (out_now s) lease_ms busy limit tenant (out_box s)"
  let ?f = "\<lambda>m. if msg_id m \<in> msg_id ` set ?cs then claim_message (out_now s) m else m"
  have box: "box = map ?f (out_box s)" and ms: "ms = map (claim_message (out_now s)) ?cs"
    using claim by (simp_all add: claim_outbox_rows_def Let_def)
  have b: "box_ok (out_next_id s) (out_box s)" using ok by (simp add: out_ok_def)
  have box_ok: "box_ok (out_next_id s) box"
    unfolding box using b by (intro box_ok_map) (auto simp: box_ok_def)
  have cs: "c \<in> set (out_box s) \<and> claimable (out_now s) lease_ms busy tenant c" if "c \<in> set ?cs" for c
    using that by (rule candidates_claimable)
  have free: "msg_id c \<noteq> held_message h" if "c \<in> set ?cs" "h \<in> set (out_held s)" for c h
  proof
    assume eq: "msg_id c = held_message h"
    have "holds lease_ms (out_now s) (out_box s) h" using ok that(2) by (simp add: out_ok_def)
    from held_not_claimable [OF b this _ eq] cs [OF that(1)] show False by blast
  qed
  have new: "holds lease_ms (out_now s) box (d, out_now s, claim_message (out_now s) c)"
    if "c \<in> set ?cs" "0 \<le> lease_ms" for c
  proof -
    have "claim_message (out_now s) c \<in> set box" using cs [OF that(1)] that(1) by (force simp: box)
    moreover have "msg_attempts c < msg_max c" using cs [OF that(1)] by (simp add: claimable_def)
    ultimately show ?thesis using that(2) by (auto simp: holds_def intro!: bexI [of _ "claim_message (out_now s) c"])
  qed
  have old: "holds lease_ms (out_now s) box h" if "h \<in> set (out_held s)" for h
  proof -
    have "held_message h \<notin> msg_id ` set ?cs" using free [OF _ that] by (metis imageE)
    then show ?thesis unfolding box using ok that by (intro holds_map) (auto simp: out_ok_def)
  qed
  have "distinct (map msg_id ?cs)" using b by (intro candidates_distinct) (simp add: box_ok_def)
  moreover have "set (map held_message (out_held s)) \<inter> set (map msg_id ?cs) = {}" using free by fastforce
  moreover have "map held_message (out_held s @ map (\<lambda>m. (d, out_now s, m)) ms) = map held_message (out_held s) @ map msg_id ?cs"
    by (simp add: ms)
  ultimately have "distinct (map held_message (out_held s @ map (\<lambda>m. (d, out_now s, m)) ms))"
    using ok by (simp only: distinct_append out_ok_def)
  moreover have "holds lease_ms (out_now s) box h" if "h \<in> set (out_held s @ map (\<lambda>m. (d, out_now s, m)) ms)" for h
  proof (cases "h \<in> set (out_held s)")
    case True
    then show ?thesis by (rule old)
  next
    case False
    with that obtain c where "c \<in> set ?cs" "h = (d, out_now s, claim_message (out_now s) c)" by (auto simp: ms)
    then show ?thesis using new lease by simp
  qed
  ultimately show ?thesis using box_ok by (simp add: out_ok_def)
qed

lemma dispatch_cases:
  assumes "dispatch_outbox_row now config ch m box = Some (ok, box')"
  obtains "box' = update_message m (mark_sent now m) box" "ok"
  | ms e where "box' = update_message m (mark_failed now ms e m) box" "\<not> ok"
  using assms by (auto simp: dispatch_outbox_row_def Let_def split: sum.splits)

lemma mark_props [simp]:
  "msg_id (mark_sent now m x) = msg_id x" "msg_id (mark_failed now ms e m x) = msg_id x"
  "msg_max (mark_sent now m x) = msg_max x" "msg_max (mark_failed now ms e m x) = msg_max x"
  "msg_attempts (mark_sent now m x) = msg_attempts m + 1" "msg_attempts (mark_failed now ms e m x) = msg_attempts m + 1"
  "msg_status (mark_sent now m x) = Sent"
  "msg_status (mark_failed now ms e m x) = (if msg_max m \<le> msg_attempts m + 1 then Failed else Retry)"
  by (simp_all add: mark_sent_def mark_failed_def)

text \<open>A delivery changes the row of its message only, and counts one attempt.\<close>

lemma dispatch_effect:
  assumes "dispatch_outbox_row now config ch m box = Some (ok, box')"
  shows "\<exists>f. box' = update_message m f box
    \<and> (\<forall>x. msg_id (f x) = msg_id x \<and> msg_max (f x) = msg_max x \<and> msg_attempts (f x) = msg_attempts m + 1)"
  using assms
proof (cases rule: dispatch_cases)
  case 1
  then show ?thesis by (intro exI [of _ "mark_sent now m"]) simp
next
  case (2 ms e)
  then show ?thesis by (intro exI [of _ "mark_failed now ms e m"]) simp
qed

lemma dispatch_ok:
  assumes ok: "out_ok lease_ms s" and held: "(d, t, m) \<in> set (out_held s)"
    and dispatch: "dispatch_outbox_row (out_now s) config ch m (out_box s) = Some (sent, box)"
  shows "out_ok lease_ms (s\<lparr>out_box := box, out_held := filter (\<lambda>h. h \<noteq> (d, t, m)) (out_held s)\<rparr>)"
proof -
  from dispatch_effect [OF dispatch] obtain f where box: "box = update_message m f (out_box s)"
    and f: "\<And>x. msg_id (f x) = msg_id x \<and> msg_max (f x) = msg_max x \<and> msg_attempts (f x) = msg_attempts m + 1" by blast
  have b: "box_ok (out_next_id s) (out_box s)" using ok by (simp add: out_ok_def)
  have "holds lease_ms (out_now s) (out_box s) (d, t, m)" using ok held by (auto simp: out_ok_def)
  then obtain x where x: "x \<in> set (out_box s)" "msg_id x = msg_id m" "msg_attempts x = msg_attempts m" "msg_attempts x < msg_max x"
    by (auto simp: holds_def)
  have "box_ok (out_next_id s) box"
    unfolding box update_message_def
  proof (rule box_ok_map [OF b])
    fix y assume y: "y \<in> set (out_box s)"
    show "msg_id (if msg_id y = msg_id m \<and> msg_tenant y = msg_tenant m then f y else y) = msg_id y" using f by simp
    have "y = x" if "msg_id y = msg_id m" using same_message [OF b y x(1)] x(2) that by simp
    with y f b x(3,4) show "0 \<le> msg_attempts (if msg_id y = msg_id m \<and> msg_tenant y = msg_tenant m then f y else y)
      \<and> msg_attempts (if msg_id y = msg_id m \<and> msg_tenant y = msg_tenant m then f y else y)
        \<le> msg_max (if msg_id y = msg_id m \<and> msg_tenant y = msg_tenant m then f y else y)"
      by (auto simp: box_ok_def)
  qed
  moreover have "holds lease_ms (out_now s) box h" if h: "h \<in> set (out_held s)" "h \<noteq> (d, t, m)" for h
  proof -
    have "inj_on held_message (set (out_held s))" using ok by (simp add: out_ok_def distinct_map)
    from inj_onD [OF this _ h(1) held] h(2) have "held_message h \<noteq> msg_id m" by auto
    then show ?thesis unfolding box update_message_def using ok h(1) by (intro holds_map) (auto simp: out_ok_def)
  qed
  ultimately show ?thesis using ok by (simp add: out_ok_def distinct_map_filter)
qed

lemma write_ok:
  assumes "out_ok lease_ms s"
  shows "out_ok lease_ms (s\<lparr>out_next_id := Suc (out_next_id s),
    out_box := write_message (out_now s) (out_next_id s) tenant source topic payload (out_box s)\<rparr>)"
proof -
  have "set (out_box s) \<subseteq> set (write_message (out_now s) (out_next_id s) tenant source topic payload (out_box s))"
    by (auto simp: write_message_def)
  then have "holds lease_ms (out_now s) (write_message (out_now s) (out_next_id s) tenant source topic payload (out_box s)) h"
    if "h \<in> set (out_held s)" for h
    using assms that by (auto simp: out_ok_def intro: holds_mono)
  moreover have "box_ok (Suc n) (write_message now n tenant source topic payload box)" if "box_ok n box" for n now box
    using that by (force simp: box_ok_def write_message_def)
  ultimately show ?thesis using assms by (simp add: out_ok_def)
qed

lemma outbox_step_ok:
  "outbox_step lease_ms config s ids s' \<Longrightarrow> 0 \<le> lease_ms \<and> out_ok lease_ms s \<Longrightarrow> 0 \<le> lease_ms \<and> out_ok lease_ms s'"
proof (induction rule: outbox_step.induct)
  case (out_crash s d)
  then show ?case by (auto simp: out_ok_def distinct_map_filter)
next
  case (out_pass s now)
  have "holds lease_ms now (out_box s) h" if "h \<in> set (out_held s)" for h
  proof (rule holds_later)
    show "holds lease_ms (out_now s) (out_box s) h" using out_pass.prems that by (simp add: out_ok_def)
    show "now \<le> fst (snd h) + lease_ms" using out_pass.hyps(2) that by auto
  qed
  with out_pass show ?case by (simp add: out_ok_def)
qed (auto intro: write_ok claim_ok dispatch_ok)

interpretation outbox: step_invariant "outbox_step lease_ms config" "\<lambda>s. 0 \<le> lease_ms \<and> out_ok lease_ms s" for lease_ms config
  by unfold_locales (rule outbox_step_ok)

subsection \<open>Histories\<close>

definition delivered :: "nat list \<Rightarrow> outbox_system \<Rightarrow> bool" where
  "delivered ids s =
     ((\<forall>x \<in> set (out_box s). int (count_list ids (msg_id x)) = msg_attempts x) \<and> set ids \<subseteq> msg_id ` set (out_box s))"

lemma held_row:
  assumes "out_ok lease_ms s" "(d, t, m) \<in> set (out_held s)"
  shows "\<exists>x \<in> set (out_box s). msg_id x = msg_id m \<and> msg_tenant x = msg_tenant m \<and> msg_status x = Processing
    \<and> msg_attempts x = msg_attempts m \<and> msg_max x = msg_max m \<and> msg_attempts x < msg_max x"
proof -
  have "holds lease_ms (out_now s) (out_box s) (d, t, m)" using assms by (auto simp: out_ok_def)
  then show ?thesis unfolding holds_def by auto
qed

lemma out_box_ok: "out_ok lease_ms s \<Longrightarrow> box_ok (out_next_id s) (out_box s)"
  by (simp add: out_ok_def)

lemma step_delivered:
  "outbox_step lease_ms config s new s' \<Longrightarrow> out_ok lease_ms s \<Longrightarrow> delivered ids s \<Longrightarrow> delivered (ids @ new) s'"
proof (induction rule: outbox_step.induct)
  case (out_write s tenant source topic payload)
  have "count_list ids (out_next_id s) = 0"
  proof (rule count_notin, rule notI)
    assume "out_next_id s \<in> set ids"
    with out_write show False by (force simp: delivered_def out_ok_def box_ok_def)
  qed
  with out_write.prems(2) show ?case by (auto simp: delivered_def write_message_def)
next
  case (out_claim s busy limit tenant ms box d)
  from claim_effect [OF out_claim.hyps] obtain g where "box = map g (out_box s)"
    "\<And>x. msg_id (g x) = msg_id x \<and> msg_attempts (g x) = msg_attempts x" by blast
  with out_claim.prems(2) show ?case by (simp add: delivered_def image_image)
next
  case (out_dispatch d t m s ch sent box)
  from dispatch_effect [OF out_dispatch.hyps(2)] obtain f where box: "box = update_message m f (out_box s)"
    and f: "\<And>x. msg_id (f x) = msg_id x \<and> msg_attempts (f x) = msg_attempts m + 1" by blast
  from held_row [OF out_dispatch.prems(1) out_dispatch.hyps(1)] obtain x
    where x: "x \<in> set (out_box s)" "msg_id x = msg_id m" "msg_tenant x = msg_tenant m" "msg_attempts x = msg_attempts m" by blast
  have same: "y = x" if "y \<in> set (out_box s)" "msg_id y = msg_id m" for y
    using same_message [OF out_box_ok [OF out_dispatch.prems(1)] that(1) x(1)] that(2) x(2) by simp
  have "msg_id ` set box = msg_id ` set (out_box s)"
    unfolding box update_message_def set_map image_image using f by (intro image_cong) auto
  moreover have "int (count_list (ids @ [msg_id m]) (msg_id y)) = msg_attempts y" if "y \<in> set box" for y
  proof -
    from that obtain z where z: "z \<in> set (out_box s)" "y = (if msg_id z = msg_id m \<and> msg_tenant z = msg_tenant m then f z else z)"
      by (auto simp: box update_message_def)
    have "int (count_list ids (msg_id z)) = msg_attempts z" using out_dispatch.prems(2) z(1) by (simp add: delivered_def)
    then show ?thesis using same [OF z(1)] f x(2-4) by (cases "msg_id z = msg_id m") (simp_all add: z(2))
  qed
  moreover have "msg_id m \<in> msg_id ` set (out_box s)" using imageI [OF x(1), of msg_id] x(2) by simp
  ultimately show ?case using out_dispatch.prems(2) by (auto simp: delivered_def)
qed (simp_all add: delivered_def)

definition fresh_outbox :: "outbox_system \<Rightarrow> bool" where
  "fresh_outbox s = (out_box s = [] \<and> out_held s = [])"

lemma fresh_outbox_ok: "fresh_outbox s \<Longrightarrow> out_ok lease_ms s"
  by (simp add: fresh_outbox_def out_ok_def box_ok_def)

lemma trace_ok: "trace (outbox_step lease_ms config) s ids s' \<Longrightarrow> fresh_outbox s \<Longrightarrow> 0 \<le> lease_ms \<Longrightarrow> out_ok lease_ms s'"
  using outbox.inv_trace fresh_outbox_ok by blast

lemma trace_delivered:
  "trace (outbox_step lease_ms config) s ids s' \<Longrightarrow> fresh_outbox s \<Longrightarrow> 0 \<le> lease_ms \<Longrightarrow> delivered ids s'"
proof (induction rule: trace.induct)
  case (trace_start s)
  then show ?case by (simp add: delivered_def fresh_outbox_def)
next
  case (trace_more s ids s' new s'')
  then show ?case using step_delivered [OF trace_more.hyps(2)] trace_ok by blast
qed

text \<open>A message that is sent or has failed for good.\<close>

definition settled_message :: "message \<Rightarrow> outbox_system \<Rightarrow> bool" where
  "settled_message x s = (x \<in> set (out_box s) \<and> (msg_status x = Sent \<or> msg_status x = Failed))"

lemma step_settled:
  "outbox_step lease_ms config s ids s' \<Longrightarrow> out_ok lease_ms s \<Longrightarrow> settled_message x s \<Longrightarrow>
    settled_message x s' \<and> list_all (\<lambda>i. i \<noteq> msg_id x) ids"
proof (induction rule: outbox_step.induct)
  case (out_write s tenant source topic payload)
  then show ?case by (auto simp: settled_message_def write_message_def)
next
  case (out_claim s busy limit tenant ms box d)
  let ?cs = "outbox_candidates (out_now s) lease_ms busy limit tenant (out_box s)"
  have "msg_id x \<notin> msg_id ` set ?cs"
  proof
    assume "msg_id x \<in> msg_id ` set ?cs"
    then obtain c where "c \<in> set ?cs" "msg_id c = msg_id x" by auto
    with candidates_claimable have c: "c \<in> set (out_box s)" "claimable (out_now s) lease_ms busy tenant c" "msg_id c = msg_id x"
      by auto
    with same_message [OF out_box_ok [OF out_claim.prems(1)]] out_claim.prems(2) have "c = x"
      by (simp add: settled_message_def)
    with c(2) out_claim.prems(2) show False by (auto simp: settled_message_def claimable_def PENDING_STATUSES_def)
  qed
  moreover have "box = map (\<lambda>m. if msg_id m \<in> msg_id ` set ?cs then claim_message (out_now s) m else m) (out_box s)"
    using out_claim.hyps by (simp add: claim_outbox_rows_def Let_def)
  ultimately show ?case using out_claim.prems(2) by (force simp: settled_message_def)
next
  case (out_dispatch d t m s ch sent box)
  from held_row [OF out_dispatch.prems(1) out_dispatch.hyps(1)] obtain y
    where y: "y \<in> set (out_box s)" "msg_id y = msg_id m" "msg_status y = Processing" by blast
  have "msg_id x \<noteq> msg_id m"
  proof
    assume "msg_id x = msg_id m"
    with same_message [OF out_box_ok [OF out_dispatch.prems(1)] _ y(1)] y(2) out_dispatch.prems(2) have "x = y"
      by (simp add: settled_message_def)
    with y(3) out_dispatch.prems(2) show False by (simp add: settled_message_def)
  qed
  moreover obtain f where "box = update_message m f (out_box s)" using dispatch_effect [OF out_dispatch.hyps(2)] by blast
  ultimately show ?case using out_dispatch.prems(2) by (force simp: settled_message_def update_message_def)
qed (simp_all add: settled_message_def)

interpretation settled: step_property "outbox_step lease_ms config" "\<lambda>s. 0 \<le> lease_ms \<and> out_ok lease_ms s" "settled_message x"
    "\<lambda>i. i \<noteq> msg_id x" for lease_ms config x
  by unfold_locales (use step_settled in blast)

subsection \<open>Properties\<close>

text \<open>C7: as long as no batch outlives its lease, every message is delivered by one dispatcher at a time,
  whatever dispatchers crash: what is held is a distinct row in processing, with the attempts it was
  claimed with.\<close>

theorem one_dispatcher_per_message:
  assumes "fresh_outbox s" "0 \<le> lease_ms" "trace (outbox_step lease_ms config) s ids s'"
  shows "distinct (map msg_id (out_box s')) \<and> distinct (map (\<lambda>h. msg_id (snd (snd h))) (out_held s'))
    \<and> (\<forall>(d, t, m) \<in> set (out_held s'). \<exists>x \<in> set (out_box s'). msg_id x = msg_id m \<and> msg_status x = Processing
         \<and> msg_attempts x = msg_attempts m \<and> msg_attempts x < msg_max x)"
proof -
  have ok: "out_ok lease_ms s'" by (rule trace_ok [OF assms(3,1,2)])
  have "\<exists>x \<in> set (out_box s'). msg_id x = msg_id m \<and> msg_status x = Processing \<and> msg_attempts x = msg_attempts m
      \<and> msg_attempts x < msg_max x" if "(d, t, m) \<in> set (out_held s')" for d t m
    using held_row [OF ok that] by blast
  moreover have "distinct (map msg_id (out_box s'))" "distinct (map held_message (out_held s'))"
    using ok by (simp_all add: out_ok_def box_ok_def)
  ultimately show ?thesis by blast
qed

text \<open>as long as no batch outlives its lease, the deliveries finished for a message, sent or failed, are as
  many as its attempts and never more than its limit.\<close>

theorem deliveries_bounded:
  assumes "fresh_outbox s" "0 \<le> lease_ms" "trace (outbox_step lease_ms config) s ids s'" "x \<in> set (out_box s')"
  shows "int (count_list ids (msg_id x)) = msg_attempts x \<and> int (count_list ids (msg_id x)) \<le> msg_max x"
  using trace_delivered [OF assms(3,1,2)] out_box_ok [OF trace_ok [OF assms(3,1,2)]] assms(4)
  by (simp add: delivered_def box_ok_def)

text \<open>as long as no batch outlives its lease, a message that was sent, or failed for good, stays as it is
  and is never delivered again.\<close>

theorem settled_messages_stay:
  assumes "fresh_outbox s" "0 \<le> lease_ms" "trace (outbox_step lease_ms config) s ids s'"
    and "x \<in> set (out_box s')" "msg_status x = Sent \<or> msg_status x = Failed" "trace (outbox_step lease_ms config) s' later s''"
  shows "x \<in> set (out_box s'') \<and> msg_id x \<notin> set later"
proof -
  have "settled_message x s'" using assms(4,5) by (simp add: settled_message_def)
  with settled.kept_trace [OF assms(6)] trace_ok [OF assms(3,1,2)] assms(2) show ?thesis
    by (auto simp: settled_message_def list_all_iff)
qed

text \<open>C29: a message whose dispatcher died is taken over: once the lease has passed, a claim with room for all
  that is claimable hands it out again, and it did not lose an attempt.\<close>

theorem abandoned_message_is_reclaimed:
  assumes "x \<in> set box" "msg_status x = Processing" "msg_last x = Some t" "t + lease_ms < now" "msg_attempts x < msg_max x"
    and "msg_id x \<notin> busy" "length (filter (claimable now lease_ms busy None) box) \<le> limit"
    and "claim_outbox_rows now lease_ms busy limit None box = (ms, box')"
  shows "\<exists>m \<in> set ms. msg_id m = msg_id x \<and> msg_attempts m = msg_attempts x \<and> msg_last m = Some now \<and> m \<in> set box'"
proof -
  have "claimable now lease_ms busy None x" using assms(2-6) by (simp add: claimable_def)
  with assms(1,7) have c: "x \<in> set (outbox_candidates now lease_ms busy limit None box)" by (simp add: outbox_candidates_def)
  with assms(8) have "claim_message now x \<in> set ms" by (auto simp: claim_outbox_rows_def Let_def)
  moreover have "claim_message now x \<in> set box'" using assms(1,8) c by (force simp: claim_outbox_rows_def Let_def)
  ultimately show ?thesis by (intro bexI [of _ "claim_message now x"]) simp_all
qed

text \<open>the update after a delivery looks at nothing but the id: when a batch does outlive its lease, the
  late failure of the first dispatcher puts a message back in the queue that the second one has sent.\<close>

theorem late_failure_reopens_sent_message:
  assumes "x \<in> set box" "msg_status x = Sent" "msg_id x = msg_id m" "msg_tenant x = msg_tenant m"
    and "msg_attempts m + 1 < msg_max m" "push_message ch m (msg_attempts m + 1) = Inl e"
    and "interval_ms (calculate_backoff_seconds (msg_attempts m + 1) (base_backoff_seconds config) (max_backoff_seconds config)) = Some ms"
  shows "\<exists>box'. dispatch_outbox_row now config ch m box = Some (False, box')
    \<and> (\<exists>y \<in> set box'. msg_id y = msg_id x \<and> msg_status y = Retry \<and> msg_sent y = msg_sent x
         \<and> (msg_attempts m + 1 < msg_max x \<longrightarrow> claimable (now + ms) lease_ms {} None y))"
proof -
  have "mark_failed now ms e m x \<in> set (update_message m (mark_failed now ms e m) box)"
    using assms(1,3,4) by (force simp: update_message_def)
  then show ?thesis using assms(2,5-7)
    by (auto simp: dispatch_outbox_row_def Let_def claimable_def PENDING_STATUSES_def mark_failed_def
        intro!: bexI [of _ "mark_failed now ms e m x"])
qed

subsection \<open>A small history\<close>

definition example_message :: message where
  "example_message = \<lparr>msg_id = 0, msg_tenant = ''t'', msg_source = ''e'', msg_topic = ''policy.issued'', msg_payload = JNull,
     msg_status = Pending, msg_attempts = 0, msg_max = 8, msg_next = 5, msg_last = None, msg_sent = None,
     msg_error = None, msg_created = 5, msg_updated = 5\<rparr>"

definition example_outbox :: outbox_system where
  "example_outbox = \<lparr>out_now = 5, out_next_id = 0, out_box = [], out_held = []\<rparr>"

definition example_config :: push_config where
  "example_config = load_config (\<lambda>_. None)"

definition example_channels :: "(string, unit) outcome \<Rightarrow> channels" where
  "example_channels r = \<lparr>send_release_email = (\<lambda>_ _ _ _. r), publish = (\<lambda>_. r)\<rparr>"

definition example_taken :: outbox_system where
  "example_taken = \<lparr>out_now = 5, out_next_id = 1, out_box = [claim_message 5 example_message],
     out_held = [(''d'', 5, claim_message 5 example_message)]\<rparr>"

definition example_sent :: outbox_system where
  "example_sent = \<lparr>out_now = 5, out_next_id = 1,
     out_box = [mark_sent 5 (claim_message 5 example_message) (claim_message 5 example_message)], out_held = []\<rparr>"

lemma example_fresh_outbox: "fresh_outbox example_outbox"
  by (simp add: fresh_outbox_def example_outbox_def)

lemma example_taken_trace: "trace (outbox_step 300000 example_config) example_outbox [] example_taken"
proof (rule trace_silent)
  let ?s = "\<lparr>out_now = 5, out_next_id = 1, out_box = [example_message], out_held = []\<rparr>"
  show "trace (outbox_step 300000 example_config) example_outbox [] ?s"
    using out_write [of 300000 example_config example_outbox "''t''" "''e''" "''policy.issued''" JNull]
    by (intro trace_single) (simp add: example_outbox_def write_message_def example_message_def)
  have "claim_outbox_rows 5 300000 {} 25 None [example_message] = ([claim_message 5 example_message], [claim_message 5 example_message])"
    by (simp add: claim_outbox_rows_def outbox_candidates_def claimable_def PENDING_STATUSES_def example_message_def sort_by_def Let_def)
  then show "trace (outbox_step 300000 example_config) ?s [] example_taken"
    using out_claim [of ?s 300000 "{}" 25 None _ _ example_config "''d''"]
    by (intro trace_single) (simp add: example_taken_def)
qed

lemma example_sent_trace: "trace (outbox_step 300000 example_config) example_outbox [0] example_sent"
proof -
  let ?m = "claim_message 5 example_message"
  have "dispatch_outbox_row 5 example_config (example_channels (Inr ())) ?m [?m] = Some (True, [mark_sent 5 ?m ?m])"
    by (simp add: dispatch_outbox_row_def push_message_def example_channels_def update_message_def Let_def)
  then have "outbox_step 300000 example_config example_taken [msg_id ?m] example_sent"
    using out_dispatch [of "''d''" 5 ?m example_taken example_config "example_channels (Inr ())" True "[mark_sent 5 ?m ?m]" 300000]
    by (simp add: example_taken_def example_sent_def)
  moreover have "msg_id ?m = 0" by (simp add: example_message_def)
  ultimately show ?thesis using trace_append [OF example_taken_trace] trace_single by fastforce
qed

theorem one_dispatcher_per_message_witness:
  "trace (outbox_step 300000 example_config) example_outbox [] example_taken
    \<and> distinct (map (\<lambda>h. msg_id (snd (snd h))) (out_held example_taken)) \<and> out_held example_taken \<noteq> []"
  using one_dispatcher_per_message [OF example_fresh_outbox _ example_taken_trace] example_taken_trace
  by (simp add: example_taken_def)

theorem deliveries_bounded_witness:
  "list_all (\<lambda>x. int (count_list [0] (msg_id x)) = msg_attempts x) (out_box example_sent)"
  using deliveries_bounded [OF example_fresh_outbox _ example_sent_trace] by (simp add: list_all_iff)

theorem settled_messages_stay_witness:
  "\<exists>x \<in> set (out_box (example_sent\<lparr>out_now := 10 ^ 9\<rparr>)). msg_status x = Sent"
proof -
  let ?x = "mark_sent 5 (claim_message 5 example_message) (claim_message 5 example_message)"
  have x: "?x \<in> set (out_box example_sent)" "msg_status ?x = Sent \<or> msg_status ?x = Failed" by (simp_all add: example_sent_def)
  have "trace (outbox_step 300000 example_config) example_sent [] (example_sent\<lparr>out_now := 10 ^ 9\<rparr>)"
    by (intro trace_single out_pass) (simp_all add: example_sent_def)
  from settled_messages_stay [OF example_fresh_outbox _ example_sent_trace x this] show ?thesis
    by (intro bexI [of _ ?x]) simp_all
qed

theorem abandoned_message_is_reclaimed_witness:
  "\<exists>m \<in> set (fst (claim_outbox_rows 300006 300000 {} 25 None [claim_message 5 example_message])). msg_id m = 0"
proof -
  let ?x = "claim_message 5 example_message"
  obtain ms box' where c: "claim_outbox_rows 300006 300000 {} 25 None [?x] = (ms, box')"
    by (cases "claim_outbox_rows 300006 300000 {} 25 None [?x]")
  have "\<exists>m \<in> set ms. msg_id m = msg_id ?x \<and> msg_attempts m = msg_attempts ?x \<and> msg_last m = Some 300006 \<and> m \<in> set box'"
    by (rule abandoned_message_is_reclaimed [OF _ _ _ _ _ _ _ c, where t = 5]) (simp_all add: example_message_def)
  moreover have "msg_id ?x = 0" by (simp add: example_message_def)
  ultimately show ?thesis unfolding c fst_conv by metis
qed

theorem late_failure_reopens_sent_message_witness:
  "\<exists>box'. dispatch_outbox_row 300010 example_config (example_channels (Inl ''timeout'')) (claim_message 5 example_message) (out_box example_sent)
      = Some (False, box') \<and> (\<exists>y \<in> set box'. msg_status y = Retry \<and> msg_sent y = Some 5)"
proof -
  let ?m = "claim_message 5 example_message" and ?x = "mark_sent 5 (claim_message 5 example_message) (claim_message 5 example_message)"
  have p: "push_message (example_channels (Inl ''timeout'')) ?m (msg_attempts ?m + 1) = Inl ''timeout''"
    by (simp add: push_message_def example_channels_def)
  have b: "base_backoff_seconds example_config = Fin 10" "max_backoff_seconds example_config = Fin 600"
    by (simp_all add: example_config_def load_config_def parse_positive_int_def)
  have "interval_ms (calculate_backoff_seconds 1 (Fin 10) (Fin 600)) = Some 10000"
    using interval_backoff [of 10 600 1] by simp
  then have i: "interval_ms (calculate_backoff_seconds (msg_attempts ?m + 1) (base_backoff_seconds example_config)
      (max_backoff_seconds example_config)) = Some 10000" by (simp add: b example_message_def)
  have "?x \<in> set (out_box example_sent)" "msg_status ?x = Sent" "msg_id ?x = msg_id ?m" "msg_tenant ?x = msg_tenant ?m"
    "msg_attempts ?m + 1 < msg_max ?m" "msg_sent ?x = Some 5"
    by (simp_all add: example_sent_def example_message_def mark_sent_def claim_message_def)
  with late_failure_reopens_sent_message [OF this(1-5) p i, of 300010] show ?thesis by metis
qed

end
