(* ===== verification/JsonText.thy ===== *)
theory JsonText
  imports JsValue
begin

text \<open>
  \<open>JSON.stringify\<close>. The characters of the model are one byte and never surrogates.
\<close>

definition hex_digit :: "nat \<Rightarrow> char" where
  "hex_digit n = ''0123456789abcdef'' ! n"

text \<open>\<open>JSON.stringify\<close> of a string: the characters of the model are one byte and never surrogates.\<close>

definition json_escape :: "char \<Rightarrow> string" where
  "json_escape c =
     (let n = ccode c in
      if n = 34 then [CHR 92, CHR 34] else if n = 92 then [CHR 92, CHR 92]
      else if n = 8 then [CHR 92, CHR ''b''] else if n = 9 then [CHR 92, CHR ''t''] else if n = 10 then [CHR 92, CHR ''n'']
      else if n = 12 then [CHR 92, CHR ''f''] else if n = 13 then [CHR 92, CHR ''r'']
      else if n < 32 then CHR 92 # ''u00'' @ [hex_digit (n div 16), hex_digit (n mod 16)] else [c])"

definition json_quote :: "string \<Rightarrow> string" where
  "json_quote s = CHR 34 # concat (map json_escape s) @ [CHR 34]"

text \<open>\<open>JSON.stringify\<close>; \<open>undefined\<close> has no text.\<close>

function json_text :: "jsval \<Rightarrow> string option" where
  "json_text JUndef = None"
| "json_text JNull = Some ''null''"
| "json_text (JBool b) = Some (if b then ''true'' else ''false'')"
| "json_text (JNum n) = Some (if is_finite n then num_str n else ''null'')"
| "json_text (JStr s) = Some (json_quote s)"
| "json_text (JArr vs) = Some (''['' @ join '','' (map (\<lambda>v. case json_text v of None \<Rightarrow> ''null'' | Some t \<Rightarrow> t) vs) @ '']'')"
| "json_text (JObj kvs) = Some (''{'' @ join '','' (concat (map (\<lambda>(k, v). case json_text v of
       None \<Rightarrow> [] | Some t \<Rightarrow> [json_quote k @ '':'' @ t]) (own_entries kvs))) @ ''}'')"
  by pat_completeness auto
termination
  by (relation "measure size") (auto intro: size_own_entries simp: less_Suc_eq_le size_list_estimation')

end
