(* ===== verification/Idempotency.thy ===== *)
theory Idempotency
  imports JsonText Traces
begin

text \<open>
  Idempotent requests, \<open>server/src/lib/idempotency.ts\<close>: the hash of a request, the reservation of an
  idempotency key and its end, in the two stores of the source (a map in memory and the table
  \<open>idempotency_keys\<close>), and the middleware around them. The digest and \<open>localeCompare\<close> are arguments.
\<close>

datatype idem_status = Processing | Completed | Failed

record idem_record =
  rec_hash :: string
  rec_status :: idem_status
  rec_code :: "int option"
  rec_body :: jsval

datatype reservation = Owned | Conflict | InProgress | Replay idem_record

subsection \<open>The hash of a request\<close>

text \<open>Where the text of a property that is \<open>undefined\<close> reads \<open>undefined\<close>, and a list leaves the place empty.\<close>

function stable_stringify :: "(string \<Rightarrow> string \<Rightarrow> int) \<Rightarrow> jsval \<Rightarrow> string" where
  "stable_stringify cmp JUndef = ''undefined''"
| "stable_stringify cmp JNull = ''null''"
| "stable_stringify cmp (JBool b) = (if b then ''true'' else ''false'')"
| "stable_stringify cmp (JNum n) = (if is_finite n then num_str n else ''null'')"
| "stable_stringify cmp (JStr s) = json_quote s"
| "stable_stringify cmp (JArr vs) =
     ''['' @ join '','' (map (\<lambda>v. if v = JUndef then [] else stable_stringify cmp v) vs) @ '']''"
| "stable_stringify cmp (JObj kvs) =
     ''{'' @ join '','' (map (\<lambda>(k, v). json_quote k @ '':'' @ stable_stringify cmp v)
       (sort_by (\<lambda>a b. cmp (fst a) (fst b)) (own_entries kvs))) @ ''}''"
  by pat_completeness auto
termination
  by (relation "measure (\<lambda>(_, v). size v)")
    (auto intro: size_own_entries simp: less_Suc_eq_le size_list_estimation')

record request =
  req_method :: string
  req_url :: string
  req_path :: string
  req_body :: jsval
  req_key :: "string option" \<comment> \<open>the header \<open>Idempotency-Key\<close>\<close>
  req_tenant :: "string option"

definition request_hash :: "(string \<Rightarrow> string \<Rightarrow> int) \<Rightarrow> (string \<Rightarrow> string) \<Rightarrow> request \<Rightarrow> string" where
  "request_hash cmp digest r =
     digest (stable_stringify cmp (JObj [(''method'', JStr (req_method r)), (''path'', JStr (req_url r)),
       (''body'', js_nc (req_body r) JNull)]))"

subsection \<open>The store in memory\<close>

type_synonym memory_store = "(string \<times> idem_record) list"

definition memory_key :: "string \<Rightarrow> string \<Rightarrow> string" where
  "memory_key tenant key = tenant @ '':'' @ key"

definition fresh_record :: "string \<Rightarrow> idem_record" where
  "fresh_record hash = \<lparr>rec_hash = hash, rec_status = Processing, rec_code = None, rec_body = JNull\<rparr>"

definition reserve_memory :: "string \<Rightarrow> string \<Rightarrow> string \<Rightarrow> memory_store \<Rightarrow> reservation \<times> memory_store" where
  "reserve_memory tenant key hash st =
     (let map_key = memory_key tenant key
      in case aget st map_key of
           None \<Rightarrow> (Owned, aput st map_key (fresh_record hash))
         | Some existing \<Rightarrow>
             if rec_hash existing \<noteq> hash then (Conflict, st)
             else if rec_status existing = Completed then (Replay existing, st)
             else if rec_status existing = Processing then (InProgress, st)
             else (Owned, aput st map_key (existing\<lparr>rec_status := Processing, rec_code := None, rec_body := JNull\<rparr>)))"

definition finalize_memory ::
  "string \<Rightarrow> string \<Rightarrow> idem_status \<Rightarrow> int option \<Rightarrow> jsval \<Rightarrow> memory_store \<Rightarrow> memory_store" where
  "finalize_memory tenant key status code body st =
     (case aget st (memory_key tenant key) of
        None \<Rightarrow> st
      | Some r \<Rightarrow> aput st (memory_key tenant key) (r\<lparr>rec_status := status, rec_code := code, rec_body := body\<rparr>))"

subsection \<open>The store in the database\<close>

record idem_row =
  row_tenant :: string
  row_key :: string
  row_record :: idem_record

type_synonym idem_table = "idem_row list"

definition find_row :: "idem_table \<Rightarrow> string \<Rightarrow> string \<Rightarrow> idem_record option" where
  "find_row st tenant key = map_option row_record (find_first (\<lambda>r. row_tenant r = tenant \<and> row_key r = key) st)"

definition update_row :: "string \<Rightarrow> string \<Rightarrow> (idem_record \<Rightarrow> idem_record) \<Rightarrow> idem_table \<Rightarrow> idem_table" where
  "update_row tenant key f st =
     map (\<lambda>r. if row_tenant r = tenant \<and> row_key r = key then r\<lparr>row_record := f (row_record r)\<rparr> else r) st"

text \<open>\<open>Number(null)\<close> is 0.\<close>

definition replayed :: "idem_record \<Rightarrow> idem_record" where
  "replayed r = r\<lparr>rec_status := Completed, rec_code := Some (case rec_code r of None \<Rightarrow> 0 | Some c \<Rightarrow> c)\<rparr>"

definition reserve_db :: "string \<Rightarrow> string \<Rightarrow> string \<Rightarrow> idem_table \<Rightarrow> reservation \<times> idem_table" where
  "reserve_db tenant key hash st =
     (case find_row st tenant key of
        None \<Rightarrow> (Owned, st @ [\<lparr>row_tenant = tenant, row_key = key, row_record = fresh_record hash\<rparr>])
      | Some row \<Rightarrow>
          if rec_hash row \<noteq> hash then (Conflict, st)
          else if rec_status row = Completed then (Replay (replayed row), st)
          else if rec_status row = Processing then (InProgress, st)
          else (Owned, update_row tenant key (\<lambda>r. r\<lparr>rec_status := Processing, rec_code := None, rec_body := JNull\<rparr>) st))"

definition finalize_db ::
  "string \<Rightarrow> string \<Rightarrow> idem_status \<Rightarrow> int option \<Rightarrow> jsval \<Rightarrow> idem_table \<Rightarrow> idem_table" where
  "finalize_db tenant key status code body st =
     update_row tenant key (\<lambda>r. r\<lparr>rec_status := status, rec_code := code, rec_body := json_clone (js_nc body JNull)\<rparr>) st"

subsection \<open>The middleware\<close>

text \<open>
  What it does with a request: pass it on untracked, answer it (status code and body), or run the
  handler as the owner of the key. The answers carry the trace id.
\<close>

datatype decision = Untracked | Answer int jsval | Run string string string

definition error_body :: "string \<Rightarrow> string \<Rightarrow> string \<Rightarrow> jsval" where
  "error_body code text trace_id = JObj [(''code'', JStr code), (''message'', JStr text), (''traceId'', JStr trace_id)]"

definition conflict_body :: "string \<Rightarrow> jsval" where
  "conflict_body = error_body ''IDEMPOTENCY_KEY_CONFLICT'' ''Idempotency-Key was already used with a different request''"

definition processing_body :: "string \<Rightarrow> jsval" where
  "processing_body = error_body ''IDEMPOTENCY_KEY_PROCESSING''
     ''A request with this Idempotency-Key is still processing. Retry after it completes instead of sending a new request.''"

definition idempotency_middleware ::
  "(string \<Rightarrow> string \<Rightarrow> string \<Rightarrow> 'st \<Rightarrow> reservation \<times> 'st) \<Rightarrow> (request \<Rightarrow> string) \<Rightarrow> string \<Rightarrow> request \<Rightarrow> 'st
   \<Rightarrow> decision \<times> 'st" where
  "idempotency_middleware reserve hash_of trace_id r st =
     (let key = trim (case req_key r of None \<Rightarrow> [] | Some k \<Rightarrow> k);
          tenant = (case req_tenant r of None \<Rightarrow> [] | Some t \<Rightarrow> t)
      in if upper (req_method r) \<notin> set [''POST'', ''PUT'', ''PATCH'', ''DELETE''] then (Untracked, st)
         else if lower (req_path r) \<in> set [''/addresses/check'', ''/addresses/check/''] then (Untracked, st)
         else if key = [] \<or> tenant = [] then (Untracked, st)
         else (case reserve tenant key (hash_of r) st of
                 (Conflict, st') \<Rightarrow> (Answer 409 (conflict_body trace_id), st')
               | (Replay rec, st') \<Rightarrow> (Answer (case rec_code rec of None \<Rightarrow> 200 | Some c \<Rightarrow> c) (rec_body rec), st')
               | (InProgress, st') \<Rightarrow> (Answer 409 (processing_body trace_id), st')
               | (Owned, st') \<Rightarrow> (Run tenant key (hash_of r), st')))"

text \<open>
  The end of a handler that owns a key, as the middleware sees it: the first is a call of \<open>res.json\<close>
  (a code of 0 reads as 200); the second is a \<open>finish\<close> or a \<open>close\<close> of a response that was not sent
  by \<open>res.json\<close>, whatever its code, and a closed connection does not stop the handler.
\<close>

datatype ending = Responded int jsval | Closed int

definition finish_request ::
  "(string \<Rightarrow> string \<Rightarrow> idem_status \<Rightarrow> int option \<Rightarrow> jsval \<Rightarrow> 'st \<Rightarrow> 'st) \<Rightarrow> string \<Rightarrow> string \<Rightarrow> ending \<Rightarrow> 'st \<Rightarrow> 'st" where
  "finish_request finalize tenant key e st =
     (case e of
        Responded c body \<Rightarrow>
          (let code = (if c = 0 then 200 else c)
           in if 200 \<le> code \<and> code < 300 then finalize tenant key Completed (Some code) body st
              else finalize tenant key Failed (Some code) JNull st)
      | Closed c \<Rightarrow> finalize tenant key Failed (Some (if c = 0 then 500 else c)) JNull st)"

subsection \<open>The server: requests arrive, handlers answer, connections close, records are written, in any order\<close>

text \<open>
  The state is the store, the handlers that own a key and are not \<open>finalized\<close>, those that are finalized
  and still run (each may call \<open>res.json\<close> again), and the writes of the record under way:
  \<open>finalize\<close> is started by the answer or the close and its effect comes later, in any order. A
  handler may leave, and a write may fail, at any time.
\<close>

record handler =
  run_id :: nat
  run_tenant :: string
  run_key :: string
  run_hash :: string

record 'st idem_server =
  srv_store :: 'st
  srv_open :: "handler list"
  srv_ended :: "handler list"
  srv_writes :: "(handler \<times> ending) list"
  srv_next :: nat

datatype idem_event = Arrived request decision | Ended handler ending | Stored handler ending

fun started :: "nat \<Rightarrow> decision \<Rightarrow> handler list" where
  "started n (Run t k h) = [\<lparr>run_id = n, run_tenant = t, run_key = k, run_hash = h\<rparr>]"
| "started n _ = []"

definition end_handler :: "handler \<Rightarrow> ending \<Rightarrow> 'st idem_server \<Rightarrow> 'st idem_server" where
  "end_handler h e s = s\<lparr>srv_open := remove1 h (srv_open s), srv_ended := h # srv_ended s,
     srv_writes := (h, e) # srv_writes s\<rparr>"

inductive idem_step ::
  "(string \<Rightarrow> string \<Rightarrow> string \<Rightarrow> 'st \<Rightarrow> reservation \<times> 'st)
   \<Rightarrow> (string \<Rightarrow> string \<Rightarrow> idem_status \<Rightarrow> int option \<Rightarrow> jsval \<Rightarrow> 'st \<Rightarrow> 'st)
   \<Rightarrow> (request \<Rightarrow> string) \<Rightarrow> string \<Rightarrow> 'st idem_server \<Rightarrow> idem_event list \<Rightarrow> 'st idem_server \<Rightarrow> bool"
  for reserve finalize hash_of trace_id where
  idem_arrive: "idempotency_middleware reserve hash_of trace_id r (srv_store s) = (d, st') \<Longrightarrow>
     idem_step reserve finalize hash_of trace_id s [Arrived r d]
       (s\<lparr>srv_store := st', srv_open := started (srv_next s) d @ srv_open s, srv_next := Suc (srv_next s)\<rparr>)"
| idem_json: "h \<in> set (srv_open s) \<union> set (srv_ended s) \<Longrightarrow>
     idem_step reserve finalize hash_of trace_id s [Ended h (Responded c b)] (end_handler h (Responded c b) s)"
| idem_close: "h \<in> set (srv_open s) \<Longrightarrow>
     idem_step reserve finalize hash_of trace_id s [Ended h (Closed c)] (end_handler h (Closed c) s)"
| idem_store: "(h, e) \<in> set (srv_writes s) \<Longrightarrow>
     idem_step reserve finalize hash_of trace_id s [Stored h e]
       (s\<lparr>srv_store := finish_request finalize (run_tenant h) (run_key h) e (srv_store s),
          srv_writes := remove1 (h, e) (srv_writes s)\<rparr>)"
| idem_leave: "idem_step reserve finalize hash_of trace_id s []
     (s\<lparr>srv_open := remove1 h (srv_open s), srv_ended := remove1 h' (srv_ended s)\<rparr>)"
| idem_fail: "idem_step reserve finalize hash_of trace_id s [] (s\<lparr>srv_writes := remove1 w (srv_writes s)\<rparr>)"

definition idle :: "'st \<Rightarrow> 'st idem_server" where
  "idle st = \<lparr>srv_store = st, srv_open = [], srv_ended = [], srv_writes = [], srv_next = 0\<rparr>"

text \<open>
  The ends of the handlers of a key in a history, and the successful ones: the hash of the request, the
  code and the body. A success is \<open>stored\<close> when its record is written, which comes before the answer
  is sent.
\<close>

definition ok_code :: "int \<Rightarrow> int option" where
  "ok_code c = (let code = (if c = 0 then 200 else c) in if 200 \<le> code \<and> code < 300 then Some code else None)"

definition of_key :: "string \<Rightarrow> string \<Rightarrow> handler \<Rightarrow> bool" where
  "of_key t k h \<longleftrightarrow> run_tenant h = t \<and> run_key h = k"

fun good :: "handler \<times> ending \<Rightarrow> (string \<times> int \<times> jsval) list" where
  "good (h, Responded c b) = (case ok_code c of None \<Rightarrow> [] | Some code \<Rightarrow> [(run_hash h, code, b)])"
| "good (h, Closed c) = []"

fun end_of :: "string \<Rightarrow> string \<Rightarrow> idem_event \<Rightarrow> (handler \<times> ending) list" where
  "end_of t k (Ended h e) = (if of_key t k h then [(h, e)] else [])"
| "end_of t k _ = []"

fun store_of :: "string \<Rightarrow> string \<Rightarrow> idem_event \<Rightarrow> (handler \<times> ending) list" where
  "store_of t k (Stored h e) = (if of_key t k h then [(h, e)] else [])"
| "store_of t k _ = []"

definition ends :: "string \<Rightarrow> string \<Rightarrow> idem_event list \<Rightarrow> (handler \<times> ending) list" where
  "ends t k xs = concat (map (end_of t k) xs)"

definition stores :: "string \<Rightarrow> string \<Rightarrow> idem_event list \<Rightarrow> (handler \<times> ending) list" where
  "stores t k xs = concat (map (store_of t k) xs)"

definition successes :: "string \<Rightarrow> string \<Rightarrow> idem_event list \<Rightarrow> (string \<times> int \<times> jsval) list" where
  "successes t k xs = concat (map good (ends t k xs))"

definition stored_successes :: "string \<Rightarrow> string \<Rightarrow> idem_event list \<Rightarrow> (string \<times> int \<times> jsval) list" where
  "stored_successes t k xs = concat (map good (stores t k xs))"

text \<open>Every handler of the key ends once: no answer after its connection closed, and no second answer.\<close>

definition end_once :: "string \<Rightarrow> string \<Rightarrow> idem_event list \<Rightarrow> bool" where
  "end_once t k xs \<longleftrightarrow> distinct (map (\<lambda>(h, e). run_id h) (ends t k xs))"

lemma ends_append [simp]:
  "ends t k (xs @ ys) = ends t k xs @ ends t k ys" "stores t k (xs @ ys) = stores t k xs @ stores t k ys"
  by (simp_all add: ends_def stores_def)

lemma ends_single [simp]: "ends t k [] = []" "ends t k [x] = end_of t k x" "stores t k [] = []" "stores t k [x] = store_of t k x"
  by (simp_all add: ends_def stores_def)

lemma successes_append [simp]:
  "successes t k (xs @ ys) = successes t k xs @ successes t k ys"
  "stored_successes t k (xs @ ys) = stored_successes t k xs @ stored_successes t k ys"
  by (simp_all add: successes_def stored_successes_def)

lemma end_once_append: "end_once t k (xs @ ys) \<Longrightarrow> end_once t k xs"
  by (simp add: end_once_def)

text \<open>A request the middleware keeps track of, under a tenant and a key.\<close>

definition tracked :: "request \<Rightarrow> string \<Rightarrow> string \<Rightarrow> bool" where
  "tracked r t k \<longleftrightarrow> upper (req_method r) \<in> set [''POST'', ''PUT'', ''PATCH'', ''DELETE'']
     \<and> lower (req_path r) \<notin> set [''/addresses/check'', ''/addresses/check/'']
     \<and> req_tenant r = Some t \<and> t \<noteq> [] \<and> k \<noteq> [] \<and> k = trim (case req_key r of None \<Rightarrow> [] | Some s \<Rightarrow> s)"

text \<open>What a store answers, as a function of the record of the key.\<close>

fun verdict :: "string \<Rightarrow> idem_record option \<Rightarrow> reservation \<times> idem_record option" where
  "verdict h None = (Owned, Some (fresh_record h))"
| "verdict h (Some r) =
     (if rec_hash r \<noteq> h then (Conflict, Some r)
      else (case rec_status r of Completed \<Rightarrow> (Replay r, Some r) | Processing \<Rightarrow> (InProgress, Some r)
            | Failed \<Rightarrow> (Owned, Some (fresh_record h))))"

fun shown :: "(idem_record \<Rightarrow> idem_record) \<Rightarrow> reservation \<Rightarrow> reservation" where
  "shown view (Replay r) = Replay (view r)"
| "shown view x = x"

text \<open>
  The contract of a store: one record for each tenant and key, on which \<open>reserve\<close> is the verdict above;
  \<open>tidy\<close> is how a body is written, \<open>view\<close> how a completed record is read.
\<close>

locale key_store =
  fixes reserve :: "string \<Rightarrow> string \<Rightarrow> string \<Rightarrow> 'st \<Rightarrow> reservation \<times> 'st"
    and finalize :: "string \<Rightarrow> string \<Rightarrow> idem_status \<Rightarrow> int option \<Rightarrow> jsval \<Rightarrow> 'st \<Rightarrow> 'st"
    and look :: "'st \<Rightarrow> string \<Rightarrow> string \<Rightarrow> idem_record option"
    and valid :: "string \<Rightarrow> bool"
    and tidy :: "jsval \<Rightarrow> jsval"
    and view :: "idem_record \<Rightarrow> idem_record"
  assumes reserve_answer: "valid t \<Longrightarrow> fst (reserve t k h st) = shown view (fst (verdict h (look st t k)))"
    and reserve_look: "valid t \<Longrightarrow> valid t' \<Longrightarrow> look (snd (reserve t k h st)) t' k' =
      (if t' = t \<and> k' = k then snd (verdict h (look st t k)) else look st t' k')"
    and finalize_look: "valid t \<Longrightarrow> valid t' \<Longrightarrow> look (finalize t k s c b st) t' k' =
      (if t' = t \<and> k' = k then map_option (\<lambda>r. r\<lparr>rec_status := s, rec_code := c, rec_body := tidy b\<rparr>) (look st t k)
       else look st t' k')"
    and view_completed: "rec_status r = Completed \<Longrightarrow> rec_code r = Some code \<Longrightarrow> view r = r"
    and reserve_replay: "valid t \<Longrightarrow> fst (reserve t k h st) = Replay r \<Longrightarrow> snd (reserve t k h st) = st"
    and reserve_conflict: "valid t \<Longrightarrow> fst (reserve t k h st) = Conflict \<Longrightarrow> snd (reserve t k h st) = st"
begin

text \<open>
  The state of one key, over the handlers and the writes of that key: nothing has succeeded; a
  success waits to be written (or its write failed); or it is written. An open handler and a waiting
  write exclude each other, and either means the record is processing their request.
\<close>

definition processing :: "idem_record option \<Rightarrow> string \<Rightarrow> bool" where
  "processing rec h \<longleftrightarrow> (\<exists>r. rec = Some r \<and> rec_status r = Processing \<and> rec_hash r = h)"

definition key_state :: "idem_record option \<Rightarrow> handler list \<Rightarrow> (handler \<times> ending) list
   \<Rightarrow> (string \<times> int \<times> jsval) list \<Rightarrow> (string \<times> int \<times> jsval) list \<Rightarrow> bool" where
  "key_state rec hs ws ss ts \<longleftrightarrow>
     length hs + length ws \<le> 1 \<and> (\<forall>h \<in> set hs \<union> fst ` set ws. processing rec (run_hash h)) \<and>
     (ss = [] \<and> ts = [] \<and> (case rec of None \<Rightarrow> True | Some r \<Rightarrow> rec_status r \<noteq> Completed) \<and> concat (map good ws) = []
      \<or> (\<exists>h c b. ss = [(h, c, b)] \<and> ts = [] \<and> hs = [] \<and> processing rec h \<and> (ws \<noteq> [] \<longrightarrow> concat (map good ws) = ss))
      \<or> (\<exists>h c b. ss = [(h, c, b)] \<and> ts = ss \<and> hs = [] \<and> ws = [] \<and>
           rec = Some \<lparr>rec_hash = h, rec_status = Completed, rec_code = Some c, rec_body = tidy b\<rparr>))"

lemma key_state_cases:
  assumes "key_state rec hs ws ss ts"
  obtains (open_one) h where "hs = [h]" "ws = []" "ss = []" "ts = []" "processing rec (run_hash h)"
  | (write_one) h e where "hs = []" "ws = [(h, e)]" "ss = good (h, e)" "ts = []" "processing rec (run_hash h)"
  | (quiet) "hs = []" "ws = []" "ss = []" "ts = []" "case rec of None \<Rightarrow> True | Some r \<Rightarrow> rec_status r \<noteq> Completed"
  | (unwritten) h c b where "hs = []" "ws = []" "ss = [(h, c, b)]" "ts = []" "processing rec h"
  | (written) h c b where "hs = []" "ws = []" "ss = [(h, c, b)]" "ts = ss"
      "rec = Some \<lparr>rec_hash = h, rec_status = Completed, rec_code = Some c, rec_body = tidy b\<rparr>"
proof -
  have "hs = [] \<and> ws = [] \<or> (\<exists>h. hs = [h] \<and> ws = []) \<or> (\<exists>h e. hs = [] \<and> ws = [(h, e)])"
    using assms by (cases hs; cases ws) (auto simp: key_state_def)
  then show thesis
    using assms that by (elim disjE exE conjE) (auto simp: key_state_def)
qed

lemma good_cases: "good w = [] \<or> (\<exists>c b. good w = [(run_hash (fst w), c, b)])"
  by (cases w rule: good.cases) (auto split: option.splits)

lemma processing_open: "processing rec h \<Longrightarrow> case rec of None \<Rightarrow> True | Some r \<Rightarrow> rec_status r \<noteq> Completed"
  by (auto simp: processing_def)

lemma key_state_intros:
  "processing rec (run_hash h) \<Longrightarrow> key_state rec [h] [] [] []"
  "processing rec (run_hash h) \<Longrightarrow> key_state rec [] [(h, e)] (good (h, e)) []"
  "case rec of None \<Rightarrow> True | Some r \<Rightarrow> rec_status r \<noteq> Completed \<Longrightarrow> key_state rec [] [] [] []"
  "processing rec g \<Longrightarrow> key_state rec [] [] [(g, c, b)] []"
  "rec = Some \<lparr>rec_hash = g, rec_status = Completed, rec_code = Some c, rec_body = tidy b\<rparr> \<Longrightarrow>
     key_state rec [] [] [(g, c, b)] [(g, c, b)]"
  using good_cases [of "(h, e)"] by (auto simp: key_state_def dest: processing_open)

lemma key_state_lost:
  assumes "key_state rec hs ws ss ts"
  shows "key_state rec (remove1 h hs) ws ss ts" "key_state rec hs (remove1 w ws) ss ts"
proof -
  from assms show "key_state rec (remove1 h hs) ws ss ts"
    by (cases rule: key_state_cases) (auto intro: key_state_intros processing_open)
  from assms show "key_state rec hs (remove1 w ws) ss ts"
  proof (cases rule: key_state_cases)
    case (write_one g e)
    with good_cases [of "(g, e)"] show ?thesis
      by (auto intro: key_state_intros(3) [OF processing_open] key_state_intros(1,2,4))
  qed (auto intro: key_state_intros)
qed

lemma key_state_end:
  assumes "key_state rec hs ws ss ts" and "h \<in> set hs"
  shows "key_state rec (remove1 h hs) ((h, e) # ws) (ss @ good (h, e)) ts"
  using assms by (cases rule: key_state_cases) (auto intro: key_state_intros)

lemma key_state_reserve:
  assumes "key_state rec hs ws ss ts"
  shows "key_state (snd (verdict g rec)) (if fst (verdict g rec) = Owned then [\<lparr>run_id = n, run_tenant = t, run_key = k, run_hash = g\<rparr>] @ hs else hs) ws ss ts"
  using assms
proof (cases rule: key_state_cases)
  case quiet
  then show ?thesis
    by (cases rec) (auto simp: fresh_record_def processing_def intro!: key_state_intros split: idem_status.splits)
qed (auto simp: processing_def intro!: key_state_intros)

lemma key_state_store:
  assumes "key_state rec hs ws ss ts" and "(h, e) \<in> set ws"
    and new: "new = (case e of
      Responded c b \<Rightarrow> (case ok_code c of
          None \<Rightarrow> map_option (\<lambda>r. r\<lparr>rec_status := Failed, rec_code := Some (if c = 0 then 200 else c), rec_body := tidy JNull\<rparr>) rec
        | Some code \<Rightarrow> map_option (\<lambda>r. r\<lparr>rec_status := Completed, rec_code := Some code, rec_body := tidy b\<rparr>) rec)
    | Closed c \<Rightarrow> map_option (\<lambda>r. r\<lparr>rec_status := Failed, rec_code := Some (if c = 0 then 500 else c), rec_body := tidy JNull\<rparr>) rec)"
  shows "key_state new hs (remove1 (h, e) ws) ss (ts @ good (h, e))"
  using assms(1)
proof (cases rule: key_state_cases)
  case (write_one g f)
  with assms(2) have eq: "g = h" "f = e" by simp_all
  from write_one obtain r where r: "rec = Some r" "rec_hash r = run_hash h" by (auto simp: processing_def eq)
  show ?thesis
  proof (cases "good (h, e) = []")
    case True
    then show ?thesis using write_one r new
      by (auto simp: eq intro!: key_state_intros split: ending.splits option.splits)
  next
    case False
    then obtain c b code where e: "e = Responded c b" "ok_code c = Some code"
      by (cases e) (auto split: option.splits)
    then have "new = Some \<lparr>rec_hash = run_hash h, rec_status = Completed, rec_code = Some code, rec_body = tidy b\<rparr>"
      using new r by (cases r) simp
    then show ?thesis using write_one e by (simp add: eq key_state_intros)
  qed
qed (use assms(2) in auto)

text \<open>A finalized handler has ended in the history; all handlers are of valid tenants.\<close>

definition accounted :: "'st idem_server \<Rightarrow> idem_event list \<Rightarrow> bool" where
  "accounted s xs \<longleftrightarrow> (\<forall>h \<in> set (srv_ended s). \<exists>e. Ended h e \<in> set xs) \<and>
     (\<forall>h \<in> set (srv_open s) \<union> set (srv_ended s) \<union> fst ` set (srv_writes s). valid (run_tenant h))"

definition key_consistent :: "string \<Rightarrow> string \<Rightarrow> 'st idem_server \<Rightarrow> idem_event list \<Rightarrow> bool" where
  "key_consistent t k s xs \<longleftrightarrow>
     key_state (look (srv_store s) t k) (filter (of_key t k) (srv_open s)) (filter (\<lambda>(h, e). of_key t k h) (srv_writes s))
       (successes t k xs) (stored_successes t k xs)"

fun event_valid :: "idem_event \<Rightarrow> bool" where
  "event_valid (Arrived r d) = (case req_tenant r of None \<Rightarrow> True | Some t \<Rightarrow> valid t)"
| "event_valid _ = True"

definition consistent :: "string \<Rightarrow> string \<Rightarrow> idem_event list \<Rightarrow> 'st idem_server \<Rightarrow> bool" where
  "consistent t k xs s \<longleftrightarrow> (list_all event_valid xs \<longrightarrow>
     accounted s xs \<and> (end_once t k xs \<longrightarrow> key_consistent t k s xs))"

lemma consistent_start: "look st t k = None \<Longrightarrow> consistent t k [] (idle st)"
  by (simp add: consistent_def accounted_def key_consistent_def idle_def successes_def stored_successes_def key_state_intros)

lemma middleware_cases:
  obtains (pass) "idempotency_middleware reserve hash_of tid r st = (Untracked, st)"
  | (ask) t k where "req_tenant r = Some t" "tracked r t k"
      "snd (idempotency_middleware reserve hash_of tid r st) = snd (reserve t k (hash_of r) st)"
      "\<And>n. started n (fst (idempotency_middleware reserve hash_of tid r st)) = (if fst (reserve t k (hash_of r) st) = Owned
         then [\<lparr>run_id = n, run_tenant = t, run_key = k, run_hash = hash_of r\<rparr>] else [])"
proof (cases "\<exists>t k. tracked r t k")
  case True
  then obtain t k where tr: "tracked r t k" by blast
  obtain x st' where "reserve t k (hash_of r) st = (x, st')" by (cases "reserve t k (hash_of r) st")
  with tr have "req_tenant r = Some t"
    "idempotency_middleware reserve hash_of tid r st =
      (case (x, st') of
         (Conflict, st') \<Rightarrow> (Answer 409 (conflict_body tid), st')
       | (Replay rec, st') \<Rightarrow> (Answer (case rec_code rec of None \<Rightarrow> 200 | Some c \<Rightarrow> c) (rec_body rec), st')
       | (InProgress, st') \<Rightarrow> (Answer 409 (processing_body tid), st')
       | (Owned, st') \<Rightarrow> (Run t k (hash_of r), st'))"
    by (auto simp: tracked_def idempotency_middleware_def Let_def)
  with tr \<open>reserve t k (hash_of r) st = (x, st')\<close> show ?thesis by (intro ask [of t k]) (cases x; simp)+
next
  case False
  then have "idempotency_middleware reserve hash_of tid r st = (Untracked, st)"
    by (auto simp: tracked_def idempotency_middleware_def Let_def split: option.splits)
  then show ?thesis by (rule pass)
qed

lemma ended_twice:
  assumes "end_once t k (xs @ [Ended h e])" and "Ended h e' \<in> set xs"
  shows "\<not> of_key t k h"
proof
  assume "of_key t k h"
  with assms(2) have "(h, e') \<in> set (ends t k xs)" by (force simp: ends_def)
  with assms(1) \<open>of_key t k h\<close> show False by (force simp: end_once_def)
qed

lemma key_ended:
  assumes "key_consistent t k s xs" and "end_once t k (xs @ [Ended h e])" and "accounted s xs"
    and "h \<in> set (srv_open s) \<union> set (srv_ended s)"
  shows "key_consistent t k (end_handler h e s) (xs @ [Ended h e])"
proof (cases "of_key t k h")
  case True
  then have "h \<in> set (srv_open s)"
    using assms(2-4) ended_twice unfolding accounted_def by blast
  with True have "h \<in> set (filter (of_key t k) (srv_open s))" by simp
  from key_state_end [OF assms(1) [unfolded key_consistent_def] this] True show ?thesis
    by (simp add: key_consistent_def end_handler_def filter_remove1 successes_def stored_successes_def)
next
  case False
  then have "filter (of_key t k) (remove1 h (srv_open s)) = filter (of_key t k) (srv_open s)"
    by (simp add: filter_remove1 remove1_idem)
  with False assms(1) show ?thesis
    by (simp add: key_consistent_def end_handler_def successes_def stored_successes_def)
qed

lemma finish_look:
  assumes "valid t'" and "valid t"
  shows "look (finish_request finalize t' k' e st) t k = (if t = t' \<and> k = k' then (case e of
      Responded c b \<Rightarrow> (case ok_code c of
          None \<Rightarrow> map_option (\<lambda>r. r\<lparr>rec_status := Failed, rec_code := Some (if c = 0 then 200 else c), rec_body := tidy JNull\<rparr>) (look st t k)
        | Some code \<Rightarrow> map_option (\<lambda>r. r\<lparr>rec_status := Completed, rec_code := Some code, rec_body := tidy b\<rparr>) (look st t k))
    | Closed c \<Rightarrow> map_option (\<lambda>r. r\<lparr>rec_status := Failed, rec_code := Some (if c = 0 then 500 else c), rec_body := tidy JNull\<rparr>) (look st t k))
    else look st t k)"
  using assms by (auto simp: finish_request_def finalize_look ok_code_def Let_def split: ending.splits)

lemma key_stored:
  assumes "key_consistent t k s xs" and "(h, e) \<in> set (srv_writes s)" and "valid (run_tenant h)" and "valid t"
  shows "key_consistent t k (s\<lparr>srv_store := finish_request finalize (run_tenant h) (run_key h) e (srv_store s),
      srv_writes := remove1 (h, e) (srv_writes s)\<rparr>) (xs @ [Stored h e])"
proof (cases "of_key t k h")
  case True
  with assms(2) have "(h, e) \<in> set (filter (\<lambda>(h, e). of_key t k h) (srv_writes s))" by simp
  from key_state_store [OF assms(1) [unfolded key_consistent_def] this finish_look [OF assms(3,4), of "run_key h" e "srv_store s" k, THEN trans]]
  show ?thesis using True
    by (simp add: key_consistent_def filter_remove1 successes_def stored_successes_def of_key_def)
next
  case False
  then have "filter (\<lambda>(h, e). of_key t k h) (remove1 (h, e) (srv_writes s)) = filter (\<lambda>(h, e). of_key t k h) (srv_writes s)"
    by (simp add: filter_remove1 remove1_idem)
  with False assms show ?thesis
    by (simp add: key_consistent_def finish_look of_key_def successes_def stored_successes_def) auto
qed

lemma key_arrived:
  assumes "key_consistent t k s xs" and "idempotency_middleware reserve hash_of tid r (srv_store s) = (d, st')"
    and "\<And>t. req_tenant r = Some t \<Longrightarrow> valid t" and "valid t"
  shows "key_consistent t k (s\<lparr>srv_store := st', srv_open := started (srv_next s) d @ srv_open s, srv_next := Suc (srv_next s)\<rparr>)
    (xs @ [Arrived r d])"
proof (cases rule: middleware_cases [of hash_of tid r "srv_store s"])
  case pass
  with assms(1,2) show ?thesis by (simp add: key_consistent_def successes_def stored_successes_def)
next
  case (ask t' k')
  with assms(3) have v: "valid t'" by simp
  let ?g = "hash_of r"
  have st': "st' = snd (reserve t' k' ?g (srv_store s))" and d: "started (srv_next s) d = (if fst (reserve t' k' ?g (srv_store s)) = Owned
      then [\<lparr>run_id = srv_next s, run_tenant = t', run_key = k', run_hash = ?g\<rparr>] else [])"
    using ask(3,4) assms(2) by simp_all
  have look': "look st' t k = (if t = t' \<and> k = k' then snd (verdict ?g (look (srv_store s) t k)) else look (srv_store s) t k)"
    using v assms(4) by (simp add: st' reserve_look)
  show ?thesis
  proof (cases "t = t' \<and> k = k'")
    case True
    have "fst (reserve t' k' ?g (srv_store s)) = Owned \<longleftrightarrow> fst (verdict ?g (look (srv_store s) t k)) = Owned"
      using True v reserve_answer [of t' k' ?g "srv_store s"] by (cases "fst (verdict ?g (look (srv_store s) t k))") simp_all
    moreover have "look st' t' k' = snd (verdict ?g (look (srv_store s) t' k'))" using look' True by simp
    ultimately show ?thesis
      using True key_state_reserve [OF assms(1) [unfolded key_consistent_def], of ?g "srv_next s" t' k']
      by (simp add: key_consistent_def d of_key_def successes_def stored_successes_def split: if_splits)
  next
    case False
    then have "filter (of_key t k) (started (srv_next s) d) = []" by (auto simp: d of_key_def)
    with False assms(1) show ?thesis by (auto simp: key_consistent_def look' successes_def stored_successes_def)
  qed
qed

lemma accounted_step:
  assumes "idem_step reserve finalize hash_of tid s ys s'" and "accounted s xs" and "list_all event_valid ys"
  shows "accounted s' (xs @ ys)"
  using assms(1)
proof cases
  case (idem_arrive r d st')
  have "\<forall>h \<in> set (started (srv_next s) d). valid (run_tenant h)"
    using idem_arrive(3) assms(3) unfolding idem_arrive(1)
    by (cases rule: middleware_cases [of hash_of tid r "srv_store s"]) (auto split: if_splits)
  with assms(2) show ?thesis unfolding idem_arrive(2) by (auto simp: accounted_def)
next
  case (idem_leave h h')
  with assms(2) show ?thesis by (auto simp: accounted_def dest: set_remove1_subset [THEN subsetD])
next
  case (idem_fail w)
  with assms(2) show ?thesis using set_remove1_subset [of w "srv_writes s"] unfolding accounted_def by auto
next
  case (idem_json h c b)
  with assms(2) show ?thesis using set_remove1_subset [of h "srv_open s"] by (auto simp: accounted_def end_handler_def)
next
  case (idem_close h c)
  with assms(2) show ?thesis using set_remove1_subset [of h "srv_open s"] by (auto simp: accounted_def end_handler_def)
next
  case (idem_store h e)
  with assms(2) show ?thesis using set_remove1_subset [of "(h, e)" "srv_writes s"] by (auto simp: accounted_def)
qed

lemma key_step:
  assumes "idem_step reserve finalize hash_of tid s ys s'" and "accounted s xs" and "key_consistent t k s xs"
    and "list_all event_valid ys" and "end_once t k (xs @ ys)" and "valid t"
  shows "key_consistent t k s' (xs @ ys)"
  using assms(1)
proof cases
  case (idem_arrive r d st')
  moreover have "valid t" if "req_tenant r = Some t" for t using that idem_arrive(1) assms(4) by simp
  ultimately show ?thesis using key_arrived [OF assms(3) idem_arrive(3) _ assms(6)] by blast
next
  case (idem_json h c b)
  then show ?thesis using key_ended [OF assms(3) _ assms(2), of h "Responded c b"] assms(5) by simp
next
  case (idem_close h c)
  then show ?thesis using key_ended [OF assms(3) _ assms(2), of h "Closed c"] assms(5) by simp
next
  case (idem_store h e)
  moreover have "valid (run_tenant h)" using idem_store(3) assms(2) by (force simp: accounted_def)
  ultimately show ?thesis using key_stored [OF assms(3), of h e] assms(6) by simp
next
  case (idem_leave h h')
  with assms(3) show ?thesis by (simp add: key_consistent_def filter_remove1 key_state_lost)
next
  case (idem_fail w)
  with assms(3) show ?thesis by (simp add: key_consistent_def filter_remove1 key_state_lost)
qed

lemma consistent_step:
  assumes "idem_step reserve finalize hash_of tid s ys s'" and "consistent t k xs s" and "valid t"
  shows "consistent t k (xs @ ys) s'"
  using assms accounted_step [OF assms(1), of xs] key_step [OF assms(1), of xs t k] end_once_append [of t k xs ys]
  by (simp add: consistent_def)

lemma at_most_one_success:
  assumes "key_consistent t k s xs"
  shows "length (filter (of_key t k) (srv_open s)) \<le> 1 \<and> length (successes t k xs) \<le> 1"
  using assms unfolding key_consistent_def
proof (cases rule: key_state_cases)
  case (write_one h e)
  with good_cases [of "(h, e)"] show ?thesis by auto
qed auto

lemma replays_success:
  assumes "key_consistent t k s xs" and "tracked r t k" and "valid t" and "(h, c, b) \<in> set (stored_successes t k xs)"
  shows "idempotency_middleware reserve hash_of tid r (srv_store s) =
     (Answer (if hash_of r = h then c else 409) (if hash_of r = h then tidy b else conflict_body tid), srv_store s)"
proof -
  let ?st = "srv_store s"
  let ?r = "\<lparr>rec_hash = h, rec_status = Completed, rec_code = Some c, rec_body = tidy b\<rparr>"
  from assms(1,4) have rec: "look ?st t k = Some ?r"
    unfolding key_consistent_def by (cases rule: key_state_cases) auto
  let ?x = "fst (reserve t k (hash_of r) ?st)"
  have ans: "?x = (if hash_of r = h then Replay ?r else Conflict)"
    using reserve_answer [OF assms(3), of k "hash_of r" ?st] rec view_completed [of ?r c] by auto
  then have "snd (reserve t k (hash_of r) ?st) = ?st"
    using reserve_replay [OF assms(3), of k "hash_of r" ?st ?r] reserve_conflict [OF assms(3), of k "hash_of r" ?st]
    by (auto split: if_splits)
  with ans have "reserve t k (hash_of r) ?st = (if hash_of r = h then Replay ?r else Conflict, ?st)"
    by (metis prod.collapse)
  with assms(2) show ?thesis by (auto simp: tracked_def idempotency_middleware_def Let_def)
qed

end

subsection \<open>Both stores keep the contract\<close>

lemma find_row_update [simp]:
  "find_row (update_row t k f st) t' k' =
     (if t' = t \<and> k' = k then map_option f (find_row st t k) else find_row st t' k')"
  by (induction st) (auto simp: find_row_def update_row_def)

lemma find_row_append [simp]:
  "find_row (st @ [row]) t k = (case find_row st t k of
     None \<Rightarrow> if row_tenant row = t \<and> row_key row = k then Some (row_record row) else None | Some r \<Rightarrow> Some r)"
  by (induction st) (auto simp: find_row_def)

lemma failed_again:
  "rec_hash r = h \<Longrightarrow> r\<lparr>rec_status := Processing, rec_code := None, rec_body := JNull\<rparr> = fresh_record h"
  by (cases r) (simp add: fresh_record_def)

definition stored_body :: "jsval \<Rightarrow> jsval" where
  "stored_body b = json_clone (js_nc b JNull)"

interpretation db: key_store reserve_db finalize_db find_row "\<lambda>_. True" stored_body replayed
proof unfold_locales
  fix t t' k k' h st
  show "fst (reserve_db t k h st) = shown replayed (fst (verdict h (find_row st t k)))"
    by (auto simp: reserve_db_def split: option.splits idem_status.splits)
  show "find_row (snd (reserve_db t k h st)) t' k' =
    (if t' = t \<and> k' = k then snd (verdict h (find_row st t k)) else find_row st t' k')"
    by (auto simp: reserve_db_def failed_again split: option.splits idem_status.splits)
next
  fix t t' k k' s c b st
  show "find_row (finalize_db t k s c b st) t' k' =
    (if t' = t \<and> k' = k
     then map_option (\<lambda>r. r\<lparr>rec_status := s, rec_code := c, rec_body := stored_body b\<rparr>) (find_row st t k)
     else find_row st t' k')"
    by (simp add: finalize_db_def stored_body_def)
next
  fix r code
  show "rec_status r = Completed \<Longrightarrow> rec_code r = Some code \<Longrightarrow> replayed r = r" by (cases r) (simp add: replayed_def)
qed (auto simp: reserve_db_def split: option.splits if_splits)

definition plain_tenant :: "string \<Rightarrow> bool" where
  "plain_tenant t \<longleftrightarrow> CHR 58 \<notin> set t"

definition memory_look :: "memory_store \<Rightarrow> string \<Rightarrow> string \<Rightarrow> idem_record option" where
  "memory_look st t k = aget st (memory_key t k)"

lemma memory_key_eq:
  "plain_tenant t \<Longrightarrow> plain_tenant t' \<Longrightarrow> memory_key t k = memory_key t' k' \<longleftrightarrow> t = t' \<and> k = k'"
proof (induction t arbitrary: t')
  case Nil
  then show ?case by (cases t') (auto simp: memory_key_def plain_tenant_def)
next
  case (Cons c t)
  then show ?case by (cases t') (auto simp: memory_key_def plain_tenant_def)
qed

interpretation mem: key_store reserve_memory finalize_memory memory_look plain_tenant "\<lambda>b. b" "\<lambda>r. r"
proof unfold_locales
  fix t t' k k' h st assume v: "plain_tenant t"
  show "fst (reserve_memory t k h st) = shown (\<lambda>r. r) (fst (verdict h (memory_look st t k)))"
    by (auto simp: reserve_memory_def memory_look_def Let_def split: option.splits idem_status.splits)
  assume v': "plain_tenant t'"
  show "memory_look (snd (reserve_memory t k h st)) t' k' =
    (if t' = t \<and> k' = k then snd (verdict h (memory_look st t k)) else memory_look st t' k')"
    using memory_key_eq [OF v' v, of k' k]
    by (auto simp: reserve_memory_def memory_look_def Let_def failed_again split: option.splits idem_status.splits)
next
  fix t t' k k' s c b st assume v: "plain_tenant t" and v': "plain_tenant t'"
  show "memory_look (finalize_memory t k s c b st) t' k' =
    (if t' = t \<and> k' = k
     then map_option (\<lambda>r. r\<lparr>rec_status := s, rec_code := c, rec_body := b\<rparr>) (memory_look st t k)
     else memory_look st t' k')"
    using memory_key_eq [OF v' v, of k' k] by (auto simp: finalize_memory_def memory_look_def split: option.splits)
qed (auto simp: reserve_memory_def Let_def split: option.splits if_splits)

subsection \<open>Properties\<close>

lemmas idem_simps = idempotency_middleware_def finish_request_def Let_def

lemma db_events_valid: "list_all db.event_valid ys"
proof (induction ys)
  case (Cons y ys)
  then show ?case by (cases y) (simp_all split: option.splits)
qed simp

interpretation db_history: history_invariant "idem_step reserve_db finalize_db hash_of tid" "db.consistent t k"
  for hash_of tid t k
  by unfold_locales (rule db.consistent_step, simp_all)

lemma db_start: "db.consistent t k [] (idle [])"
  by (rule db.consistent_start) (simp add: find_row_def)

lemma db_key_consistent:
  assumes "trace (idem_step reserve_db finalize_db hash_of tid) (idle []) xs s" and "end_once t k xs"
  shows "db.key_consistent t k s xs"
  using db_history.ok_trace [OF assms(1) db_start, of t k] assms(2) by (simp add: db.consistent_def db_events_valid)

text \<open>C8: Over the database store, whatever the order in which requests arrive, handlers answer, connections
  close, records are written, handlers leave and writes fail: as long as every handler of a key of a
  tenant ends once (it answers by \<open>res.json\<close> once, and not after its connection closed), at most one
  handler of the key has not ended, and at most one has succeeded.\<close>

theorem key_succeeds_at_most_once:
  assumes "trace (idem_step reserve_db finalize_db hash_of tid) (idle []) xs s" and "end_once t k xs"
  shows "length (filter (of_key t k) (srv_open s)) \<le> 1 \<and> length (successes t k xs) \<le> 1"
  using db.at_most_one_success [OF db_key_consistent [OF assms]] .

text \<open>C9: Once the success of a handler of a key is written (its answer is sent after that), every later
  request of the tenant with that key is answered from the store and changes nothing, as long as every
  handler of the key ends once: the same request gets the code and the body of the success (as JSON
  stores it), another request the answer 409 of a conflict. A success is an answer by \<open>res.json\<close>.\<close>

theorem success_is_replayed:
  assumes "trace (idem_step reserve_db finalize_db hash_of tid) (idle []) xs s" and "end_once t k xs"
    and "(h, c, b) \<in> set (stored_successes t k xs)" and "tracked r t k"
  shows "idempotency_middleware reserve_db hash_of tid r (srv_store s) =
    (if hash_of r = h then (Answer c (stored_body b), srv_store s) else (Answer 409 (conflict_body tid), srv_store s))"
  using db.replays_success [OF db_key_consistent [OF assms(1,2)] assms(4) _ assms(3), of hash_of tid] by simp

text \<open>A response sent without \<open>res.json\<close> is recorded as failed, even with a code of success: the same request
  runs its handler again.\<close>

lemma unsent_json_runs_again:
  assumes "find_row st t k = Some r" "rec_hash r = h"
  shows "fst (reserve_db t k h (finish_request finalize_db t k (Closed c) st)) = Owned"
  using assms by (simp add: db.reserve_answer finish_request_def db.finalize_look)

text \<open>The two stores agree on every key of a tenant whose name has no colon.\<close>

definition stores_agree :: "memory_store \<Rightarrow> idem_table \<Rightarrow> bool" where
  "stores_agree m d \<longleftrightarrow> (\<forall>t k. plain_tenant t \<longrightarrow> memory_look m t k = find_row d t k
     \<and> (case find_row d t k of None \<Rightarrow> True | Some r \<Rightarrow> rec_status r = Completed \<longrightarrow> rec_code r \<noteq> None))"

lemma stores_agree_look: "stores_agree m d \<Longrightarrow> plain_tenant t \<Longrightarrow> memory_look m t k = find_row d t k"
  by (simp add: stores_agree_def)

lemma stores_agree_answer:
  assumes "stores_agree m d" and "plain_tenant t"
  shows "fst (reserve_memory t k h m) = fst (reserve_db t k h d)"
proof -
  have "shown (\<lambda>r. r) (fst (verdict h (find_row d t k))) = shown replayed (fst (verdict h (find_row d t k)))"
  proof (cases "find_row d t k")
    case (Some r)
    with assms have "rec_status r = Completed \<Longrightarrow> \<exists>c. rec_code r = Some c"
      by (fastforce simp: stores_agree_def split: option.splits)
    with Some show ?thesis using db.view_completed by (auto split: idem_status.splits)
  qed simp
  with assms show ?thesis by (simp add: mem.reserve_answer db.reserve_answer stores_agree_look)
qed

lemma stores_agree_reserve:
  assumes agree: "stores_agree m d" and t: "plain_tenant t"
  shows "stores_agree (snd (reserve_memory t k h m)) (snd (reserve_db t k h d))"
  unfolding stores_agree_def
proof (intro allI impI conjI)
  fix t' k' assume t': "plain_tenant t'"
  with assms show "memory_look (snd (reserve_memory t k h m)) t' k' = find_row (snd (reserve_db t k h d)) t' k'"
    by (simp add: mem.reserve_look db.reserve_look stores_agree_look)
  have *: "case find_row d t' k' of None \<Rightarrow> True | Some r \<Rightarrow> rec_status r = Completed \<longrightarrow> rec_code r \<noteq> None"
    using agree t' by (simp add: stores_agree_def)
  then have "case snd (verdict h (find_row d t' k')) of None \<Rightarrow> True | Some r \<Rightarrow> rec_status r = Completed \<longrightarrow> rec_code r \<noteq> None"
    by (cases "find_row d t' k'") (auto simp: fresh_record_def split: idem_status.splits)
  with * show "case find_row (snd (reserve_db t k h d)) t' k' of None \<Rightarrow> True
      | Some r \<Rightarrow> rec_status r = Completed \<longrightarrow> rec_code r \<noteq> None"
    by (auto simp: db.reserve_look)
qed

lemma stores_agree_finalize:
  assumes agree: "stores_agree m d" and t: "plain_tenant t" and b: "stored_body b = b"
  shows "stores_agree (finalize_memory t k s (Some c) b m) (finalize_db t k s (Some c) b d)"
  unfolding stores_agree_def
proof (intro allI impI conjI)
  fix t' k' assume t': "plain_tenant t'"
  with assms show "memory_look (finalize_memory t k s (Some c) b m) t' k' = find_row (finalize_db t k s (Some c) b d) t' k'"
    by (simp add: mem.finalize_look db.finalize_look stores_agree_look)
  show "case find_row (finalize_db t k s (Some c) b d) t' k' of None \<Rightarrow> True
      | Some r \<Rightarrow> rec_status r = Completed \<longrightarrow> rec_code r \<noteq> None"
    using agree t' by (auto simp: db.finalize_look stores_agree_def split: option.splits)
qed

lemma memory_refines_parts:
  assumes "stores_agree m d"
  shows "(\<forall>tenant. req_tenant r = Some tenant \<longrightarrow> plain_tenant tenant) \<Longrightarrow>
      fst (idempotency_middleware reserve_memory hash_of tid r m) = fst (idempotency_middleware reserve_db hash_of tid r d) \<and>
      stores_agree (snd (idempotency_middleware reserve_memory hash_of tid r m)) (snd (idempotency_middleware reserve_db hash_of tid r d))"
    and "plain_tenant t \<Longrightarrow> (case e of Responded c b \<Rightarrow> stored_body b = b | Closed c \<Rightarrow> True) \<Longrightarrow>
      stores_agree (finish_request finalize_memory t k e m) (finish_request finalize_db t k e d)"
proof -
  assume plain: "\<forall>tenant. req_tenant r = Some tenant \<longrightarrow> plain_tenant tenant"
  show "fst (idempotency_middleware reserve_memory hash_of tid r m) = fst (idempotency_middleware reserve_db hash_of tid r d) \<and>
    stores_agree (snd (idempotency_middleware reserve_memory hash_of tid r m)) (snd (idempotency_middleware reserve_db hash_of tid r d))"
  proof (cases "\<exists>t k. tracked r t k")
    case True
    then obtain t k where tr: "tracked r t k" by blast
    with plain have "plain_tenant t" by (simp add: tracked_def)
    with tr stores_agree_answer [OF assms, of t k "hash_of r"] stores_agree_reserve [OF assms, of t k "hash_of r"]
    show ?thesis by (auto simp: tracked_def idem_simps split: prod.splits reservation.splits)
  next
    case False
    then show ?thesis using assms by (auto simp: tracked_def idem_simps split: option.splits)
  qed
next
  assume "plain_tenant t" and "case e of Responded c b \<Rightarrow> stored_body b = b | Closed c \<Rightarrow> True"
  moreover have "stored_body JNull = JNull" by (simp add: stored_body_def)
  ultimately show "stores_agree (finish_request finalize_memory t k e m) (finish_request finalize_db t k e d)"
    using stores_agree_finalize [OF assms] by (cases e) (auto simp: finish_request_def Let_def)
qed

text \<open>C30: The store in memory refines the table: from stores that agree on the tenants without a colon in
  their name, the middleware decides the same for a request of such a tenant, and the stores agree
  after it and after the write of the end of a handler of such a tenant, when the body of a success is the
  same after JSON as before.\<close>

theorem memory_store_refines_table:
  assumes "stores_agree m d"
  shows "((\<forall>tenant. req_tenant r = Some tenant \<longrightarrow> plain_tenant tenant) \<longrightarrow>
      fst (idempotency_middleware reserve_memory hash_of tid r m) = fst (idempotency_middleware reserve_db hash_of tid r d) \<and>
      stores_agree (snd (idempotency_middleware reserve_memory hash_of tid r m)) (snd (idempotency_middleware reserve_db hash_of tid r d)))
    \<and> (plain_tenant t \<and> (case e of Responded c b \<Rightarrow> stored_body b = b | Closed c \<Rightarrow> True) \<longrightarrow>
      stores_agree (finish_request finalize_memory t k e m) (finish_request finalize_db t k e d))"
  using memory_refines_parts [OF assms] by blast

text \<open>A key whose handler was lost: its record says it is processing, and nobody owns it.\<close>

definition orphaned :: "string \<Rightarrow> string \<Rightarrow> idem_table idem_server \<Rightarrow> bool" where
  "orphaned t k s \<longleftrightarrow> (case find_row (srv_store s) t k of None \<Rightarrow> False | Some r \<Rightarrow> rec_status r = Processing)
     \<and> (\<forall>h \<in> set (srv_open s) \<union> set (srv_ended s) \<union> fst ` set (srv_writes s). \<not> of_key t k h)"

lemma orphaned_subset:
  "orphaned t k s \<Longrightarrow> find_row (srv_store s') t k = find_row (srv_store s) t k \<Longrightarrow>
   (\<And>h. h \<in> set (srv_open s') \<union> set (srv_ended s') \<union> fst ` set (srv_writes s') \<Longrightarrow> of_key t k h \<Longrightarrow>
     h \<in> set (srv_open s) \<union> set (srv_ended s) \<union> fst ` set (srv_writes s)) \<Longrightarrow> orphaned t k s'"
  unfolding orphaned_def by auto

lemma orphaned_step:
  assumes "idem_step reserve_db finalize_db hash_of tid s ys s'" and "orphaned t k s"
  shows "orphaned t k s'"
  using assms(1)
proof cases
  case (idem_arrive r d st')
  show ?thesis
  proof (cases rule: db.middleware_cases [of hash_of tid r "srv_store s"])
    case pass
    with idem_arrive assms(2) show ?thesis by (simp add: orphaned_def)
  next
    case (ask t' k')
    have st': "st' = snd (reserve_db t' k' (hash_of r) (srv_store s))" using ask idem_arrive by simp
    obtain r' where r': "find_row (srv_store s) t k = Some r'" "rec_status r' = Processing"
      using assms(2) by (auto simp: orphaned_def split: option.splits)
    then have same: "find_row st' t k = find_row (srv_store s) t k"
      by (auto simp: st' db.reserve_look)
    have "\<forall>h \<in> set (started (srv_next s) d). \<not> of_key t k h"
    proof (cases "t' = t \<and> k' = k")
      case True
      with r' have "fst (reserve_db t' k' (hash_of r) (srv_store s)) \<noteq> Owned"
        by (auto simp: db.reserve_answer)
      with ask(4) [of "srv_next s"] idem_arrive show ?thesis by simp
    next
      case False
      with ask(4) [of "srv_next s"] idem_arrive show ?thesis by (auto simp: of_key_def)
    qed
    with same idem_arrive assms(2) show ?thesis by (auto simp: orphaned_def)
  qed
next
  case (idem_json h c b)
  from assms(2) show ?thesis unfolding idem_json(2)
    by (rule orphaned_subset) (use idem_json(3) in \<open>auto simp: end_handler_def dest: set_remove1_subset [THEN subsetD]\<close>)
next
  case (idem_close h c)
  from assms(2) show ?thesis unfolding idem_close(2)
    by (rule orphaned_subset) (use idem_close(3) in \<open>auto simp: end_handler_def dest: set_remove1_subset [THEN subsetD]\<close>)
next
  case (idem_store h e)
  then have "\<not> of_key t k h" using assms(2) by (force simp: orphaned_def)
  then have "find_row (finish_request finalize_db (run_tenant h) (run_key h) e (srv_store s)) t k = find_row (srv_store s) t k"
    by (auto simp: db.finish_look of_key_def)
  with assms(2) show ?thesis unfolding idem_store(2)
    by (intro orphaned_subset [OF assms(2)]) (auto dest: set_remove1_subset [THEN subsetD])
next
  case (idem_leave h h')
  from assms(2) show ?thesis unfolding idem_leave(2)
    by (rule orphaned_subset) (auto dest: set_remove1_subset [THEN subsetD])
next
  case (idem_fail w)
  from assms(2) show ?thesis unfolding idem_fail(2)
    by (rule orphaned_subset) (auto dest: set_remove1_subset [THEN subsetD])
qed

interpretation orphans: step_invariant "idem_step reserve_db finalize_db hash_of tid" "orphaned t k" for hash_of tid t k
  by unfold_locales (rule orphaned_step)

lemma orphaned_answer:
  assumes "orphaned t k s" and "tracked r t k"
  shows "\<exists>body. fst (idempotency_middleware reserve_db hash_of tid r (srv_store s)) = Answer 409 body"
proof -
  from assms(1) obtain r' where r': "find_row (srv_store s) t k = Some r'" "rec_status r' = Processing"
    by (auto simp: orphaned_def split: option.splits)
  then have "fst (reserve_db t k (hash_of r) (srv_store s)) \<in> {Conflict, InProgress}"
    by (auto simp: db.reserve_answer)
  with assms(2) show ?thesis by (auto simp: tracked_def idem_simps split: prod.splits reservation.splits)
qed

text \<open>A key whose handler is lost stays blocked: the record says it is processing and nothing ever
  reclaims it, so that, whatever else happens, every later request with the key is answered 409.\<close>

theorem lost_handler_blocks_its_key:
  assumes "trace (idem_step reserve_db finalize_db hash_of tid) s xs s'"
    and "orphaned t k s" and "tracked r t k"
  shows "\<exists>body. fst (idempotency_middleware reserve_db hash_of tid r (srv_store s')) = Answer 409 body"
  using orphans.inv_trace [OF assms(1,2)] assms(3) by (rule orphaned_answer)

subsection \<open>Witnesses\<close>

definition ex_request :: "request" where
  "ex_request = \<lparr>req_method = ''POST'', req_url = ''/q'', req_path = ''/q'', req_body = JNull,
     req_key = Some ''k7'', req_tenant = Some ''acme''\<rparr>"

lemma ex_tracked: "tracked ex_request ''acme'' ''k7''"
  unfolding tracked_def ex_request_def by code_simp

definition ex_rows :: "idem_status \<Rightarrow> int option \<Rightarrow> jsval \<Rightarrow> idem_table" where
  "ex_rows status code body = [\<lparr>row_tenant = ''acme'', row_key = ''k7'', row_record =
     \<lparr>rec_hash = ''/q'', rec_status = status, rec_code = code, rec_body = body\<rparr>\<rparr>]"

definition ex_handler :: "nat \<Rightarrow> handler" where
  "ex_handler n = \<lparr>run_id = n, run_tenant = ''acme'', run_key = ''k7'', run_hash = ''/q''\<rparr>"

definition ex_server :: "idem_table \<Rightarrow> handler list \<Rightarrow> handler list \<Rightarrow> (handler \<times> ending) list \<Rightarrow> nat \<Rightarrow> idem_table idem_server" where
  "ex_server st hs es ws n = \<lparr>srv_store = st, srv_open = hs, srv_ended = es, srv_writes = ws, srv_next = n\<rparr>"

abbreviation ex_ok :: ending where
  "ex_ok \<equiv> Responded 201 (JStr ''ok'')"

lemma ex_store:
  "finish_request finalize_db ''acme'' ''k7'' ex_ok (ex_rows Processing None JNull) = ex_rows Completed (Some 201) (JStr ''ok'')"
  "finish_request finalize_db ''acme'' ''k7'' (Closed 0) (ex_rows Processing None JNull) = ex_rows Failed (Some 500) JNull"
  by code_simp+

lemma ex_reserve:
  "idempotency_middleware reserve_db req_url ''x'' ex_request [] = (Run ''acme'' ''k7'' ''/q'', ex_rows Processing None JNull)"
  "idempotency_middleware reserve_db req_url ''x'' ex_request (ex_rows Failed (Some 500) JNull) =
    (Run ''acme'' ''k7'' ''/q'', ex_rows Processing None JNull)"
  by code_simp+

abbreviation ex_run :: "idem_table idem_server \<Rightarrow> idem_event list \<Rightarrow> idem_table idem_server \<Rightarrow> bool" where
  "ex_run \<equiv> trace (idem_step reserve_db finalize_db req_url ''x'')"

lemma ex_arrive:
  assumes "ex_run (idle []) xs (ex_server st hs es ws n)" and "st = [] \<or> st = ex_rows Failed (Some 500) JNull"
  shows "ex_run (idle []) (xs @ [Arrived ex_request (Run ''acme'' ''k7'' ''/q'')])
    (ex_server (ex_rows Processing None JNull) (ex_handler n # hs) es ws (Suc n))"
proof -
  have "idem_step reserve_db finalize_db req_url ''x'' (ex_server st hs es ws n) [Arrived ex_request (Run ''acme'' ''k7'' ''/q'')]
    (ex_server (ex_rows Processing None JNull) (ex_handler n # hs) es ws (Suc n))"
    using assms(2) idem_arrive [of reserve_db req_url "''x''" ex_request "ex_server st hs es ws n" "Run ''acme'' ''k7'' ''/q''"
        "ex_rows Processing None JNull" finalize_db] ex_reserve
    by (auto simp: ex_server_def ex_handler_def)
  with assms(1) show ?thesis by (rule trace_more)
qed

lemma ex_end:
  assumes "ex_run (idle []) xs (ex_server st hs es ws n)" and "h \<in> set hs \<or> h \<in> set es \<and> e = Responded c b"
  shows "ex_run (idle []) (xs @ [Ended h e]) (ex_server st (remove1 h hs) (h # es) ((h, e) # ws) n)"
proof -
  have "idem_step reserve_db finalize_db req_url ''x'' (ex_server st hs es ws n) [Ended h e]
    (ex_server st (remove1 h hs) (h # es) ((h, e) # ws) n)"
    using assms(2) idem_json [of h "ex_server st hs es ws n"] idem_close [of h "ex_server st hs es ws n"]
    by (cases e) (auto simp: ex_server_def end_handler_def)
  with assms(1) show ?thesis by (rule trace_more)
qed

lemma ex_stored:
  assumes "ex_run (idle []) xs (ex_server (ex_rows Processing None JNull) hs es ((ex_handler i, e) # ws) n)"
  shows "ex_run (idle []) (xs @ [Stored (ex_handler i) e])
    (ex_server (finish_request finalize_db ''acme'' ''k7'' e (ex_rows Processing None JNull)) hs es ws n)"
proof -
  have "idem_step reserve_db finalize_db req_url ''x'' (ex_server (ex_rows Processing None JNull) hs es ((ex_handler i, e) # ws) n)
    [Stored (ex_handler i) e] (ex_server (finish_request finalize_db ''acme'' ''k7'' e (ex_rows Processing None JNull)) hs es ws n)"
    using idem_store [of "ex_handler i" e "ex_server (ex_rows Processing None JNull) hs es ((ex_handler i, e) # ws) n"]
    by (simp add: ex_server_def ex_handler_def)
  with assms show ?thesis by (rule trace_more)
qed

lemma ex_begin: "ex_run (idle []) [] (ex_server [] [] [] [] 0)"
  using trace_start [of _ "idle []"] by (simp add: idle_def ex_server_def)

lemma ex_arrived: "ex_run (idle []) [Arrived ex_request (Run ''acme'' ''k7'' ''/q'')]
  (ex_server (ex_rows Processing None JNull) [ex_handler 0] [] [] 1)"
  using ex_arrive [OF ex_begin] by simp

definition ex_history :: "idem_event list" where
  "ex_history = [Arrived ex_request (Run ''acme'' ''k7'' ''/q''), Ended (ex_handler 0) ex_ok, Stored (ex_handler 0) ex_ok]"

lemma ex_trace: "ex_run (idle []) ex_history (ex_server (ex_rows Completed (Some 201) (JStr ''ok'')) [] [ex_handler 0] [] 1)"
  using ex_stored [OF ex_end [OF ex_arrived, of "ex_handler 0" ex_ok, simplified]] by (simp add: ex_history_def ex_store)

lemma ex_history_ends:
  "end_once ''acme'' ''k7'' ex_history" "successes ''acme'' ''k7'' ex_history = [(''/q'', 201, JStr ''ok'')]"
  "stored_successes ''acme'' ''k7'' ex_history = [(''/q'', 201, JStr ''ok'')]"
  by code_simp+

lemma key_succeeds_at_most_once_witness:
  "successes ''acme'' ''k7'' ex_history = [(''/q'', 201, JStr ''ok'')] \<and> length (successes ''acme'' ''k7'' ex_history) \<le> 1"
  using key_succeeds_at_most_once [OF ex_trace ex_history_ends(1)] ex_history_ends(2) by simp

lemma success_is_replayed_witness:
  "idempotency_middleware reserve_db req_url ''x'' ex_request (ex_rows Completed (Some 201) (JStr ''ok'')) =
    (Answer 201 (JStr ''ok''), ex_rows Completed (Some 201) (JStr ''ok''))"
  using success_is_replayed [OF ex_trace ex_history_ends(1) _ ex_tracked, of "''/q''" 201 "JStr ''ok''"]
  by (simp add: ex_history_ends ex_request_def stored_body_def ex_server_def)

text \<open>A handler that goes on after its connection closed: the record says it failed, a retry runs the handler a
  second time while the first is under way, and both succeed.\<close>

lemma closed_connection_runs_twice:
  "\<exists>xs s. ex_run (idle []) xs s \<and>
     successes ''acme'' ''k7'' xs = [(''/q'', 201, JStr ''ok''), (''/q'', 201, JStr ''ok'')]"
proof -
  note closed = ex_end [OF ex_arrived, of "ex_handler 0" "Closed 0", simplified]
  note retried = ex_arrive [OF ex_stored [OF closed], unfolded ex_store, simplified]
  note first = ex_end [OF retried, of "ex_handler 0" ex_ok 201 "JStr ''ok''", simplified]
  have "ex_handler 1 \<in> set (remove1 (ex_handler 0) [ex_handler 1])" by (simp add: ex_handler_def)
  with ex_end [OF first, of "ex_handler 1" ex_ok] obtain s where
    "ex_run (idle []) [Arrived ex_request (Run ''acme'' ''k7'' ''/q''), Ended (ex_handler 0) (Closed 0),
       Stored (ex_handler 0) (Closed 0), Arrived ex_request (Run ''acme'' ''k7'' ''/q''),
       Ended (ex_handler 0) ex_ok, Ended (ex_handler 1) ex_ok] s"
    by auto
  moreover have "successes ''acme'' ''k7'' [Arrived ex_request (Run ''acme'' ''k7'' ''/q''), Ended (ex_handler 0) (Closed 0),
       Stored (ex_handler 0) (Closed 0), Arrived ex_request (Run ''acme'' ''k7'' ''/q''),
       Ended (ex_handler 0) ex_ok, Ended (ex_handler 1) ex_ok] = [(''/q'', 201, JStr ''ok''), (''/q'', 201, JStr ''ok'')]"
    by code_simp
  ultimately show ?thesis by blast
qed

lemma memory_store_refines_table_witness:
  "fst (idempotency_middleware reserve_memory req_url ''x'' ex_request []) = Run ''acme'' ''k7'' ''/q'' \<and>
   stores_agree (finish_request finalize_memory ''acme'' ''k7'' (Closed 0) []) (finish_request finalize_db ''acme'' ''k7'' (Closed 0) [])"
proof -
  have start: "stores_agree [] []" by (simp add: stores_agree_def memory_look_def find_row_def)
  have "plain_tenant ''acme''" by code_simp
  with memory_store_refines_table [OF start] ex_reserve(1) show ?thesis by (simp add: ex_request_def)
qed

lemma lost_handler_blocks_its_key_witness:
  "\<exists>body. fst (idempotency_middleware reserve_db req_url ''x'' ex_request (ex_rows Processing None JNull)) = Answer 409 body"
proof -
  have "orphaned ''acme'' ''k7'' (ex_server (ex_rows Processing None JNull) [] [] [] 1)"
    by (simp add: orphaned_def ex_server_def ex_rows_def find_row_def)
  from lost_handler_blocks_its_key [OF trace_start this ex_tracked, of req_url "''x''"] show ?thesis
    by (simp add: ex_server_def)
qed

end
