(* ===== verification/PolicyStatus.thy ===== *)
theory PolicyStatus
  imports TransactionState DateUtils
begin

text \<open>
  The status a policy is shown with, and the filter on it, \<open>server/src/lib/policy.utils.ts\<close>. The
  filter exists twice in the source: as a condition of the SQL query and as a test in memory. A
  condition is kept as its syntax tree; \<open>clause_text\<close> is the text that goes into the query and
  \<open>clause_holds\<close> its value for a row, where the dates are columns of the type \<open>date\<close>.
\<close>

datatype status_filter = AnyStatus | IsDraft | IsRated | IsBind | IsIssued | IsInforced | IsExpired | IsCancelled

primrec filter_name :: "status_filter \<Rightarrow> string" where
  "filter_name AnyStatus = []" | "filter_name IsDraft = ''Draft''" | "filter_name IsRated = ''Rated''"
| "filter_name IsBind = ''Bind''" | "filter_name IsIssued = ''Issued''" | "filter_name IsInforced = ''Inforced''"
| "filter_name IsExpired = ''Expired''" | "filter_name IsCancelled = ''Cancelled''"

definition FILTERS :: "status_filter list" where
  "FILTERS = [IsDraft, IsRated, IsBind, IsIssued, IsInforced, IsExpired, IsCancelled]"

definition capitalize :: "string \<Rightarrow> string" where
  "capitalize s = upper (take 1 s) @ drop 1 s"

definition derive_policy_workflow_status :: "host \<Rightarrow> jsval \<Rightarrow> jsval \<Rightarrow> jsval \<Rightarrow> string" where
  "derive_policy_workflow_status h raw effective expiration =
     (let normalized = lower (status_text raw); today = today_str h;
          eff = coerce_date_only h effective (Some today); expi = coerce_date_only h expiration (Some today)
      in if normalized = ''cancelled'' then ''Cancelled''
         else if expi < today then ''Expired''
         else if normalized = ''bound'' then ''Bind''
         else if normalized = ''issued'' then (if eff \<le> today \<and> today \<le> expi then ''Inforced'' else ''Issued'')
         else if normalized = ''rated'' then ''Rated''
         else if normalized = ''draft'' \<or> normalized = ''quote'' then ''Draft''
         else if normalized = [] then ''Draft''
         else capitalize normalized)"

definition normalize_policy_status_filter :: "jsval \<Rightarrow> status_filter" where
  "normalize_policy_status_filter raw =
     (let normalized = lower (status_text raw)
      in if normalized = [] then AnyStatus
         else if normalized = ''bound'' \<or> normalized = ''bind'' then IsBind
         else if normalized = ''inforce'' \<or> normalized = ''inforced'' then IsInforced
         else if normalized = ''cancelled'' \<or> normalized = ''canceled'' then IsCancelled
         else if normalized = ''draft'' then IsDraft
         else if normalized = ''rated'' then IsRated
         else if normalized = ''issued'' then IsIssued
         else if normalized = ''expired'' then IsExpired
         else AnyStatus)"

subsection \<open>The condition of the query\<close>

datatype clause =
    StatusIs string
  | StatusIsNot string
  | StatusIn "string list"
  | EffectiveAfter nat
  | EffectiveUpTo nat
  | ExpiresFrom nat
  | ExpiresBefore nat
  | Both clause clause
  | Either clause clause

record columns =
  status_column :: string
  effective_column :: string
  expiration_column :: string

definition sql_quote :: "string \<Rightarrow> string" where
  "sql_quote s = [CHR 39] @ s @ [CHR 39]"

fun clause_text :: "columns \<Rightarrow> clause \<Rightarrow> string" where
  "clause_text cols (StatusIs s) = ''LOWER('' @ status_column cols @ ''::text) = '' @ sql_quote s"
| "clause_text cols (StatusIsNot s) = ''LOWER('' @ status_column cols @ ''::text) <> '' @ sql_quote s"
| "clause_text cols (StatusIn ss) =
     ''LOWER('' @ status_column cols @ ''::text) IN ('' @ join '','' (map sql_quote ss) @ '')''"
| "clause_text cols (EffectiveAfter i) = effective_column cols @ '' > $'' @ nat_str i"
| "clause_text cols (EffectiveUpTo i) = effective_column cols @ '' <= $'' @ nat_str i"
| "clause_text cols (ExpiresFrom i) = expiration_column cols @ '' >= $'' @ nat_str i"
| "clause_text cols (ExpiresBefore i) = expiration_column cols @ '' < $'' @ nat_str i"
| "clause_text cols (Both a b) = clause_text cols a @ '' AND '' @ clause_text cols b"
| "clause_text cols (Either a b) = ''('' @ clause_text cols a @ '' OR ('' @ clause_text cols b @ ''))''"

record policy_row =
  p_status :: string
  p_effective :: string
  p_expiration :: string

text \<open>A date column against the parameter \<open>$i\<close>, by days.\<close>

definition compare_days :: "(int \<Rightarrow> int \<Rightarrow> bool) \<Rightarrow> string \<Rightarrow> string list \<Rightarrow> nat \<Rightarrow> bool" where
  "compare_days rel column params i =
     (case (parse_day column, if 0 < i \<and> i \<le> length params then parse_day (params ! (i - 1)) else None) of
        (Some a, Some b) \<Rightarrow> rel a b
      | _ \<Rightarrow> False)"

fun clause_holds :: "policy_row \<Rightarrow> string list \<Rightarrow> clause \<Rightarrow> bool" where
  "clause_holds row params (StatusIs s) = (lower (p_status row) = s)"
| "clause_holds row params (StatusIsNot s) = (lower (p_status row) \<noteq> s)"
| "clause_holds row params (StatusIn ss) = (lower (p_status row) \<in> set ss)"
| "clause_holds row params (EffectiveAfter i) = compare_days (>) (p_effective row) params i"
| "clause_holds row params (EffectiveUpTo i) = compare_days (\<le>) (p_effective row) params i"
| "clause_holds row params (ExpiresFrom i) = compare_days (\<ge>) (p_expiration row) params i"
| "clause_holds row params (ExpiresBefore i) = compare_days (<) (p_expiration row) params i"
| "clause_holds row params (Both a b) = (clause_holds row params a \<and> clause_holds row params b)"
| "clause_holds row params (Either a b) = (clause_holds row params a \<or> clause_holds row params b)"

text \<open>The condition of a filter that needs the day; \<open>None\<close> for the two filters that do not.\<close>

fun dated_clause :: "status_filter \<Rightarrow> nat \<Rightarrow> clause option" where
  "dated_clause IsDraft i = Some (Both (StatusIn [''draft'', ''quote'']) (ExpiresFrom i))"
| "dated_clause IsRated i = Some (Both (StatusIs ''rated'') (ExpiresFrom i))"
| "dated_clause IsBind i = Some (Both (StatusIs ''bound'') (ExpiresFrom i))"
| "dated_clause IsIssued i = Some (Both (StatusIs ''issued'') (Both (EffectiveAfter i) (ExpiresFrom i)))"
| "dated_clause IsInforced i = Some (Both (StatusIs ''issued'') (Both (EffectiveUpTo i) (ExpiresFrom i)))"
| "dated_clause IsExpired i =
     Some (Either (StatusIs ''expired'') (Both (StatusIsNot ''cancelled'') (ExpiresBefore i)))"
| "dated_clause _ i = None"

definition append_policy_status_filter_clause ::
  "host \<Rightarrow> status_filter \<Rightarrow> clause list \<times> string list \<times> nat \<Rightarrow> clause list \<times> string list \<times> nat" where
  "append_policy_status_filter_clause h f q =
     (let (clauses, params, idx) = q
      in if f = AnyStatus then q
         else if f = IsCancelled then (clauses @ [StatusIs ''cancelled''], params, idx)
         else (case dated_clause f idx of
                 None \<Rightarrow> q
               | Some c \<Rightarrow> (clauses @ [c], params @ [today_str h], idx + 1)))"

definition matches_policy_status_filter :: "host \<Rightarrow> status_filter \<Rightarrow> jsval \<Rightarrow> jsval \<Rightarrow> jsval \<Rightarrow> bool" where
  "matches_policy_status_filter h f raw effective expiration =
     (if f = AnyStatus then True
      else if f = IsIssued then
        (if lower (status_text raw) \<noteq> ''issued'' then False
         else (let today = today_str h;
                   eff = coerce_date_only h effective (Some today); expi = coerce_date_only h expiration (Some today)
               in today < eff \<and> today \<le> expi))
      else derive_policy_workflow_status h raw effective expiration = filter_name f)"

subsection \<open>Capital letters\<close>

lemma char_of_ccode [simp]: "char_of (ccode c) = c"
  by (simp add: ccode_def)

lemma to_upper_capital:
  assumes low: "to_lower x = x" and up: "is_upper c" and c: "to_upper x = c # cs" and s: "c \<noteq> CHR ''S''"
  shows "x = to_lower c \<and> cs = []"
proof -
  have x: "ccode x < 256" by simp
  have n: "\<not> (65 \<le> ccode x \<and> ccode x \<le> 90)"
  proof
    assume r: "65 \<le> ccode x \<and> ccode x \<le> 90"
    with low have "char_of (ccode x + 32) = x" by (simp add: to_lower_def)
    then have "ccode (char_of (ccode x + 32)) = ccode x" by simp
    with r show False by simp
  qed
  have "ccode x \<noteq> 223" using c s by (auto simp: to_upper_def)
  with c n up x show ?thesis
    by (auto simp: to_upper_def to_lower_def is_upper_def Let_def split: if_splits)
qed

lemma capitalize_eq:
  assumes "lower s = s" and "is_upper c" and "c \<noteq> CHR ''S''"
  shows "capitalize s = c # w \<longleftrightarrow> s = to_lower c # w"
proof
  assume eq: "capitalize s = c # w"
  show "s = to_lower c # w"
  proof (cases s)
    case (Cons x xs)
    from assms(1) Cons have low: "to_lower x = x" by (simp add: lower_def)
    obtain d ds where d: "to_upper x = d # ds" by (cases "to_upper x") (auto simp: to_upper_def Let_def split: if_splits)
    with eq Cons have "d = c" by (simp add: capitalize_def upper_def)
    with to_upper_capital [OF low assms(2) _ assms(3), of ds] d eq Cons show ?thesis
      by (simp add: capitalize_def upper_def)
  qed (use eq in \<open>simp add: capitalize_def upper_def\<close>)
next
  assume "s = to_lower c # w"
  with assms(2) show "capitalize s = c # w"
    by (auto simp: capitalize_def upper_def to_lower_def to_upper_def is_upper_def Let_def)
qed

lemma capitalize_filter_name:
  "lower s = s \<Longrightarrow> f \<noteq> AnyStatus \<Longrightarrow> capitalize s = filter_name f \<longleftrightarrow> s = lower (filter_name f)"
  by (cases f) (auto simp: capitalize_eq is_upper_def lower_def ccode_def to_lower_def)

subsection \<open>Both filters are the shown status\<close>

definition known_status :: "string \<Rightarrow> bool" where
  "known_status s \<longleftrightarrow> s \<notin> set [[], ''bind'', ''inforced'']"

lemma lower_names [simp]:
  "lower ''Draft'' = ''draft''" "lower ''Rated'' = ''rated''" "lower ''Bind'' = ''bind''" "lower ''Issued'' = ''issued''"
  "lower ''Inforced'' = ''inforced''" "lower ''Expired'' = ''expired''" "lower ''Cancelled'' = ''cancelled''"
  by code_simp+

lemmas status_defs = derive_policy_workflow_status_def matches_policy_status_filter_def Let_def

lemma filter_name_inj: "filter_name f = filter_name g \<longleftrightarrow> f = g"
  by (cases f; cases g) auto

text \<open>The filter a policy falls under, if its status is one of the known names.\<close>

definition filter_of :: "string \<Rightarrow> string \<Rightarrow> string \<Rightarrow> string \<Rightarrow> status_filter option" where
  "filter_of s today eff expi =
     (if s = ''cancelled'' then Some IsCancelled else if expi < today then Some IsExpired
      else if s = ''bound'' then Some IsBind
      else if s = ''issued'' then Some (if eff \<le> today then IsInforced else IsIssued)
      else if s = ''rated'' then Some IsRated
      else if s = ''draft'' \<or> s = ''quote'' \<or> s = [] then Some IsDraft else None)"

lemma filter_of_not_any: "filter_of s today eff expi \<noteq> Some AnyStatus"
  by (simp add: filter_of_def)

lemma shown_by_filter:
  fixes h raw effective expiration
  defines "today \<equiv> today_str h" and "s \<equiv> lower (status_text raw)"
  defines "eff \<equiv> coerce_date_only h effective (Some today)" and "expi \<equiv> coerce_date_only h expiration (Some today)"
  shows "derive_policy_workflow_status h raw effective expiration =
    (case filter_of s today eff expi of None \<Rightarrow> capitalize s | Some f \<Rightarrow> filter_name f)"
proof -
  have d: "derive_policy_workflow_status h raw effective expiration =
    (if s = ''cancelled'' then ''Cancelled''
         else if expi < today then ''Expired''
         else if s = ''bound'' then ''Bind''
         else if s = ''issued'' then (if eff \<le> today \<and> today \<le> expi then ''Inforced'' else ''Issued'')
         else if s = ''rated'' then ''Rated''
         else if s = ''draft'' \<or> s = ''quote'' then ''Draft''
         else if s = [] then ''Draft''
         else capitalize s)"
    by (simp only: derive_policy_workflow_status_def Let_def today_def s_def eff_def expi_def)
  show ?thesis unfolding d filter_of_def by (simp add: not_le [symmetric])
qed
lemma shown_is_filter:
  assumes "f \<noteq> AnyStatus"
  shows "derive_policy_workflow_status h raw effective expiration = filter_name f \<longleftrightarrow>
     (let s = lower (status_text raw); today = today_str h
      in case filter_of s today (coerce_date_only h effective (Some today)) (coerce_date_only h expiration (Some today)) of
           None \<Rightarrow> s = lower (filter_name f) | Some g \<Rightarrow> g = f)"
proof -
  have "capitalize (lower (status_text raw)) = filter_name f \<longleftrightarrow> lower (status_text raw) = lower (filter_name f)"
    by (rule capitalize_filter_name) (simp_all add: assms)
  then show ?thesis
    unfolding shown_by_filter Let_def by (simp only: filter_name_inj split: option.split) simp
qed

lemma matches_is_shown:
  assumes "f \<noteq> AnyStatus"
  shows "matches_policy_status_filter h f raw effective expiration \<longleftrightarrow>
     derive_policy_workflow_status h raw effective expiration = filter_name f"
proof (cases "f = IsIssued")
  case True
  then show ?thesis unfolding shown_is_filter [OF assms] matches_policy_status_filter_def
    by (simp add: Let_def filter_of_def) auto
next
  case False
  with assms show ?thesis by (simp add: matches_policy_status_filter_def)
qed

lemmas matches_iff = trans [OF matches_is_shown shown_is_filter]

lemma compare_days_dates:
  assumes "calendar_date a" and "calendar_date today" and i: "i = Suc (length params)"
  shows "compare_days (<) a (params @ [today] @ rest) i \<longleftrightarrow> a < today"
    and "compare_days (\<le>) a (params @ [today] @ rest) i \<longleftrightarrow> a \<le> today"
    and "compare_days (>) a (params @ [today] @ rest) i \<longleftrightarrow> today < a"
    and "compare_days (\<ge>) a (params @ [today] @ rest) i \<longleftrightarrow> today \<le> a"
  using assms by (auto elim!: calendar_dateE simp: compare_days_def nth_append iso_date_less iso_date_le)

lemma status_text_str: "trim s = s \<Longrightarrow> status_text (JStr s) = s"
  by (cases "s = []") (simp_all add: status_text_def str_or_empty_def js_or_def)

lemma coerce_calendar [simp]: "calendar_date s \<Longrightarrow> coerce_date_only h (JStr s) f = s"
  by (simp add: calendar_date_only)

text \<open>What each filter asks of the status and the dates.\<close>

fun filter_meaning :: "status_filter \<Rightarrow> string \<Rightarrow> string \<Rightarrow> string \<Rightarrow> string \<Rightarrow> bool" where
  "filter_meaning AnyStatus s today eff expi = True"
| "filter_meaning IsDraft s today eff expi = (s \<in> {''draft'', ''quote''} \<and> today \<le> expi)"
| "filter_meaning IsRated s today eff expi = (s = ''rated'' \<and> today \<le> expi)"
| "filter_meaning IsBind s today eff expi = (s = ''bound'' \<and> today \<le> expi)"
| "filter_meaning IsIssued s today eff expi = (s = ''issued'' \<and> today < eff \<and> today \<le> expi)"
| "filter_meaning IsInforced s today eff expi = (s = ''issued'' \<and> eff \<le> today \<and> today \<le> expi)"
| "filter_meaning IsExpired s today eff expi = (s = ''expired'' \<or> s \<noteq> ''cancelled'' \<and> expi < today)"
| "filter_meaning IsCancelled s today eff expi = (s = ''cancelled'')"

lemma filter_of_meaning:
  assumes "known_status s" and "f \<noteq> AnyStatus"
  shows "(case filter_of s today eff expi of None \<Rightarrow> s = lower (filter_name f) | Some g \<Rightarrow> g = f)
    \<longleftrightarrow> filter_meaning f s today eff expi"
proof -
  from assms(1) have s: "s \<noteq> []" "s \<noteq> ''bind''" "s \<noteq> ''inforced''" by (auto simp: known_status_def)
  show ?thesis using assms(2) s unfolding filter_of_def
    by (cases f) (simp_all add: not_le [symmetric])
qed

lemma clause_meaning:
  assumes "calendar_date today" and "calendar_date (p_effective row)" and "calendar_date (p_expiration row)"
    and "dated_clause f (Suc (length params)) = Some c"
  shows "clause_holds row (params @ [today] @ rest) c \<longleftrightarrow>
    filter_meaning f (lower (p_status row)) today (p_effective row) (p_expiration row)"
  using assms(4) compare_days_dates [OF assms(3,1) refl, of params rest] compare_days_dates [OF assms(2,1) refl, of params rest]
  by (cases f) (clarsimp, simp?)+

text \<open>C33: The condition the SQL query gets holds for a row exactly when the filter in memory accepts it:
  the status is one the column can have (not empty, without surrounding space, none of the names a
  filter has and a status has not), the dates are calendar dates, and the parameters grow by the day
  the new condition refers to, whatever conditions and parameters follow.\<close>

theorem query_filter_is_memory_filter:
  assumes "append_policy_status_filter_clause h f (clauses, params, Suc (length params)) = (clauses', params', idx')"
    and "trim (p_status row) = p_status row" and "known_status (lower (p_status row))"
    and "calendar_date (today_str h)" and "calendar_date (p_effective row)" and "calendar_date (p_expiration row)"
  shows "idx' = Suc (length params') \<and> (\<exists>added cs. params' = params @ added \<and> clauses' = clauses @ cs \<and>
     (list_all (clause_holds row (params' @ rest)) cs \<longleftrightarrow>
      matches_policy_status_filter h f (JStr (p_status row)) (JStr (p_effective row)) (JStr (p_expiration row))))"
proof (cases "f = AnyStatus")
  case True
  with assms(1) show ?thesis by (auto simp: append_policy_status_filter_clause_def matches_policy_status_filter_def)
next
  case False
  have "matches_policy_status_filter h f (JStr (p_status row)) (JStr (p_effective row)) (JStr (p_expiration row))
      \<longleftrightarrow> filter_meaning f (lower (p_status row)) (today_str h) (p_effective row) (p_expiration row)"
    using filter_of_meaning [OF assms(3) False] status_text_str [OF assms(2)]
    by (simp add: matches_iff [OF False False] assms(4-6))
  note meaning = this
  show ?thesis
  proof (cases "dated_clause f (Suc (length params))")
    case None
    with False have "f = IsCancelled" by (cases f) auto
    with assms(1) meaning show ?thesis by (auto simp: append_policy_status_filter_clause_def Let_def)
  next
    case (Some c)
    then have "f \<noteq> IsCancelled" by auto
    with Some False assms(1) have "clauses' = clauses @ [c]" "params' = params @ [today_str h]" "idx' = Suc (length params')"
      by (auto simp: append_policy_status_filter_clause_def)
    with clause_meaning [OF assms(4-6) Some, of rest] meaning show ?thesis by simp
  qed
qed

text \<open>The filters partition the policies by the status they are shown with: the filter in memory
  accepts a policy exactly under the filter whose name is its shown status, so that with any of the
  statuses the database knows it falls under one filter and only that one.\<close>

theorem filter_accepts_shown_status:
  assumes "f \<noteq> AnyStatus"
  shows "matches_policy_status_filter h f raw effective expiration \<longleftrightarrow>
     derive_policy_workflow_status h raw effective expiration = filter_name f"
    and "lower (status_text raw) \<in> set [''draft'', ''quote'', ''rated'', ''bound'', ''issued'', ''cancelled'', ''expired''] \<Longrightarrow>
     length (filter (\<lambda>g. matches_policy_status_filter h g raw effective expiration) FILTERS) = 1"
proof -
  show "matches_policy_status_filter h f raw effective expiration \<longleftrightarrow>
     derive_policy_workflow_status h raw effective expiration = filter_name f"
    by (rule matches_is_shown [OF assms])
  let ?s = "lower (status_text raw)" and ?t = "today_str h"
  let ?e = "coerce_date_only h effective (Some ?t)" and ?x = "coerce_date_only h expiration (Some ?t)"
  assume "?s \<in> set [''draft'', ''quote'', ''rated'', ''bound'', ''issued'', ''cancelled'', ''expired'']"
  moreover have "known_status ?s" using calculation by (auto simp: known_status_def)
  then have "filter (\<lambda>g. matches_policy_status_filter h g raw effective expiration) FILTERS
      = filter (\<lambda>g. filter_meaning g ?s ?t ?e ?x) FILTERS"
    by (intro filter_cong refl) (auto simp: FILTERS_def matches_iff Let_def filter_of_meaning)
  ultimately show "length (filter (\<lambda>g. matches_policy_status_filter h g raw effective expiration) FILTERS) = 1"
    by (simp add: FILTERS_def not_le [symmetric]) blast
qed

subsection \<open>Witnesses\<close>

definition ex_row :: policy_row where
  "ex_row = \<lparr>p_status = ''Issued'', p_effective = ''2026-07-01'', p_expiration = ''2027-07-01''\<rparr>"

lemma ex_dates: "calendar_date ''2026-06-04''" "calendar_date ''2026-07-01''" "calendar_date ''2027-07-01''"
  by code_simp+

lemma query_filter_is_memory_filter_witness:
  "clause_holds ex_row [''acme'', ''2026-06-04''] (Both (StatusIs ''issued'') (Both (EffectiveAfter 2) (ExpiresFrom 2)))
   \<and> clause_text \<lparr>status_column = ''p.status'', effective_column = ''p.eff'', expiration_column = ''p.exp''\<rparr>
      (Both (StatusIs ''issued'') (Both (EffectiveAfter 2) (ExpiresFrom 2)))
     = ''LOWER(p.status::text) = '' @ sql_quote ''issued'' @ '' AND p.eff > $2 AND p.exp >= $2''
   \<and> matches_policy_status_filter (example_host\<lparr>today_str := ''2026-06-04''\<rparr>) IsIssued
        (JStr ''Issued'') (JStr ''2026-07-01'') (JStr ''2027-07-01'')"
proof -
  let ?h = "example_host\<lparr>today_str := ''2026-06-04''\<rparr>"
  let ?c = "Both (StatusIs ''issued'') (Both (EffectiveAfter 2) (ExpiresFrom 2))"
  have "append_policy_status_filter_clause ?h IsIssued ([], [''acme''], Suc (length [''acme''])) =
      ([?c], [''acme'', ''2026-06-04''], 3)"
    by (simp add: append_policy_status_filter_clause_def)
  from query_filter_is_memory_filter [OF this, of ex_row "[]"] have
    "clause_holds ex_row [''acme'', ''2026-06-04''] ?c \<longleftrightarrow> matches_policy_status_filter ?h IsIssued
      (JStr ''Issued'') (JStr ''2026-07-01'') (JStr ''2027-07-01'')"
    using ex_dates by (simp add: ex_row_def known_status_def)
  moreover have "clause_holds ex_row [''acme'', ''2026-06-04''] ?c" by code_simp
  moreover have "clause_text \<lparr>status_column = ''p.status'', effective_column = ''p.eff'', expiration_column = ''p.exp''\<rparr> ?c
      = ''LOWER(p.status::text) = '' @ sql_quote ''issued'' @ '' AND p.eff > $2 AND p.exp >= $2''" by code_simp
  ultimately show ?thesis by blast
qed

lemma filter_accepts_shown_status_witness:
  "length (filter (\<lambda>g. matches_policy_status_filter example_host g (JStr ''Bound'') JNull JNull) FILTERS) = 1"
  by (rule filter_accepts_shown_status(2) [of IsBind]) (simp, code_simp)

end
