(* ===== verification/LoginSecurity.thy ===== *)
theory LoginSecurity
  imports JsString Traces
begin

text \<open>
  Passwords and the lockout of an account, \<open>server/src/lib/password-policy.ts\<close>, with the part of
  \<open>server/src/auth.ts\<close> and \<open>server/src/services/user.service.ts\<close> that checks a password and records the
  result. Times are milliseconds. A login is first one step, then the three steps the server takes,
  which other logins can come between.
\<close>

definition MAX_FAILED_LOGIN_ATTEMPTS :: int where "MAX_FAILED_LOGIN_ATTEMPTS = 5"
definition LOCKOUT_DURATION_MINUTES :: int where "LOCKOUT_DURATION_MINUTES = 15"
definition MIN_PASSWORD_LENGTH :: nat where "MIN_PASSWORD_LENGTH = 12"

subsection \<open>The policy\<close>

definition COMMON_WEAK_PASSWORD_ROOTS :: "string list" where
  "COMMON_WEAK_PASSWORD_ROOTS = [''password'', ''letmein'', ''qwerty'', ''welcome'', ''admin'', ''changeme'',
     ''iloveyou'', ''12345678'', ''123456789'']"

definition is_ascii_lowercase_letter :: "nat \<Rightarrow> bool" where
  "is_ascii_lowercase_letter code \<longleftrightarrow> 97 \<le> code \<and> code \<le> 122"

definition letter_at :: "string \<Rightarrow> nat \<Rightarrow> bool" where
  "letter_at s i = is_ascii_lowercase_letter (ccode (s ! i))"

text \<open>The two loops over the indices.\<close>

function skip_front :: "string \<Rightarrow> nat \<Rightarrow> nat \<Rightarrow> nat" where
  "skip_front s start end' = (if start < end' \<and> \<not> letter_at s start then skip_front s (start + 1) end' else start)"
  by pat_completeness auto
termination by (relation "measure (\<lambda>(_, start, end'). end' - start)") auto

function skip_back :: "string \<Rightarrow> nat \<Rightarrow> nat \<Rightarrow> nat" where
  "skip_back s start end' = (if start < end' \<and> \<not> letter_at s (end' - 1) then skip_back s start (end' - 1) else end')"
  by pat_completeness auto
termination by (relation "measure (\<lambda>(_, start, end'). end' - start)") auto

declare skip_front.simps [simp del] skip_back.simps [simp del]

definition to_weak_password_root :: "string \<Rightarrow> string" where
  "to_weak_password_root value =
     (let normalized = lower (trim value);
          start = skip_front normalized 0 (length normalized);
          end' = skip_back normalized start (length normalized)
      in take (end' - start) (drop start normalized))"

definition policy_messages :: "(bool \<times> string) list \<Rightarrow> string list" where
  "policy_messages checks = map snd (filter (\<lambda>(failed, _). failed) checks)"

definition validate_password_policy :: "string \<Rightarrow> string list" where
  "validate_password_policy value = policy_messages
     [(length value < MIN_PASSWORD_LENGTH, ''Password must be at least 12 characters''),
      (\<not> list_ex is_lower value, ''Password must include a lowercase letter''),
      (\<not> list_ex is_upper value, ''Password must include an uppercase letter''),
      (\<not> list_ex is_digit value, ''Password must include a digit''),
      (\<not> list_ex (\<lambda>c. \<not> is_alnum c) value, ''Password must include a symbol''),
      (to_weak_password_root value \<in> set COMMON_WEAK_PASSWORD_ROOTS,
       ''Password is too common; choose a less predictable value'')]"

subsection \<open>The lockout\<close>

record lockout =
  failed_attempts :: int
  locked_until :: "int option"

definition is_locked_out :: "lockout \<Rightarrow> int \<Rightarrow> bool" where
  "is_locked_out st now = (case locked_until st of None \<Rightarrow> False | Some t \<Rightarrow> t > now)"

definition record_failed_attempt :: "lockout \<Rightarrow> int \<Rightarrow> lockout" where
  "record_failed_attempt st now =
     (let attempts = failed_attempts st + 1
      in if attempts \<ge> MAX_FAILED_LOGIN_ATTEMPTS
         then \<lparr>failed_attempts = 0, locked_until = Some (now + LOCKOUT_DURATION_MINUTES * 60000)\<rparr>
         else \<lparr>failed_attempts = attempts, locked_until = locked_until st\<rparr>)"

definition clear_lockout_state :: lockout where
  "clear_lockout_state = \<lparr>failed_attempts = 0, locked_until = None\<rparr>"

text \<open>One login after another: the time and whether the password is right; what the caller learns.\<close>

datatype login_result = AccountLocked | InvalidCredentials | PasswordAccepted

definition login_attempt :: "lockout \<Rightarrow> int \<times> bool \<Rightarrow> login_result \<times> lockout" where
  "login_attempt st attempt =
     (case attempt of (now, right) \<Rightarrow>
        if is_locked_out st now then (AccountLocked, st)
        else if \<not> right then (InvalidCredentials, record_failed_attempt st now)
        else (PasswordAccepted, clear_lockout_state))"

fun login_attempts :: "lockout \<Rightarrow> (int \<times> bool) list \<Rightarrow> login_result list \<times> lockout" where
  "login_attempts st [] = ([], st)"
| "login_attempts st (a # as) =
     (let (r, st') = login_attempt st a; (rs, st'') = login_attempts st' as in (r # rs, st''))"

text \<open>
  Logins of one account at the same time. A login reads the row of the user and compares the password
  (\<open>Check\<close>); with the right one it clears the row (\<open>Write\<close>), with a wrong one it reads the counter
  (\<open>Read\<close>) and writes the new one (\<open>Write\<close>), each its own query. The database holds the lockout, a
  login holds what it has read.
\<close>

datatype login_event = Check nat | Read nat | Write nat

datatype login_phase = Waiting | Right | Wrong | Holding lockout | Done login_result

record login_system =
  stored :: lockout
  phase :: "nat \<Rightarrow> login_phase"

definition login_event_step :: "(nat \<Rightarrow> bool) \<Rightarrow> int \<Rightarrow> login_system \<Rightarrow> login_event \<Rightarrow> login_system" where
  "login_event_step right now s e =
     (case e of
        Check i \<Rightarrow> (case phase s i of
            Waiting \<Rightarrow> s\<lparr>phase := (phase s)(i := if is_locked_out (stored s) now then Done AccountLocked
                                            else if right i then Right else Wrong)\<rparr>
          | _ \<Rightarrow> s)
      | Read i \<Rightarrow> (case phase s i of Wrong \<Rightarrow> s\<lparr>phase := (phase s)(i := Holding (stored s))\<rparr> | _ \<Rightarrow> s)
      | Write i \<Rightarrow> (case phase s i of
            Right \<Rightarrow> s\<lparr>stored := clear_lockout_state, phase := (phase s)(i := Done PasswordAccepted)\<rparr>
          | Holding st \<Rightarrow> s\<lparr>stored := record_failed_attempt st now, phase := (phase s)(i := Done InvalidCredentials)\<rparr>
          | _ \<Rightarrow> s))"

subsection \<open>The root of a password\<close>

lemma skip_front_run:
  "start \<le> n \<Longrightarrow> n \<le> length s \<Longrightarrow>
   start \<le> skip_front s start n \<and> skip_front s start n \<le> n \<and>
   drop (skip_front s start n) (take n s) = dropWhile (\<lambda>c. \<not> is_ascii_lowercase_letter (ccode c)) (drop start (take n s))"
proof (induction s start n rule: skip_front.induct)
  case (1 s start n)
  show ?case
  proof (cases "start < n")
    case True
    then have "drop start (take n s) = s ! start # drop (Suc start) (take n s)"
      using 1 by (simp add: Cons_nth_drop_Suc [symmetric])
    with 1 True show ?thesis
      by (subst (1 2 3) skip_front.simps) (auto simp: letter_at_def)
  next
    case False
    with 1 show ?thesis by (subst (1 2 3) skip_front.simps) simp
  qed
qed

lemma skip_back_run:
  "start \<le> n \<Longrightarrow> n \<le> length s \<Longrightarrow>
   start \<le> skip_back s start n \<and>
   drop start (take (skip_back s start n) s) = rev (dropWhile (\<lambda>c. \<not> is_ascii_lowercase_letter (ccode c)) (rev (drop start (take n s))))"
proof (induction s start n rule: skip_back.induct)
  case (1 s start n)
  show ?case
  proof (cases "start < n")
    case True
    then have "n - 1 < length s" "start \<le> n - 1" using 1 by simp_all
    then have "drop start (take (Suc (n - 1)) s) = drop start (take (n - 1) s) @ [s ! (n - 1)]"
      by (simp add: take_Suc_conv_app_nth)
    then have "rev (drop start (take n s)) = s ! (n - 1) # rev (drop start (take (n - 1) s))"
      using True by simp
    with 1 True show ?thesis
      by (subst (1 2) skip_back.simps) (auto simp: letter_at_def)
  next
    case False
    with 1 show ?thesis by (subst (1 2) skip_back.simps) simp
  qed
qed

definition strip :: "('a \<Rightarrow> bool) \<Rightarrow> 'a list \<Rightarrow> 'a list" where
  "strip p xs = rev (dropWhile p (rev (dropWhile p xs)))"

lemma root_is_strip:
  "to_weak_password_root value = strip (\<lambda>c. \<not> is_ascii_lowercase_letter (ccode c)) (lower (trim value))"
proof -
  let ?s = "lower (trim value)"
  let ?start = "skip_front ?s 0 (length ?s)"
  have f: "?start \<le> length ?s" "drop ?start ?s = dropWhile (\<lambda>c. \<not> is_ascii_lowercase_letter (ccode c)) ?s"
    using skip_front_run [of 0 "length ?s" ?s] by simp_all
  from skip_back_run [OF f(1) order_refl] f(2) show ?thesis
    by (simp add: to_weak_password_root_def Let_def strip_def drop_take)
qed

lemma dropWhile_prefix: "\<forall>x \<in> set pre. p x \<Longrightarrow> xs \<noteq> [] \<Longrightarrow> \<not> p (hd xs) \<Longrightarrow> dropWhile p (pre @ xs) = xs"
  by (induction pre) (auto simp: neq_Nil_conv)

lemma strip_decorated:
  assumes "\<forall>x \<in> set pre. p x" and "\<forall>x \<in> set post. p x" and "w \<noteq> []" and "\<not> p (hd w)" and "\<not> p (last w)"
  shows "strip p (pre @ w @ post) = w"
proof -
  have "dropWhile p (pre @ w @ post) = w @ post" using assms by (intro dropWhile_prefix) simp_all
  moreover have "dropWhile p (rev post @ rev w) = rev w"
    using assms by (intro dropWhile_prefix) (simp_all add: hd_rev)
  ultimately show ?thesis by (simp add: strip_def)
qed

lemma strip_parts: "\<exists>pre post. xs = pre @ strip p xs @ post \<and> (\<forall>x \<in> set pre. p x) \<and> (\<forall>x \<in> set post. p x)"
proof -
  let ?m = "dropWhile p xs"
  have front: "xs = takeWhile p xs @ ?m" by simp
  have "?m = strip p xs @ rev (takeWhile p (rev ?m))"
    unfolding strip_def by (metis rev_append rev_rev_ident takeWhile_dropWhile_id)
  with front have "xs = takeWhile p xs @ strip p xs @ rev (takeWhile p (rev ?m))" by metis
  then show ?thesis by (metis set_rev set_takeWhileD)
qed

lemma strip_ends:
  assumes "strip p xs \<noteq> []"
  shows "\<not> p (hd (strip p xs))"
proof -
  have "dropWhile p xs \<noteq> []" using assms by (metis strip_def dropWhile.simps(1) rev.simps(1))
  then have h: "\<not> p (hd (dropWhile p xs))" by (rule hd_dropWhile)
  obtain post where "dropWhile p xs = strip p xs @ post"
    unfolding strip_def by (metis rev_append rev_rev_ident takeWhile_dropWhile_id)
  with h assms show ?thesis by (cases "strip p xs") auto
qed

definition letter_char :: "char \<Rightarrow> bool" where
  "letter_char c = is_ascii_lowercase_letter (ccode c)"

definition common_words :: "string list" where
  "common_words = [''password'', ''letmein'', ''qwerty'', ''welcome'', ''admin'', ''changeme'', ''iloveyou'']"

lemma common_words_letters: "w \<in> set common_words \<Longrightarrow> w \<noteq> [] \<and> list_all letter_char w"
proof -
  have "list_all (\<lambda>w. w \<noteq> [] \<and> list_all letter_char w) common_words" by code_simp
  then show "w \<in> set common_words \<Longrightarrow> w \<noteq> [] \<and> list_all letter_char w" by (simp add: list_all_iff)
qed

text \<open>The two roots of digits in the list of the source are never the root of anything.\<close>

lemma common_root_iff:
  "to_weak_password_root value \<in> set COMMON_WEAK_PASSWORD_ROOTS \<longleftrightarrow>
    (\<exists>pre w post. lower (trim value) = pre @ w @ post \<and> w \<in> set common_words
      \<and> \<not> list_ex letter_char pre \<and> \<not> list_ex letter_char post)"
  (is "?l \<longleftrightarrow> ?r")
proof
  assume l: ?l
  let ?p = "\<lambda>c. \<not> letter_char c" and ?s = "lower (trim value)"
  have root: "to_weak_password_root value = strip ?p ?s" by (simp add: root_is_strip letter_char_def)
  obtain pre post where parts: "?s = pre @ strip ?p ?s @ post" "\<forall>c \<in> set pre. ?p c" "\<forall>c \<in> set post. ?p c"
    using strip_parts [of ?s ?p] by blast
  have digits: "\<not> letter_char (hd ''12345678'')" "\<not> letter_char (hd ''123456789'')" by code_simp+
  have "strip ?p ?s \<noteq> []" using l root by (auto simp: COMMON_WEAK_PASSWORD_ROOTS_def)
  then have "letter_char (hd (strip ?p ?s))" using strip_ends [of ?p ?s] by blast
  then have "strip ?p ?s \<noteq> ''12345678''" "strip ?p ?s \<noteq> ''123456789''" using digits by metis+
  with l root have "strip ?p ?s \<in> set common_words" by (simp add: COMMON_WEAK_PASSWORD_ROOTS_def common_words_def)
  with parts show ?r by (fastforce simp: list_ex_iff)
next
  assume ?r
  then obtain pre w post where r: "lower (trim value) = pre @ w @ post" "w \<in> set common_words"
    "\<not> list_ex letter_char pre" "\<not> list_ex letter_char post" by blast
  from common_words_letters [OF r(2)] have "w \<noteq> []" "letter_char (hd w)" "letter_char (last w)"
    by (auto simp: list_all_iff)
  with r have "strip (\<lambda>c. \<not> letter_char c) (lower (trim value)) = w"
    by (auto simp: list_ex_iff intro: strip_decorated)
  with r(2) have "to_weak_password_root value \<in> set common_words" by (simp add: root_is_strip letter_char_def)
  then show ?l by (auto simp: COMMON_WEAK_PASSWORD_ROOTS_def common_words_def)
qed

text \<open>A password passes the policy exactly when it has at least 12 characters, a lower-case letter, an
  upper-case letter, a digit and a symbol, and is none of the common words (in any case, between
  spaces) with anything but letters around it.\<close>

theorem password_accepted_iff:
  "validate_password_policy value = [] \<longleftrightarrow>
    12 \<le> length value \<and> list_ex is_lower value \<and> list_ex is_upper value \<and> list_ex is_digit value
    \<and> list_ex (\<lambda>c. \<not> is_alnum c) value
    \<and> \<not> (\<exists>pre w post. lower (trim value) = pre @ w @ post \<and> w \<in> set common_words
          \<and> \<not> list_ex letter_char pre \<and> \<not> list_ex letter_char post)"
  unfolding common_root_iff [symmetric]
  by (simp add: validate_password_policy_def policy_messages_def MIN_PASSWORD_LENGTH_def not_less)

lemma password_accepted_iff_witness:
  "validate_password_policy ''Tr0ub4dor & friends'' = [] \<and> 12 \<le> length ''Tr0ub4dor & friends''"
proof -
  have v: "validate_password_policy ''Tr0ub4dor & friends'' = []" by code_simp
  with password_accepted_iff [of "''Tr0ub4dor & friends''"] show ?thesis by blast
qed

subsection \<open>The lockout bounds the guesses\<close>

lemmas lockout_defs = record_failed_attempt_def MAX_FAILED_LOGIN_ATTEMPTS_def LOCKOUT_DURATION_MINUTES_def
  clear_lockout_state_def is_locked_out_def

definition counting :: "lockout \<Rightarrow> bool" where
  "counting st \<longleftrightarrow> 0 \<le> failed_attempts st \<and> failed_attempts st < 5"

lemma counting_step: "counting st \<Longrightarrow> login_attempt st a = (r, st') \<Longrightarrow> counting st'"
  by (auto simp: login_attempt_def counting_def lockout_defs Let_def split: prod.splits if_splits)

lemma counting_run: "counting st \<Longrightarrow> login_attempts st as = (rs, st') \<Longrightarrow> counting st'"
proof (induction as arbitrary: st rs st')
  case (Cons a as)
  obtain r st1 where one: "login_attempt st a = (r, st1)" by (cases "login_attempt st a")
  obtain rs' st2 where rest: "login_attempts st1 as = (rs', st2)" by (cases "login_attempts st1 as")
  from Cons.IH [OF counting_step [OF Cons.prems(1) one] rest] one rest Cons.prems(2) show ?case by simp
qed simp

definition guesses :: "login_result list \<Rightarrow> nat" where
  "guesses rs = length (filter (\<lambda>r. r = InvalidCredentials) rs)"

lemma locked_no_guess:
  assumes "locked_until st = Some t" and "\<forall>(now, right) \<in> set as. now < t"
  shows "guesses (fst (login_attempts st as)) = 0"
  using assms(2)
proof (induction as)
  case (Cons a as)
  then obtain now right where a: "a = (now, right)" "now < t" by auto
  then have "login_attempt st a = (AccountLocked, st)"
    using assms(1) by (simp add: login_attempt_def is_locked_out_def)
  with Cons a show ?case by (cases "login_attempts st as") (simp add: guesses_def)
qed (simp add: guesses_def)

lemma window_guesses:
  assumes "\<forall>(now, right) \<in> set as. from_ms \<le> now \<and> now < from_ms + 900000"
    and "PasswordAccepted \<notin> set (fst (login_attempts st as))" and "counting st"
  shows "int (guesses (fst (login_attempts st as))) \<le> 5 - failed_attempts st"
  using assms
proof (induction as arbitrary: st)
  case (Cons a as)
  obtain now right where a: "a = (now, right)" by (cases a)
  obtain r st' where one: "login_attempt st a = (r, st')" by (cases "login_attempt st a")
  obtain rs st'' where more': "login_attempts st' as = (rs, st'')" by (cases "login_attempts st' as")
  have count: "counting st'" using counting_step [OF Cons.prems(3) one] .
  have res: "fst (login_attempts st (a # as)) = r # rs" using one more' by (simp add: Let_def)
  have rest: "int (guesses rs) \<le> 5 - failed_attempts st'"
    using Cons.IH [OF _ _ count] Cons.prems(1,2) res more' by simp
  show ?case
  proof (cases r)
    case AccountLocked
    then have "st' = st" using one a by (auto simp: login_attempt_def split: if_splits)
    with rest AccountLocked res show ?thesis by (simp add: guesses_def)
  next
    case PasswordAccepted
    with Cons.prems(2) res show ?thesis by simp
  next
    case InvalidCredentials
    then have st': "st' = record_failed_attempt st now"
      using one a by (auto simp: login_attempt_def split: if_splits)
    show ?thesis
    proof (cases "failed_attempts st + 1 \<ge> 5")
      case True
      then have "locked_until st' = Some (now + 900000)" using st' by (simp add: lockout_defs Let_def)
      moreover have "\<forall>(now', right) \<in> set as. now' < now + 900000" using Cons.prems(1) a by fastforce
      ultimately have "guesses rs = 0" using locked_no_guess [of st' "now + 900000" as] more' by simp
      with InvalidCredentials res Cons.prems(3) show ?thesis by (simp add: guesses_def counting_def)
    next
      case False
      then have "failed_attempts st' = failed_attempts st + 1" using st' by (simp add: lockout_defs Let_def)
      with rest InvalidCredentials res show ?thesis by (simp add: guesses_def)
    qed
  qed
qed (simp add: guesses_def counting_def)

text \<open>C31: When the logins of an account come one after another, then whatever happened before, no more than
  five wrong passwords are tried in any 15 minutes in which nobody logs in with the right one.\<close>

theorem five_guesses_in_a_window:
  assumes "\<forall>(now, right) \<in> set as. from_ms \<le> now \<and> now < from_ms + LOCKOUT_DURATION_MINUTES * 60000"
    and "PasswordAccepted \<notin> set (fst (login_attempts (snd (login_attempts clear_lockout_state before)) as))"
  shows "guesses (fst (login_attempts (snd (login_attempts clear_lockout_state before)) as)) \<le> 5"
proof -
  let ?st = "snd (login_attempts clear_lockout_state before)"
  have "counting clear_lockout_state" by (simp add: counting_def clear_lockout_state_def)
  then have c: "counting ?st" by (cases "login_attempts clear_lockout_state before") (auto dest: counting_run)
  with window_guesses [OF _ assms(2), of from_ms] assms(1) show ?thesis
    by (simp add: LOCKOUT_DURATION_MINUTES_def counting_def)
qed

lemma five_guesses_in_a_window_witness:
  "guesses (fst (login_attempts (snd (login_attempts clear_lockout_state [])) (replicate 7 (1000, False)))) \<le> 5"
proof (rule five_guesses_in_a_window)
  show "\<forall>(now, right) \<in> set (replicate 7 (1000 :: int, False)). 0 \<le> now \<and> now < 0 + LOCKOUT_DURATION_MINUTES * 60000"
    by (simp add: LOCKOUT_DURATION_MINUTES_def)
  show "PasswordAccepted \<notin> set (fst (login_attempts (snd (login_attempts clear_lockout_state [])) (replicate 7 (1000, False))))"
    by code_simp
qed

subsection \<open>Logins at the same time\<close>

definition all_waiting :: login_system where
  "all_waiting = \<lparr>stored = clear_lockout_state, phase = (\<lambda>_. Waiting)\<rparr>"

text \<open>Wrong logins \<open>0, \<dots>, n - 1\<close> that overlap: all check, all read, all write.\<close>

definition overlapping :: "nat \<Rightarrow> login_event list" where
  "overlapping n = map Check [0..<n] @ map Read [0..<n] @ map Write [0..<n]"

lemma checks_run:
  "foldl (login_event_step (\<lambda>_. False) now) all_waiting (map Check [0..<n])
   = all_waiting\<lparr>phase := \<lambda>i. if i < n then Wrong else Waiting\<rparr>"
  by (induction n) (auto simp: login_event_step_def all_waiting_def is_locked_out_def clear_lockout_state_def fun_eq_iff)

lemma reads_run:
  "foldl (login_event_step right now) \<lparr>stored = st, phase = \<lambda>i. if i < n then Wrong else Waiting\<rparr> (map Read [0..<m])
   = \<lparr>stored = st, phase = \<lambda>i. if i < n then (if i < m then Holding st else Wrong) else Waiting\<rparr>"
  by (induction m) (auto simp: login_event_step_def fun_eq_iff)

lemma writes_run:
  "m \<le> n \<Longrightarrow> foldl (login_event_step right now) \<lparr>stored = st, phase = \<lambda>i. if i < n then Holding st else Waiting\<rparr> (map Write [0..<m])
   = \<lparr>stored = (if m = 0 then st else record_failed_attempt st now),
      phase = \<lambda>i. if i < n then (if i < m then Done InvalidCredentials else Holding st) else Waiting\<rparr>"
  by (induction m) (auto simp: login_event_step_def fun_eq_iff)

text \<open>The counter of a locked account loses the failures that overlap: however many wrong passwords are
  tried at the same time, each of them compared with the stored one, the counter is 1 afterwards and
  the account is not locked.\<close>

theorem overlapping_failures_count_once:
  "foldl (login_event_step (\<lambda>_. False) now) all_waiting (overlapping (Suc n)) =
     \<lparr>stored = \<lparr>failed_attempts = 1, locked_until = None\<rparr>,
      phase = \<lambda>i. if i < Suc n then Done InvalidCredentials else Waiting\<rparr>"
proof -
  have "foldl (login_event_step (\<lambda>_. False) now) all_waiting (overlapping (Suc n)) =
    foldl (login_event_step (\<lambda>_. False) now)
      \<lparr>stored = clear_lockout_state, phase = \<lambda>i. if i < Suc n then Holding clear_lockout_state else Waiting\<rparr> (map Write [0..<Suc n])"
    unfolding overlapping_def foldl_append checks_run
    using reads_run [of "\<lambda>_. False" now clear_lockout_state "Suc n" "Suc n"]
    by (simp add: all_waiting_def cong: if_cong)
  also have "\<dots> = \<lparr>stored = record_failed_attempt clear_lockout_state now,
      phase = \<lambda>i. if i < Suc n then Done InvalidCredentials else Waiting\<rparr>"
    using writes_run [of "Suc n" "Suc n" "\<lambda>_. False" now clear_lockout_state] by (simp cong: if_cong)
  finally show ?thesis by (simp add: lockout_defs Let_def)
qed

end
