(* ===== verification/Mfa.thy ===== *)
theory Mfa
  imports DateUtils "HOL-Library.Word"
begin

unbundle bit_operations_syntax

text \<open>
  One-time codes, \<open>server/src/lib/mfa.ts\<close>: the secret as base32 text and the code of a 30 second step.
  The bit operations of JavaScript work on 32 bits, the words here; bytes are words of 8 bits. HMAC-SHA-1
  is an argument.
\<close>

definition BASE32_ALPHABET :: string where
  "BASE32_ALPHABET = ''ABCDEFGHIJKLMNOPQRSTUVWXYZ234567''"

definition TOTP_PERIOD_SECONDS :: int where "TOTP_PERIOD_SECONDS = 30"
definition TOTP_DIGITS :: nat where "TOTP_DIGITS = 6"

type_synonym bytes = "8 word list"

fun position_of :: "'a \<Rightarrow> 'a list \<Rightarrow> nat option" where
  "position_of x [] = None"
| "position_of x (y # ys) = (if x = y then Some 0 else map_option Suc (position_of x ys))"

definition base32_lookup :: "char \<Rightarrow> nat option" where
  "base32_lookup c = position_of c BASE32_ALPHABET"

definition base32_char :: "32 word \<Rightarrow> char" where
  "base32_char w = BASE32_ALPHABET ! unat (w AND 31)"

text \<open>The inner loop: characters while five bits are left.\<close>

function emit_chars :: "32 word \<Rightarrow> nat \<Rightarrow> string \<times> nat" where
  "emit_chars value bits =
     (if bits \<ge> 5 then (let (out, rest) = emit_chars value (bits - 5)
                        in (base32_char (drop_bit (bits - 5) value) # out, rest))
      else ([], bits))"
  by pat_completeness auto
termination by (relation "measure snd") auto

declare emit_chars.simps [simp del]

fun encode_from :: "bytes \<Rightarrow> 32 word \<Rightarrow> nat \<Rightarrow> string" where
  "encode_from [] value bits = (if bits > 0 then [base32_char (push_bit (5 - bits) value)] else [])"
| "encode_from (byte # bs) value bits =
     (let value' = push_bit 8 value OR ucast byte; (out, bits') = emit_chars value' (bits + 8)
      in out @ encode_from bs value' bits')"

definition encode_base32 :: "bytes \<Rightarrow> string" where
  "encode_base32 buffer = encode_from buffer 0 0"

fun decode_from :: "string \<Rightarrow> 32 word \<Rightarrow> nat \<Rightarrow> bytes" where
  "decode_from [] value bits = []"
| "decode_from (c # cs) value bits =
     (case base32_lookup c of
        None \<Rightarrow> decode_from cs value bits
      | Some v \<Rightarrow>
          (let value' = push_bit 5 value OR of_nat v; bits' = bits + 5
           in if bits' \<ge> 8 then ucast (drop_bit (bits' - 8) value' AND 255) # decode_from cs value' (bits' - 8)
              else decode_from cs value' bits'))"

definition base32_normalize :: "string \<Rightarrow> string" where
  "base32_normalize s =
     filter (\<lambda>c. is_upper c \<or> 50 \<le> ccode c \<and> ccode c \<le> 55) (rev (dropWhile (\<lambda>c. c = CHR ''='') (rev (upper s))))"

definition decode_base32 :: "string \<Rightarrow> bytes" where
  "decode_base32 input = decode_from (base32_normalize input) 0 0"

subsection \<open>The codes\<close>

type_synonym hmac = "bytes \<Rightarrow> bytes \<Rightarrow> bytes"

text \<open>\<open>writeBigUInt64BE\<close>\<close>

definition counter_bytes :: "int \<Rightarrow> bytes" where
  "counter_bytes counter = map (\<lambda>i. word_of_int (counter div 2 ^ (8 * i))) (rev [0..<8])"

definition generate_hotp :: "hmac \<Rightarrow> bytes \<Rightarrow> int \<Rightarrow> string" where
  "generate_hotp hmac key counter =
     (let digest = hmac key (counter_bytes counter);
          offset = unat (digest ! (length digest - 1) AND 15);
          binary = push_bit 24 (ucast (digest ! offset AND 127)) OR push_bit 16 (ucast (digest ! (offset + 1)))
                   OR push_bit 8 (ucast (digest ! (offset + 2))) OR (ucast (digest ! (offset + 3)) :: 32 word);
          otp = unat binary mod 10 ^ TOTP_DIGITS
      in pad_int TOTP_DIGITS (int otp))"

definition normalize_otp_code :: "string \<Rightarrow> string" where
  "normalize_otp_code value = take 10 (filter is_digit value)"

text \<open>\<open>Math.floor(Date.now() / 1000 / 30)\<close>\<close>

definition now_counter :: "int \<Rightarrow> int" where
  "now_counter now =
     (case jfloor (jdiv (jdiv (jint now) (Fin 1000)) (jint TOTP_PERIOD_SECONDS)) of Fin x \<Rightarrow> \<lfloor>x\<rfloor> | _ \<Rightarrow> 0)"

definition verify_totp_code :: "hmac \<Rightarrow> int \<Rightarrow> string \<Rightarrow> string \<Rightarrow> int \<Rightarrow> bool" where
  "verify_totp_code hmac now secret otp window =
     (let normalized = normalize_otp_code otp; key = decode_base32 secret
      in if \<not> (length normalized = 6 \<and> list_all is_digit normalized) then False
         else if key = [] then False
         else list_ex (\<lambda>offset. let counter = now_counter now + offset
                        in \<not> counter < 0 \<and> generate_hotp hmac key counter = normalized) [- window..window])"

subsection \<open>Words as lists of bits\<close>

definition low_bits :: "nat \<Rightarrow> 'a :: len word \<Rightarrow> bool list" where
  "low_bits n w = map (bit w) (rev [0..<n])"

lemma length_low_bits [simp]: "length (low_bits n w) = n"
  by (simp add: low_bits_def)

lemma low_bits_0 [simp]: "low_bits 0 w = []"
  by (simp add: low_bits_def)

lemma rev_upt_nth: "i < n \<Longrightarrow> rev [0..<n] ! i = n - 1 - i"
  by (simp add: rev_nth)

lemma low_bits_nth: "i < n \<Longrightarrow> low_bits n w ! i = bit w (n - 1 - i)"
  by (simp add: low_bits_def rev_upt_nth)

lemma low_bits_push:
  assumes "n + m \<le> 32" and "\<And>i. bit b i \<Longrightarrow> i < m"
  shows "low_bits (n + m) (push_bit m value OR b :: 32 word) = low_bits n value @ low_bits m b"
proof (rule nth_equalityI)
  fix i assume "i < length (low_bits (n + m) (push_bit m value OR b))"
  then have i: "i < n + m" by simp
  show "low_bits (n + m) (push_bit m value OR b) ! i = (low_bits n value @ low_bits m b) ! i"
  proof (cases "i < n")
    case True
    then have "m \<le> n + m - 1 - i" "n + m - 1 - i - m = n - 1 - i" "n + m - 1 - i < 32" using assms(1) by linarith+
    moreover from this have "\<not> bit b (n + m - 1 - i)" using assms(2) [of "n + m - 1 - i"] by linarith
    ultimately show ?thesis using True i assms(1) by (simp add: low_bits_nth nth_append bit_simps)
  next
    case False
    then have "\<not> m \<le> n + m - 1 - i" "n + m - 1 - i = m - 1 - (i - n)" "i - n < m" using i by linarith+
    then show ?thesis using False i assms(1) by (simp add: low_bits_nth nth_append bit_simps)
  qed
qed simp

lemma low_bits_split:
  assumes "m \<le> n" and "n \<le> 32"
  shows "low_bits n (value :: 32 word) = low_bits m (drop_bit (n - m) value) @ low_bits (n - m) value"
proof (rule nth_equalityI)
  fix i assume "i < length (low_bits n value)"
  then have i: "i < n" by simp
  with assms show "low_bits n value ! i = (low_bits m (drop_bit (n - m) value) @ low_bits (n - m) value) ! i"
    by (cases "i < m") (auto simp: low_bits_nth nth_append bit_simps)
qed (use assms in simp)

lemma low_bits_cong: "(\<And>i. i < n \<Longrightarrow> bit v i \<longleftrightarrow> bit w i) \<Longrightarrow> low_bits n v = low_bits n w"
  by (simp add: low_bits_def)

lemma low_bits_eq_word:
  assumes "low_bits LENGTH('a) v = low_bits LENGTH('a) (w :: 'a :: len word)"
  shows "v = w"
proof (rule bit_word_eqI)
  fix i assume "i < LENGTH('a)"
  then have "low_bits LENGTH('a) v ! (LENGTH('a) - 1 - i) = bit v i" "low_bits LENGTH('a) w ! (LENGTH('a) - 1 - i) = bit w i"
    by (simp_all add: low_bits_nth)
  with assms show "bit v i \<longleftrightarrow> bit w i" by simp
qed

subsection \<open>Characters\<close>

lemma unat_mask5: "unat (w AND 31 :: 32 word) < 32"
proof -
  have "w AND 31 = take_bit 5 w" by (simp add: take_bit_eq_mask mask_eq_exp_minus_1)
  then have "unat (w AND 31) = take_bit 5 (unat w)" by (simp add: unsigned_take_bit_eq)
  then show ?thesis using take_bit_nat_less_exp [of 5 "unat w"] by simp
qed

lemma position_of_nth: "distinct xs \<Longrightarrow> i < length xs \<Longrightarrow> position_of (xs ! i) xs = Some i"
  by (induction xs arbitrary: i) (auto simp: nth_Cons split: nat.splits)

lemma alphabet_facts:
  "length BASE32_ALPHABET = 32" "distinct BASE32_ALPHABET"
  "list_all (\<lambda>c. upper [c] = [c] \<and> (is_upper c \<or> 50 \<le> ccode c \<and> ccode c \<le> 55) \<and> c \<noteq> CHR ''='') BASE32_ALPHABET"
  by code_simp+

lemma base32_lookup_char [simp]: "base32_lookup (base32_char w) = Some (unat (w AND 31))"
  unfolding base32_lookup_def base32_char_def using unat_mask5 [of w] alphabet_facts by (intro position_of_nth) simp_all

lemma of_nat_lookup: "(of_nat (unat (w AND 31)) :: 32 word) = w AND 31"
  by simp

lemma bit_mask5: "bit (w AND 31 :: 32 word) i \<longleftrightarrow> i < 5 \<and> bit w i"
proof -
  have "w AND 31 = take_bit 5 w" by (simp add: take_bit_eq_mask mask_eq_exp_minus_1)
  then show ?thesis by (simp add: bit_take_bit_iff)
qed

lemma bit_mask8: "bit (w AND 255 :: 32 word) i \<longleftrightarrow> i < 8 \<and> bit w i"
proof -
  have "w AND 255 = take_bit 8 w" by (simp add: take_bit_eq_mask mask_eq_exp_minus_1)
  then show ?thesis by (simp add: bit_take_bit_iff)
qed

definition char_bits :: "char \<Rightarrow> bool list" where
  "char_bits c = (case base32_lookup c of None \<Rightarrow> [] | Some v \<Rightarrow> low_bits 5 (of_nat v :: 32 word))"

definition text_bits :: "string \<Rightarrow> bool list" where
  "text_bits s = concat (map char_bits s)"

definition byte_bits :: "bytes \<Rightarrow> bool list" where
  "byte_bits bs = concat (map (low_bits 8) bs)"

lemma bits_append [simp]:
  "text_bits [] = []" "text_bits (s @ t) = text_bits s @ text_bits t" "text_bits (c # s) = char_bits c @ text_bits s"
  "byte_bits [] = []" "byte_bits (b # bs) = low_bits 8 b @ byte_bits bs"
  by (simp_all add: text_bits_def byte_bits_def)

lemma length_byte_bits [simp]: "length (byte_bits bs) = 8 * length bs"
  by (induction bs) simp_all

lemma byte_bits_inj: "byte_bits xs = byte_bits ys \<Longrightarrow> xs = ys"
proof (induction xs arbitrary: ys)
  case Nil
  then show ?case by (cases ys) (auto simp: low_bits_def)
next
  case (Cons x xs)
  then obtain y ys' where ys: "ys = y # ys'" by (cases ys) (auto simp: low_bits_def)
  with Cons.prems have "low_bits 8 x = low_bits 8 y \<and> byte_bits xs = byte_bits ys'" by simp
  with Cons.IH ys low_bits_eq_word [of x y] show ?case by simp
qed

lemma char_bits_base32: "char_bits (base32_char w) = low_bits 5 w"
  by (simp add: char_bits_def low_bits_def bit_mask5)

subsection \<open>What the loops write\<close>

lemma emit_chars_bits:
  "emit_chars v bits = (out, rest) \<Longrightarrow> bits \<le> 32 \<Longrightarrow>
   rest < 5 \<and> low_bits bits v = text_bits out @ low_bits rest v"
proof (induction v bits arbitrary: out rest rule: emit_chars.induct)
  case (1 v bits)
  show ?case
  proof (cases "bits \<ge> 5")
    case True
    obtain out' rest' where rec: "emit_chars v (bits - 5) = (out', rest')" by (cases "emit_chars v (bits - 5)")
    with 1(2) True have "out = base32_char (drop_bit (bits - 5) v) # out'" "rest = rest'"
      by (subst (asm) emit_chars.simps; simp)+
    with 1(1) [OF True rec] 1(3) low_bits_split [of 5 bits v] True show ?thesis
      by (simp add: char_bits_base32)
  next
    case False
    with 1(2) show ?thesis by (subst (asm) emit_chars.simps) simp
  qed
qed

lemma low_bits_byte: "low_bits 8 (ucast (b :: 8 word) :: 32 word) = low_bits 8 b"
  by (rule nth_equalityI) (auto simp: low_bits_nth bit_simps)

lemma bit_ucast_byte: "bit (ucast (b :: 8 word) :: 32 word) i \<Longrightarrow> i < 8"
  by (auto simp: bit_simps dest: bit_imp_le_length)

lemma encode_from_bits:
  "bits < 5 \<Longrightarrow> \<exists>k < 5. text_bits (encode_from bs v bits) = low_bits bits v @ byte_bits bs @ replicate k False"
proof (induction bs v bits rule: encode_from.induct)
  case (1 v bits)
  show ?case
  proof (cases "bits > 0")
    case True
    have "low_bits 5 (push_bit (5 - bits) v) = low_bits bits v @ replicate (5 - bits) False"
    proof (rule nth_equalityI)
      fix i assume "i < length (low_bits 5 (push_bit (5 - bits) v))"
      with 1 show "low_bits 5 (push_bit (5 - bits) v) ! i = (low_bits bits v @ replicate (5 - bits) False) ! i"
        by (cases "i < bits") (auto simp: low_bits_nth nth_append bit_simps)
    qed (use 1 in simp)
    with True show ?thesis by (intro exI [of _ "5 - bits"]) (simp add: char_bits_base32)
  next
    case False
    then show ?thesis by (intro exI [of _ 0]) simp
  qed
next
  case (2 byte bs v bits)
  let ?w = "push_bit 8 v OR ucast byte"
  obtain out rest where emit: "emit_chars ?w (bits + 8) = (out, rest)" by (cases "emit_chars ?w (bits + 8)")
  have e: "rest < 5" "low_bits (bits + 8) ?w = text_bits out @ low_bits rest ?w"
    using emit_chars_bits [OF emit] 2(2) by simp_all
  have "low_bits (bits + 8) ?w = low_bits bits v @ low_bits 8 byte"
    using low_bits_push [of bits 8 "ucast byte" v] 2(2) bit_ucast_byte by (simp add: low_bits_byte)
  moreover obtain k where "k < 5" "text_bits (encode_from bs ?w rest) = low_bits rest ?w @ byte_bits bs @ replicate k False"
    using 2(1) [OF refl emit [symmetric] refl e(1)] by blast
  ultimately show ?case using emit e(2) by (intro exI [of _ k]) (simp add: Let_def)
qed

lemma position_of_less: "position_of x xs = Some i \<Longrightarrow> i < length xs"
  by (induction xs arbitrary: i) (auto split: if_splits)

lemma bit_lookup:
  assumes "base32_lookup c = Some w" and "bit (of_nat w :: 32 word) i"
  shows "i < 5"
proof -
  have "w < 32" using assms(1) position_of_less alphabet_facts(1) by (metis base32_lookup_def)
  then have "w = take_bit 5 w" by (simp add: take_bit_eq_mod)
  then have "(of_nat w :: 32 word) = take_bit 5 (of_nat w)" by (metis of_nat_take_bit)
  with assms(2) show ?thesis by (metis bit_take_bit_iff)
qed

lemma low_bits_ucast: "low_bits 8 (ucast (w AND 255 :: 32 word) :: 8 word) = low_bits 8 w"
  by (rule nth_equalityI) (auto simp: low_bits_nth bit_mask8 bit_unsigned_iff)

lemma decode_from_bits:
  "list_all (\<lambda>c. base32_lookup c \<noteq> None) cs \<Longrightarrow> bits < 8 \<Longrightarrow>
   byte_bits (decode_from cs v bits) = take (8 * ((bits + 5 * length cs) div 8)) (low_bits bits v @ text_bits cs)"
proof (induction cs arbitrary: v bits)
  case (Cons c cs)
  then obtain w where w: "base32_lookup c = Some w" by auto
  let ?v = "push_bit 5 v OR of_nat w" and ?n = "length cs"
  have bits: "low_bits (bits + 5) ?v = low_bits bits v @ char_bits c"
    using low_bits_push [of bits 5 "of_nat w" v] bit_lookup [OF w] Cons.prems(2) w by (simp add: char_bits_def)
  show ?case
  proof (cases "bits + 5 \<ge> 8")
    case True
    define r where "r = bits + 5 - 8"
    have r: "bits + 5 = r + 8" "r < 8" using True Cons.prems(2) by (simp_all add: r_def)
    have split: "low_bits (bits + 5) ?v = low_bits 8 (drop_bit r ?v) @ low_bits r ?v"
      unfolding r(1) using low_bits_split [of 8 "r + 8" ?v] r(2) by simp
    have n: "(bits + 5 * length (c # cs)) div 8 = Suc ((r + 5 * ?n) div 8)" using r by simp
    have "byte_bits (decode_from (c # cs) v bits) = low_bits 8 (drop_bit r ?v) @ byte_bits (decode_from cs ?v r)"
      using w True by (simp add: Let_def low_bits_ucast r_def)
    also have "\<dots> = take (8 * Suc ((r + 5 * ?n) div 8)) (low_bits 8 (drop_bit r ?v) @ low_bits r ?v @ text_bits cs)"
      using Cons.IH [of r ?v] Cons.prems(1) r by simp
    also have "low_bits 8 (drop_bit r ?v) @ low_bits r ?v @ text_bits cs = low_bits bits v @ text_bits (c # cs)"
      using bits split by simp
    finally show ?thesis by (simp only: n)
  next
    case False
    with Cons.IH [of "bits + 5" ?v] Cons.prems w bits show ?thesis by (simp add: Let_def add.assoc)
  qed
qed (auto simp: low_bits_def)

text \<open>The text of a secret is made of characters of the alphabet, which \<open>decodeBase32\<close> keeps as they are.\<close>

definition in_alphabet :: "char \<Rightarrow> bool" where
  "in_alphabet c \<longleftrightarrow> c \<in> set BASE32_ALPHABET"

lemma base32_char_in [simp]: "in_alphabet (base32_char w)"
  unfolding in_alphabet_def base32_char_def using unat_mask5 [of w] alphabet_facts(1) by (metis nth_mem)

lemma emit_chars_in: "emit_chars v n = (out, rest) \<Longrightarrow> list_all in_alphabet out"
proof (induction v n arbitrary: out rest rule: emit_chars.induct)
  case (1 v n)
  obtain out' rest' where rec: "emit_chars v (n - 5) = (out', rest')" by (cases "emit_chars v (n - 5)")
  from 1(2) show ?case
    by (subst (asm) emit_chars.simps) (use 1(1) [OF _ rec] rec in \<open>auto split: if_splits\<close>)
qed

lemma encode_from_in: "list_all in_alphabet (encode_from bs v n)"
  by (induction bs v n rule: encode_from.induct) (auto simp: Let_def dest: emit_chars_in split: prod.splits)

lemma normalize_alphabet:
  assumes "list_all in_alphabet s"
  shows "base32_normalize s = s"
proof -
  have c: "upper [c] = [c] \<and> (is_upper c \<or> 50 \<le> ccode c \<and> ccode c \<le> 55) \<and> c \<noteq> CHR ''=''" if "in_alphabet c" for c
    using alphabet_facts(3) that unfolding in_alphabet_def list_all_iff by blast
  have u: "upper s = s" using assms
  proof (induction s)
    case (Cons x xs)
    then show ?case using c [of x] by (simp add: upper_def)
  qed (simp add: upper_def)
  have "dropWhile (\<lambda>x. x = CHR ''='') (rev s) = rev s"
    unfolding dropWhile_eq_self_iff using assms c
    by (cases "s = []") (auto simp: list_all_iff hd_rev)
  then show ?thesis using assms c by (auto simp: base32_normalize_def u list_all_iff intro!: filter_True)
qed

lemma in_alphabet_lookup: "in_alphabet c \<Longrightarrow> base32_lookup c \<noteq> None"
  unfolding in_alphabet_def base32_lookup_def
  using position_of_nth [OF alphabet_facts(2)] by (metis in_set_conv_nth option.distinct(1))

lemma decode_encode: "decode_base32 (encode_base32 bs) = bs"
proof -
  let ?t = "encode_from bs 0 0"
  obtain k where k: "k < 5" "text_bits ?t = byte_bits bs @ replicate k False"
    using encode_from_bits [of 0 bs 0] by auto
  have all: "list_all (\<lambda>c. base32_lookup c \<noteq> None) ?t"
    using encode_from_in [of bs 0 0] in_alphabet_lookup by (auto simp: list_all_iff)
  have "length (text_bits s) = 5 * length s" if "list_all (\<lambda>c. base32_lookup c \<noteq> None) s" for s
    using that by (induction s) (auto simp: char_bits_def)
  from this [OF all] k have n: "5 * length ?t = 8 * length bs + k" by simp
  have "byte_bits (decode_from ?t 0 0) = take (8 * ((5 * length ?t) div 8)) (text_bits ?t)"
    using decode_from_bits [OF all, of 0 0] by simp
  also have "\<dots> = byte_bits bs" using k by (simp add: n)
  finally show ?thesis
    by (simp add: decode_base32_def encode_base32_def normalize_alphabet encode_from_in byte_bits_inj)
qed

subsection \<open>The step of a time\<close>

lemma fl_between:
  assumes "a \<le> x" and "x \<le> b" and "is_double a" and "is_double b"
  shows "\<exists>y. fl x = Fin y \<and> a \<le> y \<and> y \<le> b"
proof -
  from fl_mono [OF assms(1)] fl_mono [OF assms(2)] assms(3,4) have "jle (Fin a) (fl x)" "jle (fl x) (Fin b)"
    by (simp_all add: is_double_def)
  then show ?thesis by (cases "fl x") (auto simp: jle_def jeq_def)
qed

lemma double_below:
  assumes "0 < n" and "n * 2 ^ k < 2 ^ 53" and "k < 1000"
  shows "is_double (of_int n - 1 / 2 ^ k)"
proof (cases "n * 2 ^ k = 1")
  case True
  then have "n = 1 \<and> (2 :: int) ^ k = 1" using assms(1) by (simp add: pos_zmult_eq_1_iff)
  then have "n = 1 \<and> k = 0" using power_inject_exp [of "2 :: int" k 0] by simp
  then show ?thesis by (simp add: is_double_def)
next
  case False
  let ?m = "n * 2 ^ k - 1" and ?x = "of_int n - 1 / 2 ^ k :: rat"
  have "0 < n * 2 ^ k" using assms(1) by simp
  with False have m: "0 < ?m" "?m < 2 ^ 53" using assms(2) by linarith+
  have x: "?x = of_int ?m * exp2 (- int k)" by (simp add: exp2_def field_simps)
  have "round53 ?x = ?x" using m assms(3) by (intro round53_exact [OF x]) auto
  moreover have "0 < ?x" unfolding x using m(1) by (metis exp2_pos mult_pos_pos of_int_0_less_iff)
  moreover have "?x < 2 ^ 1024"
  proof -
    have "1 \<le> (2 :: int) ^ k" by simp
    with assms(1,2) have "n < 2 ^ 53" by (metis less_le_trans linorder_not_less mult_le_cancel_left1 not_less_iff_gr_or_eq order_less_trans)
    then have "n < 2 ^ 1024" by simp
    then have "(of_int n :: rat) < of_int (2 ^ 1024)" by (simp only: of_int_less_iff)
    then have "(of_int n :: rat) < 2 ^ 1024" by simp
    moreover have "?x \<le> of_int n" by simp
    ultimately show ?thesis by linarith
  qed
  ultimately show ?thesis unfolding is_double_def by (rule round53_lt_overflow)
qed

lemma now_counter_exact:
  assumes "0 \<le> now" and "now < 2 ^ 50"
  shows "now_counter now = now div 30000"
proof -
  define k where "k = now div 30000"
  have n: "30000 * k \<le> now" "now + 1 \<le> 30000 * (k + 1)"
  proof -
    have "now mod 30000 < 30000" "0 \<le> now mod 30000" "30000 * k + now mod 30000 = now" by (simp_all add: k_def)
    then show "30000 * k \<le> now" "now + 1 \<le> 30000 * (k + 1)"
      by (simp_all add: distrib_left)
  qed
  have k: "0 \<le> k" "k < 2 ^ 36" using assms n(1) by (simp_all add: k_def)
  have int: "is_double (of_int m)" if "0 \<le> m" "m < 2 ^ 53" for m using that by (simp add: is_double_def fl_int)
  have "is_double (of_int (30 * (k + 1)) - 1 / 2 ^ 11)" using k by (intro double_below) simp_all
  moreover have "of_int (30 * k) \<le> (of_int now :: rat) / 1000" "of_int now / 1000 \<le> of_int (30 * (k + 1)) - (1 / 2 ^ 11 :: rat)"
  proof -
    from n have "of_int (30000 * k) \<le> (of_int now :: rat)" "of_int (now + 1) \<le> (of_int (30000 * (k + 1)) :: rat)"
      by (simp_all only: of_int_le_iff)
    then show "of_int (30 * k) \<le> (of_int now :: rat) / 1000" "of_int now / 1000 \<le> of_int (30 * (k + 1)) - (1 / 2 ^ 11 :: rat)"
      by simp_all
  qed
  ultimately obtain q where q: "fl (of_int now / 1000) = Fin q" "of_int (30 * k) \<le> q" "q \<le> of_int (30 * (k + 1)) - 1 / 2 ^ 11"
    using fl_between int [of "30 * k"] k by fastforce
  have "is_double (of_int (k + 1) - 1 / 2 ^ 16)" using k by (intro double_below) simp_all
  moreover have "of_int k \<le> q / 30" "q / 30 \<le> of_int (k + 1) - 1 / 2 ^ 16" using q(2,3) by simp_all
  ultimately obtain r where r: "fl (q / 30) = Fin r" "of_int k \<le> r" "r \<le> of_int (k + 1) - 1 / 2 ^ 16"
    using fl_between int [of k] k by fastforce
  then have "\<lfloor>r\<rfloor> = k" by (simp add: floor_eq_iff)
  with q(1) r(1) show ?thesis by (simp add: now_counter_def jint_def TOTP_PERIOD_SECONDS_def k_def)
qed

subsection \<open>Properties\<close>

text \<open>C32: Reading the base32 text of a secret gives the secret back, for bytes of any number and value.\<close>

theorem base32_roundtrip: "decode_base32 (encode_base32 bs) = bs"
  by (rule decode_encode)

lemma hotp_shape: "length (generate_hotp hmac key c) = 6" "list_all is_digit (generate_hotp hmac key c)"
proof -
  have "0 \<le> int (n mod 10 ^ TOTP_DIGITS)" "int (n mod 10 ^ TOTP_DIGITS) < 10 ^ TOTP_DIGITS" for n :: nat
    by (simp_all add: TOTP_DIGITS_def) 
  then show "length (generate_hotp hmac key c) = 6" "list_all is_digit (generate_hotp hmac key c)"
    using pad_int(1,2) by (auto simp: generate_hotp_def Let_def TOTP_DIGITS_def)
qed

text \<open>A code is accepted for a secret exactly when it is, after everything but digits is dropped, the
  code of the step of 30 seconds of the clock, of the one before or of the one after; the clock is
  exact with floating point numbers, and a secret without bytes accepts nothing.\<close>

theorem totp_accepts_three_steps:
  assumes "0 \<le> now" and "now < 2 ^ 50"
  shows "verify_totp_code hmac now (encode_base32 key) otp 1 \<longleftrightarrow> key \<noteq> [] \<and>
    (\<exists>c. 0 \<le> c \<and> \<bar>c - now div 30000\<bar> \<le> 1 \<and> generate_hotp hmac key c = normalize_otp_code otp)"
proof -
  let ?n = "now div 30000" and ?otp = "normalize_otp_code otp"
  have upto: "[- 1..1] = [- 1, 0, 1 :: int]" by (simp add: upto.simps)
  have ex: "(\<exists>c. 0 \<le> c \<and> \<bar>c - ?n\<bar> \<le> 1 \<and> Q c) \<longleftrightarrow>
      (0 \<le> ?n - 1 \<and> Q (?n - 1)) \<or> (0 \<le> ?n \<and> Q ?n) \<or> (0 \<le> ?n + 1 \<and> Q (?n + 1))" for Q
  proof
    assume "\<exists>c. 0 \<le> c \<and> \<bar>c - ?n\<bar> \<le> 1 \<and> Q c"
    then obtain c where c: "0 \<le> c" "\<bar>c - ?n\<bar> \<le> 1" "Q c" by blast
    then have "c = ?n - 1 \<or> c = ?n \<or> c = ?n + 1" by linarith
    with c show "(0 \<le> ?n - 1 \<and> Q (?n - 1)) \<or> (0 \<le> ?n \<and> Q ?n) \<or> (0 \<le> ?n + 1 \<and> Q (?n + 1))" by auto
  next
    assume "(0 \<le> ?n - 1 \<and> Q (?n - 1)) \<or> (0 \<le> ?n \<and> Q ?n) \<or> (0 \<le> ?n + 1 \<and> Q (?n + 1))"
    then show "\<exists>c. 0 \<le> c \<and> \<bar>c - ?n\<bar> \<le> 1 \<and> Q c" by (elim disjE conjE) (intro exI conjI; assumption?; simp)+
  qed
  have "verify_totp_code hmac now (encode_base32 key) otp 1 \<longleftrightarrow>
    (length ?otp = 6 \<and> list_all is_digit ?otp) \<and> key \<noteq> [] \<and>
    (\<exists>c. 0 \<le> c \<and> \<bar>c - ?n\<bar> \<le> 1 \<and> generate_hotp hmac key c = ?otp)"
    unfolding ex by (auto simp: verify_totp_code_def Let_def decode_encode now_counter_exact [OF assms] upto not_less)
  with hotp_shape show ?thesis by metis
qed

definition example_hmac :: hmac where
  "example_hmac key text = key @ text @ replicate 12 0"

lemma totp_accepts_three_steps_witness:
  "verify_totp_code example_hmac 1000000 (encode_base32 [7]) (generate_hotp example_hmac [7] 34) 1"
proof -
  have "normalize_otp_code (generate_hotp example_hmac [7] 34) = generate_hotp example_hmac [7] 34"
    using hotp_shape [of example_hmac "[7]" 34] by (simp add: normalize_otp_code_def list_all_iff)
  then have "\<exists>c. 0 \<le> c \<and> \<bar>c - 1000000 div 30000\<bar> \<le> 1 \<and> generate_hotp example_hmac [7] c =
      normalize_otp_code (generate_hotp example_hmac [7] 34)" by (intro exI [of _ 34]) simp
  then show ?thesis
    using totp_accepts_three_steps [of 1000000 example_hmac "[7]" "generate_hotp example_hmac [7] 34"] by simp
qed

end
