(* ===== verification/FormTriggers.thy ===== *)
theory FormTriggers
  imports ExprEval "HOL-Library.Multiset"
begin

text \<open>
  Which forms are attached to a policy, \<open>packages/rules/src/form-attachment.ts\<close>: the bounded copy of a
  context without the forbidden names, the check of a trigger when it is written, and the decision.
  Values are trees, so a subtree counts where it occurs (the source counts a shared one once), and all
  properties are enumerable data. A context that \<open>buildFormAttachmentContext\<close> made is used as it is.
\<close>

datatype context_error = Limits | Invalid

definition MAX_ROWS :: nat where "MAX_ROWS = 1000"
definition MAX_EXPRESSION :: nat where "MAX_EXPRESSION = 1000"
definition MAX_CONTEXT_DEPTH :: nat where "MAX_CONTEXT_DEPTH = 64"
definition MAX_VALUES :: nat where "MAX_VALUES = 500000"
definition MAX_LIST :: nat where "MAX_LIST = 100000"
definition MAX_TEXT :: nat where "MAX_TEXT = 1000000"
definition MAX_TOTAL_TEXT :: nat where "MAX_TOTAL_TEXT = 50000000"

definition TRIGGER_TYPES :: "string list" where
  "TRIGGER_TYPES = [''Always'', ''Coverage Selected'', ''Threshold'', ''UW Rule'', ''Attribute-based'', ''Expression'']"

definition BUSINESS_ROOTS :: "string list" where
  "BUSINESS_ROOTS = [''productCode'', ''state'', ''effectiveDate'', ''transactionType'', ''termMonths'', ''expirationDate'',
     ''risk'', ''risks'', ''insureds'', ''applicant'', ''additionalInterests'', ''mailingAddress'',
     ''billingAddress'', ''drivers'', ''vehicles'', ''locations'', ''customFields'', ''lineOfBusiness'',
     ''producer'', ''agency'', ''namedInsured'', ''qualificationAnswers'', ''uwAnswers'']"

definition ROOTS :: "string list" where
  "ROOTS = BUSINESS_ROOTS @ [''payload'', ''quote'', ''transaction'', ''policy'', ''premium'',
     ''coverages'', ''coverageCodes'', ''attributes'', ''uw'']"

definition FORBIDDEN_NAMES :: "string list" where
  "FORBIDDEN_NAMES = [''proto'', ''prototype'', ''constructor'', ''tostring'', ''valueof'', ''tolocalestring'',
     ''definegetter'', ''definesetter'', ''lookupgetter'', ''lookupsetter'',
     ''auth'', ''session'', ''sessionid'', ''headers'', ''env'', ''process'', ''global'', ''globalthis'',
     ''window'', ''document'', ''require'', ''module'', ''exports'', ''eval'', ''function'',
     ''ssn'', ''socialsecuritynumber'', ''cvv'', ''cvc'', ''jwt'', ''bearer'', ''databaseurl'',
     ''accesskey'', ''signingkey'', ''encryptionkey'', ''mfa'', ''otp'', ''database'', ''db'', ''dbconfig'']"

definition FORBIDDEN_PARTS :: "string list" where
  "FORBIDDEN_PARTS = [''password'', ''passwd'', ''secret'', ''token'', ''credential'', ''apikey'', ''privatekey'',
     ''authorization'', ''authentication'', ''cookie'', ''connectionstring'', ''accesskey'', ''signingkey'',
     ''encryptionkey'', ''databaseurl'']"

definition forbidden :: "string \<Rightarrow> bool" where
  "forbidden key =
     (let name = lower (filter is_alnum key)
      in list_ex (has_substring name) FORBIDDEN_PARTS
         \<or> (starts_with name ''auth'' \<and> \<not> starts_with name ''author'')
         \<or> starts_with name ''oauth'' \<or> starts_with name ''session''
         \<or> name \<in> set FORBIDDEN_NAMES)"

subsection \<open>The bounded copy\<close>

lemma own_entries_perm: "mset (own_entries kvs) = mset kvs"
proof -
  have "mset (own_entries kvs) = mset (filter (\<lambda>(k, _). index_of k \<noteq> None) kvs) + mset (filter (\<lambda>(k, _). index_of k = None) kvs)"
    by (simp add: own_entries_def)
  also have "\<dots> = mset kvs" by (induction kvs) auto
  finally show ?thesis .
qed

lemma size_list_mset: "mset xs = mset ys \<Longrightarrow> size_list f xs = size_list f ys"
proof -
  have "size_list f zs = sum_mset (image_mset f (mset zs)) + length zs" for zs
    by (induction zs) simp_all
  then show "mset xs = mset ys \<Longrightarrow> ?thesis" by (metis size_mset)
qed

text \<open>The count of values and the text so far.\<close>

type_synonym copied = "nat \<times> nat"

definition add_text :: "nat \<Rightarrow> copied \<Rightarrow> (context_error, copied) outcome" where
  "add_text n st = (case st of (nodes, text) \<Rightarrow>
     if n > MAX_TEXT \<or> text + n > MAX_TOTAL_TEXT then Inl Limits else Inr (nodes, text + n))"

function copy_value :: "nat \<Rightarrow> jsval \<Rightarrow> copied \<Rightarrow> (context_error, jsval \<times> copied) outcome"
  and copy_items :: "nat \<Rightarrow> nat \<Rightarrow> jsval list \<Rightarrow> copied \<Rightarrow> (context_error, jsval list \<times> copied) outcome"
  and copy_fields :: "nat \<Rightarrow> fields \<Rightarrow> copied \<Rightarrow> (context_error, fields \<times> copied) outcome"
where
  "copy_value depth v st =
     (let (nodes, text) = st; st' = (nodes + 1, text)
      in if depth > MAX_CONTEXT_DEPTH \<or> nodes + 1 > MAX_VALUES then Inl Limits
         else (case v of
             JNum n \<Rightarrow> if is_finite n then Inr (v, st') else Inl Invalid
           | JStr s \<Rightarrow> outcome_bind (add_text (length s) st') (\<lambda>st''. Inr (v, st''))
           | JArr vs \<Rightarrow>
               if length vs > MAX_LIST then Inl Limits
               else outcome_bind (copy_items depth 0 vs st') (\<lambda>(ws, st''). Inr (JArr ws, st''))
           | JObj kvs \<Rightarrow>
               if length kvs > MAX_LIST then Inl Limits
               else outcome_bind (copy_fields depth (own_entries kvs) st') (\<lambda>(ws, st''). Inr (JObj ws, st''))
           | _ \<Rightarrow> Inr (v, st')))"
| "copy_items depth i [] st = Inr ([], st)"
| "copy_items depth i (v # vs) st =
     outcome_bind (add_text (length (nat_str i)) st) (\<lambda>st1.
       outcome_bind (copy_value (depth + 1) v st1) (\<lambda>(w, st2).
         outcome_bind (copy_items depth (i + 1) vs st2) (\<lambda>(ws, st3). Inr (w # ws, st3))))"
| "copy_fields depth [] st = Inr ([], st)"
| "copy_fields depth ((k, v) # kvs) st =
     (if forbidden k then copy_fields depth kvs st
      else outcome_bind (add_text (length k) st) (\<lambda>st1.
        outcome_bind (copy_value (depth + 1) v st1) (\<lambda>(w, st2).
          outcome_bind (copy_fields depth kvs st2) (\<lambda>(ws, st3). Inr ((k, w) # ws, st3)))))"
  by pat_completeness auto
termination
  by (relation "measure (\<lambda>x. case x of Inl (_, v, _) \<Rightarrow> size v
      | Inr (Inl (_, _, vs, _)) \<Rightarrow> size_list size vs | Inr (Inr (_, kvs, _)) \<Rightarrow> size_list (size_prod (\<lambda>_. 0) size) kvs)")
    (auto simp: size_list_mset [OF own_entries_perm])

declare copy_value.simps [simp del]

definition snapshot :: "jsval \<Rightarrow> (context_error, jsval) outcome" where
  "snapshot v = outcome_bind (copy_value 0 v (0, 0)) (\<lambda>(w, _). Inr w)"

subsection \<open>The check of a trigger\<close>

text \<open>
  The tokens of the scan for the strings of \<open>sum\<close> and \<open>lookup\<close>, as the regular expression of the source
  finds them: a dot does not match the end of a line, so a string with a backslash before one is no
  string here, and its quote is a token of its own.
\<close>

fun scan_literal :: "char \<Rightarrow> string \<Rightarrow> (string \<times> string) option" where
  "scan_literal q [] = None"
| "scan_literal q (c # cs) =
     (if c = q then Some ([], cs)
      else if c = CHR 0x5C then
        (case cs of
           [] \<Rightarrow> None
         | d # ds \<Rightarrow> if ccode d = 10 \<or> ccode d = 13 then None
                    else map_option (\<lambda>(t, r). (c # d # t, r)) (scan_literal q ds))
      else map_option (\<lambda>(t, r). (c # t, r)) (scan_literal q cs))"

lemma scan_literal_length: "scan_literal q s = Some (t, r) \<Longrightarrow> length r < length s"
  by (induction q s arbitrary: t r rule: scan_literal.induct)
    (fastforce split: if_splits list.splits)+

definition is_quote :: "char \<Rightarrow> bool" where
  "is_quote c \<longleftrightarrow> c = CHR 0x27 \<or> c = CHR 0x22"

function raw_tokens :: "string \<Rightarrow> string list" where
  "raw_tokens [] = []"
| "raw_tokens (c # cs) =
     (if is_space c then raw_tokens cs
      else if is_quote c then
        (case scan_literal c cs of Some (t, r) \<Rightarrow> (c # t @ [c]) # raw_tokens r | None \<Rightarrow> [c] # raw_tokens cs)
      else if is_name_start c then (c # takeWhile is_word cs) # raw_tokens (dropWhile is_word cs)
      else [c] # raw_tokens cs)"
  by pat_completeness auto
termination
  by (relation "measure length") (auto dest: scan_literal_length simp: length_dropWhile_le le_imp_less_Suc)

text \<open>\<open>replace(/\\(.)/g, '$1')\<close> and the slice before it\<close>

fun unescape :: "string \<Rightarrow> string" where
  "unescape (c # d # cs) =
     (if c = CHR 0x5C \<and> ccode d \<noteq> 10 \<and> ccode d \<noteq> 13 then d # unescape cs else c # unescape (d # cs))"
| "unescape cs = cs"

definition forbidden_selector :: "string \<Rightarrow> bool" where
  "forbidden_selector token =
     list_ex (\<lambda>part. part \<noteq> [] \<and> forbidden part) (split_on (\<lambda>c. \<not> is_word c) (unescape (butlast (drop 1 token))))"

text \<open>The calls around a token, the innermost first: the name before the bracket and the argument.\<close>

type_synonym calls = "(string \<times> nat) list"

definition selects_field :: "string \<times> nat \<Rightarrow> bool" where
  "selects_field call = (case call of (name, argument) \<Rightarrow>
     name = ''sum'' \<and> argument = 1 \<or> name = ''lookup'' \<and> argument \<noteq> 1)"

fun selectors_ok :: "calls \<Rightarrow> string \<Rightarrow> string list \<Rightarrow> bool" where
  "selectors_ok calls previous [] = True"
| "selectors_ok calls previous (token # tokens) =
     (if token = ''('' \<or> token = ''['' then
        selectors_ok ((if token = ''('' then previous else [], 0) # calls) token tokens
      else if token = '')'' \<or> token = '']'' then selectors_ok (drop 1 calls) token tokens
      else if token = '','' then
        selectors_ok (case calls of [] \<Rightarrow> [] | (name, argument) # rest \<Rightarrow> (name, argument + 1) # rest) token tokens
      else if is_quote (hd token) \<and> list_ex selects_field calls \<and> forbidden_selector token then False
      else selectors_ok calls token tokens)"

definition allowed_path :: "string \<Rightarrow> bool" where
  "allowed_path path =
     (let parts = split_at_char CHR ''.'' path in hd parts \<in> set ROOTS \<and> \<not> list_ex forbidden parts)"

definition bad_expression :: string where
  "bad_expression = ''Invalid form trigger expression or context path''"

definition compile_safe :: "jsval \<Rightarrow> (string, compiled) outcome" where
  "compile_safe src =
     (case src of
        JStr s \<Rightarrow>
          if trim s = [] \<or> length s > MAX_EXPRESSION then Inl ''Invalid form trigger expression''
          else (case compile_text s of
                  Inl _ \<Rightarrow> Inl bad_expression
                | Inr c \<Rightarrow> if list_all allowed_path (variables c) \<and> selectors_ok [] [] (raw_tokens s) then Inr c
                          else Inl bad_expression)
      | _ \<Rightarrow> Inl ''Invalid form trigger expression'')"

definition code_shape :: "string \<Rightarrow> bool" where
  "code_shape s \<longleftrightarrow> (case s of [] \<Rightarrow> False
     | c # cs \<Rightarrow> (is_upper c \<or> is_digit c \<or> c = CHR ''_'') \<and> length cs \<le> 99
         \<and> list_all (\<lambda>d. is_upper d \<or> is_digit d \<or> d = CHR ''_'' \<or> d = CHR ''-'') cs)"

definition coverage_list :: "jsval \<Rightarrow> (string, string list) outcome" where
  "coverage_list src =
     (case src of
        JStr s \<Rightarrow>
          if trim s = [] \<or> length s > MAX_EXPRESSION then Inl ''Invalid form trigger coverage list''
          else (let codes = map (\<lambda>code. upper (trim code)) (split_on (\<lambda>c. c = CHR '','' \<or> c = CHR ''|'') s)
                in if list_ex (\<lambda>code. \<not> code_shape code \<or> forbidden code) codes
                   then Inl ''Invalid form trigger coverage list'' else Inr codes)
      | _ \<Rightarrow> Inl ''Invalid form trigger coverage list'')"

record trigger =
  codes :: "string list option"
  condition :: "compiled option"
  suppress :: "compiled option"

definition source_ok :: "jsval \<Rightarrow> bool" where
  "source_ok src = (case src of JUndef \<Rightarrow> True | JNull \<Rightarrow> True | JStr s \<Rightarrow> length s \<le> MAX_EXPRESSION | _ \<Rightarrow> False)"

definition blank_text :: "jsval \<Rightarrow> bool" where
  "blank_text src = (case src of JUndef \<Rightarrow> True | JNull \<Rightarrow> True | JStr s \<Rightarrow> trim s = [] | _ \<Rightarrow> False)"

definition optional :: "bool \<Rightarrow> ('e, 'a) outcome \<Rightarrow> ('e, 'a option) outcome" where
  "optional absent r = (if absent then Inr None else outcome_bind r (\<lambda>x. Inr (Some x)))"

definition compile_definition :: "jsval \<Rightarrow> jsval \<Rightarrow> jsval \<Rightarrow> (string, trigger) outcome" where
  "compile_definition type cond supp =
     (if \<not> list_ex (\<lambda>t. type = JStr t) TRIGGER_TYPES then Inl ''Invalid form trigger type''
      else if \<not> source_ok cond \<or> \<not> source_ok supp then Inl ''Invalid form trigger expression''
      else outcome_bind (optional (type \<noteq> JStr ''Coverage Selected'') (coverage_list cond)) (\<lambda>cs.
        outcome_bind
          (if type = JStr ''Always'' then optional (blank_text cond) (compile_safe cond)
           else optional (cs \<noteq> None) (compile_safe cond)) (\<lambda>c.
          outcome_bind (optional (blank_text supp) (compile_safe supp)) (\<lambda>s.
            Inr \<lparr>codes = cs, condition = c, suppress = s\<rparr>))))"

definition validate_form_trigger_definition :: "jsval \<Rightarrow> jsval \<Rightarrow> jsval \<Rightarrow> (string, unit) outcome" where
  "validate_form_trigger_definition type cond supp = outcome_bind (compile_definition type cond supp) (\<lambda>_. Inr ())"

subsection \<open>The decision\<close>

definition ROW_FIELDS :: "string list" where
  "ROW_FIELDS = [''trigger_id'', ''triggerId'', ''trigger_type'', ''triggerType'', ''condition_expression'',
     ''conditionExpression'', ''suppress_expression'', ''suppressExpression'', ''priority'', ''active'']"

definition project_row :: "jsval \<Rightarrow> (string, jsval) outcome" where
  "project_row row =
     (if is_obj row
      then Inr (JObj (concat (map (\<lambda>f. case own row f of None \<Rightarrow> [] | Some v \<Rightarrow> [(f, v)]) ROW_FIELDS)))
      else Inl ''Invalid form trigger row'')"

definition project_trigger_rows :: "jsval list \<Rightarrow> (string, jsval list) outcome" where
  "project_trigger_rows rows = outcome_map project_row rows"

record active_rule =
  rule_id :: string
  rule_priority :: jnum
  rule_index :: nat
  rule_type :: jsval
  rule_compiled :: trigger

definition row_type :: "jsval \<Rightarrow> jsval" where
  "row_type row = js_nc (get row ''triggerType'') (js_nc (get row ''trigger_type'') (JStr ''Always''))"

definition row_id :: "jsval \<Rightarrow> jsval" where
  "row_id row = js_nc (get row ''triggerId'') (get row ''trigger_id'')"

definition row_condition :: "jsval \<Rightarrow> jsval" where
  "row_condition row = js_nc (get row ''conditionExpression'') (get row ''condition_expression'')"

definition row_suppress :: "jsval \<Rightarrow> jsval" where
  "row_suppress row = js_nc (get row ''suppressExpression'') (get row ''suppress_expression'')"

text \<open>The rule of a row; none when it is not active.\<close>

definition active_rule_of :: "nat \<times> jsval \<Rightarrow> (string, active_rule option) outcome" where
  "active_rule_of ir =
     (case ir of (index, row) \<Rightarrow>
        if get row ''active'' = JBool False then Inr None
        else if get row ''active'' \<noteq> JUndef \<and> get row ''active'' \<noteq> JBool True then Inl ''Invalid form trigger active flag''
        else if \<not> nullish (row_id row) \<and> \<not> is_str (row_id row) \<and> \<not> is_num (row_id row) then Inl ''Invalid form trigger identifier''
        else if \<not> nullish (get row ''priority'') \<and> fin_num (get row ''priority'') = None then Inl ''Invalid form trigger priority''
        else outcome_bind (compile_definition (row_type row) (row_condition row) (row_suppress row)) (\<lambda>c.
          Inr (Some \<lparr>rule_id = (if nullish (row_id row) then [] else to_str (row_id row)),
            rule_priority = (case fin_num (get row ''priority'') of Some p \<Rightarrow> p | None \<Rightarrow> Fin 0),
            rule_index = index, rule_type = row_type row, rule_compiled = c\<rparr>)))"

definition compare_rules :: "active_rule \<Rightarrow> active_rule \<Rightarrow> int" where
  "compare_rules a b =
     (let d = jsub (rule_priority a) (rule_priority b)
      in if d \<noteq> Fin 0 then (if jlt d (Fin 0) then - 1 else 1)
         else if rule_id a < rule_id b then - 1 else if rule_id a > rule_id b then 1
         else int (rule_index a) - int (rule_index b))"

record decision =
  attach :: bool
  reason :: string
  matched_ids :: "string list"

definition holds_in :: "string \<Rightarrow> jsval \<Rightarrow> compiled \<Rightarrow> bool" where
  "holds_in now ctx c = is_truthy (run now ctx (root c))"

definition suppresses :: "string \<Rightarrow> jsval \<Rightarrow> active_rule \<Rightarrow> bool" where
  "suppresses now ctx r = (case suppress (rule_compiled r) of None \<Rightarrow> False | Some c \<Rightarrow> holds_in now ctx c)"

definition rule_matches :: "string \<Rightarrow> jsval \<Rightarrow> active_rule \<Rightarrow> bool" where
  "rule_matches now ctx r =
     (rule_type r = JStr ''Always'' \<or>
      (case codes (rule_compiled r) of
         Some cs \<Rightarrow> list_ex (\<lambda>code. JStr code \<in> set (items (get ctx ''coverageCodes''))) cs
       | None \<Rightarrow> (case condition (rule_compiled r) of None \<Rightarrow> False | Some c \<Rightarrow> holds_in now ctx c)))"

definition ids_of :: "active_rule list \<Rightarrow> string list" where
  "ids_of rules = dedupe (filter (\<lambda>i. i \<noteq> []) (map rule_id rules))"

definition decide :: "string \<Rightarrow> jsval \<Rightarrow> active_rule list \<Rightarrow> decision" where
  "decide now ctx rules =
     (let sup = filter (suppresses now ctx) rules; matched = filter (rule_matches now ctx) rules
      in if sup \<noteq> [] then \<lparr>attach = False, reason = ''Suppression rule matched'', matched_ids = ids_of sup\<rparr>
         else \<lparr>attach = (matched \<noteq> []),
               reason = (if matched \<noteq> [] then ''Trigger rule matched'' else ''No trigger rule matched''),
               matched_ids = ids_of matched\<rparr>)"

definition context_message :: "context_error \<Rightarrow> string" where
  "context_message e = (if e = Limits then ''Form attachment context exceeds safety limits'' else ''Form attachment context is invalid'')"

fun with_message :: "(context_error, 'a) outcome \<Rightarrow> (string, 'a) outcome" where
  "with_message (Inl e) = Inl (context_message e)" | "with_message (Inr x) = Inr x"

definition plain :: "jsval \<Rightarrow> jsval" where
  "plain v = (if is_obj v then v else JObj [])"

text \<open>\<open>built\<close> tells whether the context is one that \<open>buildFormAttachmentContext\<close> made.\<close>

definition safe_context :: "bool \<Rightarrow> jsval \<Rightarrow> (string, jsval) outcome" where
  "safe_context built ctx = (if built then Inr ctx else outcome_bind (with_message (snapshot ctx)) (\<lambda>v. Inr (plain v)))"

definition active_rules :: "jsval \<Rightarrow> (string, active_rule list) outcome" where
  "active_rules rows =
     (case rows of
        JArr rs \<Rightarrow>
          if length rs > MAX_ROWS then Inl ''Form trigger row limit exceeded''
          else outcome_bind (project_trigger_rows rs) (\<lambda>ps.
            outcome_bind (with_message (snapshot (JArr ps))) (\<lambda>clean.
              outcome_bind (outcome_map active_rule_of (indexed 0 (items clean))) (\<lambda>rules.
                Inr (concat (map (\<lambda>r. case r of None \<Rightarrow> [] | Some x \<Rightarrow> [x]) rules)))))
      | _ \<Rightarrow> Inl ''Form trigger row limit exceeded'')"

definition evaluate_form_triggers :: "string \<Rightarrow> jsval \<Rightarrow> bool \<Rightarrow> jsval \<Rightarrow> (string, decision) outcome" where
  "evaluate_form_triggers now rows built ctx =
     outcome_bind (active_rules rows) (\<lambda>rules.
       if rules = [] then Inr \<lparr>attach = True, reason = ''No active trigger rules configured'', matched_ids = []\<rparr>
       else outcome_bind (safe_context built ctx) (\<lambda>safe. Inr (decide now safe (sort_by compare_rules rules))))"

text \<open>The fields of a rule that are kept with a generated form.\<close>

definition pinned_rule :: "jsval \<Rightarrow> jsval" where
  "pinned_rule v = JObj
     [(''triggerId'', js_nc (js_nc (get v ''triggerId'') (get v ''trigger_id'')) JNull),
      (''triggerType'', row_type v),
      (''conditionExpression'', js_nc (row_condition v) JNull),
      (''suppressExpression'', js_nc (row_suppress v) JNull),
      (''priority'', js_nc (get v ''priority'') JNull),
      (''active'', js_nc (get v ''active'') (JBool True))]"

definition pinned_form_trigger_rules :: "jsval \<Rightarrow> jsval list" where
  "pinned_form_trigger_rules rows = map pinned_rule (filter is_objlike (items rows))"

subsection \<open>What a copy holds\<close>

function strip_forbidden :: "jsval \<Rightarrow> jsval" where
  "strip_forbidden (JArr vs) = JArr (map strip_forbidden vs)"
| "strip_forbidden (JObj kvs) =
     JObj (map (\<lambda>(k, v). (k, strip_forbidden v)) (filter (\<lambda>(k, v). \<not> forbidden k) (own_entries kvs)))"
| "strip_forbidden JUndef = JUndef" | "strip_forbidden JNull = JNull" | "strip_forbidden (JBool b) = JBool b"
| "strip_forbidden (JNum n) = JNum n" | "strip_forbidden (JStr s) = JStr s"
  by pat_completeness auto
termination
  by (relation "measure size") (auto intro: size_own_entries simp: less_Suc_eq_le size_list_estimation')

fun clean_value :: "jsval \<Rightarrow> bool" where
  "clean_value (JArr vs) = list_all clean_value vs"
| "clean_value (JObj kvs) = list_all (\<lambda>(k, v). \<not> forbidden k \<and> clean_value v) kvs"
| "clean_value _ = True"

fun value_count :: "jsval \<Rightarrow> nat" where
  "value_count (JArr vs) = Suc (sum_list (map value_count vs))"
| "value_count (JObj kvs) = Suc (sum_list (map (\<lambda>(k, v). value_count v) kvs))"
| "value_count _ = 1"

fun nested_at_most :: "nat \<Rightarrow> jsval \<Rightarrow> bool" where
  "nested_at_most n (JArr vs) = (vs = [] \<or> 0 < n \<and> list_all (nested_at_most (n - 1)) vs)"
| "nested_at_most n (JObj kvs) = (kvs = [] \<or> 0 < n \<and> list_all (\<lambda>(k, v). nested_at_most (n - 1) v) kvs)"
| "nested_at_most n _ = True"

definition bounded_copy :: "nat \<Rightarrow> jsval \<Rightarrow> bool" where
  "bounded_copy depth w \<longleftrightarrow> clean_value w \<and> depth \<le> MAX_CONTEXT_DEPTH \<and> nested_at_most (MAX_CONTEXT_DEPTH - depth) w"

lemma add_text_nodes: "add_text n st = Inr st' \<Longrightarrow> fst st' = fst st"
  by (auto simp: add_text_def split: prod.splits if_splits)

lemma bounded_arr:
  "list_all (bounded_copy (depth + 1)) ws \<Longrightarrow> depth \<le> MAX_CONTEXT_DEPTH \<Longrightarrow> bounded_copy depth (JArr ws)"
  by (cases ws) (auto simp: bounded_copy_def list_all_iff)

lemma bounded_obj:
  "list_all (\<lambda>(k, v). \<not> forbidden k \<and> bounded_copy (depth + 1) v) us \<Longrightarrow> depth \<le> MAX_CONTEXT_DEPTH \<Longrightarrow>
   bounded_copy depth (JObj us)"
  by (cases us) (auto simp: bounded_copy_def list_all_iff)

lemma copies:
  "copy_value depth v st = Inr (w, st') \<Longrightarrow>
     w = strip_forbidden v \<and> bounded_copy depth w \<and> fst st' = fst st + value_count w \<and> fst st' \<le> MAX_VALUES"
  "copy_items depth i vs st = Inr (ws, st') \<Longrightarrow>
     ws = map strip_forbidden vs \<and> list_all (bounded_copy (depth + 1)) ws
     \<and> fst st' = fst st + sum_list (map value_count ws) \<and> (fst st \<le> MAX_VALUES \<longrightarrow> fst st' \<le> MAX_VALUES)"
  "copy_fields depth kvs st = Inr (us, st') \<Longrightarrow>
     us = map (\<lambda>(k, v). (k, strip_forbidden v)) (filter (\<lambda>(k, v). \<not> forbidden k) kvs)
     \<and> list_all (\<lambda>(k, v). \<not> forbidden k \<and> bounded_copy (depth + 1) v) us
     \<and> fst st' = fst st + sum_list (map (\<lambda>(k, v). value_count v) us) \<and> (fst st \<le> MAX_VALUES \<longrightarrow> fst st' \<le> MAX_VALUES)"
proof (induction depth v st and depth i vs st and depth kvs st
    arbitrary: w st' and ws st' and us st' rule: copy_value_copy_items_copy_fields.induct)
  case (1 depth v st)
  obtain nodes chars where st: "st = (nodes, chars)" by (cases st)
  have lim: "\<not> (depth > MAX_CONTEXT_DEPTH \<or> nodes + 1 > MAX_VALUES)"
    using 1(3) st by (auto simp: copy_value.simps Let_def split: if_splits)
  show ?case
  proof (cases v)
    case (JArr vs)
    have len: "\<not> length vs > MAX_LIST" using 1(3) lim st JArr by (auto simp: copy_value.simps Let_def split: if_splits)
    with 1(3) lim st JArr obtain ws where c: "copy_items depth 0 vs (nodes + 1, chars) = Inr (ws, st')" "w = JArr ws"
      by (auto simp: copy_value.simps Let_def split: if_splits)
    from 1(1) [OF refl st [symmetric] refl lim JArr len c(1)] lim c JArr st show ?thesis
      by (auto simp: not_less intro!: bounded_arr)
  next
    case (JObj kvs)
    have len: "\<not> length kvs > MAX_LIST" using 1(3) lim st JObj by (auto simp: copy_value.simps Let_def split: if_splits)
    with 1(3) lim st JObj obtain us where c: "copy_fields depth (own_entries kvs) (nodes + 1, chars) = Inr (us, st')" "w = JObj us"
      by (auto simp: copy_value.simps Let_def split: if_splits)
    from 1(2) [OF refl st [symmetric] refl lim JObj len c(1)] lim c JObj st show ?thesis
      by (auto simp: not_less intro!: bounded_obj)
  qed (use 1(3) lim st in \<open>auto simp: copy_value.simps Let_def bounded_copy_def split: if_splits dest: add_text_nodes\<close>)
next
  case (3 depth i v vs st)
  from 3(3) obtain st1 x st2 xs where c: "add_text (length (nat_str i)) st = Inr st1"
      "copy_value (depth + 1) v st1 = Inr (x, st2)" "copy_items depth (i + 1) vs st2 = Inr (xs, st')" "ws = x # xs"
    by auto
  from 3(1) [OF c(1,2)] 3(2) [OF c(1,2) refl c(3)] add_text_nodes [OF c(1)] c(4) show ?case by auto
next
  case (5 depth k v kvs st)
  show ?case
  proof (cases "forbidden k")
    case True
    with 5 show ?thesis by auto
  next
    case False
    with 5(4) obtain st1 x st2 xs where c: "add_text (length k) st = Inr st1"
        "copy_value (depth + 1) v st1 = Inr (x, st2)" "copy_fields depth kvs st2 = Inr (xs, st')" "us = (k, x) # xs"
      by auto
    from 5(2) [OF False c(1,2)] 5(3) [OF False c(1,2) refl c(3)] add_text_nodes [OF c(1)] c(4) False
    show ?thesis by auto
  qed
qed simp_all

lemma snapshot_copy: "snapshot v = Inr w \<Longrightarrow> w = strip_forbidden v \<and> bounded_copy 0 w \<and> value_count w \<le> MAX_VALUES"
  by (auto simp: snapshot_def dest!: copies(1))

text \<open>C18: A forbidden property never decides whether a form is attached: the copy the rules are evaluated on
  holds no forbidden name at any depth, nests at most 64 deep and has at most 500000 values, and two
  contexts that differ only in what stands under forbidden names get the same decision.\<close>

theorem forbidden_values_never_matter:
  assumes "snapshot ctx = Inr w" and "snapshot ctx' = Inr w'" and "strip_forbidden ctx = strip_forbidden ctx'"
  shows "clean_value w \<and> nested_at_most 64 w \<and> value_count w \<le> 500000
    \<and> evaluate_form_triggers now rows False ctx = evaluate_form_triggers now rows False ctx'"
proof -
  from snapshot_copy [OF assms(1)] snapshot_copy [OF assms(2)] assms(3) have "w = w'"
    "clean_value w" "nested_at_most 64 w" "value_count w \<le> 500000"
    by (auto simp: bounded_copy_def MAX_CONTEXT_DEPTH_def MAX_VALUES_def)
  moreover from this assms have safe: "safe_context False ctx = safe_context False ctx'" by (simp add: safe_context_def)
  ultimately show ?thesis unfolding evaluate_form_triggers_def safe by simp
qed

subsection \<open>The order of the rows\<close>

definition unplaced :: "active_rule \<Rightarrow> active_rule" where
  "unplaced r = r\<lparr>rule_index := 0\<rparr>"

lemma unplaced_same [simp]:
  "suppresses now ctx (unplaced r) = suppresses now ctx r" "rule_matches now ctx (unplaced r) = rule_matches now ctx r"
  "rule_id (unplaced r) = rule_id r"
  by (simp_all add: suppresses_def rule_matches_def unplaced_def cong: option.case_cong)

lemma decide_set:
  assumes "unplaced ` set rules = unplaced ` set rules'"
  shows "attach (decide now ctx rules) = attach (decide now ctx rules')"
    and "reason (decide now ctx rules) = reason (decide now ctx rules')"
    and "set (matched_ids (decide now ctx rules)) = set (matched_ids (decide now ctx rules'))"
proof -
  have empty: "filter (suppresses now ctx) rs = [] \<longleftrightarrow> \<not> (\<exists>r \<in> unplaced ` set rs. suppresses now ctx r)"
    "filter (rule_matches now ctx) rs = [] \<longleftrightarrow> \<not> (\<exists>r \<in> unplaced ` set rs. rule_matches now ctx r)" for rs
    by (auto simp: filter_empty_conv)
  have ids: "set (ids_of (filter (suppresses now ctx) rs)) = rule_id ` {r \<in> unplaced ` set rs. suppresses now ctx r} - {[]}"
    "set (ids_of (filter (rule_matches now ctx) rs)) = rule_id ` {r \<in> unplaced ` set rs. rule_matches now ctx r} - {[]}" for rs
    by (auto simp: ids_of_def image_iff) (metis unplaced_same)+
  have "(filter (suppresses now ctx) rules = []) = (filter (suppresses now ctx) rules' = [])"
    "(filter (rule_matches now ctx) rules = []) = (filter (rule_matches now ctx) rules' = [])"
    unfolding empty assms by (rule refl)+
  moreover have "set (ids_of (filter (suppresses now ctx) rules)) = set (ids_of (filter (suppresses now ctx) rules'))"
    "set (ids_of (filter (rule_matches now ctx) rules)) = set (ids_of (filter (rule_matches now ctx) rules'))"
    unfolding ids assms by (rule refl)+
  ultimately show "attach (decide now ctx rules) = attach (decide now ctx rules')"
    "reason (decide now ctx rules) = reason (decide now ctx rules')"
    "set (matched_ids (decide now ctx rules)) = set (matched_ids (decide now ctx rules'))"
    by (simp_all add: decide_def Let_def)
qed

text \<open>The rule of a row, as a function of the row alone.\<close>

definition row_rule :: "jsval \<Rightarrow> active_rule list" where
  "row_rule row = (case active_rule_of (0, row) of Inr (Some r) \<Rightarrow> [r] | _ \<Rightarrow> [])"

lemma active_rule_unplaced:
  "active_rule_of (i, row) = Inr x \<Longrightarrow> map unplaced (case x of None \<Rightarrow> [] | Some r \<Rightarrow> [r]) = row_rule row"
  by (auto simp: active_rule_of_def row_rule_def unplaced_def split: if_splits)

lemma active_rules_rows:
  "outcome_map active_rule_of (indexed i rows) = Inr xs \<Longrightarrow>
   map unplaced (concat (map (\<lambda>r. case r of None \<Rightarrow> [] | Some x \<Rightarrow> [x]) xs)) = concat (map row_rule rows)"
proof (induction rows arbitrary: i xs)
  case (Cons row rows)
  then obtain x ys where c: "active_rule_of (i, row) = Inr x" "outcome_map active_rule_of (indexed (Suc i) rows) = Inr ys"
    "xs = x # ys" by auto
  with Cons.IH [OF c(2)] active_rule_unplaced [OF c(1)] show ?case by simp
qed simp

lemma projected_union:
  "outcome_map project_row rs = Inr ps \<Longrightarrow>
   (\<Union>p \<in> set ps. f p) = (\<Union>row \<in> set rs. case project_row row of Inr p \<Rightarrow> f p | Inl e \<Rightarrow> {})"
proof (induction rs arbitrary: ps)
  case (Cons row rs)
  then obtain p qs where "project_row row = Inr p" "outcome_map project_row rs = Inr qs" "ps = p # qs" by auto
  with Cons.IH show ?case by simp
qed simp

lemma active_rules_set:
  assumes "active_rules (JArr rs) = Inr rules"
  shows "unplaced ` set rules = (\<Union>row \<in> set rs. case project_row row of Inr p \<Rightarrow> set (row_rule (strip_forbidden p)) | Inl e \<Rightarrow> {})"
proof -
  from assms obtain ps clean xs where a: "outcome_map project_row rs = Inr ps"
    "with_message (snapshot (JArr ps)) = Inr clean" "outcome_map active_rule_of (indexed 0 (items clean)) = Inr xs"
    "rules = concat (map (\<lambda>r. case r of None \<Rightarrow> [] | Some x \<Rightarrow> [x]) xs)"
    by (auto simp: active_rules_def project_trigger_rows_def split: if_splits)
  from a(2) have "snapshot (JArr ps) = Inr clean" by (cases "snapshot (JArr ps)") auto
  then have clean: "items clean = map strip_forbidden ps" using snapshot_copy by force
  have "unplaced ` set rules = set (map unplaced rules)" by simp
  also have "\<dots> = set (concat (map row_rule (map strip_forbidden ps)))"
    using active_rules_rows [OF a(3)] a(4) clean by simp
  also have "\<dots> = (\<Union>row \<in> set rs. case project_row row of Inr p \<Rightarrow> set (row_rule (strip_forbidden p)) | Inl e \<Rightarrow> {})"
    using projected_union [OF a(1), of "\<lambda>p. set (row_rule (strip_forbidden p))"] by simp
  finally show ?thesis .
qed

lemma form_decision_parts:
  assumes "evaluate_form_triggers now (JArr rs) built ctx = Inr d"
  shows "\<exists>rules. active_rules (JArr rs) = Inr rules \<and>
      (attach d \<longleftrightarrow> rules = [] \<or> (\<exists>safe. safe_context built ctx = Inr safe \<and>
         \<not> list_ex (suppresses now safe) rules \<and> list_ex (rule_matches now safe) rules))"
    and "evaluate_form_triggers now (JArr rs') built ctx = Inr d' \<Longrightarrow> set rs' = set rs \<Longrightarrow>
      attach d' = attach d \<and> reason d' = reason d \<and> set (matched_ids d') = set (matched_ids d)"
proof -
  have attach: "attach (decide now safe rules) \<longleftrightarrow> \<not> list_ex (suppresses now safe) rules \<and> list_ex (rule_matches now safe) rules"
    for safe rules by (auto simp: decide_def Let_def list_ex_iff filter_empty_conv)
  have sorted: "list_ex Q (sort_by compare_rules rules) = list_ex Q rules" for Q rules by (simp add: list_ex_iff)
  from assms obtain rules where r: "active_rules (JArr rs) = Inr rules" by (auto simp: evaluate_form_triggers_def)
  with assms show "\<exists>rules. active_rules (JArr rs) = Inr rules \<and>
      (attach d \<longleftrightarrow> rules = [] \<or> (\<exists>safe. safe_context built ctx = Inr safe \<and>
         \<not> list_ex (suppresses now safe) rules \<and> list_ex (rule_matches now safe) rules))"
    by (auto simp: evaluate_form_triggers_def attach sorted split: if_splits)
  assume other: "evaluate_form_triggers now (JArr rs') built ctx = Inr d'" and same: "set rs' = set rs"
  then obtain rules' where r': "active_rules (JArr rs') = Inr rules'" by (auto simp: evaluate_form_triggers_def)
  have u: "unplaced ` set rules' = unplaced ` set rules"
    unfolding active_rules_set [OF r] active_rules_set [OF r'] same by (rule refl)
  then have e: "rules' = [] \<longleftrightarrow> rules = []" by auto
  show "attach d' = attach d \<and> reason d' = reason d \<and> set (matched_ids d') = set (matched_ids d)"
  proof (cases "rules = []")
    case True
    with e r r' assms other show ?thesis by (simp add: evaluate_form_triggers_def)
  next
    case False
    with e r r' assms other obtain safe where "d = decide now safe (sort_by compare_rules rules)"
      "d' = decide now safe (sort_by compare_rules rules')"
      by (auto simp: evaluate_form_triggers_def)
    with u decide_set [of "sort_by compare_rules rules'" "sort_by compare_rules rules" now safe] show ?thesis by simp
  qed
qed

text \<open>C19: The decision on a form is what its active rules say, whatever the order of the rows: it is attached
  when there is no active rule, and otherwise when no rule suppresses it and some rule holds; and when
  the same rows stand in another order, then (if both orders are accepted) the decision, its reason and
  the set of rules it names are the same.\<close>

theorem form_decision:
  assumes "evaluate_form_triggers now (JArr rs) built ctx = Inr d"
  shows "(\<exists>rules. active_rules (JArr rs) = Inr rules \<and>
      (attach d \<longleftrightarrow> rules = [] \<or> (\<exists>safe. safe_context built ctx = Inr safe \<and>
         \<not> list_ex (suppresses now safe) rules \<and> list_ex (rule_matches now safe) rules)))
    \<and> (\<forall>rs' d'. evaluate_form_triggers now (JArr rs') built ctx = Inr d' \<and> set rs' = set rs \<longrightarrow>
      attach d' = attach d \<and> reason d' = reason d \<and> set (matched_ids d') = set (matched_ids d))"
  using form_decision_parts [OF assms] by blast

subsection \<open>A hole in the check of the selectors\<close>

definition plain_selector :: string where
  "plain_selector = ''sum(vehicles, '' @ [CHR 0x22] @ ''ssn'' @ [CHR 0x22] @ '') > 0''"

definition hidden_selector :: string where
  "hidden_selector = [CHR 0x22, CHR 0x5C, CHR 0x0A, CHR 0x22] @ '' != state && '' @ plain_selector"

text \<open>The check refuses an expression that sums a forbidden field, but accepts it after a string that
  holds a backslash before the end of a line: the scan does not take that string for one, and from
  there on sees the inside of strings as code and the code between them as strings.\<close>

theorem selector_check_bypassed:
  "compile_safe (JStr plain_selector) = Inl bad_expression \<and>
   (case compile_safe (JStr hidden_selector) of Inl e \<Rightarrow> False | Inr c \<Rightarrow> variables c = [''state'', ''vehicles''])"
  by code_simp

subsection \<open>Witnesses\<close>

definition ex_trigger :: jsval where
  "ex_trigger = JObj [(''triggerId'', JStr ''r7''), (''triggerType'', JStr ''Coverage Selected''), (''conditionExpression'', JStr ''COLL'')]"

definition ex_context :: "string \<Rightarrow> jsval" where
  "ex_context number = JObj [(''coverageCodes'', JArr [JStr ''COLL'']), (''ssn'', JStr number)]"

lemma ex_names:
  "\<not> forbidden ''coverageCodes''" "forbidden ''ssn''" "\<not> forbidden ''triggerId''" "\<not> forbidden ''triggerType''"
  "\<not> forbidden ''conditionExpression''" "\<not> forbidden ''COLL''"
  by code_simp+

lemma ex_index: "index_of ''coverageCodes'' = None" "index_of ''ssn'' = None" "index_of ''triggerId'' = None"
  "index_of ''triggerType'' = None" "index_of ''conditionExpression'' = None"
  by code_simp+

lemmas copy_limits = snapshot_def copy_value.simps add_text_def MAX_CONTEXT_DEPTH_def MAX_VALUES_def MAX_LIST_def
  MAX_TEXT_def MAX_TOTAL_TEXT_def own_entries_def ex_names ex_index

lemma short_nat_str: "length (nat_str 0) = 1"
  by code_simp

lemma ex_snapshot:
  "snapshot (ex_context ''078'') = Inr (JObj [(''coverageCodes'', JArr [JStr ''COLL''])])"
  "snapshot (ex_context ''219'') = Inr (JObj [(''coverageCodes'', JArr [JStr ''COLL''])])"
  by (simp_all add: ex_context_def copy_limits short_nat_str)

lemma ex_rows: "snapshot (JArr [ex_trigger]) = Inr (JArr [ex_trigger])"
  by (simp add: ex_trigger_def copy_limits short_nat_str)

lemma ex_projected: "project_row ex_trigger = Inr ex_trigger"
  by code_simp

lemma ex_rule:
  "active_rule_of (0, ex_trigger) = Inr (Some \<lparr>rule_id = ''r7'', rule_priority = Fin 0, rule_index = 0,
     rule_type = JStr ''Coverage Selected'', rule_compiled = \<lparr>codes = Some [''COLL''], condition = None, suppress = None\<rparr>\<rparr>)"
  by code_simp

lemma ex_active: "active_rules (JArr [ex_trigger]) = Inr [\<lparr>rule_id = ''r7'', rule_priority = Fin 0, rule_index = 0,
     rule_type = JStr ''Coverage Selected'', rule_compiled = \<lparr>codes = Some [''COLL''], condition = None, suppress = None\<rparr>\<rparr>]"
  by (simp add: active_rules_def MAX_ROWS_def project_trigger_rows_def ex_projected ex_rows ex_rule)

lemma ex_decision:
  "evaluate_form_triggers ''2026-01-01'' (JArr [ex_trigger]) False (ex_context ''078'') =
    Inr \<lparr>attach = True, reason = ''Trigger rule matched'', matched_ids = [''r7'']\<rparr>"
  by (simp add: evaluate_form_triggers_def ex_active safe_context_def ex_snapshot plain_def sort_by_def decide_def
      suppresses_def rule_matches_def ids_of_def get_def)

lemma forbidden_values_never_matter_witness:
  "evaluate_form_triggers ''2026-01-01'' (JArr [ex_trigger]) False (ex_context ''219'') =
    Inr \<lparr>attach = True, reason = ''Trigger rule matched'', matched_ids = [''r7'']\<rparr>"
proof -
  have "strip_forbidden (ex_context ''078'') = strip_forbidden (ex_context ''219'')"
    by (simp add: ex_context_def own_entries_def ex_names ex_index)
  from forbidden_values_never_matter [OF ex_snapshot this, of "''2026-01-01''" "JArr [ex_trigger]"] ex_decision show ?thesis by simp
qed

lemma form_decision_witness:
  "\<exists>rules. active_rules (JArr [ex_trigger]) = Inr rules \<and> rules \<noteq> [] \<and>
     (\<exists>safe. safe_context False (ex_context ''078'') = Inr safe \<and> list_ex (rule_matches ''2026-01-01'' safe) rules)"
proof -
  obtain rules where "active_rules (JArr [ex_trigger]) = Inr rules"
    "rules = [] \<or> (\<exists>safe. safe_context False (ex_context ''078'') = Inr safe \<and> list_ex (rule_matches ''2026-01-01'' safe) rules)"
    using form_decision [OF ex_decision] by auto
  then show ?thesis using ex_active by auto
qed

end
