(* ===== verification/PatchUtils.thy ===== *)
theory PatchUtils
  imports JsonText
begin

text \<open>
  Differences and patches of JSON values, \<open>server/src/lib/patch.utils.ts\<close>. Values are trees, so the
  change in place of the source is a new value here; a list has only the properties that are indexes,
  and a deleted element reads \<open>undefined\<close>. A read sees own properties only, where \<open>getByPath\<close> also sees what
  an object inherits. The value a patch starts from is an object or a list.
\<close>

subsection \<open>Paths\<close>

fun replace_pair :: "char \<Rightarrow> char \<Rightarrow> char \<Rightarrow> string \<Rightarrow> string" where
  "replace_pair a b x (c # d # cs) = (if c = a \<and> d = b then x # replace_pair a b x cs else c # replace_pair a b x (d # cs))"
| "replace_pair a b x cs = cs"

definition unescape_part :: "string \<Rightarrow> string" where
  "unescape_part p = replace_pair CHR ''~'' CHR ''0'' CHR ''~'' (replace_pair CHR ''~'' CHR ''1'' CHR ''/'' p)"

definition pointer_parts :: "string \<Rightarrow> string list" where
  "pointer_parts path = map unescape_part (drop 1 (split_at_char CHR ''/'' path))"

fun read_parts :: "jsval \<Rightarrow> string list \<Rightarrow> jsval" where
  "read_parts v [] = v"
| "read_parts v (k # ks) = (if nullish v then JUndef else read_parts (get v k) ks)"

definition get_by_path :: "jsval \<Rightarrow> string \<Rightarrow> jsval" where
  "get_by_path v path = (if path = [] \<or> path = ''/'' then v else read_parts v (pointer_parts path))"

subsection \<open>Differences\<close>

definition union_keys :: "fields \<Rightarrow> fields \<Rightarrow> string list" where
  "union_keys a b = dedupe (own_keys a @ own_keys b)"

lemma size_get_field: "own (JObj kvs) k = Some v \<Longrightarrow> size v < size (JObj kvs)"
  using size_aget [of kvs k v] by (simp add: less_Suc_eq_le)

lemma size_nc_field: "size (js_nc (get (JObj kvs) k) (JObj [])) \<le> size (JObj kvs)"
proof (cases "own (JObj kvs) k")
  case None
  then show ?thesis by (simp add: get_def)
next
  case (Some v)
  with size_get_field [OF Some] show ?thesis by (auto simp: get_def js_nc_def)
qed

lemma size_nc_obj:
  "is_obj (get (JObj kvs) k) \<Longrightarrow> size (js_nc (get (JObj kvs) k) (JObj [])) < size (JObj kvs)"
  using size_get_field [of kvs k] by (cases "get (JObj kvs) k") (auto simp: get_def js_nc_def split: option.splits)

lemma size_diff_step:
  assumes "is_obj (get (JObj fa) k) \<or> is_obj (get (JObj fb) k)"
  shows "size (js_nc (get (JObj fa) k) (JObj [])) + size (js_nc (get (JObj fb) k) (JObj [])) < size (JObj fa) + size (JObj fb)"
  using assms
proof
  assume "is_obj (get (JObj fa) k)"
  then show ?thesis by (rule add_less_le_mono [OF size_nc_obj size_nc_field])
next
  assume "is_obj (get (JObj fb) k)"
  then show ?thesis by (rule add_le_less_mono [OF size_nc_field size_nc_obj])
qed

function diff_payload_paths :: "jsval \<Rightarrow> jsval \<Rightarrow> string \<Rightarrow> string list" where
  "diff_payload_paths a b base =
     (case (a, b) of
        (JObj fa, JObj fb) \<Rightarrow>
          concat (map (\<lambda>k.
            (let pa = get a k; pb = get b k; p = base @ ''/'' @ k
             in if is_obj pa \<or> is_obj pb then diff_payload_paths (js_nc pa (JObj [])) (js_nc pb (JObj [])) p
                else if json_text pa \<noteq> json_text pb then [p] else [])) (union_keys fa fb))
      | _ \<Rightarrow> if json_text a \<noteq> json_text b then [if base = [] then ''/'' else base] else [])"
  by pat_completeness auto
termination
  by (relation "measure (\<lambda>(a, b, base). size a + size b)")
    (simp, simp only: in_measure prod.case prod.inject, use size_diff_step in blast)

declare diff_payload_paths.simps [simp del]

subsection \<open>Patches\<close>

datatype patch_kind = Add | Replace | Remove

record patch_op =
  op_path :: string
  op_kind :: patch_kind
  op_value :: jsval

definition UNSAFE_PATCH_KEYS :: "string list" where
  "UNSAFE_PATCH_KEYS = [''__proto__'', ''constructor'', ''prototype'']"

text \<open>\<open>delete target[k]\<close>\<close>

fun delete_prop :: "jsval \<Rightarrow> string \<Rightarrow> jsval" where
  "delete_prop (JObj kvs) k = JObj (adel kvs k)"
| "delete_prop (JArr vs) k =
     (case index_of k of None \<Rightarrow> JArr vs | Some i \<Rightarrow> JArr (if i < length vs then vs[i := JUndef] else vs))"
| "delete_prop v k = v"

definition apply_last :: "patch_op \<Rightarrow> jsval \<Rightarrow> string \<Rightarrow> jsval" where
  "apply_last op target k = (if op_kind op = Remove then delete_prop target k else set_prop target k (op_value op))"

text \<open>The child the loop goes to: an object made on the way where there is none.\<close>

definition child_of :: "jsval \<Rightarrow> string \<Rightarrow> jsval" where
  "child_of target k = (case own target k of Some c \<Rightarrow> if is_objlike c then c else JObj [] | None \<Rightarrow> JObj [])"

text \<open>Without a part, the last one reads \<open>undefined\<close> and names a property.\<close>

fun apply_parts :: "patch_op \<Rightarrow> jsval \<Rightarrow> string list \<Rightarrow> jsval" where
  "apply_parts op target [] = apply_last op target ''undefined''"
| "apply_parts op target [k] = apply_last op target k"
| "apply_parts op target (k # ks) = set_prop target k (apply_parts op (child_of target k) ks)"

definition apply_op :: "jsval \<Rightarrow> patch_op \<Rightarrow> jsval" where
  "apply_op obj op =
     (if list_ex (\<lambda>p. p \<in> set UNSAFE_PATCH_KEYS) (pointer_parts (op_path op)) then obj
      else apply_parts op obj (pointer_parts (op_path op)))"

definition apply_json_patch :: "jsval \<Rightarrow> patch_op list \<Rightarrow> jsval" where
  "apply_json_patch obj ops = foldl apply_op obj ops"

subsection \<open>Reading what a patch wrote\<close>

text \<open>The JSON pointer of a list of names, with its escapes.\<close>

definition escape_part :: "string \<Rightarrow> string" where
  "escape_part p = concat (map (\<lambda>c. if c = CHR ''~'' then ''~0'' else if c = CHR ''/'' then ''~1'' else [c]) p)"

definition pointer :: "string list \<Rightarrow> string" where
  "pointer ks = concat (map (\<lambda>k. CHR ''/'' # escape_part k) ks)"

lemma replace_escaped_slash:
  "replace_pair CHR ''~'' CHR ''1'' CHR ''/'' (escape_part p) = concat (map (\<lambda>c. if c = CHR ''~'' then ''~0'' else [c]) p)"
proof (induction p)
  case (Cons c p)
  have keep: "replace_pair CHR ''~'' CHR ''1'' CHR ''/'' (c # s) = c # replace_pair CHR ''~'' CHR ''1'' CHR ''/'' s"
    if "c \<noteq> CHR ''~''" for c s using that by (cases s) simp_all
  from Cons keep show ?case by (auto simp: escape_part_def)
qed (simp add: escape_part_def)

lemma replace_escaped_tilde:
  "replace_pair CHR ''~'' CHR ''0'' CHR ''~'' (concat (map (\<lambda>c. if c = CHR ''~'' then ''~0'' else [c]) p)) = p"
proof (induction p)
  case (Cons c p)
  have keep: "replace_pair CHR ''~'' CHR ''0'' CHR ''~'' (c # s) = c # replace_pair CHR ''~'' CHR ''0'' CHR ''~'' s"
    if "c \<noteq> CHR ''~''" for c s using that by (cases s) simp_all
  from Cons keep show ?case by auto
qed simp

lemma unescape_escape [simp]: "unescape_part (escape_part p) = p"
  by (simp add: unescape_part_def replace_escaped_slash replace_escaped_tilde)

lemma escape_no_slash: "CHR ''/'' \<notin> set (escape_part p)"
  by (auto simp: escape_part_def split: if_splits)

lemma pointer_join: "pointer ks = (if ks = [] then [] else CHR ''/'' # join ''/'' (map escape_part ks))"
  by (induction ks rule: induct_list012) (auto simp: pointer_def)

lemma pointer_parts_pointer [simp]: "ks \<noteq> [] \<Longrightarrow> pointer_parts (pointer ks) = ks"
proof -
  assume ks: "ks \<noteq> []"
  have "split_at_char CHR ''/'' (join ''/'' (map escape_part ks)) = map escape_part ks"
    using ks escape_no_slash by (intro split_join) auto
  moreover have "split_at_char CHR ''/'' (CHR ''/'' # s) = [] # split_at_char CHR ''/'' s" for s
    by (simp add: split_at_char_def)
  ultimately show ?thesis using ks by (simp add: pointer_parts_def pointer_join comp_def)
qed

lemma escape_Nil [simp]: "escape_part k = [] \<longleftrightarrow> k = []"
  by (cases k) (simp_all add: escape_part_def)

lemma pointer_Nil [simp]: "pointer ks = [] \<longleftrightarrow> ks = []"
  by (cases ks) (simp_all add: pointer_def)

lemma pointer_Cons: "pointer (k # ks) = CHR ''/'' # escape_part k @ pointer ks"
  by (simp add: pointer_def)

text \<open>Objects along a path, or nothing where the patch makes them.\<close>

fun open_path :: "jsval \<Rightarrow> string list \<Rightarrow> bool" where
  "open_path v [] = False"
| "open_path v [k] = is_obj v"
| "open_path v (k # ks) = (is_obj v \<and> (nullish (get v k) \<or> is_obj (get v k)) \<and> open_path (child_of v k) ks)"

text \<open>Two paths of which none begins with the other.\<close>

fun apart :: "string list \<Rightarrow> string list \<Rightarrow> bool" where
  "apart (j # js) (k # ks) = (j \<noteq> k \<or> apart js ks)"
| "apart _ _ = False"

lemma get_set_prop [simp]: "is_obj v \<Longrightarrow> get (set_prop v k x) k' = (if k' = k then x else get v k')"
  by (cases v) (auto simp: get_def)

lemma get_delete_prop [simp]: "is_obj v \<Longrightarrow> get (delete_prop v k) k' = (if k' = k then JUndef else get v k')"
  by (cases v) (auto simp: get_def)

lemma obj_not_nullish [simp]: "is_obj v \<Longrightarrow> \<not> nullish v" "is_obj v \<Longrightarrow> is_obj (set_prop v k x)"
  "is_obj v \<Longrightarrow> is_obj (delete_prop v k)"
  by (cases v; simp)+

lemma read_undef [simp]: "read_parts JUndef ks = JUndef"
  by (cases ks) simp_all

lemma get_child:
  assumes "nullish (get v k) \<or> is_obj (get v k)"
  shows "is_obj (child_of v k)" and "read_parts (child_of v k) (j # js) = read_parts (get v k) (j # js)"
proof -
  have "child_of v k = (if is_obj (get v k) then get v k else JObj [])"
    using assms by (cases "own v k") (auto simp: child_of_def get_def is_objlike_def split: jsval.splits elim!: nullish.elims)
  with assms show "is_obj (child_of v k)" "read_parts (child_of v k) (j # js) = read_parts (get v k) (j # js)"
    by (auto simp: get_def)
qed

lemma apply_parts_obj: "is_obj v \<Longrightarrow> is_obj (apply_parts op v ks)"
  by (cases "(op, v, ks)" rule: apply_parts.cases) (simp_all add: apply_last_def)

lemma read_applied:
  "open_path v ks \<Longrightarrow> read_parts (apply_parts op v ks) ks = (if op_kind op = Remove then JUndef else op_value op)"
  by (induction op v ks rule: apply_parts.induct) (auto simp: apply_last_def apply_parts_obj)

lemma read_apart:
  "open_path v ks \<Longrightarrow> apart ks js \<Longrightarrow> read_parts (apply_parts op v ks) js = read_parts v js"
proof (induction op v ks arbitrary: js rule: apply_parts.induct)
  case (2 op v k)
  then show ?case by (cases js) (auto simp: apply_last_def)
next
  case (3 op v k k' ks)
  then obtain j js' where js: "js = j # js'" by (cases js) auto
  show ?case
  proof (cases "j = k")
    case True
    with 3 js have ap: "apart (k' # ks) js'" by simp
    then obtain j' js'' where js': "js' = j' # js''" by (cases js') auto
    have n: "nullish (get v k) \<or> is_obj (get v k)" "is_obj v" using 3 by auto
    from 3 ap have "read_parts (apply_parts op (child_of v k) (k' # ks)) js' = read_parts (child_of v k) js'" by simp
    with True n js js' get_child(2) [OF n(1)] show ?thesis by simp
  next
    case False
    with 3 js show ?thesis by simp
  qed
qed simp

lemma patch_effect:
  assumes "open_path obj ks" and "\<not> list_ex (\<lambda>k. k \<in> set UNSAFE_PATCH_KEYS) ks"
    and "op_path op = pointer ks"
  shows "ks \<noteq> [[]] \<Longrightarrow> get_by_path (apply_json_patch obj [op]) (pointer ks) =
      (if op_kind op = Remove then JUndef else op_value op)"
    and "apart ks js \<Longrightarrow> js \<noteq> [[]] \<Longrightarrow> get_by_path (apply_json_patch obj [op]) (pointer js) = get_by_path obj (pointer js)"
proof -
  have ks: "ks \<noteq> []" using assms(1) by auto
  have path: "get_by_path v (pointer ls) = read_parts v ls" if "ls \<noteq> []" "ls \<noteq> [[]]" for v ls
  proof -
    have "pointer ls \<noteq> []" "pointer ls \<noteq> ''/''"
      using that by (cases ls; simp add: pointer_Cons pointer_Nil)+
    then show ?thesis using that by (simp add: get_by_path_def)
  qed
  have app: "apply_json_patch obj [op] = apply_parts op obj ks"
    using assms ks by (simp add: apply_json_patch_def apply_op_def)
  show "ks \<noteq> [[]] \<Longrightarrow> get_by_path (apply_json_patch obj [op]) (pointer ks) =
      (if op_kind op = Remove then JUndef else op_value op)"
    using read_applied [OF assms(1)] by (simp add: app path ks)
  assume ap: "apart ks js" and "js \<noteq> [[]]"
  moreover from ap have "js \<noteq> []" by (cases ks; auto)
  ultimately show "get_by_path (apply_json_patch obj [op]) (pointer js) = get_by_path obj (pointer js)"
    using read_apart [OF assms(1) ap] by (simp add: app path)
qed

text \<open>
  The names every object inherits: reading one that is not the object's own gives the member of the prototype,
  which the values here leave out.
\<close>

definition INHERITED_NAMES :: "string list" where
  "INHERITED_NAMES = UNSAFE_PATCH_KEYS @ [''toString'', ''toLocaleString'', ''valueOf'', ''hasOwnProperty'', ''isPrototypeOf'',
     ''propertyIsEnumerable'', ''__defineGetter__'', ''__defineSetter__'', ''__lookupGetter__'', ''__lookupSetter__'']"


subsection \<open>The paths of a difference\<close>

definition plain_key :: "string \<Rightarrow> bool" where
  "plain_key k \<longleftrightarrow> k \<noteq> [] \<and> CHR ''/'' \<notin> set k \<and> CHR ''~'' \<notin> set k"

fun plain_keys :: "jsval \<Rightarrow> bool" where
  "plain_keys (JObj kvs) = list_all (\<lambda>(k, v). plain_key k \<and> plain_keys v) kvs"
| "plain_keys _ = True"

lemma plain_escape: "plain_key k \<Longrightarrow> escape_part k = k"
proof -
  have "CHR ''/'' \<notin> set k \<Longrightarrow> CHR ''~'' \<notin> set k \<Longrightarrow> escape_part k = k" for k
    by (induction k) (auto simp: escape_part_def)
  then show "plain_key k \<Longrightarrow> ?thesis" by (simp add: plain_key_def)
qed

lemma plain_get: "plain_keys (JObj kvs) \<Longrightarrow> plain_keys (js_nc (get (JObj kvs) k) (JObj []))"
  by (auto simp: get_def js_nc_def list_all_iff split: option.splits dest!: aget_Some_in)

lemma plain_union: "plain_keys (JObj fa) \<Longrightarrow> plain_keys (JObj fb) \<Longrightarrow> k \<in> set (union_keys fa fb) \<Longrightarrow> plain_key k"
  by (auto simp: union_keys_def own_keys_def list_all_iff)

lemma read_nc: "nullish v \<Longrightarrow> read_parts (JObj []) (k # ks) = read_parts v (k # ks)"
  by (simp add: get_def)

text \<open>The place a reported path points to, as names below the base.\<close>

definition differs_at :: "jsval \<Rightarrow> jsval \<Rightarrow> string list \<Rightarrow> bool" where
  "differs_at a b ks \<longleftrightarrow> list_all plain_key ks \<and> json_text (read_parts a ks) \<noteq> json_text (read_parts b ks)"

lemma diff_places:
  "p \<in> set (diff_payload_paths a b base) \<Longrightarrow> plain_keys a \<Longrightarrow> plain_keys b \<Longrightarrow>
   \<exists>ks. differs_at a b ks \<and> p = (if base = [] \<and> ks = [] then ''/'' else base @ pointer ks) \<and> (is_obj a \<and> is_obj b \<longrightarrow> ks \<noteq> [])"
proof (induction a b base rule: diff_payload_paths.induct)
  case (1 a b base)
  show ?case
  proof (cases "is_obj a \<and> is_obj b")
    case True
    then obtain fa fb where ab: "a = JObj fa" "b = JObj fb" by (cases a; cases b) auto
    with 1(2) obtain k where k: "k \<in> set (union_keys fa fb)"
      "p \<in> set (if is_obj (get a k) \<or> is_obj (get b k)
        then diff_payload_paths (js_nc (get a k) (JObj [])) (js_nc (get b k) (JObj [])) (base @ ''/'' @ k)
        else if json_text (get a k) \<noteq> json_text (get b k) then [base @ ''/'' @ k] else [])"
      by (subst (asm) diff_payload_paths.simps) (auto simp: Let_def)
    have pk: "plain_key k" using plain_union [OF _ _ k(1)] 1(3,4) ab by simp
    show ?thesis
    proof (cases "is_obj (get a k) \<or> is_obj (get b k)")
      case nested: True
      with k(2) have "p \<in> set (diff_payload_paths (js_nc (get a k) (JObj [])) (js_nc (get b k) (JObj [])) (base @ ''/'' @ k))" by simp
      from 1(1) [OF refl ab k(1) refl refl refl nested this] plain_get 1(3,4) ab
      obtain ks where ks: "differs_at (js_nc (get a k) (JObj [])) (js_nc (get b k) (JObj [])) ks"
        "p = (base @ ''/'' @ k) @ pointer ks"
        "is_obj (js_nc (get a k) (JObj [])) \<and> is_obj (js_nc (get b k) (JObj [])) \<longrightarrow> ks \<noteq> []" by auto
      have "differs_at a b (k # ks)"
      proof (cases ks)
        case Nil
        with ks(3) nested have "\<not> nullish (get a k)" "\<not> nullish (get b k)" by (auto simp: js_nc_def)
        with Nil ks(1) pk ab show ?thesis by (simp add: differs_at_def)
      next
        case (Cons j js)
        then have "read_parts (js_nc v (JObj [])) ks = read_parts v ks" for v
          using read_nc [of v j js] by (cases "nullish v") (simp_all add: js_nc_def)
        with ks(1) pk ab show ?thesis by (simp add: differs_at_def)
      qed
      moreover have "p = base @ pointer (k # ks)" using ks(2) pk by (simp add: pointer_Cons plain_escape)
      ultimately show ?thesis by (intro exI [of _ "k # ks"]) simp
    next
      case False
      with k(2) pk ab have "differs_at a b [k]" "p = base @ pointer [k]"
        by (auto simp: differs_at_def pointer_def plain_escape split: if_splits)
      then show ?thesis by (intro exI [of _ "[k]"]) simp
    qed
  next
    case False
    then have "diff_payload_paths a b base = (if json_text a \<noteq> json_text b then [if base = [] then ''/'' else base] else [])"
      by (subst diff_payload_paths.simps) (auto split: jsval.splits)
    with 1(2) False show ?thesis
      by (intro exI [of _ "[]"]) (auto simp: differs_at_def split: if_splits)
  qed
qed

text \<open>Every path the comparison of two payloads reports leads to values with different JSON texts, when
  no name in them is empty or holds a slash or a tilde (the paths are written without the escapes that
  reading expects).\<close>

theorem reported_paths_differ:
  assumes "p \<in> set (diff_payload_paths a b [])" and "plain_keys a" and "plain_keys b"
  shows "json_text (get_by_path a p) \<noteq> json_text (get_by_path b p)"
proof -
  obtain ks where ks: "differs_at a b ks" "p = (if ks = [] then ''/'' else pointer ks)"
    using diff_places [OF assms] by (metis append_Nil)
  show ?thesis
  proof (cases "ks = []")
    case True
    with ks show ?thesis by (simp add: get_by_path_def differs_at_def)
  next
    case False
    with ks have "pointer ks \<noteq> ''/''" "pointer ks \<noteq> []"
      by (cases ks; auto simp: pointer_Cons differs_at_def plain_key_def)+
    with False ks show ?thesis by (simp add: get_by_path_def differs_at_def)
  qed
qed

text \<open>What it does not report or misreports: an object without properties against nothing, and a name with a slash.\<close>

lemma empty_object_not_reported:
  "diff_payload_paths (JObj [(''risk'', JObj [])]) (JObj [(''risk'', JNull)]) [] = []
   \<and> json_text (JObj [(''risk'', JObj [])]) \<noteq> json_text (JObj [(''risk'', JNull)])"
  by code_simp

lemma slash_not_escaped:
  "diff_payload_paths (JObj [(''a/b'', JBool True)]) (JObj []) [] = [''/a/b'']
   \<and> get_by_path (JObj [(''a/b'', JBool True)]) ''/a/b'' = JUndef"
  by code_simp

subsection \<open>Witnesses\<close>

definition ex_policy :: jsval where
  "ex_policy = JObj [(''insured'', JObj [(''name'', JStr ''Ann'')]), (''limit'', JNum (Fin 100))]"


lemma reported_paths_differ_witness:
  "json_text (get_by_path ex_policy ''/insured/name'') \<noteq> json_text (get_by_path (JObj []) ''/insured/name'')"
proof (rule reported_paths_differ)
  show "''/insured/name'' \<in> set (diff_payload_paths ex_policy (JObj []) [])" by code_simp
  show "plain_keys ex_policy" "plain_keys (JObj [])" by code_simp+
qed

end
