(* ===== verification/Reinsurance.thy ===== *)
theory Reinsurance
  imports DateUtils "HOL-Library.While_Combinator"
begin

text \<open>
  Reinsurance placement, \<open>server/src/services/reinsurance.service.ts\<close>: the check of the shares of a layer,
  the choice of the treaty versions and certificates that cover a policy transaction, and the
  placement rows written for it. The tables are lists of rows with the columns the code reads or
  writes; ids are numbers, and \<open>db_next\<close> stands for the supply of fresh UUIDs. A \<open>date\<close> column is a day
  number, which the driver hands out as a \<open>Date\<close> at local midnight; percentages are the exact values of
  \<open>numeric(6, 3)\<close> columns, read with \<open>Number(...)\<close>. What the driver and the casts of the database do with
  a value is a parameter, \<open>driver\<close>.
\<close>

datatype reins_error =
    BadRequest string string
  | NotFound string string
  | VersionConflict string string
  | SqlError
  | ServerFault \<comment> \<open>a thrown \<open>TypeError\<close>\<close>

record driver =
  local_midnight :: "int \<Rightarrow> int" \<comment> \<open>the time value in milliseconds of a day's local midnight\<close>
  sql_date :: "jsval \<Rightarrow> int option" \<comment> \<open>a parameter cast to \<open>date\<close>; \<open>None\<close> is a NULL or an error\<close>
  sql_numeric :: "jsval \<Rightarrow> rat option" \<comment> \<open>to \<open>numeric(6, 3)\<close>\<close>
  sql_int :: "jsval \<Rightarrow> int option" \<comment> \<open>to \<open>int\<close>\<close>
  sql_text :: "jsval \<Rightarrow> string option" \<comment> \<open>to \<open>text\<close>\<close>
  sql_codes :: "jsval \<Rightarrow> string list option option" \<comment> \<open>to \<open>text[]\<close>; \<open>Some None\<close> is NULL\<close>

subsection \<open>Shares of a layer\<close>

record share_check =
  shares_valid :: bool
  total_percent :: jnum
  shares_error :: "string option"

text \<open>\<open>Math.round(sum * 1000) / 1000\<close>, and the message of a total above 100.\<close>

definition round3 :: "jnum \<Rightarrow> jnum" where
  "round3 x = jdiv (jround (jmul x (Fin 1000))) (Fin 1000)"

definition over_placed_text :: "jnum \<Rightarrow> string" where
  "over_placed_text pct = ''Participation percentages sum to '' @ num_str pct @ ''%, which exceeds 100%''"

definition SHARE_RANGE :: string where
  "SHARE_RANGE = ''Each participation percent must be greater than 0 and at most 100''"

definition validate_participant_shares :: "jnum list \<Rightarrow> share_check" where
  "validate_participant_shares ps =
     (if ps = [] then \<lparr>shares_valid = True, total_percent = Fin 0, shares_error = None\<rparr>
      else if list_ex (\<lambda>p. \<not> jlt (Fin 0) p \<or> jlt (Fin 100) p) ps
      then \<lparr>shares_valid = False, total_percent = Fin 0, shares_error = Some SHARE_RANGE\<rparr>
      else let total = round3 (foldl jadd (Fin 0) ps)
           in if jlt (fl (100001 / 1000)) total
              then \<lparr>shares_valid = False, total_percent = total, shares_error = Some (over_placed_text total)\<rparr>
              else \<lparr>shares_valid = True, total_percent = total, shares_error = None\<rparr>)"

subsection \<open>Tables\<close>

record treaty =
  tr_id :: nat
  tr_tenant :: string
  tr_name :: string
  tr_type :: string
  tr_status :: string
  tr_effective :: int
  tr_expiration :: int
  tr_version :: int
  tr_superseded :: "nat option"
  tr_broker :: jsval
  tr_broker_ref :: jsval
  tr_products :: "string list option"
  tr_states :: "string list option"

record layer =
  ly_id :: nat
  ly_tenant :: string
  ly_treaty :: nat
  ly_number :: int
  ly_type :: jsval
  ly_retention :: jsval
  ly_limit :: jsval
  ly_ceded :: rat
  ly_retained :: rat
  ly_rate :: jsval

record certificate =
  ct_id :: nat
  ct_tenant :: string
  ct_policy :: nat
  ct_number :: "string option"
  ct_status :: string
  ct_effective :: int
  ct_expiration :: int
  ct_ceded :: rat
  ct_retained :: rat
  ct_created :: int

record participant =
  pt_id :: nat
  pt_tenant :: string
  pt_layer :: "nat option"
  pt_certificate :: "nat option"
  pt_name :: string
  pt_reference :: jsval
  pt_percent :: rat
  pt_broker :: jsval
  pt_lead :: bool

text \<open>What the policy tables hold of a policy, a transaction and a version.\<close>

record policy_row =
  po_id :: nat
  po_tenant :: string
  po_product :: string
  po_state :: "string option"

record txn_row =
  tx_id :: nat
  tx_tenant :: string
  tx_policy :: nat
  tx_effective :: "int option"
  tx_created :: int

record version_row =
  vr_tenant :: string
  vr_transaction :: nat
  vr_premium :: "rat option"
  vr_processed :: int

record policy_tables =
  policies :: "policy_row list"
  transactions :: "txn_row list"
  policy_versions :: "version_row list"

record share =
  sh_participant :: nat
  sh_reinsurer :: string
  sh_percent :: jnum

datatype placement_match =
    LayerMatch (match_treaty: nat) (match_name: string) (match_layer: nat) (match_number: int)
      (match_ceded: jnum) (match_retained: jnum) (match_shares: "share list")
  | FacultativeMatch (match_certificate: nat) (match_certificate_number: "string option")
      (match_ceded: jnum) (match_retained: jnum) (match_shares: "share list")

record placement =
  pl_id :: nat
  pl_tenant :: string
  pl_policy :: nat
  pl_transaction :: nat
  pl_type :: string
  pl_treaty :: "nat option"
  pl_layer :: "nat option"
  pl_certificate :: "nat option"
  pl_retained :: jnum
  pl_ceded :: jnum
  pl_retained_premium :: "jnum option"
  pl_ceded_premium :: "jnum option"
  pl_basis :: placement_match

record reins_db =
  treaties :: "treaty list"
  layers :: "layer list"
  certificates :: "certificate list"
  participants :: "participant list"
  placements :: "placement list"
  db_next :: nat

subsection \<open>Applicability of a treaty\<close>

record applicability =
  ap_status :: string
  ap_effective :: string
  ap_expiration :: string
  ap_products :: "string list option"
  ap_states :: "string list option"

record placement_query =
  q_tenant :: string
  q_product :: string
  q_state :: "string option"
  q_as_of :: string

definition listed :: "string list option \<Rightarrow> string \<Rightarrow> bool" where
  "listed codes c = (case codes of None \<Rightarrow> True | Some cs \<Rightarrow> cs = [] \<or> c \<in> set cs)"

definition treaty_applies :: "applicability \<Rightarrow> placement_query \<Rightarrow> bool" where
  "treaty_applies t q =
     (if ap_status t \<noteq> ''Active'' then False
      else if q_as_of q < ap_effective t \<or> ap_expiration t \<le> q_as_of q then False
      else if \<not> listed (ap_products t) (q_product q) then False
      else if (case q_state q of None \<Rightarrow> False | Some s \<Rightarrow> s \<noteq> [] \<and> \<not> listed (ap_states t) s) then False
      else True)"

text \<open>\<open>toIsoDate\<close> of a \<open>date\<close> column: \<open>toISOString().slice(0, 10)\<close> of its local midnight.\<close>

definition to_iso_date :: "driver \<Rightarrow> int \<Rightarrow> string" where
  "to_iso_date drv day = iso_date (day_of_ms (local_midnight drv day))"

definition applicability_of :: "driver \<Rightarrow> treaty \<Rightarrow> applicability" where
  "applicability_of drv t =
     \<lparr>ap_status = tr_status t, ap_effective = to_iso_date drv (tr_effective t),
      ap_expiration = to_iso_date drv (tr_expiration t), ap_products = tr_products t, ap_states = tr_states t\<rparr>"

subsection \<open>Lookup\<close>

definition share_order :: "participant \<Rightarrow> participant \<Rightarrow> int" where
  "share_order a b =
     (if pt_lead a \<noteq> pt_lead b then (if pt_lead a then - 1 else 1)
      else if pt_percent b < pt_percent a then - 1 else if pt_percent a < pt_percent b then 1 else 0)"

definition share_of :: "participant \<Rightarrow> share" where
  "share_of p = \<lparr>sh_participant = pt_id p, sh_reinsurer = pt_name p, sh_percent = fl (pt_percent p)\<rparr>"

text \<open>A layer id selects the column \<open>layer_id\<close>, otherwise the certificate's column is used.\<close>

definition load_participants :: "reins_db \<Rightarrow> string \<Rightarrow> nat option \<Rightarrow> nat option \<Rightarrow> share list" where
  "load_participants db tenant ly ct =
     (let mine = (case ly of Some l \<Rightarrow> (\<lambda>p. pt_layer p = Some l)
                    | None \<Rightarrow> (\<lambda>p. ct \<noteq> None \<and> pt_certificate p = ct))
      in map share_of (sort_by share_order (filter (\<lambda>p. pt_tenant p = tenant \<and> mine p) (participants db))))"

definition fac_covers :: "string \<Rightarrow> nat \<Rightarrow> int \<Rightarrow> certificate \<Rightarrow> bool" where
  "fac_covers tenant policy day c =
     (ct_tenant c = tenant \<and> ct_policy c = policy \<and> ct_status c = ''Active''
      \<and> ct_effective c \<le> day \<and> day < ct_expiration c)"

definition newest_certificate_first :: "certificate \<Rightarrow> certificate \<Rightarrow> int" where
  "newest_certificate_first a b = ct_created b - ct_created a"

definition facultative_match :: "reins_db \<Rightarrow> string \<Rightarrow> certificate \<Rightarrow> placement_match" where
  "facultative_match db tenant c =
     FacultativeMatch (ct_id c) (ct_number c) (fl (ct_ceded c)) (fl (ct_retained c))
       (load_participants db tenant None (Some (ct_id c)))"

text \<open>\<open>predecessorById\<close>: for every superseded row, the row that superseded it leads back to it.\<close>

definition predecessors :: "treaty list \<Rightarrow> (nat \<times> nat) list" where
  "predecessors rows =
     foldl (\<lambda>m t. case tr_superseded t of None \<Rightarrow> m | Some n \<Rightarrow> aput m n (tr_id t)) [] rows"

text \<open>The loop of \<open>rootId\<close>, whose set \<open>visited\<close> is the list of the ids it has left.\<close>

function root_walk :: "(nat \<times> nat) list \<Rightarrow> nat list \<Rightarrow> nat \<Rightarrow> nat" where
  "root_walk pred visited current =
     (case aget pred current of
        None \<Rightarrow> current
      | Some p \<Rightarrow> if current \<in> set visited then current else root_walk pred (current # visited) p)"
  by pat_completeness auto
termination
proof (relation "measure (\<lambda>(pred, visited, _). card (fst ` set pred - set visited))")
  fix pred :: "(nat \<times> nat) list" and visited current p
  assume "aget pred current = Some p" "current \<notin> set visited"
  then have "current \<in> fst ` set pred - set visited" by (force dest: aget_Some_in)
  then have "fst ` set pred - set (current # visited) \<subset> fst ` set pred - set visited" by auto
  then show "((pred, current # visited, p), (pred, visited, current))
      \<in> measure (\<lambda>(pred, visited, _). card (fst ` set pred - set visited))"
    by (simp add: psubset_card_mono)
qed simp

declare root_walk.simps [simp del]

definition root_id :: "treaty list \<Rightarrow> nat \<Rightarrow> nat" where
  "root_id rows treaty = root_walk (predecessors rows) [] treaty"

text \<open>\<open>effectiveVersions\<close>: for every root the highest version already in effect.\<close>

definition note_version ::
  "driver \<Rightarrow> treaty list \<Rightarrow> string \<Rightarrow> (nat \<times> treaty) list \<Rightarrow> treaty \<Rightarrow> (nat \<times> treaty) list" where
  "note_version drv rows as_of chosen t =
     (if as_of < to_iso_date drv (tr_effective t) then chosen
      else let root = root_id rows (tr_id t)
           in case aget chosen root of
                None \<Rightarrow> aput chosen root t
              | Some sel \<Rightarrow> if tr_version sel < tr_version t then aput chosen root t else chosen)"

definition applicable_treaties :: "driver \<Rightarrow> reins_db \<Rightarrow> placement_query \<Rightarrow> treaty list" where
  "applicable_treaties drv db q =
     (let rows = filter (\<lambda>t. tr_tenant t = q_tenant q) (treaties db);
          chosen = foldl (note_version drv rows (q_as_of q)) [] rows
      in filter (\<lambda>t. treaty_applies (applicability_of drv t) q) (map snd chosen))"

definition layer_order :: "layer \<Rightarrow> layer \<Rightarrow> int" where
  "layer_order a b = ly_number a - ly_number b"

definition layer_match :: "reins_db \<Rightarrow> string \<Rightarrow> treaty \<Rightarrow> layer \<Rightarrow> placement_match" where
  "layer_match db tenant t l =
     LayerMatch (tr_id t) (tr_name t) (ly_id l) (ly_number l) (fl (ly_ceded l)) (fl (ly_retained l))
       (load_participants db tenant (Some (ly_id l)) None)"

definition treaty_layers :: "reins_db \<Rightarrow> string \<Rightarrow> nat \<Rightarrow> layer list" where
  "treaty_layers db tenant treaty =
     sort_by layer_order (filter (\<lambda>l. ly_tenant l = tenant \<and> ly_treaty l = treaty) (layers db))"

definition lookup_placement_matches ::
  "driver \<Rightarrow> reins_db \<Rightarrow> placement_query \<Rightarrow> nat \<Rightarrow> (reins_error, placement_match list) outcome" where
  "lookup_placement_matches drv db q policy =
     (case sql_date drv (JStr (q_as_of q)) of
        None \<Rightarrow> Inl SqlError
      | Some day \<Rightarrow>
          let certs = sort_by newest_certificate_first (filter (fac_covers (q_tenant q) policy day) (certificates db))
          in if certs \<noteq> [] then Inr (map (facultative_match db (q_tenant q)) certs)
             else Inr (concat (map (\<lambda>t. map (layer_match db (q_tenant q) t) (treaty_layers db (q_tenant q) (tr_id t)))
                                (applicable_treaties drv db q))))"

subsection \<open>Placement rows of a transaction\<close>

definition find_policy :: "policy_tables \<Rightarrow> string \<Rightarrow> nat \<Rightarrow> policy_row option" where
  "find_policy pol tenant policy = find_first (\<lambda>p. po_tenant p = tenant \<and> po_id p = policy) (policies pol)"

definition find_txn :: "policy_tables \<Rightarrow> string \<Rightarrow> nat \<Rightarrow> nat \<Rightarrow> txn_row option" where
  "find_txn pol tenant policy txn =
     find_first (\<lambda>x. tx_tenant x = tenant \<and> tx_id x = txn \<and> tx_policy x = policy) (transactions pol)"

definition latest_premium :: "policy_tables \<Rightarrow> string \<Rightarrow> nat \<Rightarrow> jnum option" where
  "latest_premium pol tenant txn =
     (case sort_by (\<lambda>a b. vr_processed b - vr_processed a)
             (filter (\<lambda>v. vr_tenant v = tenant \<and> vr_transaction v = txn) (policy_versions pol)) of
        [] \<Rightarrow> None
      | v # _ \<Rightarrow> map_option fl (vr_premium v))"

definition ceded_premium :: "jnum \<Rightarrow> jnum \<Rightarrow> jnum" where
  "ceded_premium premium percent = jdiv (jround (jmul (jmul premium (jdiv percent (Fin 100))) (Fin 100))) (Fin 100)"

definition retained_premium :: "jnum \<Rightarrow> jnum \<Rightarrow> jnum" where
  "retained_premium premium ceded = jdiv (jround (jmul (jsub premium ceded) (Fin 100))) (Fin 100)"

definition placement_row :: "string \<Rightarrow> nat \<Rightarrow> nat \<Rightarrow> jnum option \<Rightarrow> nat \<Rightarrow> placement_match \<Rightarrow> placement" where
  "placement_row tenant policy txn premium i m =
     (let ceded = map_option (\<lambda>p. ceded_premium p (match_ceded m)) premium;
          retained = (case (premium, ceded) of (Some p, Some c) \<Rightarrow> Some (retained_premium p c) | _ \<Rightarrow> None)
      in \<lparr>pl_id = i, pl_tenant = tenant, pl_policy = policy, pl_transaction = txn,
          pl_type = (case m of LayerMatch _ _ _ _ _ _ _ \<Rightarrow> ''TREATY'' | FacultativeMatch _ _ _ _ _ \<Rightarrow> ''FACULTATIVE''),
          pl_treaty = (case m of LayerMatch t _ _ _ _ _ _ \<Rightarrow> Some t | FacultativeMatch _ _ _ _ _ \<Rightarrow> None),
          pl_layer = (case m of LayerMatch _ _ l _ _ _ _ \<Rightarrow> Some l | FacultativeMatch _ _ _ _ _ \<Rightarrow> None),
          pl_certificate = (case m of LayerMatch _ _ _ _ _ _ _ \<Rightarrow> None | FacultativeMatch c _ _ _ _ \<Rightarrow> Some c),
          pl_retained = match_retained m, pl_ceded = match_ceded m,
          pl_retained_premium = retained, pl_ceded_premium = ceded, pl_basis = m\<rparr>)"

text \<open>The columns \<open>numeric(14, 2)\<close> take amounts below a million million (and NaN).\<close>

definition amount_fits :: "jnum option \<Rightarrow> bool" where
  "amount_fits a = (case a of None \<Rightarrow> True | Some x \<Rightarrow> x = NaN \<or> jlt (jabs x) (Fin (10 ^ 12)))"

definition compute_placement_for_transaction ::
  "driver \<Rightarrow> policy_tables \<Rightarrow> string \<Rightarrow> nat \<Rightarrow> nat \<Rightarrow> reins_db
   \<Rightarrow> (reins_error, placement_match list \<times> reins_db) outcome" where
  "compute_placement_for_transaction drv pol tenant policy txn db =
     (case find_policy pol tenant policy of
        None \<Rightarrow> Inl (NotFound ''REINSURANCE_NOT_FOUND'' ''Policy not found'')
      | Some p \<Rightarrow>
      (case find_txn pol tenant policy txn of
        None \<Rightarrow> Inl (NotFound ''REINSURANCE_NOT_FOUND'' ''Policy transaction not found'')
      | Some x \<Rightarrow>
          let as_of = (case tx_effective x of Some d \<Rightarrow> to_iso_date drv d | None \<Rightarrow> iso_date (day_of_ms (tx_created x)))
          in outcome_bind (lookup_placement_matches drv db
               \<lparr>q_tenant = tenant, q_product = po_product p, q_state = po_state p, q_as_of = as_of\<rparr> policy) (\<lambda>ms.
             let premium = latest_premium pol tenant txn;
                 kept = filter (\<lambda>r. \<not> (pl_tenant r = tenant \<and> pl_transaction r = txn)) (placements db);
                 rows = map (\<lambda>(i, m). placement_row tenant policy txn premium i m) (indexed (db_next db) ms)
             in if list_all (\<lambda>r. amount_fits (pl_retained_premium r) \<and> amount_fits (pl_ceded_premium r)) rows
                then Inr (ms, db\<lparr>placements := kept @ rows, db_next := db_next db + length ms\<rparr>)
                else Inl SqlError)))"

text \<open>
  The wrapper the policy services call: every error is logged and becomes the empty list. (After an
  error of the database the surrounding transaction is aborted, which is outside this model.)
\<close>

definition compute_placement_safely ::
  "driver \<Rightarrow> policy_tables \<Rightarrow> string \<Rightarrow> nat \<Rightarrow> nat \<Rightarrow> reins_db \<Rightarrow> placement_match list \<times> reins_db" where
  "compute_placement_safely drv pol tenant policy txn db =
     (case compute_placement_for_transaction drv pol tenant policy txn db of
        Inl _ \<Rightarrow> ([], db)
      | Inr r \<Rightarrow> r)"

definition TREATY_TYPES :: "string list" where
  "TREATY_TYPES = [''QUOTA_SHARE'', ''SURPLUS'', ''EXCESS_OF_LOSS'', ''FACULTATIVE_OBLIGATORY'']"

definition assert_valid_treaty_type :: "string \<Rightarrow> (reins_error, unit) outcome" where
  "assert_valid_treaty_type v =
     (if v \<in> set TREATY_TYPES then Inr ()
      else Inl (BadRequest ''REINSURANCE_INVALID_TREATY_TYPE'' (''treatyType must be one of '' @ join '', '' TREATY_TYPES)))"

end
