(* ===== verification/TreatyVersions.thy ===== *)
theory TreatyVersions
  imports Reinsurance Traces
begin

text \<open>
  The administration of reinsurance treaties, \<open>server/src/routes/reinsurance-admin.routes.ts\<close>: a treaty is
  created with its layers and their participants, and every change makes a new version and points
  the old one to it. A request that fails is rolled back, so an operation returns the new tables or an
  error. The request body is a JSON value; the casts of its values to columns are the driver's. The
  columns for the broker and a layer's amounts hold the value as it is given; the columns that are only
  carried along (program, currency, metadata, the author and the times) are left out, and so is the check
  of the body of a new treaty against its schema (\<open>validateContractBody\<close>), which runs before the handler
  and only narrows the treaties that are created.
\<close>

definition invalid :: "string \<Rightarrow> (reins_error, 'a) outcome" where
  "invalid msg = Inl (BadRequest ''REINSURANCE_INVALID_INPUT'' msg)"

text \<open>The rows a \<open>for ... of\<close> loop takes from a value that should be a list.\<close>

definition loop_items :: "jsval \<Rightarrow> (reins_error, jsval list) outcome" where
  "loop_items v =
     (case v of
        JArr vs \<Rightarrow> Inr vs
      | JStr s \<Rightarrow> if s = [] then Inr [] else Inl SqlError \<comment> \<open>a character has no percentage, which is NOT NULL\<close>
      | _ \<Rightarrow> if nullish v then Inr [] else Inl ServerFault)"

definition share_numbers :: "jsval list \<Rightarrow> jnum list" where
  "share_numbers ps = map (\<lambda>p. to_num (get p ''participationPercent'')) ps"

definition check_shares :: "jsval list \<Rightarrow> (reins_error, unit) outcome" where
  "check_shares ps =
     (if list_ex nullish ps then Inl ServerFault
      else let v = validate_participant_shares (share_numbers ps)
           in if shares_valid v then Inr ()
              else invalid (case shares_error v of None \<Rightarrow> ''Invalid participant shares'' | Some e \<Rightarrow> e))"

subsection \<open>Rows\<close>

text \<open>The constraints of the tables: percentages from 0 to 100, and one row per treaty and layer number.\<close>

definition insert_layer ::
  "driver \<Rightarrow> string \<Rightarrow> nat \<Rightarrow> jsval \<Rightarrow> jsval \<Rightarrow> jsval \<Rightarrow> reins_db \<Rightarrow> (reins_error, nat \<times> reins_db) outcome" where
  "insert_layer drv tenant treaty num ty src db =
     (case (sql_int drv num, sql_numeric drv (get src ''cededPercent''), sql_numeric drv (get src ''retainedPercent'')) of
        (Some n, Some c, Some r) \<Rightarrow>
          if 0 \<le> c \<and> c \<le> 100 \<and> 0 \<le> r \<and> r \<le> 100
             \<and> \<not> list_ex (\<lambda>l. ly_tenant l = tenant \<and> ly_treaty l = treaty \<and> ly_number l = n) (layers db)
          then Inr (db_next db,
                 db\<lparr>layers := layers db @ [\<lparr>ly_id = db_next db, ly_tenant = tenant, ly_treaty = treaty, ly_number = n,
                      ly_type = ty, ly_retention = js_nc (get src ''retentionAmount'') JNull,
                      ly_limit = js_nc (get src ''limitAmount'') JNull, ly_ceded = c, ly_retained = r,
                      ly_rate = js_nc (get src ''premiumRate'') JNull\<rparr>],
                    db_next := db_next db + 1\<rparr>)
          else Inl SqlError
      | _ \<Rightarrow> Inl SqlError)"

definition insert_participant ::
  "driver \<Rightarrow> string \<Rightarrow> nat option \<Rightarrow> nat option \<Rightarrow> (jsval \<Rightarrow> jsval) \<Rightarrow> jsval \<Rightarrow> reins_db
   \<Rightarrow> (reins_error, reins_db) outcome" where
  "insert_participant drv tenant ly ct name_of p db =
     (if nullish p then Inl ServerFault
      else case (sql_text drv (name_of p), sql_numeric drv (get p ''participationPercent'')) of
        (Some name, Some pct) \<Rightarrow>
          if 0 < pct \<and> pct \<le> 100
          then Inr (db\<lparr>participants := participants db @ [\<lparr>pt_id = db_next db, pt_tenant = tenant, pt_layer = ly,
                      pt_certificate = ct, pt_name = name, pt_reference = js_or (get p ''reinsurerReference'') JNull,
                      pt_percent = pct, pt_broker = js_or (get p ''brokerName'') JNull,
                      pt_lead = (get p ''isLead'' = JBool True)\<rparr>],
                    db_next := db_next db + 1\<rparr>)
          else Inl SqlError
      | _ \<Rightarrow> Inl SqlError)"

text \<open>\<open>participant.reinsurerName\<close> as it is in a new treaty, trimmed in a new version.\<close>

definition given_name :: "jsval \<Rightarrow> jsval" where
  "given_name p = get p ''reinsurerName''"

definition trimmed_name :: "jsval \<Rightarrow> jsval" where
  "trimmed_name p = JStr (trim (to_str (get p ''reinsurerName'')))"

definition TREATY_STATUSES :: "string list" where
  "TREATY_STATUSES = [''Draft'', ''Active'', ''Expired'', ''Cancelled'']"

text \<open>The constraints of a treaty row, and the row with its tables.\<close>

definition insert_treaty :: "treaty \<Rightarrow> reins_db \<Rightarrow> (reins_error, reins_db) outcome" where
  "insert_treaty t db =
     (if tr_status t \<in> set TREATY_STATUSES \<and> tr_type t \<in> set TREATY_TYPES \<and> tr_effective t < tr_expiration t
      then Inr (db\<lparr>treaties := treaties db @ [t], db_next := db_next db + 1\<rparr>) else Inl SqlError)"

subsection \<open>A new treaty\<close>

definition add_participants ::
  "driver \<Rightarrow> string \<Rightarrow> nat option \<Rightarrow> nat option \<Rightarrow> (jsval \<Rightarrow> jsval) \<Rightarrow> jsval list \<Rightarrow> reins_db
   \<Rightarrow> (reins_error, reins_db) outcome" where
  "add_participants drv tenant ly ct name_of ps db =
     outcome_fold (\<lambda>d p. insert_participant drv tenant ly ct name_of p d) db ps"

definition create_layer ::
  "driver \<Rightarrow> string \<Rightarrow> nat \<Rightarrow> jsval \<Rightarrow> reins_db \<Rightarrow> nat \<times> jsval \<Rightarrow> (reins_error, reins_db) outcome" where
  "create_layer drv tenant treaty ty db il =
     (case il of (i, src) \<Rightarrow>
       outcome_bind (insert_layer drv tenant treaty (js_or (get src ''layerNumber'') (jnat (i + 1)))
                       (js_or (get src ''layerType'') ty) src db) (\<lambda>(lid, db1).
         outcome_bind (loop_items (js_or (get src ''participants'') (JArr []))) (\<lambda>ps.
           add_participants drv tenant (Some lid) None given_name ps db1)))"

definition check_new_layer :: "jsval \<Rightarrow> (reins_error, unit) outcome" where
  "check_new_layer src =
     (if nullish src then Inl ServerFault
      else case js_or (get src ''participants'') (JArr []) of
             JArr ps \<Rightarrow> check_shares ps
           | _ \<Rightarrow> Inl ServerFault)"

definition create_treaty ::
  "driver \<Rightarrow> string \<Rightarrow> jsval \<Rightarrow> reins_db \<Rightarrow> (reins_error, treaty \<times> reins_db) outcome" where
  "create_treaty drv tenant body db =
     (let name = trim (to_str (js_or (get body ''treatyName'') (JStr [])));
          ls = (case get body ''layers'' of JArr vs \<Rightarrow> vs | _ \<Rightarrow> [])
      in if name = [] then invalid ''treatyName is required''
         else outcome_bind (assert_valid_treaty_type (to_str (js_or (get body ''treatyType'') (JStr [])))) (\<lambda>_.
           if \<not> js_truthy (get body ''effectiveDate'') \<or> \<not> js_truthy (get body ''expirationDate'')
           then invalid ''effectiveDate and expirationDate are required''
           else if ls = [] then invalid ''At least one layer is required''
           else outcome_bind (outcome_map check_new_layer ls) (\<lambda>_.
             case (sql_text drv (get body ''treatyType''), sql_text drv (js_or (get body ''status'') (JStr ''Active'')),
                   sql_date drv (get body ''effectiveDate''), sql_date drv (get body ''expirationDate''),
                   sql_codes drv (js_or (get body ''productCodes'') JNull), sql_codes drv (js_or (get body ''stateCodes'') JNull)) of
               (Some ty, Some status, Some eff, Some ex, Some prods, Some states) \<Rightarrow>
                 (let t = \<lparr>tr_id = db_next db, tr_tenant = tenant, tr_name = name, tr_type = ty, tr_status = status,
                           tr_effective = eff, tr_expiration = ex, tr_version = 1, tr_superseded = None,
                           tr_broker = js_or (get body ''brokerName'') JNull,
                           tr_broker_ref = js_or (get body ''brokerReference'') JNull,
                           tr_products = prods, tr_states = states\<rparr>
                  in outcome_bind (insert_treaty t db) (\<lambda>db1.
                       outcome_bind (outcome_fold (create_layer drv tenant (tr_id t) (get body ''treatyType'')) db1 (indexed 0 ls))
                         (\<lambda>db2. Inr (t, db2))))
             | _ \<Rightarrow> Inl SqlError)))"

subsection \<open>A new version\<close>

definition UPDATABLE_FIELDS :: "string list" where
  "UPDATABLE_FIELDS = [''effectiveDate'', ''expirationDate'', ''brokerName'', ''brokerReference'', ''productCodes'',
     ''stateCodes'', ''status'', ''layers'']"

definition check_layer_patch :: "jnum list \<Rightarrow> nat \<times> jsval \<Rightarrow> (reins_error, jnum list) outcome" where
  "check_layer_patch seen il =
     (case il of (i, src) \<Rightarrow>
       if nullish src then Inl ServerFault
       else let num = to_num (js_nc (get src ''layerNumber'') (jnat (i + 1)));
                ps = items (get src ''participants'')
            in if \<not> is_integer num \<or> jlt num (Fin 1) \<or> num \<in> set seen
               then invalid ''Layer numbers must be unique positive integers''
               else if \<not> is_finite (to_num (get src ''cededPercent'')) \<or> \<not> is_finite (to_num (get src ''retainedPercent''))
               then invalid ''Each layer requires cededPercent and retainedPercent''
               else outcome_bind (check_shares ps) (\<lambda>_.
                 if list_ex (\<lambda>p. trim (to_str (js_or (get p ''reinsurerName'') (JStr []))) = []) ps
                 then invalid ''Each participant requires reinsurerName''
                 else Inr (seen @ [num])))"

definition check_patch :: "jsval \<Rightarrow> (reins_error, unit) outcome" where
  "check_patch body =
     (if \<not> list_ex (\<lambda>f. get body f \<noteq> JUndef) UPDATABLE_FIELDS then invalid ''No updatable fields provided''
      else if get body ''status'' \<noteq> JUndef \<and> get body ''status'' \<notin> JStr ` set TREATY_STATUSES
      then invalid ''status must be one of Draft, Active, Expired, Cancelled''
      else case get body ''layers'' of
             JUndef \<Rightarrow> Inr ()
           | JArr [] \<Rightarrow> invalid ''At least one layer is required''
           | JArr vs \<Rightarrow> outcome_bind (outcome_fold check_layer_patch [] (indexed 0 vs)) (\<lambda>_. Inr ())
           | _ \<Rightarrow> invalid ''At least one layer is required'')"

text \<open>A date of the new version: a value of the body, or the \<open>Date\<close> read from the row.\<close>

datatype date_value = Given jsval | Stored int

definition date_or :: "jsval \<Rightarrow> int \<Rightarrow> date_value" where
  "date_or v d = (if nullish v then Stored d else Given v)"

definition WEEKDAYS :: "string list" where
  "WEEKDAYS = [''Sun'', ''Mon'', ''Tue'', ''Wed'', ''Thu'', ''Fri'', ''Sat'']"

definition MONTHS :: "string list" where
  "MONTHS = [''Jan'', ''Feb'', ''Mar'', ''Apr'', ''May'', ''Jun'', ''Jul'', ''Aug'', ''Sep'', ''Oct'', ''Nov'', ''Dec'']"

text \<open>\<open>String(value).slice(0, 10)\<close>: a \<open>Date\<close> reads as weekday, month and day. Day 0 is a Thursday.\<close>

definition date_head :: "date_value \<Rightarrow> string" where
  "date_head v =
     (case v of
        Given j \<Rightarrow> take 10 (to_str j)
      | Stored n \<Rightarrow> (case civil n of (y, m, d) \<Rightarrow>
          take 10 (WEEKDAYS ! nat ((n + 4) mod 7) @ '' '' @ MONTHS ! nat m @ '' '' @ pad_int 2 d)))"

definition date_param :: "driver \<Rightarrow> date_value \<Rightarrow> int option" where
  "date_param drv v = (case v of Given j \<Rightarrow> sql_date drv j | Stored n \<Rightarrow> Some n)"

definition patch_layer ::
  "driver \<Rightarrow> string \<Rightarrow> nat \<Rightarrow> string \<Rightarrow> reins_db \<Rightarrow> nat \<times> jsval \<Rightarrow> (reins_error, reins_db) outcome" where
  "patch_layer drv tenant treaty ty db il =
     (case il of (i, src) \<Rightarrow>
       outcome_bind (insert_layer drv tenant treaty (js_nc (get src ''layerNumber'') (jnat (i + 1)))
                       (js_nc (get src ''layerType'') (JStr ty)) src db) (\<lambda>(lid, db1).
         outcome_bind (loop_items (get src ''participants'')) (\<lambda>ps.
           add_participants drv tenant (Some lid) None trimmed_name ps db1)))"

text \<open>A layer of the previous version and its participants under new ids.\<close>

definition copy_layer :: "string \<Rightarrow> nat \<Rightarrow> string \<Rightarrow> reins_db \<Rightarrow> layer \<Rightarrow> reins_db" where
  "copy_layer tenant treaty ty db l =
     (let lid = db_next db; ps = filter (\<lambda>p. pt_tenant p = tenant \<and> pt_layer p = Some (ly_id l)) (participants db)
      in db\<lparr>layers := layers db @ [l\<lparr>ly_id := lid, ly_tenant := tenant, ly_treaty := treaty,
               ly_type := js_nc (ly_type l) (JStr ty)\<rparr>],
            participants := participants db @ map (\<lambda>(i, p). p\<lparr>pt_id := i, pt_layer := Some lid, pt_certificate := None\<rparr>)
               (indexed (lid + 1) ps),
            db_next := lid + 1 + length ps\<rparr>)"

definition supersede :: "string \<Rightarrow> nat \<Rightarrow> nat \<Rightarrow> treaty list \<Rightarrow> treaty list" where
  "supersede tenant treaty next_id ts =
     map (\<lambda>t. if tr_tenant t = tenant \<and> tr_id t = treaty then t\<lparr>tr_superseded := Some next_id\<rparr> else t) ts"

definition codes_or :: "driver \<Rightarrow> jsval \<Rightarrow> string list option \<Rightarrow> string list option option" where
  "codes_or drv v old = (if v = JUndef then Some old else sql_codes drv v)"

text \<open>The row of the next version, and its layers: those of the body, or those of the previous version.\<close>

definition next_version :: "driver \<Rightarrow> jsval \<Rightarrow> nat \<Rightarrow> treaty \<Rightarrow> treaty option" where
  "next_version drv body new_id cur =
     (case (date_param drv (date_or (get body ''effectiveDate'') (tr_effective cur)),
            date_param drv (date_or (get body ''expirationDate'') (tr_expiration cur)),
            codes_or drv (get body ''productCodes'') (tr_products cur),
            codes_or drv (get body ''stateCodes'') (tr_states cur)) of
        (Some eff, Some ex, Some prods, Some states) \<Rightarrow>
          Some (cur\<lparr>tr_id := new_id,
                    tr_status := (case get body ''status'' of JStr s \<Rightarrow> s | _ \<Rightarrow> tr_status cur),
                    tr_effective := eff, tr_expiration := ex, tr_version := tr_version cur + 1, tr_superseded := None,
                    tr_broker := (if get body ''brokerName'' \<noteq> JUndef then get body ''brokerName'' else tr_broker cur),
                    tr_broker_ref := (if get body ''brokerReference'' \<noteq> JUndef then get body ''brokerReference''
                                      else tr_broker_ref cur),
                    tr_products := prods, tr_states := states\<rparr>)
      | _ \<Rightarrow> None)"

definition version_layers ::
  "driver \<Rightarrow> string \<Rightarrow> jsval \<Rightarrow> treaty \<Rightarrow> nat \<Rightarrow> reins_db \<Rightarrow> (reins_error, reins_db) outcome" where
  "version_layers drv tenant body cur new_id db =
     (case get body ''layers'' of
        JArr vs \<Rightarrow> outcome_fold (patch_layer drv tenant new_id (tr_type cur)) db (indexed 0 vs)
      | _ \<Rightarrow> Inr (foldl (copy_layer tenant new_id (tr_type cur)) db (treaty_layers db tenant (tr_id cur))))"

definition patch_treaty ::
  "driver \<Rightarrow> string \<Rightarrow> nat \<Rightarrow> jsval \<Rightarrow> reins_db \<Rightarrow> (reins_error, treaty \<times> reins_db) outcome" where
  "patch_treaty drv tenant treaty body db =
     outcome_bind (check_patch body) (\<lambda>_.
       case find_first (\<lambda>t. tr_tenant t = tenant \<and> tr_id t = treaty) (treaties db) of
         None \<Rightarrow> Inl (NotFound ''REINSURANCE_NOT_FOUND'' ''Treaty not found'')
       | Some cur \<Rightarrow>
           if tr_superseded cur \<noteq> None
           then Inl (VersionConflict ''REINSURANCE_VERSION_CONFLICT'' ''Treaty version has already been superseded'')
           else if date_head (date_or (get body ''expirationDate'') (tr_expiration cur))
                   \<le> date_head (date_or (get body ''effectiveDate'') (tr_effective cur))
           then invalid ''expirationDate must be after effectiveDate''
           else case next_version drv body (db_next db) cur of
                  None \<Rightarrow> Inl SqlError
                | Some t \<Rightarrow>
                    outcome_bind (insert_treaty t db) (\<lambda>db1.
                      outcome_bind (version_layers drv tenant body cur (tr_id t) db1) (\<lambda>db2.
                        Inr (t, db2\<lparr>treaties := supersede tenant treaty (tr_id t) (treaties db2)\<rparr>))))"

text \<open>The rows of the list of treaties: the current version of every treaty.\<close>

definition current_treaties :: "string \<Rightarrow> string option \<Rightarrow> reins_db \<Rightarrow> treaty list" where
  "current_treaties tenant status db =
     filter (\<lambda>t. tr_tenant t = tenant \<and> tr_superseded t = None
       \<and> (case status of None \<Rightarrow> True | Some s \<Rightarrow> s = [] \<or> tr_status t = s)) (treaties db)"

subsection \<open>Facultative certificates\<close>

definition create_certificate ::
  "driver \<Rightarrow> policy_tables \<Rightarrow> string \<Rightarrow> int \<Rightarrow> jsval \<Rightarrow> nat option \<Rightarrow> reins_db
   \<Rightarrow> (reins_error, certificate \<times> reins_db) outcome" where
  "create_certificate drv pol tenant now body policy db =
     (let ps = items (get body ''participants'')
      in if trim (to_str (js_or (get body ''policyId'') (JStr []))) = [] then invalid ''policyId is required''
         else if \<not> js_truthy (get body ''effectiveDate'') \<or> \<not> js_truthy (get body ''expirationDate'')
         then invalid ''effectiveDate and expirationDate are required''
         else if nullish (get body ''cededPercent'') \<or> nullish (get body ''retainedPercent'')
         then invalid ''cededPercent and retainedPercent are required''
         else outcome_bind (if ps = [] then Inr () else check_shares ps) (\<lambda>_.
           case (policy, sql_text drv (js_or (get body ''status'') (JStr ''Active'')),
                 sql_date drv (get body ''effectiveDate''), sql_date drv (get body ''expirationDate''),
                 sql_numeric drv (get body ''cededPercent''), sql_numeric drv (get body ''retainedPercent'')) of
             (Some p, Some status, Some eff, Some ex, Some c, Some r) \<Rightarrow>
               if list_ex (\<lambda>x. po_id x = p) (policies pol) \<and> status \<in> set TREATY_STATUSES \<and> eff < ex
                  \<and> 0 \<le> c \<and> c \<le> 100 \<and> 0 \<le> r \<and> r \<le> 100
               then (let ct = \<lparr>ct_id = db_next db, ct_tenant = tenant, ct_policy = p,
                           ct_number = sql_text drv (js_or (get body ''certificateNumber'') JNull), ct_status = status,
                           ct_effective = eff, ct_expiration = ex, ct_ceded = c, ct_retained = r, ct_created = now\<rparr>
                     in outcome_bind (add_participants drv tenant None (Some (ct_id ct)) given_name ps
                          (db\<lparr>certificates := certificates db @ [ct], db_next := db_next db + 1\<rparr>))
                          (\<lambda>db1. Inr (ct, db1)))
               else Inl SqlError
           | _ \<Rightarrow> Inl SqlError))"

subsection \<open>Histories\<close>

inductive reins_step :: "driver \<Rightarrow> reins_db \<Rightarrow> treaty list \<Rightarrow> reins_db \<Rightarrow> bool" for drv where
  create_step: "create_treaty drv tenant body db = Inr (t, db') \<Longrightarrow> reins_step drv db [t] db'"
| patch_step: "patch_treaty drv tenant treaty body db = Inr (t, db') \<Longrightarrow> reins_step drv db [t] db'"
| certificate_step: "create_certificate drv pol tenant now body policy db = Inr (ct, db') \<Longrightarrow> reins_step drv db [] db'"
| compute_step: "compute_placement_for_transaction drv pol tenant policy txn db = Inr (ms, db') \<Longrightarrow> reins_step drv db [] db'"

text \<open>The version chains: what holds of the rows, and the rows with the supply of ids.\<close>

definition chained :: "treaty list \<Rightarrow> bool" where
  "chained rows \<longleftrightarrow> distinct (map tr_id rows)
     \<and> (\<forall>t \<in> set rows. \<forall>n. tr_superseded t = Some n \<longrightarrow>
          (\<exists>u \<in> set rows. tr_id u = n \<and> tr_tenant u = tr_tenant t \<and> tr_version u = tr_version t + 1 \<and> tr_id t < n))
     \<and> (\<forall>t \<in> set rows. \<forall>u \<in> set rows. tr_superseded t \<noteq> None \<and> tr_superseded t = tr_superseded u \<longrightarrow> t = u)
     \<and> (\<forall>u \<in> set rows. 1 \<le> tr_version u
          \<and> (tr_version u = 1 \<or> (\<exists>t \<in> set rows. tr_superseded t = Some (tr_id u))))"

definition treaties_ok :: "reins_db \<Rightarrow> bool" where
  "treaties_ok db \<longleftrightarrow> chained (treaties db) \<and> (\<forall>t \<in> set (treaties db). tr_id t < db_next db)"

subsection \<open>What the other rows leave alone\<close>

definition same_treaties :: "reins_db \<Rightarrow> reins_db \<Rightarrow> bool" where
  "same_treaties db db' \<longleftrightarrow> treaties db' = treaties db \<and> db_next db \<le> db_next db'"

lemma same_treaties_refl [simp]: "same_treaties db db"
  by (simp add: same_treaties_def)

lemma same_treaties_trans: "same_treaties a b \<Longrightarrow> same_treaties b c \<Longrightarrow> same_treaties a c"
  by (simp add: same_treaties_def)

lemma insert_layer_frame: "insert_layer drv tenant treaty num ty src db = Inr (lid, db') \<Longrightarrow> same_treaties db db'"
  by (auto simp: insert_layer_def same_treaties_def split: option.splits if_splits)

lemma insert_participant_frame:
  "insert_participant drv tenant ly ct name_of p db = Inr db' \<Longrightarrow> same_treaties db db'"
  by (auto simp: insert_participant_def same_treaties_def split: option.splits if_splits)

lemma fold_frame:
  assumes "\<And>d x d'. f d x = Inr d' \<Longrightarrow> same_treaties d d'"
  shows "outcome_fold f db xs = Inr db' \<Longrightarrow> same_treaties db db'"
proof (induction xs arbitrary: db)
  case (Cons x xs)
  then show ?case by (auto intro: same_treaties_trans [OF assms])
qed simp

lemma add_participants_frame:
  "add_participants drv tenant ly ct name_of ps db = Inr db' \<Longrightarrow> same_treaties db db'"
  unfolding add_participants_def by (erule fold_frame [rotated]) (rule insert_participant_frame)

lemma create_layer_frame: "create_layer drv tenant treaty ty db il = Inr db' \<Longrightarrow> same_treaties db db'"
  by (auto simp: create_layer_def split: prod.splits
      intro: same_treaties_trans [OF insert_layer_frame add_participants_frame])

lemma patch_layer_frame: "patch_layer drv tenant treaty ty db il = Inr db' \<Longrightarrow> same_treaties db db'"
  by (auto simp: patch_layer_def split: prod.splits
      intro: same_treaties_trans [OF insert_layer_frame add_participants_frame])

lemma copy_layers_frame: "same_treaties db (foldl (copy_layer tenant treaty ty) db ls)"
proof (induction ls arbitrary: db)
  case (Cons l ls)
  have "same_treaties db (copy_layer tenant treaty ty db l)" by (simp add: copy_layer_def same_treaties_def Let_def)
  with Cons show ?case by (auto intro: same_treaties_trans)
qed simp

subsection \<open>Version chains are kept\<close>

lemma create_layers_frame:
  "outcome_fold (create_layer drv tenant treaty ty) db ls = Inr db' \<Longrightarrow> same_treaties db db'"
  by (erule fold_frame [rotated]) (rule create_layer_frame)

lemma create_treaty_table:
  "create_treaty drv tenant body db = Inr (t, db') \<Longrightarrow>
     treaties db' = treaties db @ [t] \<and> db_next db < db_next db' \<and> tr_id t = db_next db \<and> tr_version t = 1
     \<and> tr_superseded t = None \<and> tr_tenant t = tenant \<and> tr_effective t < tr_expiration t"
  unfolding create_treaty_def invalid_def assert_valid_treaty_type_def insert_treaty_def Let_def
  by (clarsimp split: if_splits option.splits) (drule create_layers_frame, simp add: same_treaties_def)

lemma version_layers_frame: "version_layers drv tenant body cur new_id db = Inr db' \<Longrightarrow> same_treaties db db'"
  using fold_frame [OF patch_layer_frame] copy_layers_frame by (auto simp: version_layers_def split: jsval.splits)

lemma next_version_fields:
  "next_version drv body new_id cur = Some t \<Longrightarrow>
     tr_id t = new_id \<and> tr_version t = tr_version cur + 1 \<and> tr_superseded t = None \<and> tr_tenant t = tr_tenant cur"
  by (auto simp: next_version_def split: option.splits)

lemma patch_treaty_table:
  assumes "patch_treaty drv tenant treaty body db = Inr (t, db')"
  obtains cur where "cur \<in> set (treaties db)" "tr_tenant cur = tenant" "tr_id cur = treaty" "tr_superseded cur = None"
    "treaties db' = supersede tenant treaty (tr_id t) (treaties db @ [t])" "db_next db < db_next db'"
    "tr_id t = db_next db" "tr_tenant t = tenant" "tr_version t = tr_version cur + 1" "tr_superseded t = None"
    "tr_effective t < tr_expiration t"
proof -
  from assms obtain cur db1 db2 where cur: "find_first (\<lambda>t. tr_tenant t = tenant \<and> tr_id t = treaty) (treaties db) = Some cur"
    "tr_superseded cur = None" and t: "next_version drv body (db_next db) cur = Some t"
    and db1: "insert_treaty t db = Inr db1" and db2: "version_layers drv tenant body cur (tr_id t) db1 = Inr db2"
    and db': "db' = db2\<lparr>treaties := supersede tenant treaty (tr_id t) (treaties db2)\<rparr>"
    by (auto simp: patch_treaty_def invalid_def split: option.splits if_splits)
  from db1 have "treaties db1 = treaties db @ [t]" "db_next db1 = db_next db + 1" "tr_effective t < tr_expiration t"
    by (auto simp: insert_treaty_def split: if_splits)
  moreover from version_layers_frame [OF db2] have "treaties db2 = treaties db1" "db_next db1 \<le> db_next db2"
    by (simp_all add: same_treaties_def)
  moreover from find_first_Some [OF cur(1)] have "cur \<in> set (treaties db)" "tr_tenant cur = tenant" "tr_id cur = treaty"
    by simp_all
  ultimately show ?thesis using next_version_fields [OF t] db' cur(2) by (intro that [of cur]) simp_all
qed

lemma create_certificate_frame:
  "create_certificate drv pol tenant now body policy db = Inr (ct, db') \<Longrightarrow> same_treaties db db'"
  by (auto simp: create_certificate_def invalid_def Let_def same_treaties_def
      split: if_splits option.splits dest!: add_participants_frame)

lemma compute_frame:
  "compute_placement_for_transaction drv pol tenant policy txn db = Inr (ms, db') \<Longrightarrow> same_treaties db db'"
  by (auto simp: compute_placement_for_transaction_def Let_def same_treaties_def split: if_splits option.splits)

lemma chained_snoc:
  assumes "chained rows" "tr_id t \<notin> tr_id ` set rows" "tr_superseded t = None" "tr_version t = 1"
  shows "chained (rows @ [t])"
proof -
  have sub: "u \<in> set rows" if "u \<in> set (rows @ [t])" "tr_superseded u \<noteq> None" for u
    using that assms(3) by auto
  have more: "set rows \<subseteq> set (rows @ [t])" by auto
  from assms(1) have d: "distinct (map tr_id rows)"
    and n: "\<And>u m. u \<in> set rows \<Longrightarrow> tr_superseded u = Some m \<Longrightarrow> \<exists>w \<in> set rows. tr_id w = m \<and> tr_tenant w = tr_tenant u
      \<and> tr_version w = tr_version u + 1 \<and> tr_id u < m"
    and i: "\<And>u w. u \<in> set rows \<Longrightarrow> w \<in> set rows \<Longrightarrow> tr_superseded u \<noteq> None \<Longrightarrow> tr_superseded u = tr_superseded w \<Longrightarrow> u = w"
    and v: "\<And>u. u \<in> set rows \<Longrightarrow> 1 \<le> tr_version u \<and> (tr_version u = 1 \<or> (\<exists>w \<in> set rows. tr_superseded w = Some (tr_id u)))"
    unfolding chained_def by blast+
  have "distinct (map tr_id (rows @ [t]))" using d assms(2) by auto
  moreover have "\<exists>w \<in> set (rows @ [t]). tr_id w = m \<and> tr_tenant w = tr_tenant u \<and> tr_version w = tr_version u + 1 \<and> tr_id u < m"
    if "u \<in> set (rows @ [t])" "tr_superseded u = Some m" for u m
    using n [OF sub [OF that(1)] that(2)] that(2) more by blast
  moreover have "u = w" if "u \<in> set (rows @ [t])" "w \<in> set (rows @ [t])" "tr_superseded u \<noteq> None"
    "tr_superseded u = tr_superseded w" for u w
    using i [OF sub sub] that by simp
  moreover have "1 \<le> tr_version u \<and> (tr_version u = 1 \<or> (\<exists>w \<in> set (rows @ [t]). tr_superseded w = Some (tr_id u)))"
    if "u \<in> set (rows @ [t])" for u
    using v [of u] that assms(4) by auto
  ultimately show ?thesis unfolding chained_def by blast
qed

lemma chained_supersede:
  assumes ok: "chained rows" and cur: "cur \<in> set rows" "tr_superseded cur = None"
    and t: "\<forall>u \<in> set rows. tr_id u < tr_id t" "tr_superseded t = None" "tr_tenant t = tr_tenant cur"
      "tr_version t = tr_version cur + 1"
  shows "chained (supersede (tr_tenant cur) (tr_id cur) (tr_id t) (rows @ [t]))"
proof -
  have dist: "distinct (map tr_id rows)" using ok by (simp add: chained_def)
  have only: "u = cur" if "u \<in> set rows" "tr_id u = tr_id cur" for u
    using dist that cur(1) by (auto simp: distinct_map dest: inj_onD)
  define f where "f u = (if u = cur then u\<lparr>tr_superseded := Some (tr_id t)\<rparr> else u)" for u
  have eq: "supersede (tr_tenant cur) (tr_id cur) (tr_id t) (rows @ [t]) = map f rows @ [t]"
    using only t(1) cur(1) by (auto simp: supersede_def f_def)
  have f: "tr_id (f u) = tr_id u" "tr_version (f u) = tr_version u" "tr_tenant (f u) = tr_tenant u"
    "tr_superseded (f u) = (if u = cur then Some (tr_id t) else tr_superseded u)" for u
    by (simp_all add: f_def)
  have no: "tr_superseded u \<noteq> Some (tr_id t)" if "u \<in> set rows" for u
    using ok that t(1) unfolding chained_def by (metis less_irrefl)
  have "distinct (map tr_id (map f rows @ [t]))" using dist t(1) by (auto simp: f comp_def)
  moreover have "\<exists>w \<in> set (map f rows @ [t]). tr_id w = n \<and> tr_tenant w = tr_tenant u \<and> tr_version w = tr_version u + 1 \<and> tr_id u < n"
    if "u \<in> set (map f rows @ [t])" "tr_superseded u = Some n" for u n
  proof -
    from that t(2) obtain v where v: "v \<in> set rows" "u = f v" by auto
    show ?thesis
    proof (cases "v = cur")
      case True
      with that v t cur show ?thesis by (auto simp: f)
    next
      case False
      with that v have "tr_superseded v = Some n" by (simp add: f)
      with ok v(1) obtain w where "w \<in> set rows" "tr_id w = n" "tr_tenant w = tr_tenant v"
        "tr_version w = tr_version v + 1" "tr_id v < n" unfolding chained_def by blast
      with v show ?thesis by (intro bexI [of _ "f w"]) (auto simp: f)
    qed
  qed
  moreover have "u = w" if "u \<in> set (map f rows @ [t])" "w \<in> set (map f rows @ [t])" "tr_superseded u \<noteq> None"
    "tr_superseded u = tr_superseded w" for u w
  proof -
    from that t(2) obtain v x where vx: "v \<in> set rows" "u = f v" "x \<in> set rows" "w = f x" by auto
    with that no have "v = x" using ok unfolding chained_def by (auto simp: f split: if_splits)
    with vx show ?thesis by simp
  qed
  moreover have "1 \<le> tr_version u \<and> (tr_version u = 1 \<or> (\<exists>w \<in> set (map f rows @ [t]). tr_superseded w = Some (tr_id u)))"
    if "u \<in> set (map f rows @ [t])" for u
  proof -
    have v: "1 \<le> tr_version v \<and> (tr_version v = 1 \<or> (\<exists>w \<in> set rows. tr_superseded w = Some (tr_id v)))" if "v \<in> set rows" for v
      using ok that unfolding chained_def by blast
    from that consider "u = t" | x where "x \<in> set rows" "u = f x" by auto
    then show ?thesis
    proof cases
      case 1
      with v [OF cur(1)] t(4) cur(1) show ?thesis by (force simp: f)
    next
      case 2
      with v [of x] cur show ?thesis by (force simp: f)
    qed
  qed
  ultimately show ?thesis unfolding chained_def eq by blast
qed

lemma supersede_id: "u \<in> set (supersede tenant treaty n ts) \<Longrightarrow> \<exists>v \<in> set ts. tr_id u = tr_id v"
  by (auto simp: supersede_def)

lemma treaties_ok_same: "same_treaties db db' \<Longrightarrow> treaties_ok db \<Longrightarrow> treaties_ok db'"
  by (auto simp: treaties_ok_def same_treaties_def intro: less_le_trans)

lemma reins_step_keeps_chains:
  assumes "reins_step drv db ts db'" and ok: "treaties_ok db"
  shows "treaties_ok db'"
  using assms(1)
proof cases
  case (create_step tenant body t)
  from create_treaty_table [OF create_step(2)] ok show ?thesis
    by (auto simp: treaties_ok_def intro!: chained_snoc)
next
  case (patch_step tenant treaty body t)
  then show ?thesis
  proof (elim patch_treaty_table)
    fix cur
    assume cur: "cur \<in> set (treaties db)" "tr_tenant cur = tenant" "tr_id cur = treaty" "tr_superseded cur = None"
      and rows: "treaties db' = supersede tenant treaty (tr_id t) (treaties db @ [t])" "db_next db < db_next db'"
      and t: "tr_id t = db_next db" "tr_tenant t = tenant" "tr_version t = tr_version cur + 1" "tr_superseded t = None"
    have "chained (treaties db')" unfolding rows cur(2,3) [symmetric]
      using ok cur t by (intro chained_supersede) (auto simp: treaties_ok_def)
    moreover have "tr_id u < db_next db'" if "u \<in> set (treaties db')" for u
      using that ok rows(2) t(1) unfolding rows(1) treaties_ok_def
      by (force dest!: supersede_id dest: less_trans)
    ultimately show ?thesis by (simp add: treaties_ok_def)
  qed
next
  case certificate_step
  then show ?thesis using ok treaties_ok_same create_certificate_frame by blast
next
  case compute_step
  then show ?thesis using ok treaties_ok_same compute_frame by blast
qed

interpretation chains: step_invariant "reins_step drv" treaties_ok
  by unfold_locales (rule reins_step_keeps_chains)

end
