(* ===== verification/TreatyPlacement.thy ===== *)
theory TreatyPlacement
  imports TreatyVersions
begin

text \<open>
  Properties of the reinsurance component: the search for the first version of a treaty halts on every
  table, the histories of the administration keep one chain of versions per treaty, and the lookup
  uses of each chain the newest version in effect.
\<close>

subsection \<open>The search for the first version\<close>

text \<open>\<open>(a, b)\<close>: the row \<open>a\<close> was superseded by the row \<open>b\<close>.\<close>

definition follows :: "treaty list \<Rightarrow> (nat \<times> nat) set" where
  "follows rows = {(tr_id t, n) | t n. t \<in> set rows \<and> tr_superseded t = Some n}"

definition same_treaty :: "treaty list \<Rightarrow> treaty \<Rightarrow> treaty \<Rightarrow> bool" where
  "same_treaty rows a b \<longleftrightarrow> (tr_id a, tr_id b) \<in> (follows rows)\<^sup>* \<or> (tr_id b, tr_id a) \<in> (follows rows)\<^sup>*"

lemma predecessors_snoc:
  "predecessors (rows @ [t]) =
     (case tr_superseded t of None \<Rightarrow> predecessors rows | Some n \<Rightarrow> aput (predecessors rows) n (tr_id t))"
  by (cases "tr_superseded t") (simp_all add: predecessors_def)

lemma predecessors_follows:
  assumes "\<forall>t \<in> set rows. \<forall>u \<in> set rows. tr_superseded t \<noteq> None \<and> tr_superseded t = tr_superseded u \<longrightarrow> t = u"
  shows "aget (predecessors rows) n = Some i \<longleftrightarrow> (i, n) \<in> follows rows"
  using assms
proof (induction rows rule: rev_induct)
  case Nil
  then show ?case by (simp add: predecessors_def follows_def)
next
  case (snoc t rows)
  have "\<forall>t \<in> set rows. \<forall>u \<in> set rows. tr_superseded t \<noteq> None \<and> tr_superseded t = tr_superseded u \<longrightarrow> t = u"
    using snoc.prems unfolding set_append by blast
  then have IH: "aget (predecessors rows) n = Some i \<longleftrightarrow> (i, n) \<in> follows rows" by (rule snoc.IH)
  have uniq: "u = t" if "u \<in> set rows" "tr_superseded u = Some m" "tr_superseded t = Some m" for u m
    using snoc.prems that by auto
  show ?case
  proof (cases "tr_superseded t = Some n")
    case True
    then have "aget (predecessors (rows @ [t])) n = Some (tr_id t)" by (simp add: predecessors_snoc)
    moreover have "(i, n) \<in> follows (rows @ [t]) \<longleftrightarrow> i = tr_id t"
      using True uniq by (auto simp: follows_def)
    ultimately show ?thesis by auto
  next
    case False
    then have "aget (predecessors (rows @ [t])) n = aget (predecessors rows) n"
      by (auto simp: predecessors_snoc split: option.splits)
    moreover have "(i, n) \<in> follows (rows @ [t]) \<longleftrightarrow> (i, n) \<in> follows rows"
      using False by (auto simp: follows_def)
    ultimately show ?thesis using IH by simp
  qed
qed

lemma predecessors_keys: "aget (predecessors rows) n = Some i \<Longrightarrow> \<exists>t \<in> set rows. tr_superseded t = Some n"
  by (induction rows rule: rev_induct)
    (auto simp: predecessors_snoc predecessors_def [of "[]"] split: option.splits if_splits)

text \<open>The loop of the source, whose state is the current id and the set of the ids visited.\<close>

definition walk_on :: "(nat \<times> nat) list \<Rightarrow> nat \<times> nat set \<Rightarrow> bool" where
  "walk_on pred s = (aget pred (fst s) \<noteq> None \<and> fst s \<notin> snd s)"

definition walk_step :: "(nat \<times> nat) list \<Rightarrow> nat \<times> nat set \<Rightarrow> nat \<times> nat set" where
  "walk_step pred s = (the (aget pred (fst s)), insert (fst s) (snd s))"

lemma walk_halts:
  "\<exists>vis. while_option (walk_on pred) (walk_step pred) (current, set visited) = Some (root_walk pred visited current, vis)
     \<and> set visited \<subseteq> vis \<and> vis \<subseteq> set visited \<union> fst ` set pred"
proof (induction pred visited current rule: root_walk.induct)
  case (1 pred visited current)
  show ?case
  proof (cases "walk_on pred (current, set visited)")
    case False
    then show ?thesis
      by (subst while_option_unfold) (auto simp: walk_on_def root_walk.simps [of pred visited] split: option.splits)
  next
    case True
    then obtain p where p: "aget pred current = Some p" "current \<notin> set visited" by (auto simp: walk_on_def)
    have "while_option (walk_on pred) (walk_step pred) (current, set visited)
        = while_option (walk_on pred) (walk_step pred) (p, set (current # visited))"
      using True p by (subst while_option_unfold) (simp add: walk_step_def [of _ "(current, set visited)"])
    moreover have "root_walk pred visited current = root_walk pred (current # visited) p"
      using p by (simp add: root_walk.simps [of pred visited])
    moreover have "current \<in> fst ` set pred" using p(1) by (force dest: aget_Some_in)
    ultimately show ?thesis using 1 [OF p] by auto
  qed
qed

lemma card_keys: "card (fst ` set (predecessors rows)) \<le> length (filter (\<lambda>t. tr_superseded t \<noteq> None) rows)"
proof -
  have "k \<in> (the \<circ> tr_superseded) ` set (filter (\<lambda>t. tr_superseded t \<noteq> None) rows)" if "k \<in> fst ` set (predecessors rows)" for k
  proof -
    from that have "aget (predecessors rows) k \<noteq> None" by (simp add: aget_None_iff)
    then show ?thesis using predecessors_keys by (force simp: image_iff)
  qed
  then have "card (fst ` set (predecessors rows)) \<le> card ((the \<circ> tr_superseded) ` set (filter (\<lambda>t. tr_superseded t \<noteq> None) rows))"
    by (intro card_mono) auto
  also have "\<dots> \<le> length (filter (\<lambda>t. tr_superseded t \<noteq> None) rows)"
    using card_image_le [of "set (filter (\<lambda>t. tr_superseded t \<noteq> None) rows)"] card_length order_trans by blast
  finally show ?thesis .
qed

text \<open>C22: the search for the first version of a treaty halts, on every table of treaties, also one whose
  versions form a cycle: the loop ends with the id \<open>root_id\<close> gives, after at most one turn for every
  superseded row.\<close>

theorem root_search_terminates:
  "\<exists>vis. while_option (walk_on (predecessors rows)) (walk_step (predecessors rows)) (treaty, {}) = Some (root_id rows treaty, vis)
     \<and> card vis \<le> length (filter (\<lambda>t. tr_superseded t \<noteq> None) rows)"
proof -
  obtain vis where "while_option (walk_on (predecessors rows)) (walk_step (predecessors rows)) (treaty, {}) = Some (root_id rows treaty, vis)"
    "vis \<subseteq> fst ` set (predecessors rows)"
    using walk_halts [of "predecessors rows" treaty "[]"] by (auto simp: root_id_def)
  moreover from this(2) have "card vis \<le> card (fst ` set (predecessors rows))" by (intro card_mono) auto
  ultimately show ?thesis using card_keys [of rows] by auto
qed

subsection \<open>Chains of versions\<close>

text \<open>The map of the versions chosen so far, after the rows \<open>seen\<close>.\<close>

definition chosen_ok :: "treaty list \<Rightarrow> driver \<Rightarrow> string \<Rightarrow> treaty list \<Rightarrow> (nat \<times> treaty) list \<Rightarrow> bool" where
  "chosen_ok rows drv as_of seen chosen \<longleftrightarrow> distinct (map fst chosen)
     \<and> (\<forall>r t. aget chosen r = Some t \<longrightarrow> t \<in> set seen \<and> to_iso_date drv (tr_effective t) \<le> as_of \<and> root_id rows (tr_id t) = r
          \<and> (\<forall>u \<in> set seen. to_iso_date drv (tr_effective u) \<le> as_of \<and> root_id rows (tr_id u) = r \<longrightarrow> tr_version u \<le> tr_version t))
     \<and> (\<forall>u \<in> set seen. to_iso_date drv (tr_effective u) \<le> as_of \<longrightarrow> aget chosen (root_id rows (tr_id u)) \<noteq> None)"

text \<open>A row in effect on a date, with no newer version of the same treaty in effect.\<close>

definition newest :: "treaty list \<Rightarrow> driver \<Rightarrow> string \<Rightarrow> treaty \<Rightarrow> bool" where
  "newest rows drv as_of t \<longleftrightarrow> t \<in> set rows \<and> to_iso_date drv (tr_effective t) \<le> as_of
     \<and> (\<forall>u \<in> set rows. same_treaty rows t u \<and> to_iso_date drv (tr_effective u) \<le> as_of \<longrightarrow> tr_version u \<le> tr_version t)"

locale version_chain =
  fixes rows :: "treaty list"
  assumes chained: "chained rows"
begin

lemma ids: "distinct (map tr_id rows)"
  using chained by (simp add: chained_def)

lemma row_eq: "t \<in> set rows \<Longrightarrow> u \<in> set rows \<Longrightarrow> tr_id t = tr_id u \<Longrightarrow> t = u"
  using ids by (auto simp: distinct_map dest: inj_onD)

lemma pred_iff: "aget (predecessors rows) n = Some i \<longleftrightarrow> (i, n) \<in> follows rows"
  using chained unfolding chained_def by (intro predecessors_follows) blast

lemma follows_row: "(i, n) \<in> follows rows \<Longrightarrow> i < n \<and> (\<exists>u \<in> set rows. tr_id u = n)"
  using chained unfolding follows_def chained_def by blast

lemma forward: "single_valued (follows rows)"
  by (auto simp: single_valued_def follows_def dest: row_eq)

lemma backward: "single_valued ((follows rows)\<inverse>)"
  using pred_iff by (auto simp: single_valued_def) (metis option.inject)

lemma version_step:
  assumes "(tr_id t, tr_id u) \<in> follows rows" "t \<in> set rows" "u \<in> set rows"
  shows "tr_version u = tr_version t + 1"
proof -
  from assms obtain t' where "t' \<in> set rows" "tr_id t' = tr_id t" "tr_superseded t' = Some (tr_id u)"
    by (auto simp: follows_def)
  with assms(2) row_eq have "tr_superseded t = Some (tr_id u)" by metis
  with chained assms(2) obtain w where "w \<in> set rows" "tr_id w = tr_id u" "tr_version w = tr_version t + 1"
    unfolding chained_def by blast
  with row_eq assms(3) show ?thesis by metis
qed

lemma later_version:
  "(i, n) \<in> (follows rows)\<^sup>+ \<Longrightarrow> t \<in> set rows \<Longrightarrow> tr_id t = i \<Longrightarrow> u \<in> set rows \<Longrightarrow> tr_id u = n \<Longrightarrow> tr_version t < tr_version u"
proof (induction arbitrary: u rule: trancl_induct)
  case (base n)
  then show ?case using version_step [of t u] by simp
next
  case (step n m)
  from follows_row [of _ n] step.hyps(1) obtain w where w: "w \<in> set rows" "tr_id w = n"
    by (meson trancl.simps)
  with step version_step [of w u] have "tr_version u = tr_version w + 1" by simp
  with step.IH [OF step.prems(1,2) w] show ?case by simp
qed

lemma same_treaty_version:
  assumes "same_treaty rows a b" "a \<in> set rows" "b \<in> set rows" "tr_version a = tr_version b"
  shows "a = b"
  using assms later_version unfolding same_treaty_def by (metis less_irrefl row_eq rtranclD)

lemma root_walk_root:
  "\<forall>v \<in> set visited. current < v \<Longrightarrow>
     (root_walk (predecessors rows) visited current, current) \<in> (follows rows)\<^sup>*
     \<and> (\<forall>i. (i, root_walk (predecessors rows) visited current) \<notin> follows rows)"
proof (induction current arbitrary: visited rule: less_induct)
  case (less current)
  show ?case
  proof (cases "aget (predecessors rows) current")
    case None
    then show ?thesis using pred_iff [of current] by (simp add: root_walk.simps [of _ visited])
  next
    case (Some p)
    with pred_iff have step: "(p, current) \<in> follows rows" by simp
    with follows_row have "p < current" by blast
    with less.prems have "\<forall>v \<in> set (current # visited). p < v" by auto
    from less.IH [OF \<open>p < current\<close> this] Some less.prems step show ?thesis
      by (auto simp: root_walk.simps [of _ visited] intro: rtrancl.intros(2))
  qed
qed

lemma root: "(root_id rows n, n) \<in> (follows rows)\<^sup>*" "(i, root_id rows n) \<notin> follows rows"
  using root_walk_root [of "[]" n] by (simp_all add: root_id_def)

lemma root_unique:
  assumes "(r, n) \<in> (follows rows)\<^sup>*" "\<forall>i. (i, r) \<notin> follows rows"
  shows "root_id rows n = r"
proof -
  have "(n, r) \<in> ((follows rows)\<inverse>)\<^sup>*" "(n, root_id rows n) \<in> ((follows rows)\<inverse>)\<^sup>*"
    using assms(1) root(1) by (simp_all add: rtrancl_converse)
  from single_valued_confluent [OF backward this]
  have "(r, root_id rows n) \<in> ((follows rows)\<inverse>)\<^sup>* \<or> (root_id rows n, r) \<in> ((follows rows)\<inverse>)\<^sup>*" .
  then show ?thesis using assms(2) root(2) [of _ n] by (auto elim: converse_rtranclE)
qed

lemma same_root: "root_id rows (tr_id a) = root_id rows (tr_id b) \<longleftrightarrow> same_treaty rows a b"
proof
  assume "root_id rows (tr_id a) = root_id rows (tr_id b)"
  with root(1) have "(root_id rows (tr_id a), tr_id a) \<in> (follows rows)\<^sup>*" "(root_id rows (tr_id a), tr_id b) \<in> (follows rows)\<^sup>*"
    by metis+
  from single_valued_confluent [OF forward this] show "same_treaty rows a b" by (simp add: same_treaty_def)
next
  have "root_id rows n = root_id rows m" if "(m, n) \<in> (follows rows)\<^sup>*" for m n
    using that root(1) [of m] root(2) by (intro root_unique) (auto intro: rtrancl_trans)
  then show "root_id rows (tr_id a) = root_id rows (tr_id b)" if "same_treaty rows a b"
    using that by (auto simp: same_treaty_def)
qed

lemma note_version_ok:
  assumes ok: "chosen_ok rows drv as_of seen chosen"
  shows "chosen_ok rows drv as_of (seen @ [t]) (note_version drv rows as_of chosen t)"
proof (cases "as_of < to_iso_date drv (tr_effective t)")
  case True
  with ok show ?thesis by (auto simp: note_version_def chosen_ok_def)
next
  case False
  define root where "root = root_id rows (tr_id t)"
  show ?thesis
  proof (cases "aget chosen root")
    case None
    with ok False show ?thesis
      unfolding note_version_def chosen_ok_def by (auto simp: root_def [symmetric] distinct_aput not_less)
  next
    case (Some sel)
    with ok have "tr_version u \<le> tr_version sel"
      if "u \<in> set seen" "to_iso_date drv (tr_effective u) \<le> as_of" "root_id rows (tr_id u) = root" for u
      using that unfolding chosen_ok_def by blast
    with ok False Some show ?thesis
      unfolding note_version_def chosen_ok_def
      by (auto simp: root_def [symmetric] distinct_aput not_less intro: order_trans [OF _ less_imp_le])
  qed
qed

lemma chosen_versions:
  "chosen_ok rows drv as_of seen (foldl (note_version drv rows as_of) [] seen)"
proof (induction seen rule: rev_induct)
  case Nil
  then show ?case by (simp add: chosen_ok_def)
next
  case (snoc t seen)
  then show ?case using note_version_ok by simp
qed

lemma chosen_newest:
  "t \<in> snd ` set (foldl (note_version drv rows as_of) [] rows) \<longleftrightarrow> newest rows drv as_of t"
proof -
  let ?chosen = "foldl (note_version drv rows as_of) [] rows"
  have ok: "chosen_ok rows drv as_of rows ?chosen" by (rule chosen_versions)
  then have mem: "(r, u) \<in> set ?chosen \<longleftrightarrow> aget ?chosen r = Some u" for r u
    by (simp add: aget_eq_map_of chosen_ok_def)
  have "newest rows drv as_of u" if "aget ?chosen r = Some u" for r u
    using ok that unfolding chosen_ok_def newest_def same_root [symmetric] by metis
  moreover have "aget ?chosen (root_id rows (tr_id t)) = Some t" if "newest rows drv as_of t"
  proof -
    from that ok obtain u where u: "aget ?chosen (root_id rows (tr_id t)) = Some u"
      unfolding chosen_ok_def newest_def by blast
    with ok have "u \<in> set rows" "root_id rows (tr_id u) = root_id rows (tr_id t)" "to_iso_date drv (tr_effective u) \<le> as_of"
      unfolding chosen_ok_def by blast+
    moreover from this u ok that have "tr_version u = tr_version t"
      unfolding chosen_ok_def newest_def same_root [symmetric] by (metis order_antisym)
    ultimately have "u = t" using that same_treaty_version same_root unfolding newest_def by metis
    with u show ?thesis by simp
  qed
  ultimately show ?thesis using mem by force
qed

end

text \<open>The tables whose rows form chains, as a type: the contract holds of every such table.\<close>

typedef treaty_table = "{rows. chained rows}" morphisms table_rows Treaty_table
  by (rule exI [of _ "[]"]) (simp add: chained_def)

interpretation chain: version_chain "table_rows table"
  by unfold_locales (use table_rows in simp)

lemma on_tables: "chained rows \<Longrightarrow> \<exists>table. rows = table_rows table"
  by (metis Treaty_table_inverse mem_Collect_eq)

lemma chosen_of_chained:
  assumes "chained rows"
  shows "t \<in> snd ` set (foldl (note_version drv rows as_of) [] rows) \<longleftrightarrow> newest rows drv as_of t"
proof -
  from on_tables [OF assms] obtain tab where "rows = table_rows tab" ..
  with chain.chosen_newest [of t drv tab] show ?thesis by simp
qed

subsection \<open>What the lookup uses\<close>

lemma chained_tenant:
  assumes "chained rows"
  shows "chained (filter (\<lambda>t. tr_tenant t = tenant) rows)"
proof -
  let ?mine = "filter (\<lambda>t. tr_tenant t = tenant) rows"
  have "distinct (map tr_id ?mine)" using assms by (auto simp: chained_def intro: distinct_map_filter)
  moreover have "\<exists>u \<in> set ?mine. tr_id u = n \<and> tr_tenant u = tr_tenant t \<and> tr_version u = tr_version t + 1 \<and> tr_id t < n"
    if "t \<in> set ?mine" "tr_superseded t = Some n" for t n
  proof -
    from that have "t \<in> set rows" by simp
    with that assms obtain u where "u \<in> set rows" "tr_id u = n" "tr_tenant u = tr_tenant t" "tr_version u = tr_version t + 1" "tr_id t < n"
      unfolding chained_def by blast
    with that show ?thesis by auto
  qed
  moreover have "t = u" if "t \<in> set ?mine" "u \<in> set ?mine" "tr_superseded t \<noteq> None" "tr_superseded t = tr_superseded u" for t u
    using that assms unfolding chained_def by auto
  moreover have "1 \<le> tr_version u \<and> (tr_version u = 1 \<or> (\<exists>t \<in> set ?mine. tr_superseded t = Some (tr_id u)))"
    if "u \<in> set ?mine" for u
  proof -
    from that assms have "1 \<le> tr_version u" "tr_version u = 1 \<or> (\<exists>t \<in> set rows. tr_superseded t = Some (tr_id u))"
      unfolding chained_def by auto
    moreover have "tr_tenant t = tr_tenant u" if "t \<in> set rows" "tr_superseded t = Some (tr_id u)" for t
    proof -
      from assms that obtain w where "w \<in> set rows" "tr_id w = tr_id u" "tr_tenant w = tr_tenant t"
        unfolding chained_def by blast
      with assms \<open>u \<in> set ?mine\<close> have "w = u" by (auto simp: chained_def distinct_map dest: inj_onD)
      with \<open>tr_tenant w = tr_tenant t\<close> show ?thesis by simp
    qed
    ultimately show ?thesis using that by auto
  qed
  ultimately show ?thesis unfolding chained_def by blast
qed

text \<open>No treaties yet; and the newest version of a treaty that is in effect on a date, among its tenant's.\<close>

definition no_treaties :: "reins_db \<Rightarrow> bool" where
  "no_treaties db \<longleftrightarrow> treaties db = []"

definition in_effect :: "driver \<Rightarrow> string \<Rightarrow> treaty \<Rightarrow> bool" where
  "in_effect drv as_of t \<longleftrightarrow> to_iso_date drv (tr_effective t) \<le> as_of"

definition newest_in_effect :: "driver \<Rightarrow> reins_db \<Rightarrow> string \<Rightarrow> treaty \<Rightarrow> bool" where
  "newest_in_effect drv db as_of t \<longleftrightarrow> in_effect drv as_of t
     \<and> (\<forall>u \<in> set (treaties db). same_treaty (treaties db) t u \<and> in_effect drv as_of u \<longrightarrow> tr_version u \<le> tr_version t)"

lemma chains_reached: "trace (reins_step drv) db0 ts db \<Longrightarrow> no_treaties db0 \<Longrightarrow> treaties_ok db"
  by (erule chains.inv_trace) (simp add: no_treaties_def treaties_ok_def chained_def)

lemma follows_tenant:
  assumes "chained rows" "t \<in> set rows" "(tr_id t, n) \<in> (follows rows)\<^sup>*"
  shows "(tr_id t, n) \<in> (follows (filter (\<lambda>u. tr_tenant u = tr_tenant t) rows))\<^sup>*
    \<and> (\<exists>u \<in> set rows. tr_id u = n \<and> tr_tenant u = tr_tenant t)"
  using assms(3)
proof (induction rule: rtrancl_induct)
  case base
  with assms(2) show ?case by auto
next
  case (step n m)
  then obtain u where u: "u \<in> set rows" "tr_id u = n" "tr_tenant u = tr_tenant t" by blast
  from step.hyps(2) obtain v where v: "v \<in> set rows" "tr_id v = n" "tr_superseded v = Some m" by (auto simp: follows_def)
  have "v = u" using assms(1) u(1,2) v(1,2) by (auto simp: chained_def distinct_map dest: inj_onD)
  with u v have "(n, m) \<in> follows (filter (\<lambda>u. tr_tenant u = tr_tenant t) rows)" by (auto simp: follows_def)
  moreover obtain w where "w \<in> set rows" "tr_id w = m" "tr_tenant w = tr_tenant v"
    using assms(1) v unfolding chained_def by blast
  ultimately show ?case using step.IH u \<open>v = u\<close> by (auto intro: rtrancl_into_rtrancl)
qed

lemma same_treaty_tenant:
  assumes "chained rows" "t \<in> set rows" "u \<in> set rows"
  shows "same_treaty rows t u \<longleftrightarrow>
    tr_tenant u = tr_tenant t \<and> same_treaty (filter (\<lambda>u. tr_tenant u = tr_tenant t) rows) t u"
proof
  have eq: "w = v" if "w \<in> set rows" "v \<in> set rows" "tr_id w = tr_id v" for w v
    using that assms(1) by (auto simp: chained_def distinct_map dest: inj_onD)
  assume "same_treaty rows t u"
  then consider "(tr_id t, tr_id u) \<in> (follows rows)\<^sup>*" | "(tr_id u, tr_id t) \<in> (follows rows)\<^sup>*"
    by (auto simp: same_treaty_def)
  then show "tr_tenant u = tr_tenant t \<and> same_treaty (filter (\<lambda>u. tr_tenant u = tr_tenant t) rows) t u"
  proof cases
    case 1
    from follows_tenant [OF assms(1,2) this] eq [OF _ assms(3)] show ?thesis unfolding same_treaty_def by blast
  next
    case 2
    from follows_tenant [OF assms(1,3) this] eq [OF _ assms(2)] show ?thesis unfolding same_treaty_def by metis
  qed
next
  let ?mine = "filter (\<lambda>u. tr_tenant u = tr_tenant t) rows"
  assume "tr_tenant u = tr_tenant t \<and> same_treaty ?mine t u"
  moreover have "(follows ?mine)\<^sup>* \<subseteq> (follows rows)\<^sup>*" by (rule rtrancl_mono) (auto simp: follows_def)
  ultimately show "same_treaty rows t u" unfolding same_treaty_def by blast
qed

lemma applicable_treaties_iff:
  assumes "chained (treaties db)"
  shows "t \<in> set (applicable_treaties drv db q) \<longleftrightarrow> t \<in> set (treaties db) \<and> tr_tenant t = q_tenant q
    \<and> newest_in_effect drv db (q_as_of q) t \<and> treaty_applies (applicability_of drv t) q"
proof -
  let ?mine = "filter (\<lambda>t. tr_tenant t = q_tenant q) (treaties db)"
  have "t \<in> set (applicable_treaties drv db q) \<longleftrightarrow> newest ?mine drv (q_as_of q) t \<and> treaty_applies (applicability_of drv t) q"
    using chosen_of_chained [OF chained_tenant [OF assms], of t] by (auto simp: applicable_treaties_def Let_def)
  also have "newest ?mine drv (q_as_of q) t \<longleftrightarrow>
      t \<in> set (treaties db) \<and> tr_tenant t = q_tenant q \<and> newest_in_effect drv db (q_as_of q) t"
    using same_treaty_tenant [OF assms, of t] by (auto simp: newest_def newest_in_effect_def in_effect_def)
  finally show ?thesis by blast
qed

text \<open>C20: in every history of treaty changes, the placement of a policy uses its facultative certificates when
  one covers the date, and otherwise every layer of exactly those treaties whose newest version in effect
  on the date applies: an older version is never a fallback for one that was cancelled or narrowed.\<close>

theorem placement_uses_newest_versions:
  assumes "trace (reins_step drv) db0 ts db" "no_treaties db0"
    and "lookup_placement_matches drv db q policy = Inr ms"
    and "sql_date drv (JStr (q_as_of q)) = Some day"
  shows "if list_ex (fac_covers (q_tenant q) policy day) (certificates db)
    then set (map match_certificate ms) = ct_id ` set (filter (fac_covers (q_tenant q) policy day) (certificates db))
    else {(match_treaty m, match_layer m) | m. m \<in> set ms} =
      {(tr_id t, ly_id l) | t l. t \<in> set (treaties db) \<and> l \<in> set (layers db) \<and> tr_tenant t = q_tenant q
        \<and> ly_tenant l = q_tenant q \<and> ly_treaty l = tr_id t
        \<and> newest_in_effect drv db (q_as_of q) t \<and> treaty_applies (applicability_of drv t) q}"
proof -
  have iff: "t \<in> set (applicable_treaties drv db q) \<longleftrightarrow> t \<in> set (treaties db) \<and> tr_tenant t = q_tenant q
      \<and> newest_in_effect drv db (q_as_of q) t \<and> treaty_applies (applicability_of drv t) q" for t
    using chains_reached [OF assms(1,2)] by (intro applicable_treaties_iff) (simp add: treaties_ok_def)
  show ?thesis
  proof (cases "list_ex (fac_covers (q_tenant q) policy day) (certificates db)")
    case True
    then have "filter (fac_covers (q_tenant q) policy day) (certificates db) \<noteq> []"
      by (auto simp: list_ex_iff filter_empty_conv)
    with assms(3,4) True show ?thesis
      by (auto simp: lookup_placement_matches_def Let_def facultative_match_def image_image)
  next
    case False
    then have "filter (fac_covers (q_tenant q) policy day) (certificates db) = []"
      by (auto simp: list_ex_iff filter_empty_conv)
    with assms(3,4) have ms: "ms = concat (map (\<lambda>t. map (layer_match db (q_tenant q) t) (treaty_layers db (q_tenant q) (tr_id t)))
        (applicable_treaties drv db q))"
      by (auto simp: lookup_placement_matches_def Let_def)
    have "{(match_treaty m, match_layer m) | m. m \<in> set ms} =
        {(tr_id t, ly_id l) | t l. t \<in> set (applicable_treaties drv db q) \<and> l \<in> set (treaty_layers db (q_tenant q) (tr_id t))}"
    proof -
      have "set ms = {layer_match db (q_tenant q) t l | t l.
          t \<in> set (applicable_treaties drv db q) \<and> l \<in> set (treaty_layers db (q_tenant q) (tr_id t))}"
        unfolding ms by auto
      moreover have "match_treaty (layer_match db tn t l) = tr_id t \<and> match_layer (layer_match db tn t l) = ly_id l" for tn t l
        by (simp add: layer_match_def)
      ultimately show ?thesis by (smt (verit) Collect_cong mem_Collect_eq)
    qed
    also have "\<dots> = {(tr_id t, ly_id l) | t l. t \<in> set (treaties db) \<and> l \<in> set (layers db) \<and> tr_tenant t = q_tenant q
        \<and> ly_tenant l = q_tenant q \<and> ly_treaty l = tr_id t
        \<and> newest_in_effect drv db (q_as_of q) t \<and> treaty_applies (applicability_of drv t) q}"
      by (auto simp: iff treaty_layers_def)
    finally show ?thesis using False by simp
  qed
qed

subsection \<open>One current version\<close>

lemma chained_id: "chained rows \<Longrightarrow> v \<in> set rows \<Longrightarrow> w \<in> set rows \<Longrightarrow> tr_id v = tr_id w \<Longrightarrow> v = w"
  unfolding chained_def distinct_map by (metis inj_onD)

lemma current_of_chain:
  assumes ok: "chained rows" and t: "t \<in> set rows"
  shows "\<exists>c \<in> set rows. tr_superseded c = None \<and> (tr_id t, tr_id c) \<in> (follows rows)\<^sup>*"
  using t
proof (induction "Max (tr_id ` set rows) - tr_id t" arbitrary: t rule: less_induct)
  case less
  show ?case
  proof (cases "tr_superseded t")
    case None
    with less.prems show ?thesis by blast
  next
    case (Some n)
    with ok less.prems obtain u where u: "u \<in> set rows" "tr_id u = n" "tr_id t < n" unfolding chained_def by blast
    have "n \<le> Max (tr_id ` set rows)" using u by (intro Max_ge) auto
    with u(2,3) have "Max (tr_id ` set rows) - tr_id u < Max (tr_id ` set rows) - tr_id t" by linarith
    from less.hyps [OF this u(1)] obtain c where "c \<in> set rows" "tr_superseded c = None" "(tr_id u, tr_id c) \<in> (follows rows)\<^sup>*"
      by blast
    moreover have "(tr_id t, tr_id u) \<in> follows rows" using Some less.prems u by (auto simp: follows_def)
    ultimately show ?thesis by (blast intro: converse_rtrancl_into_rtrancl)
  qed
qed

lemma current_not_followed:
  assumes "chained rows" "c \<in> set rows" "tr_superseded c = None" "(tr_id c, n) \<in> (follows rows)\<^sup>*"
  shows "n = tr_id c"
  using assms(4)
proof (cases rule: converse_rtranclE)
  case (step m)
  then obtain v where v: "v \<in> set rows" "tr_id v = tr_id c" "tr_superseded v = Some m" by (auto simp: follows_def)
  with chained_id [OF assms(1) v(1) assms(2)] assms(3) show ?thesis by simp
qed simp

lemma current_unique:
  assumes ok: "chained rows" and c: "c \<in> set rows" "tr_superseded c = None" "same_treaty rows t c"
    and d: "d \<in> set rows" "tr_superseded d = None" "same_treaty rows t d"
  shows "c = d"
proof -
  obtain tab where tab: "rows = table_rows tab" using on_tables [OF ok] by blast
  from c(3) d(3) have "same_treaty rows c d" unfolding tab chain.same_root [symmetric] by simp
  then have "tr_id c = tr_id d"
    using current_not_followed [OF ok c(1,2)] current_not_followed [OF ok d(1,2)] unfolding same_treaty_def by metis
  with c(1) d(1) show ?thesis unfolding tab by (rule chain.row_eq)
qed

text \<open>C21: in every history of treaty changes, each row belongs to exactly one current treaty, which is what the
  list of treaties shows, and two versions of one treaty never have the same number.\<close>

theorem one_current_version:
  assumes "trace (reins_step drv) db0 ts db" "no_treaties db0" "t \<in> set (treaties db)"
  shows "(\<exists>!c. c \<in> set (current_treaties (tr_tenant t) None db) \<and> same_treaty (treaties db) t c)
    \<and> (\<forall>u \<in> set (treaties db). same_treaty (treaties db) t u \<and> tr_version u = tr_version t \<longrightarrow> u = t)"
proof -
  have ok: "chained (treaties db)" using chains_reached [OF assms(1,2)] by (simp add: treaties_ok_def)
  then obtain tab where tab: "treaties db = table_rows tab" using on_tables by blast
  from current_of_chain [OF ok assms(3)] obtain c where c: "c \<in> set (treaties db)" "tr_superseded c = None"
    "same_treaty (treaties db) t c" by (auto simp: same_treaty_def)
  then have "tr_tenant c = tr_tenant t" using same_treaty_tenant [OF ok assms(3)] by blast
  with c have "\<exists>!c. c \<in> set (current_treaties (tr_tenant t) None db) \<and> same_treaty (treaties db) t c"
    by (intro ex1I [of _ c]) (auto simp: current_treaties_def intro: current_unique [OF ok])
  moreover have "\<forall>u \<in> set (treaties db). same_treaty (treaties db) t u \<and> tr_version u = tr_version t \<longrightarrow> u = t"
    using assms(3) chain.same_treaty_version [of tab t] unfolding tab by metis
  ultimately show ?thesis by blast
qed

subsection \<open>Placement rows\<close>

definition mine :: "string \<Rightarrow> nat \<Rightarrow> placement \<Rightarrow> bool" where
  "mine tenant txn r \<longleftrightarrow> pl_tenant r = tenant \<and> pl_transaction r = txn"

definition without_id :: "placement \<Rightarrow> placement" where
  "without_id r = r\<lparr>pl_id := 0\<rparr>"

lemma lookup_other_tables:
  "lookup_placement_matches drv (db\<lparr>placements := ps, db_next := n\<rparr>) q policy = lookup_placement_matches drv db q policy"
proof -
  have "load_participants (db\<lparr>placements := ps, db_next := n\<rparr>) = load_participants db"
    by (intro ext) (simp add: load_participants_def)
  then have m: "facultative_match (db\<lparr>placements := ps, db_next := n\<rparr>) = facultative_match db"
    "layer_match (db\<lparr>placements := ps, db_next := n\<rparr>) = layer_match db"
    by (intro ext, simp add: facultative_match_def layer_match_def)+
  have t: "treaty_layers (db\<lparr>placements := ps, db_next := n\<rparr>) = treaty_layers db"
    "applicable_treaties drv (db\<lparr>placements := ps, db_next := n\<rparr>) = applicable_treaties drv db"
    by (intro ext, simp add: treaty_layers_def applicable_treaties_def)+
  have "certificates (db\<lparr>placements := ps, db_next := n\<rparr>) = certificates db" by simp
  then show ?thesis unfolding lookup_placement_matches_def m t by (simp only:)
qed

definition placement_rows :: "string \<Rightarrow> nat \<Rightarrow> nat \<Rightarrow> jnum option \<Rightarrow> nat \<Rightarrow> placement_match list \<Rightarrow> placement list" where
  "placement_rows tenant policy txn premium n ms =
     map (\<lambda>(i, m). placement_row tenant policy txn premium i m) (indexed n ms)"

lemma placement_rows_mine: "r \<in> set (placement_rows tenant policy txn premium n ms) \<Longrightarrow> mine tenant txn r"
  by (auto simp: placement_rows_def placement_row_def mine_def Let_def)

lemma placement_rows_ids: "map without_id (placement_rows tenant policy txn premium n ms) =
    map (placement_row tenant policy txn premium 0) ms"
proof -
  have "without_id (placement_row tenant policy txn premium i m) = placement_row tenant policy txn premium 0 m" for i m
    by (simp add: without_id_def placement_row_def Let_def)
  then show ?thesis
    unfolding placement_rows_def map_map comp_def by (induction ms arbitrary: n) auto
qed

lemma placement_rows_amounts:
  "list_all (\<lambda>r. amount_fits (pl_retained_premium r) \<and> amount_fits (pl_ceded_premium r)) (placement_rows tenant policy txn premium n ms)
   = list_all (\<lambda>m. amount_fits (pl_retained_premium (placement_row tenant policy txn premium 0 m))
       \<and> amount_fits (pl_ceded_premium (placement_row tenant policy txn premium 0 m))) ms"
  by (induction ms arbitrary: n) (simp_all add: placement_rows_def placement_row_def Let_def)

lemma compute_parts:
  "compute_placement_for_transaction drv pol tenant policy txn db = Inr (ms, db') \<longleftrightarrow>
    (\<exists>p x. find_policy pol tenant policy = Some p \<and> find_txn pol tenant policy txn = Some x
      \<and> lookup_placement_matches drv db \<lparr>q_tenant = tenant, q_product = po_product p, q_state = po_state p,
          q_as_of = (case tx_effective x of Some d \<Rightarrow> to_iso_date drv d | None \<Rightarrow> iso_date (day_of_ms (tx_created x)))\<rparr> policy = Inr ms
      \<and> list_all (\<lambda>m. amount_fits (pl_retained_premium (placement_row tenant policy txn (latest_premium pol tenant txn) 0 m))
           \<and> amount_fits (pl_ceded_premium (placement_row tenant policy txn (latest_premium pol tenant txn) 0 m))) ms
      \<and> db' = db\<lparr>placements := filter (\<lambda>r. \<not> mine tenant txn r) (placements db)
                   @ placement_rows tenant policy txn (latest_premium pol tenant txn) (db_next db) ms,
                 db_next := db_next db + length ms\<rparr>)"
  unfolding compute_placement_for_transaction_def Let_def placement_rows_def [symmetric] placement_rows_amounts mine_def [symmetric]
  by (auto split: option.splits if_splits)

text \<open>computing the placement of a transaction replaces its rows: there is one row for every match and the
  rows of other transactions stay. Doing it again succeeds and changes nothing but the ids of the rows.\<close>

theorem recomputing_replaces_placements:
  assumes "compute_placement_for_transaction drv pol tenant policy txn db = Inr (ms, db')"
  shows "map pl_basis (filter (mine tenant txn) (placements db')) = ms
    \<and> filter (\<lambda>r. \<not> mine tenant txn r) (placements db') = filter (\<lambda>r. \<not> mine tenant txn r) (placements db)
    \<and> (\<exists>db''. compute_placement_for_transaction drv pol tenant policy txn db' = Inr (ms, db'')
         \<and> map without_id (placements db'') = map without_id (placements db'))"
proof -
  let ?rows = "\<lambda>n. placement_rows tenant policy txn (latest_premium pol tenant txn) n ms"
  from assms obtain p x where parts: "find_policy pol tenant policy = Some p" "find_txn pol tenant policy txn = Some x"
    and db': "db' = db\<lparr>placements := filter (\<lambda>r. \<not> mine tenant txn r) (placements db) @ ?rows (db_next db),
                 db_next := db_next db + length ms\<rparr>"
    by (auto simp: compute_parts)
  have own: "filter (mine tenant txn) (?rows n) = ?rows n" "filter (\<lambda>r. \<not> mine tenant txn r) (?rows n) = []" for n
    using placement_rows_mine by (auto simp: filter_empty_conv filter_id_conv)
  have "map pl_basis (?rows n) = map pl_basis (map without_id (?rows n))" for n by (simp add: without_id_def)
  then have basis: "map pl_basis (?rows n) = ms" for n
    unfolding placement_rows_ids by (simp add: placement_row_def Let_def comp_def)
  let ?db = "db'\<lparr>placements := filter (\<lambda>r. \<not> mine tenant txn r) (placements db') @ ?rows (db_next db'),
                 db_next := db_next db' + length ms\<rparr>"
  have "compute_placement_for_transaction drv pol tenant policy txn db' = Inr (ms, ?db)"
    using assms unfolding compute_parts by (auto simp: db' lookup_other_tables)
  moreover have "map without_id (placements ?db) = map without_id (placements db')"
    by (simp add: db' own placement_rows_ids)
  ultimately show ?thesis using basis own by (auto simp: db')
qed

subsection \<open>The date check of a new version\<close>

text \<open>A \<open>Date\<close> as text begins with the weekday, a capital letter, and date text with a digit.\<close>

lemma stored_head: "\<exists>c cs. date_head (Stored n) = c # cs \<and> 65 \<le> ccode c"
proof -
  obtain y m d where civil: "civil n = (y, m, d)" by (metis prod_cases3)
  have "nat ((n + 4) mod 7) < length WEEKDAYS" by (simp add: WEEKDAYS_def nat_less_iff)
  then have "WEEKDAYS ! nat ((n + 4) mod 7) \<in> set WEEKDAYS" by (rule nth_mem)
  then have "\<exists>c cs. WEEKDAYS ! nat ((n + 4) mod 7) = c # cs \<and> 65 \<le> ccode c"
    by (auto simp: WEEKDAYS_def ccode_def)
  then show ?thesis by (auto simp: date_head_def civil)
qed

lemma digit_before_letter: "is_digit c \<Longrightarrow> 65 \<le> ccode d \<Longrightarrow> c # cs < d # ds"
  by (auto simp: is_digit_def less_char_def ccode_def)

text \<open>a change that gives a new expiration date but no new effective date is always rejected, whatever the dates
  are: the check compares the text of the given date with the text of a \<open>Date\<close>, which begins with the weekday.\<close>

theorem patch_of_expiration_rejected:
  assumes "check_patch body = Inr ()" "cur \<in> set (treaties db)" "chained (treaties db)" "tr_superseded cur = None"
    and "nullish (get body ''effectiveDate'')" "get body ''expirationDate'' = JStr (c # cs)" "is_digit c"
  shows "patch_treaty drv (tr_tenant cur) (tr_id cur) body db =
    Inl (BadRequest ''REINSURANCE_INVALID_INPUT'' ''expirationDate must be after effectiveDate'')"
proof -
  obtain t where t: "find_first (\<lambda>t. tr_tenant t = tr_tenant cur \<and> tr_id t = tr_id cur) (treaties db) = Some t"
    using assms(2) find_first_None_iff [of _ "treaties db"] by fastforce
  with find_first_Some [OF t] chained_id [OF assms(3)] assms(2) have "t = cur" by blast
  obtain d ds where d: "date_head (Stored (tr_effective cur)) = d # ds" "65 \<le> ccode d" using stored_head by blast
  have "date_head (Given (JStr (c # cs))) \<le> date_head (Stored (tr_effective cur))"
    using digit_before_letter [OF assms(7) d(2)] by (auto simp: date_head_def [of "Given _"] d(1) intro: less_imp_le)
  then show ?thesis using assms(1,4-6) t \<open>t = cur\<close>
    by (simp add: patch_treaty_def date_or_def invalid_def)
qed

subsection \<open>Examples\<close>

definition example_driver :: driver where
  "example_driver =
     \<lparr>local_midnight = (\<lambda>d. d * 86400000), sql_date = (\<lambda>v. case v of JStr s \<Rightarrow> parse_day s | _ \<Rightarrow> None),
      sql_numeric = (\<lambda>v. case v of JNum (Fin x) \<Rightarrow> Some x | _ \<Rightarrow> None),
      sql_int = (\<lambda>v. case v of JNum (Fin x) \<Rightarrow> Some \<lfloor>x\<rfloor> | _ \<Rightarrow> None),
      sql_text = (\<lambda>v. case v of JStr s \<Rightarrow> Some s | _ \<Rightarrow> None),
      sql_codes = (\<lambda>v. case v of JNull \<Rightarrow> Some None | JArr vs \<Rightarrow> Some (Some (map to_str vs)) | _ \<Rightarrow> None)\<rparr>"

definition empty_reins :: reins_db where
  "empty_reins = \<lparr>treaties = [], layers = [], certificates = [], participants = [], placements = [], db_next = 10\<rparr>"

definition example_treaty_body :: jsval where
  "example_treaty_body = JObj [(''treatyName'', JStr ''Quota 2026''), (''treatyType'', JStr ''QUOTA_SHARE''),
     (''effectiveDate'', JStr ''2026-01-01''), (''expirationDate'', JStr ''2027-01-01''),
     (''layers'', JArr [JObj [(''cededPercent'', JNum (Fin 100)), (''retainedPercent'', JNum (Fin 0))]])]"

definition cancel_body :: jsval where
  "cancel_body = JObj [(''effectiveDate'', JStr ''2026-07-01''), (''status'', JStr ''Cancelled'')]"

definition example_v1 :: treaty where
  "example_v1 = \<lparr>tr_id = 10, tr_tenant = ''t'', tr_name = ''Quota 2026'', tr_type = ''QUOTA_SHARE'', tr_status = ''Active'',
     tr_effective = 20454, tr_expiration = 20819, tr_version = 1, tr_superseded = None, tr_broker = JNull,
     tr_broker_ref = JNull, tr_products = None, tr_states = None\<rparr>"

definition example_v2 :: treaty where
  "example_v2 = example_v1\<lparr>tr_id := 12, tr_status := ''Cancelled'', tr_effective := 20635, tr_version := 2\<rparr>"

definition example_layer :: layer where
  "example_layer = \<lparr>ly_id = 11, ly_tenant = ''t'', ly_treaty = 10, ly_number = 1, ly_type = JStr ''QUOTA_SHARE'',
     ly_retention = JNull, ly_limit = JNull, ly_ceded = 100, ly_retained = 0, ly_rate = JNull\<rparr>"

definition example_db1 :: reins_db where
  "example_db1 = \<lparr>treaties = [example_v1], layers = [example_layer], certificates = [],
     participants = [], placements = [], db_next = 12\<rparr>"

definition example_db2 :: reins_db where
  "example_db2 = \<lparr>treaties = [example_v1\<lparr>tr_superseded := Some 12\<rparr>, example_v2],
     layers = [example_layer, example_layer\<lparr>ly_id := 13, ly_treaty := 12\<rparr>], certificates = [],
     participants = [], placements = [], db_next = 14\<rparr>"

lemma example_created: "create_treaty example_driver ''t'' example_treaty_body empty_reins = Inr (example_v1, example_db1)"
  by code_simp

lemma example_cancelled: "patch_treaty example_driver ''t'' 10 cancel_body example_db1 = Inr (example_v2, example_db2)"
  by code_simp

lemma example_changes: "trace (reins_step example_driver) empty_reins ([] @ [example_v1] @ [example_v2]) example_db2"
proof -
  have "trace (reins_step example_driver) empty_reins ([] @ [example_v1]) example_db1"
    by (rule trace_more) (rule trace_start, rule create_step, rule example_created)
  then have "trace (reins_step example_driver) empty_reins (([] @ [example_v1]) @ [example_v2]) example_db2"
    by (rule trace_more) (rule patch_step, rule example_cancelled)
  then show ?thesis by simp
qed

definition example_query :: "string \<Rightarrow> placement_query" where
  "example_query as_of = \<lparr>q_tenant = ''t'', q_product = ''HO3'', q_state = Some ''TX'', q_as_of = as_of\<rparr>"

definition example_match :: placement_match where
  "example_match = LayerMatch 10 ''Quota 2026'' 11 1 (Fin 100) (Fin 0) []"

lemma example_dates:
  "to_iso_date example_driver 20454 = ''2026-01-01''" "to_iso_date example_driver 20635 = ''2026-07-01''"
  "to_iso_date example_driver 20819 = ''2027-01-01''" "to_iso_date example_driver 20513 = ''2026-03-01''"
  "sql_date example_driver (JStr ''2026-03-01'') = Some 20513" "sql_date example_driver (JStr ''2026-08-01'') = Some 20666"
  by code_simp+

lemma example_roots:
  "root_id (treaties example_db2) 10 = 10" "root_id (treaties example_db2) 12 = 10"
  by code_simp+

lemma example_order:
  "\<not> ''2026-03-01'' < (''2026-01-01''::string)" "''2026-03-01'' < (''2026-07-01''::string)"
  "\<not> (''2027-01-01''::string) \<le> ''2026-03-01''" "\<not> ''2026-08-01'' < (''2026-01-01''::string)"
  "\<not> ''2026-08-01'' < (''2026-07-01''::string)"
  by code_simp+

lemma example_rows:
  "filter (\<lambda>t. tr_tenant t = ''t'') (treaties example_db2) = treaties example_db2"
  "treaties example_db2 = [example_v1\<lparr>tr_superseded := Some 12\<rparr>, example_v2]"
  "tr_id example_v1 = 10" "tr_id example_v2 = 12" "tr_effective example_v1 = 20454" "tr_effective example_v2 = 20635"
  "tr_version example_v1 = 1" "tr_version example_v2 = 2"
  by (simp_all add: example_db2_def example_v1_def example_v2_def)

lemma example_applicable:
  "applicable_treaties example_driver example_db2 (example_query ''2026-03-01'') = [example_v1\<lparr>tr_superseded := Some 12\<rparr>]"
  "applicable_treaties example_driver example_db2 (example_query ''2026-08-01'') = []"
proof -
  let ?v1 = "example_v1\<lparr>tr_superseded := Some 12\<rparr>"
  have march: "foldl (note_version example_driver (treaties example_db2) ''2026-03-01'') [] (treaties example_db2) = [(10, ?v1)]"
    unfolding example_rows(2) foldl.simps note_version_def
    by (simp add: example_rows(3-8) example_dates example_order example_roots [unfolded example_rows(2)])
  have august: "foldl (note_version example_driver (treaties example_db2) ''2026-08-01'') [] (treaties example_db2) = [(10, example_v2)]"
    unfolding example_rows(2) foldl.simps note_version_def
    by (simp add: example_rows(3-8) example_dates example_order example_roots [unfolded example_rows(2)])
  have "treaty_applies (applicability_of example_driver ?v1) (example_query ''2026-03-01'')" by code_simp
  then show "applicable_treaties example_driver example_db2 (example_query ''2026-03-01'') = [?v1]"
    using march by (simp add: applicable_treaties_def Let_def example_query_def example_rows(1))
  have "\<not> treaty_applies (applicability_of example_driver example_v2) (example_query ''2026-08-01'')" by code_simp
  then show "applicable_treaties example_driver example_db2 (example_query ''2026-08-01'') = []"
    using august by (simp add: applicable_treaties_def Let_def example_query_def example_rows(1))
qed

text \<open>Before the cancellation takes effect the first version is used; after it no version is.\<close>

lemma example_lookups:
  "lookup_placement_matches example_driver example_db2 (example_query ''2026-03-01'') 2 = Inr [example_match]"
  "lookup_placement_matches example_driver example_db2 (example_query ''2026-08-01'') 2 = Inr []"
proof -
  have "certificates example_db2 = []" by (simp add: example_db2_def)
  moreover have "treaty_layers example_db2 ''t'' 10 = [example_layer]" by code_simp
  moreover have "layer_match example_db2 ''t'' (example_v1\<lparr>tr_superseded := Some 12\<rparr>) example_layer = example_match" by code_simp
  ultimately show
    "lookup_placement_matches example_driver example_db2 (example_query ''2026-03-01'') 2 = Inr [example_match]"
    "lookup_placement_matches example_driver example_db2 (example_query ''2026-08-01'') 2 = Inr []"
    using example_applicable example_dates(5,6) example_rows(3)
    by (simp_all add: lookup_placement_matches_def Let_def sort_by_def example_query_def)
qed

lemma no_treaties_empty: "no_treaties empty_reins"
  by (simp add: no_treaties_def empty_reins_def)

theorem placement_uses_newest_versions_witness:
  "list_ex (\<lambda>t. tr_id t = 10 \<and> newest_in_effect example_driver example_db2 ''2026-03-01'' t) (treaties example_db2)"
proof -
  have "sql_date example_driver (JStr (q_as_of (example_query ''2026-03-01''))) = Some 20513" by code_simp
  from placement_uses_newest_versions [OF example_changes no_treaties_empty example_lookups(1) this]
  have "{(match_treaty m, match_layer m) | m. m \<in> set [example_match]} =
      {(tr_id t, ly_id l) | t l. t \<in> set (treaties example_db2) \<and> l \<in> set (layers example_db2) \<and> tr_tenant t = ''t''
        \<and> ly_tenant l = ''t'' \<and> ly_treaty l = tr_id t
        \<and> newest_in_effect example_driver example_db2 ''2026-03-01'' t
        \<and> treaty_applies (applicability_of example_driver t) (example_query ''2026-03-01'')}"
    by (simp add: example_db2_def example_query_def)
  moreover have "(10, 11) \<in> {(match_treaty m, match_layer m) | m. m \<in> set [example_match]}" by (simp add: example_match_def)
  ultimately show ?thesis by (auto simp: list_ex_iff)
qed

theorem one_current_version_witness:
  "\<exists>!c. c \<in> set (current_treaties (tr_tenant example_v2) None example_db2) \<and> same_treaty (treaties example_db2) example_v2 c"
proof -
  have "example_v2 \<in> set (treaties example_db2)" by (simp add: example_db2_def)
  from one_current_version [OF example_changes no_treaties_empty this] show ?thesis by (rule conjunct1)
qed

definition example_policies :: policy_tables where
  "example_policies = \<lparr>policies = [\<lparr>po_id = 2, po_tenant = ''t'', po_product = ''HO3'', po_state = Some ''TX''\<rparr>],
     transactions = [\<lparr>tx_id = 3, tx_tenant = ''t'', tx_policy = 2, tx_effective = Some 20513, tx_created = 0\<rparr>],
     policy_versions = [\<lparr>vr_tenant = ''t'', vr_transaction = 3, vr_premium = Some 500, vr_processed = 7\<rparr>]\<rparr>"

definition example_placed :: reins_db where
  "example_placed = example_db2\<lparr>placements := [placement_row ''t'' 2 3 (Some (Fin 500)) 14 example_match], db_next := 15\<rparr>"

lemma example_computed:
  "compute_placement_for_transaction example_driver example_policies ''t'' 2 3 example_db2 = Inr ([example_match], example_placed)"
proof -
  have found: "latest_premium example_policies ''t'' 3 = Some (Fin 500)"
    "find_policy example_policies ''t'' 2 = Some \<lparr>po_id = 2, po_tenant = ''t'', po_product = ''HO3'', po_state = Some ''TX''\<rparr>"
    "find_txn example_policies ''t'' 2 3 = Some \<lparr>tx_id = 3, tx_tenant = ''t'', tx_policy = 2, tx_effective = Some 20513, tx_created = 0\<rparr>"
      by code_simp+
  have "fl 1 = Fin 1" using fl_int [of 1] by simp
  moreover have "\<lfloor>100001 / 2 :: rat\<rfloor> = 50000" "\<lfloor>1 / 2 :: rat\<rfloor> = 0" by (simp_all add: floor_eq_iff)
  ultimately have fits: "amount_fits (pl_ceded_premium (placement_row ''t'' 2 3 (Some (Fin 500)) 0 example_match))"
    "amount_fits (pl_retained_premium (placement_row ''t'' 2 3 (Some (Fin 500)) 0 example_match))"
    by (simp_all add: placement_row_def example_match_def ceded_premium_def retained_premium_def jsub_def amount_fits_def)
  then show ?thesis
    using found example_lookups(1) unfolding compute_parts
    by (simp add: example_dates example_query_def placement_rows_def example_placed_def example_db2_def)
qed

theorem recomputing_replaces_placements_witness:
  "map pl_basis (filter (mine ''t'' 3) (placements example_placed)) = [example_match]"
  using recomputing_replaces_placements [OF example_computed] by simp

definition extend_body :: jsval where
  "extend_body = JObj [(''expirationDate'', JStr ''2027-07-01'')]"

theorem patch_of_expiration_rejected_witness:
  "patch_treaty example_driver ''t'' 10 extend_body example_db1 =
    Inl (BadRequest ''REINSURANCE_INVALID_INPUT'' ''expirationDate must be after effectiveDate'')"
proof -
  have body: "check_patch extend_body = Inr ()" by code_simp
  have chain: "chained (treaties example_db1)" by (simp add: chained_def example_db1_def example_v1_def)
  from patch_of_expiration_rejected [OF body _ chain, of example_v1 "CHR ''2''" "''027-07-01''" example_driver]
  show ?thesis by (simp add: example_db1_def example_v1_def extend_body_def is_digit_def ccode_def)
qed

text \<open>A treaty of the year 2026, from a Thursday to a Friday, cannot even be cancelled without giving a date.\<close>

lemma cancellation_rejected:
  "patch_treaty example_driver ''t'' 10 (JObj [(''status'', JStr ''Cancelled'')]) example_db1 =
    Inl (BadRequest ''REINSURANCE_INVALID_INPUT'' ''expirationDate must be after effectiveDate'')"
  by code_simp

end
