(* ===== verification/PolicyCompliance.thy ===== *)
theory PolicyCompliance
  imports DateUtils
begin

text \<open>
  Compliance of policies, \<open>server/src/lib/policy-compliance.ts\<close>: the screening of a party's name against the
  list of sanctioned names, the eligibility of a product in a state, the expiry of a quote, the notice
  rules of a servicing transaction and the return premium of a cancellation, with the part of
  \<open>cancelPolicy\<close> (\<open>server/src/services/lifecycle.service.ts\<close>) that settles the refund and the part of \<open>bindQuote\<close>
  that checks the expiry. Tables are lists of rows; \<open>numeric\<close> columns read as numbers.
\<close>

subsection \<open>Name screening\<close>

text \<open>Upper case, every other character a space, one space for a run of them, none at the ends.\<close>

definition normalize_ofac_name :: "string \<Rightarrow> string" where
  "normalize_ofac_name name =
     trim (replace_runs is_space '' '' False
       (map (\<lambda>c. if is_upper c \<or> is_digit c \<or> c = CHR '' '' then c else CHR '' '') (upper name)))"

definition words :: "string \<Rightarrow> string list" where
  "words s = dedupe (filter (\<lambda>w. w \<noteq> []) (split_at_char (CHR '' '') s))"

definition name_similarity :: "string \<Rightarrow> string \<Rightarrow> jnum" where
  "name_similarity a b =
     (let wa = words a; wb = words b
      in if wa = [] \<or> wb = [] then Fin 0
         else jdiv (jint (int (length (filter (\<lambda>w. w \<in> set wb) wa)))) (jint (int (max (length wa) (length wb)))))"

definition similar :: "string \<Rightarrow> string \<Rightarrow> bool" where
  "similar a b = jle (fl (7 / 10)) (name_similarity a b)"

datatype screen_result = Clear | PotentialHit | ConfirmedHit

datatype disposition = DPending | DCleared | DEscalated | DBlocked

record sdn_row =
  sdn_entry :: nat
  sdn_name :: string
  sdn_normalized :: string
  sdn_aliases :: "string list option"

datatype match_detail =
    NameHit nat string jnum
  | AliasHit nat string string jnum
  | BlockedBefore

record ofac_screen =
  sc_id :: nat
  sc_tenant :: string
  sc_party :: string
  sc_normalized :: "string option"
  sc_policy :: "nat option"
  sc_quote :: "nat option"
  sc_result :: screen_result
  sc_details :: "match_detail list option"
  sc_disposition :: disposition
  sc_reason :: "string option"
  sc_reviewed_at :: "int option"
  sc_reviewed_by :: "nat option"
  sc_created :: int

definition latest_review :: "ofac_screen \<Rightarrow> ofac_screen \<Rightarrow> int" where
  "latest_review a b =
     (case (sc_reviewed_at a, sc_reviewed_at b) of
        (Some x, Some y) \<Rightarrow> if x = y then sc_created b - sc_created a else y - x
      | (Some x, None) \<Rightarrow> - 1
      | (None, Some y) \<Rightarrow> 1
      | (None, None) \<Rightarrow> sc_created b - sc_created a)"

definition prior_disposition :: "string \<Rightarrow> string \<Rightarrow> ofac_screen list \<Rightarrow> disposition option" where
  "prior_disposition tenant name screens =
     (if name = [] then None
      else case sort_by latest_review (filter (\<lambda>r. sc_tenant r = tenant \<and> sc_normalized r = Some name
               \<and> (sc_disposition r = DCleared \<or> sc_disposition r = DBlocked) \<and> sc_reviewed_by r \<noteq> None) screens) of
             [] \<Rightarrow> None
           | r # _ \<Rightarrow> Some (sc_disposition r))"

text \<open>
  The candidates: \<open>LIKE 'token%'\<close> or \<open>LIKE '% token%'\<close> with the first word of the name, at most 100 rows
  (in the order of the table, which the query leaves open).
\<close>

definition first_token :: "string \<Rightarrow> string" where
  "first_token name = hd (split_at_char (CHR '' '') name)"

definition sdn_candidate :: "string \<Rightarrow> sdn_row \<Rightarrow> bool" where
  "sdn_candidate name r =
     (let t = first_token name in starts_with (sdn_normalized r) t \<or> has_substring (sdn_normalized r) (CHR '' '' # t))"

definition sdn_candidates :: "sdn_row list \<Rightarrow> string \<Rightarrow> sdn_row list" where
  "sdn_candidates sdn name = take 100 (filter (sdn_candidate name) sdn)"

definition row_hits :: "string \<Rightarrow> sdn_row \<Rightarrow> match_detail list" where
  "row_hits name r =
     (if similar name (sdn_normalized r)
      then [NameHit (sdn_entry r) (sdn_name r) (name_similarity name (sdn_normalized r))] else [])
     @ concat (map (\<lambda>al. if similar name (normalize_ofac_name al)
                     then [AliasHit (sdn_entry r) (sdn_name r) al (name_similarity name (normalize_ofac_name al))] else [])
         (case sdn_aliases r of None \<Rightarrow> [] | Some as \<Rightarrow> as))"

definition name_hits :: "sdn_row list \<Rightarrow> string \<Rightarrow> match_detail list" where
  "name_hits sdn name = concat (map (row_hits name) (sdn_candidates sdn name))"

definition BLOCKED_REASON :: string where
  "BLOCKED_REASON = ''Carried forward from a prior compliance BLOCKED disposition for this party name.''"

definition CLEARED_REASON :: string where
  "CLEARED_REASON = ''Auto-cleared: matches a party name previously reviewed and cleared by compliance.''"

text \<open>The result, the details kept of it, and the disposition and reason carried over from a review.\<close>

definition screen_decision ::
  "sdn_row list \<Rightarrow> string \<Rightarrow> disposition option
   \<Rightarrow> screen_result \<times> match_detail list option \<times> disposition \<times> string option" where
  "screen_decision sdn name prior =
     (if prior = Some DBlocked then (ConfirmedHit, Some [BlockedBefore], DBlocked, Some BLOCKED_REASON)
      else if name = [] then (Clear, None, DPending, None)
      else let hits = name_hits sdn name
           in if hits = [] then (Clear, None, DPending, None)
              else if prior = Some DCleared then (Clear, Some (take 10 hits), DCleared, Some CLEARED_REASON)
              else (PotentialHit, Some (take 10 hits), DPending, None))"

text \<open>The screening with the row it records.\<close>

definition screen_ofac ::
  "int \<Rightarrow> nat \<Rightarrow> sdn_row list \<Rightarrow> string \<Rightarrow> string \<Rightarrow> nat option \<Rightarrow> nat option \<Rightarrow> ofac_screen list
   \<Rightarrow> screen_result \<times> match_detail list option \<times> ofac_screen list" where
  "screen_ofac now new_id sdn tenant party policy quote screens =
     (let name = normalize_ofac_name party;
          (result, details, carried, reason) = screen_decision sdn name (prior_disposition tenant name screens);
          disp = (if carried \<noteq> DPending then carried else if result = Clear then DCleared else DPending)
      in (result, details,
          screens @ [\<lparr>sc_id = new_id, sc_tenant = tenant, sc_party = party,
             sc_normalized = (if name = [] then None else Some name), sc_policy = policy, sc_quote = quote,
             sc_result = result, sc_details = details, sc_disposition = disp, sc_reason = reason,
             sc_reviewed_at = (if disp = DCleared \<or> disp = DBlocked then Some now else None), sc_reviewed_by = None,
             sc_created = now\<rparr>]))"

subsection \<open>Eligibility of a product in a state\<close>

record eligibility =
  eligible :: bool
  elig_reason :: "string option"
  elig_status :: "string option"

record eligibility_row =
  el_tenant :: string
  el_product :: string
  el_state :: string
  el_status :: string

definition quoted :: "string \<Rightarrow> string" where
  "quoted s = [CHR 0x27] @ s @ [CHR 0x27]"

definition not_configured_text :: "string \<Rightarrow> string \<Rightarrow> string" where
  "not_configured_text product state =
     ''Product '' @ quoted product @ '' is not configured for state '' @ quoted state @ ''. Contact your underwriting team.''"

definition status_text :: "string \<Rightarrow> string \<Rightarrow> string \<Rightarrow> string" where
  "status_text status product state =
     (if status = ''SUSPENDED'' then ''Writing of '' @ quoted product @ '' in '' @ quoted state @ '' is currently suspended.''
      else if status = ''CLOSED'' then quoted product @ '' is closed to new business in '' @ quoted state @ ''.''
      else if status = ''FILING_PENDING''
      then ''Rate/form filing for '' @ quoted product @ '' in '' @ quoted state @ '' is pending approval.''
      else ''Product not available in '' @ quoted state @ ''.'')"

definition check_state_eligibility :: "eligibility_row list \<Rightarrow> string \<Rightarrow> string \<Rightarrow> string \<Rightarrow> eligibility" where
  "check_state_eligibility rows tenant product state =
     (if product = [] \<or> state = [] then \<lparr>eligible = True, elig_reason = None, elig_status = None\<rparr>
      else case find_first (\<lambda>r. el_tenant r = tenant \<and> el_product r = product \<and> el_state r = upper state) rows of
        None \<Rightarrow> \<lparr>eligible = False, elig_reason = Some (not_configured_text product state), elig_status = None\<rparr>
      | Some r \<Rightarrow>
          if el_status r \<noteq> ''ACTIVE''
          then \<lparr>eligible = False, elig_reason = Some (status_text (el_status r) product state), elig_status = Some (el_status r)\<rparr>
          else \<lparr>eligible = True, elig_reason = None, elig_status = Some ''ACTIVE''\<rparr>)"

subsection \<open>Expiry of a quote\<close>

record expiry_check =
  expired :: bool
  expiry_date :: "string option"

text \<open>The clock gives the day of \<open>new Date().toISOString()\<close>.\<close>

definition check_quote_expiry :: "string \<Rightarrow> jsval \<Rightarrow> expiry_check" where
  "check_quote_expiry now_day quote =
     (let raw = js_or (get quote ''expiry_date'') (get quote ''expiryDate'')
      in if \<not> js_truthy raw then \<lparr>expired = False, expiry_date = None\<rparr>
         else let d = take 10 (to_str raw) in \<lparr>expired = (d < now_day), expiry_date = Some d\<rparr>)"

text \<open>A row of \<open>quotes\<close>, and the object \<open>bindQuote\<close> builds of it for the check.\<close>

record quote_row =
  qr_payload :: jsval
  qr_underwriting :: jsval
  qr_premium :: jsval
  qr_expiry :: jsval

definition bind_quote_view :: "quote_row \<Rightarrow> jsval" where
  "bind_quote_view row = JObj [(''payload'', qr_payload row), (''uw'', qr_underwriting row), (''premium'', qr_premium row)]"

definition bind_expiry_check :: "string \<Rightarrow> quote_row \<Rightarrow> (string, unit) outcome" where
  "bind_expiry_check now_day row =
     (if expired (check_quote_expiry now_day (bind_quote_view row)) then Inl ''QUOTE_EXPIRED'' else Inr ())"

subsection \<open>Notice rules\<close>

datatype return_method = ProRata | ShortRate | Flat | NoReturn

record compliance_row =
  cr_id :: nat
  cr_tenant :: string
  cr_product :: string
  cr_state :: string
  cr_transaction :: string
  cr_active :: bool
  cr_effective :: int
  cr_expiration :: "int option"
  cr_reasons :: "string list option"
  cr_min_notice :: jnum
  cr_max_notice :: "jnum option"
  cr_method :: "return_method option"
  cr_forms :: "string list option"
  cr_delivery :: "string list option"

record servicing_rule =
  rule_id :: nat
  allowed_reasons :: "string list"
  minimum_notice :: jnum
  maximum_notice :: "jnum option"
  rule_method :: "return_method option"
  required_forms :: "string list"
  required_delivery :: "string list"

definition list_or :: "string list option \<Rightarrow> string list" where
  "list_or v = (case v of None \<Rightarrow> [] | Some xs \<Rightarrow> xs)"

text \<open>The rule in force on a day: the one with the latest effective date.\<close>

definition load_servicing_compliance_rule ::
  "compliance_row list \<Rightarrow> string \<Rightarrow> string \<Rightarrow> string \<Rightarrow> string \<Rightarrow> int \<Rightarrow> servicing_rule option" where
  "load_servicing_compliance_rule rows tenant product state transaction day =
     (case sort_by (\<lambda>a b. cr_effective b - cr_effective a)
             (filter (\<lambda>r. cr_tenant r = tenant \<and> lower (cr_product r) = lower product \<and> upper (cr_state r) = upper state
                \<and> cr_transaction r = transaction \<and> cr_active r \<and> cr_effective r \<le> day
                \<and> (case cr_expiration r of None \<Rightarrow> True | Some e \<Rightarrow> day \<le> e)) rows) of
        [] \<Rightarrow> None
      | r # _ \<Rightarrow> Some \<lparr>rule_id = cr_id r, allowed_reasons = list_or (cr_reasons r), minimum_notice = cr_min_notice r,
            maximum_notice = cr_max_notice r, rule_method = cr_method r, required_forms = list_or (cr_forms r),
            required_delivery = list_or (cr_delivery r)\<rparr>)"

definition ms_per_day :: jnum where
  "ms_per_day = Fin 86400000"

text \<open>\<open>Date.parse(text + 'T00:00:00Z')\<close>, in milliseconds; NaN for a date that is not valid.\<close>

definition utc_midnight :: "string \<Rightarrow> jnum" where
  "utc_midnight s = (case parse_day s of None \<Rightarrow> NaN | Some d \<Rightarrow> jint (d * 86400000))"

definition notice_days :: "string \<Rightarrow> string \<Rightarrow> jnum" where
  "notice_days notice eff = jround (jdiv (jsub (utc_midnight eff) (utc_midnight notice)) ms_per_day)"

definition validate_servicing_compliance ::
  "servicing_rule \<Rightarrow> string \<Rightarrow> string \<Rightarrow> string \<Rightarrow> (string, jnum \<times> nat) outcome" where
  "validate_servicing_compliance rule reason notice eff =
     (if reason = [] \<or> reason \<notin> set (allowed_reasons rule) then Inl ''SERVICING_REASON_NOT_ALLOWED''
      else let n = notice_days notice eff
           in if \<not> is_finite n \<or> jlt n (minimum_notice rule)
                 \<or> (case maximum_notice rule of None \<Rightarrow> False | Some m \<Rightarrow> jlt m n)
              then Inl ''SERVICING_NOTICE_PERIOD_INVALID'' else Inr (n, rule_id rule))"

subsection \<open>Return premium\<close>

record short_rate_row =
  days_from :: jnum
  days_to :: jnum
  earned_pct :: jnum

fun compute_short_rate_earned_pct :: "jnum \<Rightarrow> short_rate_row list \<Rightarrow> jnum" where
  "compute_short_rate_earned_pct days [] = Fin 1"
| "compute_short_rate_earned_pct days (r # rows) =
     (if jle (days_from r) days \<and> jle days (days_to r) then earned_pct r
      else compute_short_rate_earned_pct days rows)"

record return_premium =
  returned :: jnum
  earned :: jnum
  refund_method :: return_method

text \<open>\<open>new Date(text).getTime()\<close>, and the days of the term, in force and remaining.\<close>

definition time_of :: "host \<Rightarrow> string \<Rightarrow> jnum" where
  "time_of h s = (case date_parse h s of None \<Rightarrow> NaN | Some ms \<Rightarrow> jint ms)"

definition days_from_to :: "host \<Rightarrow> string \<Rightarrow> string \<Rightarrow> jnum" where
  "days_from_to h a b = jround (jdiv (jsub (time_of h b) (time_of h a)) ms_per_day)"

definition pro_rata_return :: "jnum \<Rightarrow> jnum \<Rightarrow> jnum \<Rightarrow> return_premium" where
  "pro_rata_return full remaining term =
     (let r = round2 (jmul full (jdiv remaining term))
      in \<lparr>returned = r, earned = round2 (jsub full r), refund_method = ProRata\<rparr>)"

definition compute_return_premium ::
  "host \<Rightarrow> return_method \<Rightarrow> jnum \<Rightarrow> string \<Rightarrow> string \<Rightarrow> string \<Rightarrow> short_rate_row list \<Rightarrow> return_premium" where
  "compute_return_premium h m full cancel_date term_eff term_exp table =
     (if m = Flat then \<lparr>returned = round2 full, earned = Fin 0, refund_method = Flat\<rparr>
      else if m = NoReturn then \<lparr>returned = Fin 0, earned = round2 full, refund_method = NoReturn\<rparr>
      else let term = jmax (Fin 1) (days_from_to h term_eff term_exp);
               in_force = jmax (Fin 0) (days_from_to h term_eff cancel_date);
               remaining = jmax (Fin 0) (jsub term in_force)
           in if m = ShortRate
              then (let e = round2 (jmul full (compute_short_rate_earned_pct in_force table))
                    in \<lparr>returned = round2 (jsub full e), earned = e, refund_method = ShortRate\<rparr>)
              else pro_rata_return full remaining term)"

record reason_row =
  reason_code :: string
  reason_description :: string
  cancellation_type :: string
  reason_method :: return_method

record short_rate_table =
  st_tenant :: string
  st_active :: bool
  st_product :: "string option"
  st_state :: "string option"
  st_rows :: "short_rate_row list"

definition get_cancellation_reason_code :: "reason_row list \<Rightarrow> string \<Rightarrow> reason_row option" where
  "get_cancellation_reason_code rows code = find_first (\<lambda>r. reason_code r = code) rows"

definition table_preference :: "short_rate_table \<Rightarrow> short_rate_table \<Rightarrow> int" where
  "table_preference a b =
     (let w = (\<lambda>t. (if st_product t \<noteq> None then 2 else 0) + (if st_state t \<noteq> None then 1 else 0)) in w b - w a)"

definition load_short_rate_table :: "short_rate_table list \<Rightarrow> string \<Rightarrow> string \<Rightarrow> string \<Rightarrow> short_rate_row list" where
  "load_short_rate_table tables tenant product state =
     (let st = (if upper state = [] then None else Some (upper state))
      in case sort_by table_preference (filter (\<lambda>t. st_tenant t = tenant \<and> st_active t
               \<and> (st_product t = Some product \<or> st_product t = None)
               \<and> (st_state t = None \<or> st \<noteq> None \<and> st_state t = st)) tables) of
           [] \<Rightarrow> []
         | t # _ \<Rightarrow> st_rows t)"

text \<open>
  The refund \<open>cancelPolicy\<close> settles on: by the reason code when one is given and known, and pro rata when
  there is no reason code or nothing would be returned.
\<close>

record cancel_request =
  cq_reason :: string
  cq_tenant :: string
  cq_product :: string
  cq_state :: string
  cq_eff :: string
  cq_term_eff :: string
  cq_term_exp :: string
  cq_full :: jnum

definition reason_refund ::
  "host \<Rightarrow> reason_row list \<Rightarrow> short_rate_table list \<Rightarrow> servicing_rule option \<Rightarrow> cancel_request \<Rightarrow> return_premium" where
  "reason_refund h reasons tables rule q =
     (let none = \<lparr>returned = Fin 0, earned = cq_full q, refund_method = ProRata\<rparr>
      in if cq_reason q = [] then none
         else case get_cancellation_reason_code reasons (cq_reason q) of
           None \<Rightarrow> none
         | Some row \<Rightarrow>
             let table = (if reason_method row = ShortRate
                          then load_short_rate_table tables (cq_tenant q) (cq_product q) (cq_state q) else []);
                 m = (case rule of None \<Rightarrow> reason_method row
                      | Some r \<Rightarrow> (case rule_method r of None \<Rightarrow> reason_method row | Some m \<Rightarrow> m))
             in compute_return_premium h m (cq_full q) (cq_eff q) (cq_term_eff q) (cq_term_exp q) table)"

definition cancellation_refund ::
  "host \<Rightarrow> reason_row list \<Rightarrow> short_rate_table list \<Rightarrow> servicing_rule option \<Rightarrow> cancel_request \<Rightarrow> return_premium" where
  "cancellation_refund h reasons tables rule q =
     (let r = reason_refund h reasons tables rule q
      in if cq_reason q = [] \<or> jeq (returned r) (Fin 0)
         then (let refund = round2 (jmul (cq_full q)
                     (pro_rata_factor h (JStr (cq_eff q)) (JStr (cq_term_eff q)) (JStr (cq_term_exp q))))
               in if jeq (returned r) (Fin 0) \<and> jlt (Fin 0) refund
                  then \<lparr>returned = refund, earned = round2 (jsub (cq_full q) refund), refund_method = ProRata\<rparr> else r)
         else r)"

subsection \<open>Order of rounding\<close>

lemma jround_mono: "jle a b \<Longrightarrow> jle (jround a) (jround b)"
  by (cases a; cases b) (auto simp: jle_def jeq_def floor_mono intro: floor_mono le_neq_trans dest: less_imp_le)

lemma jmul_mono:
  assumes "0 < k" "jle a b"
  shows "jle (jmul a (Fin k)) (jmul b (Fin k))"
proof (cases "\<exists>x y. a = Fin x \<and> b = Fin y")
  case True
  then obtain x y where "a = Fin x" "b = Fin y" by blast
  with assms show ?thesis by (simp add: fl_mono)
next
  case False
  with assms show ?thesis
    by (cases a; cases b)
      (auto simp: jinf_def jeq_def jle_def [of PInf] jle_def [of _ NInf] jle_def [of NaN] jle_def [of _ NaN])
qed

lemma jdiv_mono:
  assumes "0 < k" "jle a b"
  shows "jle (jdiv a (Fin k)) (jdiv b (Fin k))"
proof (cases "\<exists>x y. a = Fin x \<and> b = Fin y")
  case True
  then obtain x y where "a = Fin x" "b = Fin y" by blast
  with assms show ?thesis by (simp add: fl_mono divide_right_mono)
next
  case False
  with assms show ?thesis
    by (cases a; cases b)
      (auto simp: jinf_def jeq_def jle_def [of PInf] jle_def [of _ NInf] jle_def [of NaN] jle_def [of _ NaN])
qed

lemma round2_mono: "jle a b \<Longrightarrow> jle (round2 a) (round2 b)"
  unfolding round2_def by (intro jdiv_mono jround_mono jmul_mono) simp_all

text \<open>An amount of money: a number of whole cents that is not negative.\<close>

definition money :: "rat \<Rightarrow> bool" where
  "money p \<longleftrightarrow> 0 \<le> p \<and> is_double p \<and> round2 (Fin p) = Fin p"

definition up_to :: "jnum \<Rightarrow> rat \<Rightarrow> bool" where
  "up_to a p \<longleftrightarrow> jle (Fin 0) a \<and> jle a (Fin p)"

lemma share_bounded:
  assumes "money p" "jle (Fin 0) f" "jle f (Fin 1)"
  shows "up_to (round2 (jmul (Fin p) f)) p"
proof -
  from assms(2,3) obtain x where x: "f = Fin x" "0 \<le> x" "x \<le> 1" by (cases f) (auto simp: jle_def jeq_def)
  have "jle (fl 0) (fl (p * x))" "jle (fl (p * x)) (fl p)"
    using assms(1) x by (intro fl_mono; simp add: money_def mult_left_le)+
  note this [THEN round2_mono]
  with assms(1) x(1) show ?thesis by (simp add: up_to_def money_def is_double_def)
qed

lemma rest_bounded:
  assumes "money p" "up_to e p"
  shows "up_to (round2 (jsub (Fin p) e)) p"
proof -
  from assms(2) obtain x where x: "e = Fin x" "0 \<le> x" "x \<le> p" by (cases e) (auto simp: up_to_def jle_def jeq_def)
  have "jle (fl 0) (fl (p - x))" "jle (fl (p - x)) (fl p)" using x by (intro fl_mono; simp)+
  note this [THEN round2_mono]
  with assms(1) x(1) show ?thesis by (simp add: up_to_def money_def is_double_def jsub_def)
qed

subsection \<open>What a refund can be\<close>

text \<open>\<open>Date\<close> reads date-only text as midnight of the UTC day.\<close>

definition reads_dates :: "host \<Rightarrow> bool" where
  "reads_dates h \<longleftrightarrow> (\<forall>d. in_range d \<longrightarrow> date_parse h (iso_date d) = Some (d * 86400000))"

lemma jround_int: "jround (Fin (of_int n)) = Fin (of_int n)"
proof -
  have "\<lfloor>of_int n + 1 / 2 :: rat\<rfloor> = n" by linarith
  then show ?thesis by simp
qed

lemma days_from_to_dates:
  assumes "reads_dates h" "in_range a" "in_range b"
  shows "days_from_to h (iso_date a) (iso_date b) = jint (b - a)"
proof -
  have bnd: "\<bar>a\<bar> < 4000000" "\<bar>b\<bar> < 4000000" using assms(2,3) in_range_day_bound by fastforce+
  have ms: "fl (of_int (b * 86400000 - a * 86400000)) = Fin (of_int (b * 86400000 - a * 86400000))"
    using bnd by (intro fl_int) (simp add: abs_if split: if_splits)
  have day: "fl (of_int (b - a)) = Fin (of_int (b - a))" using bnd by (intro fl_int) (simp add: abs_if split: if_splits)
  have q: "of_int (b * 86400000 - a * 86400000) / 86400000 = (of_int (b - a) :: rat)" by (simp add: field_simps)
  have "days_from_to h (iso_date a) (iso_date b) = jround (jdiv (fl (of_int (b * 86400000 - a * 86400000))) (Fin 86400000))"
    using assms by (simp add: days_from_to_def time_of_def reads_dates_def jint_def jsub_def ms_per_day_def)
  also have "\<dots> = jround (fl (of_int (b * 86400000 - a * 86400000) / 86400000))" unfolding ms by simp
  also have "\<dots> = jint (b - a)" unfolding q day jround_int jint_def ..
  finally show ?thesis .
qed

text \<open>The shares of a short-rate table are fractions, and the tables of a request hold only such rows.\<close>

definition fraction :: "jnum \<Rightarrow> bool" where
  "fraction f \<longleftrightarrow> jle (Fin 0) f \<and> jle f (Fin 1)"

definition fractions :: "short_rate_row list \<Rightarrow> bool" where
  "fractions rows \<longleftrightarrow> list_all (\<lambda>r. fraction (earned_pct r)) rows"

lemma earned_fraction: "fractions rows \<Longrightarrow> fraction (compute_short_rate_earned_pct days rows)"
  by (induction rows) (auto simp: fractions_def fraction_def)

lemma first_of_sorted: "sort_by cmp (filter P xs) = x # ys \<Longrightarrow> x \<in> set xs"
  by (metis filter_is_subset list.set_intros(1) set_sort_by subsetD)

lemma loaded_fractions:
  assumes "\<forall>t \<in> set tables. fractions (st_rows t)"
  shows "fractions (load_short_rate_table tables tenant product state)"
  unfolding load_short_rate_table_def Let_def
  by (rule list.split [THEN iffD2]) (use assms first_of_sorted in \<open>force simp: fractions_def\<close>)

lemma quotient_fraction: "0 \<le> x \<Longrightarrow> x \<le> y \<Longrightarrow> 0 < y \<Longrightarrow> fraction (jdiv (Fin x) (Fin y))"
  using fl_mono [of 0 "x / y"] fl_mono [of "x / y" 1] by (simp add: fraction_def)

lemma round2_money: "money p \<Longrightarrow> up_to (round2 (Fin p)) p" "money p \<Longrightarrow> up_to (Fin 0) p"
  by (simp_all add: money_def up_to_def)

lemma compute_return_bounded:
  assumes "money p" "fractions table" "reads_dates h" "in_range a" "in_range b" "in_range e"
  shows "up_to (returned (compute_return_premium h m (Fin p) (iso_date e) (iso_date a) (iso_date b) table)) p"
proof -
  define days where "days = max 1 (b - a)"
  define remaining where "remaining = max 0 (days - max 0 (e - a))"
  have bnd: "\<bar>a\<bar> < 4000000" "\<bar>b\<bar> < 4000000" "\<bar>e\<bar> < 4000000" using assms(4-6) in_range_day_bound by fastforce+
  have maxes: "jmax (Fin 1) (jint n) = jint (max 1 n)" "jmax (Fin 0) (jint n) = jint (max 0 n)" for n
    by (auto simp: jmax_def jint_def max_def)
  have sub: "jsub (jint days) (jint (max 0 (e - a))) = jint (days - max 0 (e - a))"
    using fl_int [of "days - max 0 (e - a)"] bnd by (simp add: jsub_def jint_def days_def)
  have "remaining \<le> days" "0 \<le> remaining" "0 < days" by (simp_all add: remaining_def days_def)
  then have "fraction (jdiv (jint remaining) (jint days))" unfolding jint_def by (intro quotient_fraction) simp_all
  with assms(1) have "up_to (returned (pro_rata_return (Fin p) (jint remaining) (jint days))) p"
    by (simp add: pro_rata_return_def Let_def fraction_def share_bounded)
  moreover have "up_to (round2 (jsub (Fin p) (round2 (jmul (Fin p) (compute_short_rate_earned_pct d table))))) p" for d
    using assms(1) earned_fraction [OF assms(2)] by (intro rest_bounded share_bounded) (simp_all add: fraction_def)
  ultimately show ?thesis
    using assms round2_money
    by (simp add: compute_return_premium_def Let_def days_from_to_dates maxes sub
        days_def [symmetric] remaining_def [symmetric])
qed

text \<open>C24: a cancellation inside the term never returns less than nothing or more than the premium, by any method,
  when the premium is an amount in whole cents and the short-rate tables hold fractions.\<close>

theorem refund_within_premium:
  assumes "money p" "reads_dates h" "in_range a" "in_range b" "in_range e" "a \<le> e" "e \<le> b"
    and "\<forall>t \<in> set tables. fractions (st_rows t)"
    and "cq_full q = Fin p" "cq_eff q = iso_date e" "cq_term_eff q = iso_date a" "cq_term_exp q = iso_date b"
  shows "jle (Fin 0) (returned (cancellation_refund h reasons tables rule q))
    \<and> jle (returned (cancellation_refund h reasons tables rule q)) (Fin p)"
proof -
  have "up_to (returned (reason_refund h reasons tables rule q)) p"
  proof -
    have c: "up_to (returned (compute_return_premium h m (Fin p) (iso_date e) (iso_date a) (iso_date b) tb)) p"
      if "fractions tb" for m tb
      by (rule compute_return_bounded [OF assms(1) that assms(2-5)])
    have "fractions []" by (simp add: fractions_def)
    then show ?thesis unfolding reason_refund_def Let_def assms(9-12)
      using c loaded_fractions [OF assms(8)] round2_money(2) [OF assms(1)] by (auto split: option.splits)
  qed
  moreover have "up_to (round2 (jmul (Fin p) (pro_rata_factor h (JStr (iso_date e)) (JStr (iso_date a)) (JStr (iso_date b))))) p"
    using assms(1) pro_rata_between_0_and_1 [OF assms(3-7), of h] by (intro share_bounded) (simp_all add: Let_def)
  ultimately have "up_to (returned (cancellation_refund h reasons tables rule q)) p"
    by (simp add: cancellation_refund_def Let_def assms(9-12))
  then show ?thesis by (simp add: up_to_def)
qed


text \<open>The expiry check of a bind never stops a quote, whatever the expiry date of its row: the object it is
  given has neither of the two fields it reads.\<close>

lemma expired_quote_can_be_bound: "bind_expiry_check now_day row = Inr ()"
  by (simp add: bind_expiry_check_def bind_quote_view_def check_quote_expiry_def js_or_def)

lemma expiry_of_the_row:
  "calendar_date d \<Longrightarrow> expired (check_quote_expiry now_day (JObj [(''expiry_date'', JStr d)])) \<longleftrightarrow> d < now_day"
  by (auto simp: check_quote_expiry_def js_or_def Let_def dest!: calendar_date_only simp: date_only_def)

subsection \<open>What the screening stops\<close>

lemma split_has_char: "c \<in> set s \<Longrightarrow> c \<noteq> d \<Longrightarrow> \<exists>w \<in> set (split_at_char d s). c \<in> set w"
  unfolding split_at_char_def
proof (induction s)
  case (Cons b s)
  then show ?case by (cases "split_on (\<lambda>c. c = d) s") auto
qed simp

lemma first_token_prefix: "starts_with s (first_token s)"
  unfolding first_token_def split_at_char_def
proof (induction s)
  case (Cons b s)
  then show ?case by (cases "split_on (\<lambda>c. c = CHR '' '') s") auto
qed simp

lemma trim_end_char: "trim s \<noteq> [] \<Longrightarrow> \<exists>c \<in> set (trim s). \<not> is_space c"
  unfolding trim_def trim_end_def by (metis hd_dropWhile hd_in_set rev_is_Nil_conv set_rev)

lemma words_of_name: "normalize_ofac_name party \<noteq> [] \<Longrightarrow> words (normalize_ofac_name party) \<noteq> []"
proof -
  assume "normalize_ofac_name party \<noteq> []"
  then obtain c where c: "c \<in> set (normalize_ofac_name party)" "\<not> is_space c"
    unfolding normalize_ofac_name_def using trim_end_char by blast
  then have "c \<noteq> CHR '' ''" by (auto simp: is_space_def ccode_def)
  with split_has_char [OF c(1)] obtain w where "w \<in> set (split_at_char (CHR '' '') (normalize_ofac_name party))" "c \<in> set w" by blast
  then have "w \<in> set (words (normalize_ofac_name party))" by (auto simp: words_def)
  then show ?thesis by auto
qed

lemma similar_same: "words a \<noteq> [] \<Longrightarrow> similar a a"
proof -
  assume w: "words a \<noteq> []"
  have "jle (fl (7 / 10)) (fl 1)" by (rule fl_mono) simp
  moreover have "filter (\<lambda>w. w \<in> set (words a)) (words a) = words a" by (simp add: filter_id_conv)
  ultimately show ?thesis using w by (simp add: similar_def name_similarity_def Let_def jint_def)
qed

lemma listed_name_hits:
  assumes "r \<in> set sdn" "sdn_normalized r = name" "words name \<noteq> []" "length (filter (sdn_candidate name) sdn) \<le> 100"
  shows "name_hits sdn name \<noteq> []"
proof -
  have "sdn_candidate name r" using first_token_prefix [of name] by (simp add: sdn_candidate_def assms(2) Let_def)
  with assms(1,4) have "r \<in> set (sdn_candidates sdn name)" by (simp add: sdn_candidates_def)
  moreover have "row_hits name r \<noteq> []" using similar_same [OF assms(3)] by (simp add: row_hits_def assms(2))
  ultimately show ?thesis by (auto simp: name_hits_def)
qed

text \<open>Screenings one after another; none of them is a review.\<close>

type_synonym screening = "int \<times> nat \<times> string \<times> string \<times> nat option \<times> nat option"

definition screen_next :: "sdn_row list \<Rightarrow> ofac_screen list \<Rightarrow> screening \<Rightarrow> ofac_screen list" where
  "screen_next sdn screens x =
     (case x of (now, new_id, tenant, party, policy, quote) \<Rightarrow>
        snd (snd (screen_ofac now new_id sdn tenant party policy quote screens)))"

lemma screen_records: "\<exists>r. snd (snd (screen_ofac now i sdn tenant party policy quote screens)) = screens @ [r] \<and> sc_reviewed_by r = None"
  by (simp add: screen_ofac_def Let_def split: prod.splits)

lemma prior_unreviewed: "sc_reviewed_by r = None \<Longrightarrow> prior_disposition tenant name (screens @ [r]) = prior_disposition tenant name screens"
  by (simp add: prior_disposition_def)

lemma screenings_keep_reviews: "prior_disposition tenant name (foldl (screen_next sdn) screens xs) = prior_disposition tenant name screens"
proof (induction xs rule: rev_induct)
  case (snoc x xs)
  obtain now i t party policy quote where "x = (now, i, t, party, policy, quote)" by (metis prod_cases6)
  with screen_records obtain r where "screen_next sdn (foldl (screen_next sdn) screens xs) x = foldl (screen_next sdn) screens xs @ [r]"
    "sc_reviewed_by r = None" unfolding screen_next_def by fastforce
  with snoc prior_unreviewed show ?case by simp
qed simp

text \<open>C23: as long as at most 100 entries of the list have a word that begins with the first word of the name, so that
  the limit of the query drops none, a party whose name is on the list of sanctioned names is never cleared by the
  screening alone, however often and under whatever names parties were screened before: only a reviewer's decision
  clears the name, and a reviewer's block makes every later screening a confirmed hit.\<close>

theorem only_a_review_clears_a_listed_name:
  assumes "r \<in> set sdn" "sdn_normalized r = normalize_ofac_name party" "normalize_ofac_name party \<noteq> []"
    and "length (filter (sdn_candidate (normalize_ofac_name party)) sdn) \<le> 100"
    and "screen_ofac now i sdn tenant party policy quote (foldl (screen_next sdn) screens xs) = (result, details, screens')"
  shows "(result = Clear \<longleftrightarrow> prior_disposition tenant (normalize_ofac_name party) screens = Some DCleared)
    \<and> (result = ConfirmedHit \<longleftrightarrow> prior_disposition tenant (normalize_ofac_name party) screens = Some DBlocked)
    \<and> details \<noteq> None"
proof -
  have "name_hits sdn (normalize_ofac_name party) \<noteq> []"
    using assms(1-4) by (intro listed_name_hits words_of_name) simp_all
  with assms(3,5) show ?thesis
    by (auto simp: screen_ofac_def screen_decision_def screenings_keep_reviews Let_def split: prod.splits if_splits)
qed

text \<open>
  With more candidates than that the query, which has no order, may take 100 rows that are not similar and leave
  out the row of the name itself: the listed name is then cleared.
\<close>

lemma limit_clears_listed_name:
  assumes "filter (sdn_candidate (normalize_ofac_name party)) sdn = others @ [r]" "length others = 100"
    and "\<And>x. x \<in> set others \<Longrightarrow> row_hits (normalize_ofac_name party) x = []"
    and "prior_disposition tenant (normalize_ofac_name party) screens = None"
  shows "fst (screen_ofac now i sdn tenant party policy quote screens) = Clear"
proof -
  have "name_hits sdn (normalize_ofac_name party) = []"
    using assms(1-3) by (simp add: name_hits_def sdn_candidates_def)
  with assms(4) show ?thesis by (simp add: screen_ofac_def screen_decision_def Let_def split: prod.splits)
qed

text \<open>An alias is compared only when the row's own name has a word that starts with the party's first word.\<close>

lemma alias_not_found:
  assumes "\<forall>r \<in> set sdn. \<not> sdn_candidate (normalize_ofac_name party) r"
    and "prior_disposition tenant (normalize_ofac_name party) screens \<noteq> Some DBlocked"
  shows "fst (screen_ofac now i sdn tenant party policy quote screens) = Clear"
proof -
  have "name_hits sdn (normalize_ofac_name party) = []"
    using assms(1) by (simp add: name_hits_def sdn_candidates_def filter_empty_conv)
  with assms(2) show ?thesis by (simp add: screen_ofac_def screen_decision_def Let_def split: prod.splits)
qed

subsection \<open>Examples\<close>

definition example_clock :: host where
  "example_clock = \<lparr>today_str = ''2026-01-15'', date_parse = (\<lambda>s. map_option (\<lambda>d. d * 86400000) (parse_day s)),
     local_ymd = (\<lambda>_. (1970, 1, 1))\<rparr>"

lemma example_clock_reads: "reads_dates example_clock"
  using dates_are_days [of _ 20000] by (simp add: reads_dates_def example_clock_def) (metis dates_are_days)

definition example_cancel :: "string \<Rightarrow> int \<Rightarrow> cancel_request" where
  "example_cancel reason day = \<lparr>cq_reason = reason, cq_tenant = ''t'', cq_product = ''homeowners'', cq_state = ''TX'',
     cq_eff = iso_date day, cq_term_eff = iso_date 20454, cq_term_exp = iso_date 20819, cq_full = Fin 1200\<rparr>"

definition no_refund_reason :: reason_row where
  "no_refund_reason = \<lparr>reason_code = ''NO_REFUND'', reason_description = ''No refund'', cancellation_type = ''FLAT'', reason_method = NoReturn\<rparr>"

lemma example_ranges: "in_range 20454" "in_range 20819" "in_range 20600"
  by code_simp+

lemma money_1200: "money 1200"
  by (simp add: money_def is_double_def)

theorem refund_within_premium_witness:
  "jle (returned (cancellation_refund example_clock [no_refund_reason] [] None (example_cancel ''NO_REFUND'' 20600))) (Fin 1200)"
  using refund_within_premium [OF money_1200 example_clock_reads example_ranges, of "[]" "example_cancel ''NO_REFUND'' 20600"
      "[no_refund_reason]" None]
  by (simp add: example_cancel_def)


definition example_sdn :: "sdn_row list" where
  "example_sdn = [\<lparr>sdn_entry = 3, sdn_name = ''Petrov, Ivan'', sdn_normalized = ''PETROV IVAN'', sdn_aliases = Some [''The Fox'']\<rparr>]"

theorem only_a_review_clears_a_listed_name_witness:
  "fst (screen_ofac 5 7 example_sdn ''t'' ''petrov  ivan.'' None None []) \<noteq> Clear"
proof -
  have name: "normalize_ofac_name ''petrov  ivan.'' = ''PETROV IVAN''" by code_simp
  obtain result details screens where r: "screen_ofac 5 7 example_sdn ''t'' ''petrov  ivan.'' None None [] = (result, details, screens)"
    by (metis prod_cases3)
  have "length (filter (sdn_candidate ''PETROV IVAN'') example_sdn) \<le> 100"
    by (rule order_trans [OF length_filter_le]) (simp add: example_sdn_def)
  with only_a_review_clears_a_listed_name [of "hd example_sdn" example_sdn "''petrov  ivan.''" 5 7 "''t''" None None "[]" "[]"] r
  show ?thesis by (simp add: name example_sdn_def prior_disposition_def sort_by_def)
qed

text \<open>An alias of the same row is not found.\<close>

lemma alias_cleared: "fst (screen_ofac 5 7 example_sdn ''t'' ''The Fox'' None None []) = Clear"
proof -
  have name: "normalize_ofac_name ''The Fox'' = ''THE FOX''" by code_simp
  have "\<not> sdn_candidate ''THE FOX'' (hd example_sdn)" by code_simp
  then show ?thesis by (intro alias_not_found) (simp_all add: name example_sdn_def prior_disposition_def sort_by_def)
qed

text \<open>Without a reason code a cancellation before the term returns more than the premium.\<close>

lemma refund_before_the_term:
  "returned (cancellation_refund example_clock [] [] None (example_cancel [] 20089)) = Fin 2400"
proof -
  have days: "iso_date 20089 = ''2025-01-01''" "iso_date 20454 = ''2026-01-01''" "iso_date 20819 = ''2027-01-01''" by code_simp+
  have "days_between example_clock (JStr ''2025-01-01'') (JStr ''2027-01-01'') = Fin 730"
    "days_between example_clock (JStr ''2026-01-01'') (JStr ''2027-01-01'') = Fin 365" by code_simp+
  then have "pro_rata_factor example_clock (JStr (iso_date 20089)) (JStr (iso_date 20454)) (JStr (iso_date 20819)) = Fin 2"
    by (simp add: pro_rata_factor_def days jmax_def)
  then show ?thesis by (simp add: cancellation_refund_def reason_refund_def example_cancel_def jeq_def Let_def)
qed

end
