(* ===== verification/Authority.thy ===== *)
theory Authority
  imports JsValue DateUtils
begin

text \<open>
  Underwriting authority, \<open>server/src/services/underwriting-authority.service.ts\<close>: the grants of an actor that
  are in force, and the decision whether a transaction of a premium and a limit is within one of them.
\<close>

record authority_grant =
  grant_id :: nat
  transaction_types :: "string list"
  max_premium :: "jnum option"
  max_limit :: "jnum option"
  may_override :: bool

record authority_decision =
  configured :: bool
  authorized :: bool
  decided_by :: "nat option"
  authority_reasons :: "string list"
  override_allowed :: bool

definition over :: "jnum option \<Rightarrow> jnum \<Rightarrow> bool" where
  "over bound x = (case bound of None \<Rightarrow> False | Some m \<Rightarrow> jlt m x)"

definition grant_reasons :: "jnum \<Rightarrow> jnum \<Rightarrow> authority_grant \<Rightarrow> string list" where
  "grant_reasons premium limit g =
     (if over (max_premium g) premium then [''PREMIUM_AUTHORITY_EXCEEDED''] else [])
     @ (if over (max_limit g) limit then [''LIMIT_AUTHORITY_EXCEEDED''] else [])"

definition grant_applies :: "string \<Rightarrow> authority_grant \<Rightarrow> bool" where
  "grant_applies transaction g = (transaction \<in> set (transaction_types g) \<or> ''*'' \<in> set (transaction_types g))"

definition evaluate_authority :: "authority_grant list \<Rightarrow> string \<Rightarrow> jnum \<Rightarrow> jnum \<Rightarrow> authority_decision" where
  "evaluate_authority grants transaction premium limit =
     (case filter (grant_applies transaction) grants of
        [] \<Rightarrow> \<lparr>configured = True, authorized = False, decided_by = None, authority_reasons = [''NO_AUTHORITY_GRANT''],
               override_allowed = False\<rparr>
      | best # rest \<Rightarrow>
          (case find_first (\<lambda>g. grant_reasons premium limit g = []) (best # rest) of
             Some g \<Rightarrow> \<lparr>configured = True, authorized = True, decided_by = Some (grant_id g), authority_reasons = [],
                        override_allowed = may_override g\<rparr>
           | None \<Rightarrow> \<lparr>configured = True, authorized = False, decided_by = Some (grant_id best),
                       authority_reasons = grant_reasons premium limit best, override_allowed = may_override best\<rparr>))"

text \<open>The largest limit a payload asks for: \<open>Number\<close> of the three limits of each coverage, finite ones only.\<close>

definition coverage_limits :: "jsval \<Rightarrow> jnum list" where
  "coverage_limits c =
     filter is_finite (map to_num [get c ''limit'', get c ''perOccurrenceLimit'', get c ''aggregateLimit''])"

definition maximum_requested_limit :: "jsval \<Rightarrow> jnum" where
  "maximum_requested_limit payload =
     foldl (\<lambda>m c. jmax (foldl jmax m (coverage_limits c)) (Fin 0)) (Fin 0) (items (get payload ''coverages''))"

subsection \<open>The grants in force\<close>

record grant_row =
  gr_id :: nat
  gr_tenant :: string
  gr_subject_type :: string
  gr_subject :: string
  gr_active :: bool
  gr_product :: "string option"
  gr_state :: "string option"
  gr_effective :: int
  gr_expiration :: "int option"
  gr_types :: "string list option"
  gr_premium :: "rat option"
  gr_limit :: "rat option"
  gr_override :: bool

record authority_input =
  in_tenant :: string
  in_actor :: "string option"
  in_roles :: "string list"
  in_producer :: "string option"
  in_product :: string
  in_state :: string
  in_day :: int
  in_transaction :: string
  in_premium :: jnum
  in_limit :: jnum

definition id_subject :: "string \<Rightarrow> string option \<Rightarrow> string list" where
  "id_subject kind v = (case v of None \<Rightarrow> [] | Some s \<Rightarrow> if s = [] then [] else [kind @ '':'' @ s])"

definition authority_subjects :: "authority_input \<Rightarrow> string list" where
  "authority_subjects i =
     id_subject ''USER'' (in_actor i) @ map (\<lambda>r. ''ROLE:'' @ r) (in_roles i) @ id_subject ''PRODUCER'' (in_producer i)"

definition grant_in_force :: "authority_input \<Rightarrow> grant_row \<Rightarrow> bool" where
  "grant_in_force i r =
     (gr_tenant r = in_tenant i \<and> gr_active r
      \<and> (case gr_product r of None \<Rightarrow> True | Some p \<Rightarrow> lower p = lower (in_product i))
      \<and> (case gr_state r of None \<Rightarrow> True | Some s \<Rightarrow> upper s = upper (in_state i))
      \<and> gr_effective r \<le> in_day i \<and> (case gr_expiration r of None \<Rightarrow> True | Some e \<Rightarrow> in_day i \<le> e))"

definition grant_subject :: "grant_row \<Rightarrow> string" where
  "grant_subject r = gr_subject_type r @ '':'' @ gr_subject r"

definition grant_of_row :: "grant_row \<Rightarrow> authority_grant" where
  "grant_of_row r = \<lparr>grant_id = gr_id r, transaction_types = (case gr_types r of None \<Rightarrow> [] | Some ts \<Rightarrow> ts),
     max_premium = map_option fl (gr_premium r), max_limit = map_option fl (gr_limit r), may_override = gr_override r\<rparr>"

definition load_authority_grants :: "grant_row list \<Rightarrow> authority_input \<Rightarrow> authority_grant list" where
  "load_authority_grants rows i =
     (if authority_subjects i = [] then []
      else map grant_of_row (sort_by (\<lambda>a b. gr_effective b - gr_effective a)
             (filter (\<lambda>r. grant_subject r \<in> set (authority_subjects i) \<and> grant_in_force i r) rows)))"

definition resolve_authority_decision :: "grant_row list \<Rightarrow> authority_input \<Rightarrow> authority_decision" where
  "resolve_authority_decision rows i =
     (if \<not> list_ex (grant_in_force i) rows
      then \<lparr>configured = False, authorized = True, decided_by = None, authority_reasons = [], override_allowed = False\<rparr>
      else evaluate_authority (load_authority_grants rows i) (in_transaction i) (in_premium i) (in_limit i))"

subsection \<open>Properties\<close>

text \<open>The rows that cover a request: one of the actor's, in force, for the transaction, and within both bounds.\<close>

definition covers :: "authority_input \<Rightarrow> grant_row \<Rightarrow> bool" where
  "covers i r \<longleftrightarrow> grant_in_force i r \<and> grant_subject r \<in> set (authority_subjects i)
     \<and> grant_applies (in_transaction i) (grant_of_row r)
     \<and> \<not> over (max_premium (grant_of_row r)) (in_premium i) \<and> \<not> over (max_limit (grant_of_row r)) (in_limit i)"

lemma grant_reasons_Nil: "grant_reasons premium limit g = [] \<longleftrightarrow> \<not> over (max_premium g) premium \<and> \<not> over (max_limit g) limit"
  by (simp add: grant_reasons_def)

lemma evaluate_authorized:
  "authorized (evaluate_authority grants transaction premium limit)
   \<longleftrightarrow> (\<exists>g \<in> set grants. grant_applies transaction g \<and> grant_reasons premium limit g = [])"
proof (cases "filter (grant_applies transaction) grants")
  case Nil
  then show ?thesis by (auto simp: evaluate_authority_def filter_empty_conv)
next
  case (Cons best rest)
  then have "set (best # rest) = {g \<in> set grants. grant_applies transaction g}" by (metis set_filter)
  then have ex: "(\<exists>g \<in> set grants. grant_applies transaction g \<and> grant_reasons premium limit g = [])
      \<longleftrightarrow> (\<exists>g \<in> set (best # rest). grant_reasons premium limit g = [])" by blast
  have "authorized (evaluate_authority grants transaction premium limit)
      \<longleftrightarrow> find_first (\<lambda>g. grant_reasons premium limit g = []) (best # rest) \<noteq> None"
    unfolding evaluate_authority_def Cons list.case by (simp split: option.split del: find_first.simps)
  then show ?thesis unfolding ex find_first_None_iff by blast
qed

lemma set_loaded:
  "set (load_authority_grants rows i) =
     grant_of_row ` {r \<in> set rows. grant_subject r \<in> set (authority_subjects i) \<and> grant_in_force i r}"
  by (auto simp: load_authority_grants_def)

lemma over_mono: "jle x y \<Longrightarrow> over b x \<Longrightarrow> over b y"
proof (cases b)
  case (Some m)
  then show "jle x y \<Longrightarrow> over b x \<Longrightarrow> over b y"
    by (cases m; cases x; cases y) (auto simp: over_def jle_def jeq_def)
qed (simp add: over_def)

text \<open>C35: a transaction is authorized exactly when no grant at all is in force for its product and state, or one
  of the actor's own grants in force covers it; and a smaller premium and limit stay authorized.\<close>

theorem authority_is_a_covering_grant:
  "(authorized (resolve_authority_decision rows i)
     \<longleftrightarrow> \<not> list_ex (grant_in_force i) rows \<or> list_ex (covers i) rows)
   \<and> (authorized (resolve_authority_decision rows i) \<and> jle p (in_premium i) \<and> jle l (in_limit i)
     \<longrightarrow> authorized (resolve_authority_decision rows (i\<lparr>in_premium := p, in_limit := l\<rparr>)))"
proof -
  have iff: "authorized (resolve_authority_decision rows j) \<longleftrightarrow> \<not> list_ex (grant_in_force j) rows \<or> list_ex (covers j) rows" for j
    by (auto simp: resolve_authority_decision_def evaluate_authorized set_loaded covers_def list_ex_iff grant_reasons_Nil)
  have force: "grant_in_force (i\<lparr>in_premium := p, in_limit := l\<rparr>) r = grant_in_force i r" for r
    by (simp add: grant_in_force_def split: option.splits)
  have cov: "covers i r \<Longrightarrow> jle p (in_premium i) \<Longrightarrow> jle l (in_limit i) \<Longrightarrow> covers (i\<lparr>in_premium := p, in_limit := l\<rparr>) r" for r
    by (auto simp: covers_def force authority_subjects_def dest: over_mono)
  show ?thesis unfolding iff by (auto simp: force list_ex_iff intro: cov)
qed

definition example_grant :: grant_row where
  "example_grant = \<lparr>gr_id = 4, gr_tenant = ''t'', gr_subject_type = ''ROLE'', gr_subject = ''uw'', gr_active = True,
     gr_product = Some ''homeowners'', gr_state = None, gr_effective = 20000, gr_expiration = None,
     gr_types = Some [''NB''], gr_premium = Some 5000, gr_limit = None, gr_override = False\<rparr>"

definition example_input :: "rat \<Rightarrow> authority_input" where
  "example_input premium = \<lparr>in_tenant = ''t'', in_actor = None, in_roles = [''uw''], in_producer = None,
     in_product = ''homeowners'', in_state = ''TX'', in_day = 20500, in_transaction = ''NB'',
     in_premium = Fin premium, in_limit = Fin 0\<rparr>"

theorem authority_is_a_covering_grant_witness:
  "authorized (resolve_authority_decision [example_grant] (example_input 5000))
   \<and> authorized (resolve_authority_decision [example_grant] ((example_input 5000)\<lparr>in_premium := Fin 4000, in_limit := Fin 0\<rparr>))
   \<and> \<not> authorized (resolve_authority_decision [example_grant] (example_input 6000))"
proof -
  have "covers (example_input 5000) example_grant" "grant_in_force (example_input 6000) example_grant"
    "\<not> covers (example_input 6000) example_grant"
    by (simp_all add: covers_def grant_in_force_def example_grant_def example_input_def grant_subject_def
        authority_subjects_def id_subject_def grant_applies_def grant_of_row_def over_def)
  then show ?thesis
    using authority_is_a_covering_grant [of "[example_grant]" "example_input 5000" "Fin 4000" "Fin 0"]
      authority_is_a_covering_grant [of "[example_grant]" "example_input 6000" "Fin 0" "Fin 0"]
    by (simp add: example_input_def)
qed

end
