(* ===== verification/PolicyLock.thy ===== *)
theory PolicyLock
  imports JsValue Traces
begin

text \<open>
  Concurrent changes of a policy, \<open>server/src/services/policy-concurrency.service.ts\<close>: a change locks the policy
  and may state the timeline version its client has seen. The policy is the list of the timeline versions
  of its transactions and versions (\<open>None\<close> for NULL) and of its segments. A cancellation, a reinstatement and
  an endorsement write all three with the next version after the segments' (\<open>nextTimelineVersion\<close> of
  \<open>lifecycle.service.ts\<close>, \<open>loadCurrentTimelineVersion\<close> and \<open>persistPolicyTimelineSegments\<close> of
  \<open>endorsement.service.ts\<close>); a renewal, a rewrite and a non-renewal write a transaction and a version whose
  timeline version stays NULL, the default of \<open>insertPolicyTransaction\<close> and \<open>insertPolicyVersion\<close>
  (\<open>persistence.ts\<close>). The row lock makes a change one step.
\<close>

datatype lock_error =
    InvalidExpected
  | PolicyNotFound
  | StaleVersion nat nat

record policy_state =
  exists_row :: bool
  txn_versions :: "nat option list"
  doc_versions :: "nat option list"
  segment_versions :: "nat list"

text \<open>\<open>undefined\<close>, \<open>null\<close> and the empty text are no expectation; else a non-negative integer.\<close>

definition parse_expected_timeline_version :: "jsval \<Rightarrow> (lock_error, nat option) outcome" where
  "parse_expected_timeline_version v =
     (if nullish v \<or> v = JStr [] then Inr None
      else case to_num v of
             Fin x \<Rightarrow> if of_int \<lfloor>x\<rfloor> = x \<and> 0 \<le> x then Inr (Some (nat \<lfloor>x\<rfloor>)) else Inl InvalidExpected
           | _ \<Rightarrow> Inl InvalidExpected)"

primrec greatest :: "nat list \<Rightarrow> nat" where
  "greatest [] = 0"
| "greatest (v # vs) = max v (greatest vs)"

definition max_version :: "nat option list \<Rightarrow> nat" where
  "max_version vs = greatest (List.map_filter id vs)"

definition current_version :: "policy_state \<Rightarrow> nat" where
  "current_version s = max (max_version (txn_versions s)) (max_version (doc_versions s))"

definition lock_policy_for_mutation :: "jsval \<Rightarrow> policy_state \<Rightarrow> (lock_error, nat) outcome" where
  "lock_policy_for_mutation expected s =
     (if \<not> exists_row s then Inl PolicyNotFound
      else outcome_bind (parse_expected_timeline_version expected) (\<lambda>e.
        case e of
          None \<Rightarrow> Inr (current_version s)
        | Some v \<Rightarrow> if v \<noteq> current_version s then Inl (StaleVersion v (current_version s)) else Inr (current_version s)))"

definition load_current_timeline_version :: "policy_state \<Rightarrow> nat" where
  "load_current_timeline_version s = greatest (segment_versions s)"

definition next_timeline_version :: "policy_state \<Rightarrow> nat" where
  "next_timeline_version s = load_current_timeline_version s + 1"

text \<open>The segments of the version are deleted and written again, \<open>n\<close> of them.\<close>

definition persist_segments :: "nat \<Rightarrow> nat \<Rightarrow> policy_state \<Rightarrow> policy_state" where
  "persist_segments tv n s = s\<lparr>segment_versions := filter (\<lambda>v. v \<noteq> tv) (segment_versions s) @ replicate n tv\<rparr>"

text \<open>The kinds of change: one that persists \<open>n\<close> segments, and one that persists none.\<close>

datatype change =
    Versioned nat \<comment> \<open>\<open>cancelPolicy\<close>, \<open>reinstatePolicy\<close>, \<open>endorsePolicy\<close>\<close>
  | Unversioned \<comment> \<open>\<open>renewPolicy\<close>, \<open>rewritePolicy\<close>, \<open>nonRenewPolicy\<close>\<close>

definition insert_rows :: "nat option \<Rightarrow> policy_state \<Rightarrow> policy_state" where
  "insert_rows tv s = s\<lparr>txn_versions := txn_versions s @ [tv], doc_versions := doc_versions s @ [tv]\<rparr>"

fun write_change :: "change \<Rightarrow> policy_state \<Rightarrow> policy_state" where
  "write_change (Versioned n) s =
     (let tv = next_timeline_version s in persist_segments tv n (insert_rows (Some tv) s))"
| "write_change Unversioned s = insert_rows None s"

definition change_policy :: "change \<Rightarrow> jsval \<Rightarrow> policy_state \<Rightarrow> (lock_error, policy_state) outcome" where
  "change_policy c expected s = outcome_bind (lock_policy_for_mutation expected s) (\<lambda>_. Inr (write_change c s))"

text \<open>A step is one change, refused or done; its label tells a versioned change that was done, by what it
  expected.\<close>

inductive change_step :: "policy_state \<Rightarrow> nat option list \<Rightarrow> policy_state \<Rightarrow> bool" where
  versioned_done: "change_policy (Versioned n) expected s = Inr s' \<Longrightarrow> 0 < n
    \<Longrightarrow> parse_expected_timeline_version expected = Inr e \<Longrightarrow> change_step s [e] s'"
| unversioned_done: "change_policy Unversioned expected s = Inr s' \<Longrightarrow> change_step s [] s'"
| change_refused: "change_policy c expected s = Inl err \<Longrightarrow> change_step s [] s"

subsection \<open>Versions move in step\<close>

lemma greatest_append [simp]: "greatest (xs @ ys) = max (greatest xs) (greatest ys)"
  by (induction xs) simp_all

lemma greatest_replicate: "0 < n \<Longrightarrow> greatest (replicate n v) = v"
proof (induction n)
  case (Suc n)
  then show ?case by (cases n) simp_all
qed simp

lemma greatest_bound: "v \<in> set xs \<Longrightarrow> v \<le> greatest xs"
  by (induction xs) auto

lemma max_version_append [simp]: "max_version (vs @ ws) = max (max_version vs) (max_version ws)"
  by (simp add: max_version_def List.map_filter_def)

lemma max_version_simps [simp]: "max_version [] = 0" "max_version [None] = 0" "max_version [Some v] = v"
  by (simp_all add: max_version_def List.map_filter_def)

definition in_step :: "policy_state \<Rightarrow> bool" where
  "in_step s \<longleftrightarrow> load_current_timeline_version s = current_version s"

lemma unversioned_keeps: "current_version (insert_rows None s) = current_version s" "exists_row (insert_rows None s) = exists_row s"
    "in_step (insert_rows None s) = in_step s"
  by (simp_all add: insert_rows_def current_version_def in_step_def load_current_timeline_version_def)

lemma versioned_raises:
  assumes "0 < n" "in_step s"
  shows "in_step (write_change (Versioned n) s) \<and> current_version (write_change (Versioned n) s) = current_version s + 1"
proof -
  let ?tv = "next_timeline_version s" and ?s' = "write_change (Versioned n) s"
  have fresh: "filter (\<lambda>v. v \<noteq> ?tv) (segment_versions s) = segment_versions s"
    using greatest_bound by (fastforce simp: filter_id_conv next_timeline_version_def load_current_timeline_version_def)
  have "?tv = current_version s + 1" using assms(2) by (simp add: next_timeline_version_def in_step_def)
  moreover from this have "current_version ?s' = ?tv"
    by (simp add: Let_def persist_segments_def insert_rows_def current_version_def)
  moreover have "load_current_timeline_version ?s' = ?tv"
    using greatest_replicate [OF assms(1)] fresh
    by (simp add: Let_def persist_segments_def insert_rows_def load_current_timeline_version_def next_timeline_version_def)
  ultimately show ?thesis by (simp add: in_step_def)
qed

lemma change_policy_done:
  assumes "change_policy c expected s = Inr s'"
  shows "s' = write_change c s"
    and "parse_expected_timeline_version expected = Inr e \<Longrightarrow> e = None \<or> e = Some (current_version s)"
  using assms by (auto simp: change_policy_def lock_policy_for_mutation_def split: if_splits option.splits)

lemma change_step_parts:
  assumes "change_step s xs s'" "in_step s"
  shows "in_step s' \<and> current_version s' = current_version s + length xs
    \<and> (xs = [] \<or> xs = [None] \<or> xs = [Some (current_version s)])"
  using assms(1)
proof cases
  case (versioned_done n expected e)
  with versioned_raises [OF versioned_done(3) assms(2)] change_policy_done [OF versioned_done(2)] show ?thesis by auto
next
  case (unversioned_done expected)
  with change_policy_done(1) [OF unversioned_done(2)] assms(2) show ?thesis by (simp add: unversioned_keeps)
qed (use assms(2) in simp)

interpretation versions: step_invariant change_step in_step
  by unfold_locales (simp add: change_step_parts)

lemma trace_versions:
  assumes "trace change_step s xs s'" "in_step s"
  shows "current_version s' = current_version s + length xs
    \<and> (\<forall>v. Some v \<in> set xs \<longrightarrow> current_version s \<le> v \<and> v < current_version s')
    \<and> (\<forall>v. count_list xs (Some v) \<le> 1)"
  using assms
proof (induction rule: trace.induct)
  case (trace_more s xs s' ys s'')
  then have "in_step s'" by (auto intro: versions.inv_trace)
  from change_step_parts [OF trace_more.hyps(2) this]
  have ys: "current_version s'' = current_version s' + length ys" "ys = [] \<or> ys = [None] \<or> ys = [Some (current_version s')]"
    by auto
  from trace_more.IH [OF trace_more.prems] have IH: "current_version s' = current_version s + length xs"
    "\<And>v. Some v \<in> set xs \<Longrightarrow> current_version s \<le> v \<and> v < current_version s'" "\<And>v. count_list xs (Some v) \<le> 1" by auto
  then have "count_list xs (Some (current_version s')) = 0" by (auto simp: count_list_0_iff)
  with IH ys show ?case by (auto dest: IH(2) intro: less_le_trans)
qed simp

text \<open>C10: of all the cancellations, reinstatements and endorsements whose clients have seen the same timeline version
  of a policy at most one is done, whatever other changes run between them in any order; every one that is done
  raises the version by one, and every later change that states the version it saw is refused.\<close>

theorem no_lost_update:
  assumes "trace change_step s xs s'" "in_step s"
  shows "count_list xs (Some v) \<le> 1 \<and> current_version s' = current_version s + length xs
    \<and> (Some v \<in> set xs \<longrightarrow> lock_policy_for_mutation (JNum (Fin (of_nat v))) s'
         \<in> {Inl PolicyNotFound, Inl (StaleVersion v (current_version s'))})"
proof -
  from trace_versions [OF assms] have t: "count_list xs (Some v) \<le> 1" "current_version s' = current_version s + length xs"
    "Some v \<in> set xs \<longrightarrow> v < current_version s'" by auto
  have "parse_expected_timeline_version (JNum (Fin (of_nat v))) = Inr (Some v)"
    by (simp add: parse_expected_timeline_version_def)
  with t show ?thesis by (auto simp: lock_policy_for_mutation_def)
qed

text \<open>C37: a renewal, a rewrite and a non-renewal do not raise the version the lock compares: once one is done, every
  later change, a second renewal among them, passes the check with the version seen before it, so that the stale
  write is applied.\<close>

theorem renewal_hidden_from_lock:
  assumes "change_policy Unversioned expected s = Inr s'"
  shows "lock_policy_for_mutation later s' = lock_policy_for_mutation later s
    \<and> change_policy c expected s' = Inr (write_change c s')"
proof -
  from assms have s': "s' = insert_rows None s" using change_policy_done(1) by fastforce
  have same: "lock_policy_for_mutation v s' = lock_policy_for_mutation v s" for v
    unfolding s' lock_policy_for_mutation_def unversioned_keeps ..
  from assms obtain v where "lock_policy_for_mutation expected s = Inr v"
    by (cases "lock_policy_for_mutation expected s") (auto simp: change_policy_def)
  with same show ?thesis by (simp add: change_policy_def)
qed

definition example_policy :: policy_state where
  "example_policy = \<lparr>exists_row = True, txn_versions = [None, Some 3], doc_versions = [None, Some 3],
     segment_versions = [2, 3, 3]\<rparr>"

theorem no_lost_update_witness:
  "lock_policy_for_mutation (JNum (Fin (of_nat 3))) (write_change (Versioned 2) example_policy)
     \<in> {Inl PolicyNotFound, Inl (StaleVersion 3 4)}"
proof -
  let ?s = "write_change (Versioned 2) example_policy"
  have "change_policy (Versioned 2) (JNum (Fin 3)) example_policy = Inr ?s"
    "parse_expected_timeline_version (JNum (Fin 3)) = Inr (Some 3)"
    by code_simp+
  from versioned_done [OF this(1) _ this(2)] have "change_step example_policy [Some 3] ?s" by simp
  then have t: "trace change_step example_policy [Some 3] ?s" by (rule trace_single)
  have i: "in_step example_policy" by code_simp
  have "lock_policy_for_mutation (JNum (Fin (of_nat 3))) ?s \<in> {Inl PolicyNotFound, Inl (StaleVersion 3 (current_version ?s))}"
    using no_lost_update [OF t i, of 3] by (metis list.set_intros(1))
  moreover have "current_version ?s = 4" by code_simp
  ultimately show ?thesis by simp
qed

theorem renewal_hidden_from_lock_witness:
  "change_policy Unversioned (JNum (Fin 3)) (insert_rows None example_policy)
     = Inr (insert_rows None (insert_rows None example_policy))"
proof -
  have "change_policy Unversioned (JNum (Fin 3)) example_policy = Inr (insert_rows None example_policy)" by code_simp
  from renewal_hidden_from_lock [OF this, of "JNum (Fin 3)" Unversioned] show ?thesis by simp
qed

end
