(* ===== verification/ReferralProposal.thy ===== *)
theory ReferralProposal
  imports JsonText DateUtils
begin

text \<open>
  The evidence of an underwriting proposal, \<open>server/src/lib/referral-proposal.ts\<close>: the canonical text of a value,
  the reviewable copy that keeps only digests of private fields, and the snapshot with its hash. The SHA-256
  digest is an argument. The lemmas show that the canonical text determines the value up to the order of
  properties, what is \<open>undefined\<close>, and what \<open>JSON.stringify\<close> prints alike.
\<close>

definition field_order :: "string \<times> jsval \<Rightarrow> string \<times> jsval \<Rightarrow> int" where
  "field_order a b = (if fst a < fst b then - 1 else if fst b < fst a then 1 else 0)"

definition sorted_fields :: "fields \<Rightarrow> fields" where
  "sorted_fields kvs = sort_by field_order (filter (\<lambda>(k, v). v \<noteq> JUndef) (own_entries kvs))"

lemma set_sorted_fields: "set (sorted_fields kvs) = {(k, v) \<in> set kvs. v \<noteq> JUndef}"
  by (auto simp: sorted_fields_def)

lemma size_sorted_fields: "(k, v) \<in> set (sorted_fields kvs) \<Longrightarrow> size v < Suc (size_list (size_prod f size) kvs)"
  using size_own_entries [of k v kvs f] by (simp add: set_sorted_fields less_Suc_eq_le)

function canonical_proposal :: "jsval \<Rightarrow> string" where
  "canonical_proposal (JArr vs) = ''['' @ join '','' (map canonical_proposal vs) @ '']''"
| "canonical_proposal (JObj kvs) =
     ''{'' @ join '','' (map (\<lambda>(k, v). json_quote k @ '':'' @ canonical_proposal v) (sorted_fields kvs)) @ ''}''"
| "canonical_proposal JUndef = ''null''"
| "canonical_proposal JNull = ''null''"
| "canonical_proposal (JBool b) = (if b then ''true'' else ''false'')"
| "canonical_proposal (JNum n) = (if is_finite n then num_str n else ''null'')"
| "canonical_proposal (JStr s) = json_quote s"
  by pat_completeness auto
termination
  by (relation "measure size") (auto dest: size_sorted_fields simp: less_Suc_eq_le size_list_estimation')

subsection \<open>The reviewable copy\<close>

text \<open>\<open>a.?b\<close> occurs in a text: the two parts with at most one character between them that is no line end.\<close>

fun gap_pattern :: "string \<Rightarrow> string \<Rightarrow> string \<Rightarrow> bool" where
  "gap_pattern a b [] = (a @ b = [])"
| "gap_pattern a b (c # s) =
     (starts_with (c # s) (a @ b)
      \<or> starts_with (c # s) a \<and> (case drop (length a) (c # s) of
            [] \<Rightarrow> False | g # rest \<Rightarrow> g \<noteq> CHR 0x0A \<and> g \<noteq> CHR 0x0D \<and> starts_with rest b)
      \<or> gap_pattern a b s)"

definition private_field :: "string \<Rightarrow> bool" where
  "private_field key =
     (let k = lower key
      in list_ex (has_substring k) [''password'', ''secret'', ''token'', ''authorization'', ''cookie'']
         \<or> gap_pattern ''api'' ''key'' k \<or> list_ex (has_substring k) [''buffer'', ''base64'']
         \<or> gap_pattern ''file'' ''content'' k \<or> gap_pattern ''document'' ''content'' k \<or> gap_pattern ''model'' ''input'' k
         \<or> list_ex (has_substring k) [''prompt'', ''documents'', ''attachments''])"

definition redacted :: "(string \<Rightarrow> string) \<Rightarrow> jsval \<Rightarrow> jsval" where
  "redacted digest v = JObj [(''redactedSha256'', JStr (digest (canonical_proposal v)))]"

function review_value :: "(string \<Rightarrow> string) \<Rightarrow> jsval \<Rightarrow> jsval" where
  "review_value digest (JArr vs) = JArr (map (review_value digest) vs)"
| "review_value digest (JObj kvs) =
     JObj (map (\<lambda>(k, v). (k, if private_field k then redacted digest v else review_value digest v))
       (filter (\<lambda>(k, v). v \<noteq> JUndef) (own_entries kvs)))"
| "review_value digest JUndef = JNull"
| "review_value digest JNull = JNull"
| "review_value digest (JBool b) = JBool b"
| "review_value digest (JNum n) = JNum n"
| "review_value digest (JStr s) = JStr s"
  by pat_completeness auto
termination
  by (relation "measure (\<lambda>(_, v). size v)") (auto intro: size_own_entries simp: less_Suc_eq_le size_list_estimation')

record proposal_input =
  p_payload :: jsval
  p_premium :: jsval
  p_base :: jsval
  p_underwriting :: jsval
  p_authority :: jsval

record proposal_context =
  pc_quote :: "string option"
  pc_policy :: "string option"
  pc_type :: string
  pc_product :: "string option"
  pc_agency :: "string option"
  pc_insured :: "string option"
  pc_effective :: "string option"
  pc_reasons :: "string list"
  pc_proposal :: "proposal_input option"

text \<open>\<open>v || null\<close> of a text that may be absent, as a JSON value and as a column.\<close>

definition or_null :: "string option \<Rightarrow> string option" where
  "or_null v = (case v of None \<Rightarrow> None | Some s \<Rightarrow> if s = [] then None else Some s)"

definition text_value :: "string option \<Rightarrow> jsval" where
  "text_value v = (case or_null v of None \<Rightarrow> JNull | Some s \<Rightarrow> JStr s)"

definition date_value :: "host \<Rightarrow> string option \<Rightarrow> jsval" where
  "date_value h v = (case v of None \<Rightarrow> JUndef | Some s \<Rightarrow> (case as_date_only h (JStr s) of None \<Rightarrow> JUndef | Some d \<Rightarrow> JStr d))"

definition reviewed_premium :: "(string \<Rightarrow> string) \<Rightarrow> jsval \<Rightarrow> jsval" where
  "reviewed_premium digest p = review_value digest (JObj [(''total'', get p ''total''), (''fees'', get p ''fees''),
     (''taxes'', get p ''taxes''), (''byCoverage'', get p ''byCoverage''), (''discounts'', get p ''discounts''),
     (''surcharges'', get p ''surcharges'')])"

definition proposal_snapshot :: "(string \<Rightarrow> string) \<Rightarrow> host \<Rightarrow> string \<Rightarrow> 'a proposal_context_scheme \<Rightarrow> proposal_input \<Rightarrow> jsval" where
  "proposal_snapshot digest h tenant c p =
     JObj [(''schemaVersion'', JNum (Fin 1)), (''tenantId'', JStr tenant), (''quoteId'', text_value (pc_quote c)),
       (''policyId'', text_value (pc_policy c)), (''productCode'', text_value (pc_product c)),
       (''agencyId'', text_value (pc_agency c)), (''insuredName'', text_value (pc_insured c)),
       (''transactionType'', JStr (pc_type c)), (''effectiveDate'', date_value h (pc_effective c)),
       (''reasons'', JArr (map JStr (sort (dedupe (pc_reasons c))))),
       (''baseVersion'', review_value digest (p_base p)), (''payload'', review_value digest (p_payload p)),
       (''premium'', reviewed_premium digest (p_premium p)),
       (''underwriting'', review_value digest (p_underwriting p)), (''authority'', review_value digest (p_authority p))]"

record evidence =
  ev_hash :: "string option"
  ev_snapshot :: jsval

definition referral_proposal_evidence :: "(string \<Rightarrow> string) \<Rightarrow> host \<Rightarrow> string \<Rightarrow> 'a proposal_context_scheme \<Rightarrow> evidence" where
  "referral_proposal_evidence digest h tenant c =
     (case pc_proposal c of
        None \<Rightarrow> \<lparr>ev_hash = None, ev_snapshot = JNull\<rparr>
      | Some p \<Rightarrow> let s = proposal_snapshot digest h tenant c p
                  in \<lparr>ev_hash = Some (digest (canonical_proposal s)), ev_snapshot = s\<rparr>)"

subsection \<open>The canonical text determines the value\<close>

text \<open>What the canonical text shows of a value: the canonical form.\<close>

datatype form =
    FNull
  | FBool bool
  | FNum string
  | FStr string
  | FArr "form list"
  | FObj "(string \<times> form) list"

function form_of :: "jsval \<Rightarrow> form" where
  "form_of (JArr vs) = FArr (map form_of vs)"
| "form_of (JObj kvs) = FObj (map (\<lambda>(k, v). (k, form_of v)) (sorted_fields kvs))"
| "form_of JUndef = FNull"
| "form_of JNull = FNull"
| "form_of (JBool b) = FBool b"
| "form_of (JNum n) = (if is_finite n then FNum (num_str n) else FNull)"
| "form_of (JStr s) = FStr s"
  by pat_completeness auto
termination
  by (relation "measure size") (auto dest: size_sorted_fields simp: less_Suc_eq_le size_list_estimation')

fun form_text :: "form \<Rightarrow> string" where
  "form_text FNull = ''null''"
| "form_text (FBool b) = (if b then ''true'' else ''false'')"
| "form_text (FNum t) = t"
| "form_text (FStr s) = json_quote s"
| "form_text (FArr fs) = ''['' @ join '','' (map form_text fs) @ '']''"
| "form_text (FObj kfs) = ''{'' @ join '','' (map (\<lambda>(k, f). json_quote k @ '':'' @ form_text f) kfs) @ ''}''"

lemma canonical_form_text: "canonical_proposal v = form_text (form_of v)"
proof (induction v rule: canonical_proposal.induct)
  case (1 vs)
  then have "map canonical_proposal vs = map (form_text \<circ> form_of) vs" by (intro map_cong) simp_all
  then show ?case by (simp only: canonical_proposal.simps form_of.simps form_text.simps map_map)
next
  case (2 kvs)
  then have "map (\<lambda>(k, v). json_quote k @ '':'' @ canonical_proposal v) (sorted_fields kvs)
      = map ((\<lambda>(k, f). json_quote k @ '':'' @ form_text f) \<circ> (\<lambda>(k, v). (k, form_of v))) (sorted_fields kvs)"
    by (intro map_cong) auto
  then show ?case by (simp only: canonical_proposal.simps form_of.simps form_text.simps map_map)
qed simp_all

text \<open>The texts of numbers: never empty, and no character of them can stand next to them.\<close>

definition num_char :: "char \<Rightarrow> bool" where
  "num_char c \<longleftrightarrow> is_digit c \<or> c \<in> {CHR ''-'', CHR ''.'', CHR ''e'', CHR ''+''}"

definition num_text :: "string \<Rightarrow> bool" where
  "num_text t \<longleftrightarrow> t \<noteq> [] \<and> list_all num_char t"

lemma digits_rev_chars: "0 \<le> n \<Longrightarrow> list_all is_digit (digits_rev n)"
proof (induction n rule: digits_rev.induct)
  case (1 n)
  then show ?case by (subst digits_rev.simps) simp
qed

lemma int_str_text [simp]: "num_text (int_str n)"
proof -
  have "list_all num_char ds" if "list_all is_digit ds" for ds
    using that by (auto simp: list_all_iff num_char_def)
  moreover have "digits_rev m \<noteq> []" for m by (subst digits_rev.simps) simp
  ultimately show ?thesis using digits_rev_chars [of n] digits_rev_chars [of "- n"]
    by (auto simp: int_str_def num_text_def num_char_def list_all_rev)
qed

lemma num_text_append: "num_text a \<Longrightarrow> list_all num_char b \<Longrightarrow> num_text (a @ b) \<and> num_text (b @ a)"
  by (simp add: num_text_def)

lemma num_chars [simp]: "num_char CHR ''-''" "num_char CHR ''.''" "num_char CHR ''e''" "num_char CHR ''+''" "num_char CHR ''0''"
  by (simp_all add: num_char_def is_digit_def ccode_def)

lemma layout_text:
  assumes "num_text ds"
  shows "num_text (layout_digits ds n)"
proof -
  have sub: "list_all num_char (take i ds)" "list_all num_char (drop i ds)" for i
    using assms by (auto simp: num_text_def list_all_iff dest: in_set_takeD in_set_dropD)
  have "list_all num_char (int_str m)" for m using int_str_text by (simp add: num_text_def)
  with assms sub show ?thesis
    by (auto simp: layout_digits_def Let_def num_text_def list_all_append) (simp_all add: list_all_iff)
qed

lemma shortest_text: "num_text (shortest f k x n)"
  by (induction f k x n rule: shortest.induct) (simp_all split: option.split)

lemma num_str_text: "is_finite n \<Longrightarrow> num_text (num_str n)"
proof (cases n)
  case (Fin x)
  have "num_text (pos_str y)" for y by (simp add: pos_str_def Let_def layout_text shortest_text)
  then show ?thesis by (simp add: Fin num_text_def)
qed simp_all

text \<open>No escape is the beginning of another one.\<close>

definition overlap :: "string \<Rightarrow> string \<Rightarrow> bool" where
  "overlap a b \<longleftrightarrow> take (min (length a) (length b)) a = take (min (length a) (length b)) b"

lemma overlapI: "a @ r = b @ s \<Longrightarrow> overlap a b"
  by (metis append_eq_append_conv_if min.commute min_def overlap_def take_all_iff append_eq_conv_conj nle_le)

definition plain :: "char \<Rightarrow> bool" where
  "plain c \<longleftrightarrow> 32 \<le> ccode c \<and> ccode c \<noteq> 34 \<and> ccode c \<noteq> 92"

lemma escape_plain: "plain c \<Longrightarrow> json_escape c = [c]"
  by (simp add: plain_def json_escape_def Let_def)

lemma escape_marked: "\<not> plain c \<Longrightarrow> \<exists>t. json_escape c = CHR 92 # t"
  by (auto simp: plain_def json_escape_def Let_def)

definition marked :: "char list" where
  "marked = map char_of ([0..<32] @ [34, 92])"

lemma marked_chars: "\<not> plain c \<Longrightarrow> c \<in> set marked"
proof -
  assume "\<not> plain c"
  then have "ccode c \<in> set ([0..<32] @ [34, 92])" by (auto simp: plain_def)
  then have "char_of (ccode c) \<in> set marked" unfolding marked_def by (simp only: set_map image_eqI)
  then show ?thesis by (simp add: ccode_def)
qed

lemma marked_free: "list_all (\<lambda>a. list_all (\<lambda>b. a = b \<or> \<not> overlap (json_escape a) (json_escape b)) marked) marked"
  by code_simp

lemma escape_free: "json_escape a @ r = json_escape b @ s \<Longrightarrow> a = b \<and> r = s"
proof -
  assume eq: "json_escape a @ r = json_escape b @ s"
  have "a = b"
  proof (cases "plain a \<or> plain b")
    case True
    have "\<not> plain (CHR 92)" by (simp add: plain_def ccode_def)
    with True eq show ?thesis using escape_marked [of a] escape_marked [of b]
      by (cases "plain a"; cases "plain b") (auto simp: escape_plain)
  next
    case False
    with marked_chars marked_free overlapI [OF eq] show ?thesis by (auto simp: list_all_iff)
  qed
  with eq show ?thesis by simp
qed

lemma escape_head: "json_escape c \<noteq> [] \<and> hd (json_escape c) \<noteq> CHR 34"
  by (cases "plain c") (use escape_plain escape_marked in \<open>fastforce simp: plain_def ccode_def\<close>)+

lemma body_free:
  "concat (map json_escape a) @ CHR 34 # r = concat (map json_escape b) @ CHR 34 # s \<Longrightarrow> a = b \<and> r = s"
proof (induction a arbitrary: b)
  case Nil
  then show ?case using escape_head by (cases b) (auto simp: neq_Nil_conv, metis list.sel(1) append_Cons neq_Nil_conv)
next
  case (Cons x a)
  show ?case
  proof (cases b)
    case Nil
    with Cons.prems escape_head [of x] show ?thesis by (cases "json_escape x") auto
  next
    case (Cons y ys)
    with Cons.prems escape_free [of x "concat (map json_escape a) @ CHR 34 # r" y] have "x = y"
      "concat (map json_escape a) @ CHR 34 # r = concat (map json_escape ys) @ CHR 34 # s" by auto
    with Cons.IH Cons show ?thesis by blast
  qed
qed

lemma quote_free: "json_quote a @ r = json_quote b @ s \<Longrightarrow> a = b \<and> r = s"
  using body_free [of a r b s] by (simp add: json_quote_def)

text \<open>Joined texts: what follows a text is nothing, a comma or a closing bracket.\<close>

definition closing :: "char \<Rightarrow> bool" where
  "closing c \<longleftrightarrow> c \<in> {CHR '','', CHR '']'', CHR ''}''}"

definition ends :: "string \<Rightarrow> bool" where
  "ends r \<longleftrightarrow> r = [] \<or> closing (hd r)"

definition opens :: "string \<Rightarrow> bool" where
  "opens t \<longleftrightarrow> t \<noteq> [] \<and> \<not> closing (hd t)"

lemma ends_Cons [simp]: "closing c \<Longrightarrow> ends (c # r)"
  by (simp add: ends_def)

lemma join_Cons: "join sep (w # ws) = w @ (if ws = [] then [] else sep @ join sep ws)"
  by (cases ws) simp_all

lemma opens_not_closing: "opens t \<Longrightarrow> t @ a \<noteq> c # b \<or> \<not> closing c"
  by (cases t) (auto simp: opens_def)

lemma join_free:
  assumes "\<And>f g r s. f \<in> set fs \<Longrightarrow> g \<in> set gs \<Longrightarrow> ends r \<Longrightarrow> ends s \<Longrightarrow> tx f @ r = tx g @ s \<Longrightarrow> f = g \<and> r = s"
    and "\<And>f. f \<in> set fs \<union> set gs \<Longrightarrow> opens (tx f)" and "c = CHR '']'' \<or> c = CHR ''}''"
    and "join '','' (map tx fs) @ c # r = join '','' (map tx gs) @ c # s"
  shows "fs = gs \<and> r = s"
  using assms
proof (induction fs arbitrary: gs)
  case Nil
  have c: "closing c" using Nil.prems(3) by (auto simp: closing_def)
  show ?case
  proof (cases gs)
    case (Cons g gs')
    with Nil.prems(2) [of g] Nil.prems(4) opens_not_closing [of "tx g" _ c r] c show ?thesis
      by (simp add: join_Cons) metis
  qed (use Nil.prems(4) in simp)
next
  case (Cons f fs)
  have c: "closing c" "c \<noteq> CHR '',''" "closing (CHR '','')" using Cons.prems(3) by (auto simp: closing_def)
  show ?case
  proof (cases gs)
    case Nil
    with Cons.prems(2) [of f] Cons.prems(4) opens_not_closing [of "tx f" _ c] c(1) show ?thesis
      by (auto simp: join_Cons)
  next
    case gs: (Cons g gs')
    define a where "a = (if fs = [] then [] else '','' @ join '','' (map tx fs)) @ c # r"
    define b where "b = (if gs' = [] then [] else '','' @ join '','' (map tx gs')) @ c # s"
    have "tx f @ a = tx g @ b" using Cons.prems(4) by (auto simp: gs join_Cons a_def b_def split: if_splits)
    moreover have "ends a" "ends b" using c by (auto simp: a_def b_def)
    ultimately have fg: "f = g" "a = b" using Cons.prems(1) [of f g a b] by (auto simp: gs)
    then have "join '','' (map tx fs) @ c # r = join '','' (map tx gs') @ c # s"
      using c(2) by (auto simp: a_def b_def split: if_splits)
    then have "fs = gs' \<and> r = s"
      using Cons.prems(1-3) by (intro Cons.IH) (auto simp: gs)
    with fg gs show ?thesis by simp
  qed
qed

fun form_ok :: "form \<Rightarrow> bool" where
  "form_ok (FNum t) = num_text t"
| "form_ok (FArr fs) = list_all form_ok fs"
| "form_ok (FObj kfs) = list_all (\<lambda>(k, f). form_ok f) kfs"
| "form_ok _ = True"

lemma form_of_ok: "form_ok (form_of v)"
  by (induction v rule: form_of.induct) (auto simp: list_all_iff num_str_text)

text \<open>The first character tells the kind of a value.\<close>

fun kind :: "form \<Rightarrow> nat" where
  "kind FNull = 0" | "kind (FBool b) = (if b then 1 else 2)" | "kind (FNum t) = 3"
| "kind (FStr s) = 4" | "kind (FArr fs) = 5" | "kind (FObj kfs) = 6"

definition kind_of_char :: "char \<Rightarrow> nat" where
  "kind_of_char c = (if c = CHR ''n'' then 0 else if c = CHR ''t'' then 1 else if c = CHR ''f'' then 2
     else if num_char c then 3 else if c = CHR 34 then 4 else if c = CHR ''['' then 5 else if c = CHR ''{'' then 6 else 7)"

lemma form_first: "form_ok f \<Longrightarrow> form_text f \<noteq> [] \<and> kind_of_char (hd (form_text f)) = kind f"
proof (cases f)
  case (FNum t)
  assume "form_ok f"
  then have t: "t \<noteq> []" "num_char (hd t)" by (auto simp: FNum num_text_def list_all_iff)
  then have "hd t \<notin> {CHR ''n'', CHR ''t'', CHR ''f''}" by (auto simp: num_char_def is_digit_def ccode_def)
  with t show ?thesis by (auto simp: FNum kind_of_char_def)
qed (auto simp: kind_of_char_def json_quote_def num_char_def is_digit_def ccode_def)

lemma form_opens: "form_ok f \<Longrightarrow> opens (form_text f)"
proof -
  assume "form_ok f"
  from form_first [OF this] have "form_text f \<noteq> []" "kind_of_char (hd (form_text f)) < 7" by (cases f; simp)+
  then show ?thesis
    by (auto simp: opens_def closing_def kind_of_char_def num_char_def is_digit_def ccode_def)
qed

lemma num_free:
  assumes "num_text t" "num_text u" "ends r" "ends s" "t @ r = u @ s"
  shows "t = u \<and> r = s"
proof -
  have stop: "takeWhile num_char r = []" if "ends r" for r
    using that by (cases r) (auto simp: ends_def closing_def num_char_def is_digit_def ccode_def)
  have "takeWhile num_char (t @ r) = t" "takeWhile num_char (u @ s) = u"
    using assms(1-4) by (simp_all add: num_text_def takeWhile_append list_all_iff stop)
  with assms(5) show ?thesis by simp
qed

lemma same_kind:
  assumes "form_ok a" "form_ok b" "form_text a @ r = form_text b @ s"
  shows "kind a = kind b"
proof -
  from form_first [OF assms(1)] form_first [OF assms(2)]
  have "form_text a \<noteq> []" "form_text b \<noteq> []" "kind_of_char (hd (form_text a)) = kind a"
    "kind_of_char (hd (form_text b)) = kind b" by blast+
  moreover from this assms(3) have "hd (form_text a) = hd (form_text b)" by (metis hd_append2)
  ultimately show ?thesis by simp
qed

lemma form_free:
  "form_ok a \<Longrightarrow> form_ok b \<Longrightarrow> ends r \<Longrightarrow> ends s \<Longrightarrow> form_text a @ r = form_text b @ s \<Longrightarrow> a = b \<and> r = s"
proof (induction a arbitrary: b r s)
  case FNull
  from same_kind [OF FNull.prems(1,2,5)] FNull.prems(5) show ?case by (cases b) (auto split: if_splits)
next
  case (FBool v)
  from same_kind [OF FBool.prems(1,2,5)] FBool.prems(5) show ?case by (cases b) (auto split: if_splits)
next
  case (FNum t)
  from same_kind [OF FNum.prems(1,2,5)] obtain u where "b = FNum u" by (cases b) (auto split: if_splits)
  with FNum.prems num_free [of t u r s] show ?case by simp
next
  case (FStr t)
  from same_kind [OF FStr.prems(1,2,5)] obtain u where "b = FStr u" by (cases b) (auto split: if_splits)
  with FStr.prems quote_free [of t r u s] show ?case by simp
next
  case (FArr fs)
  from same_kind [OF FArr.prems(1,2,5)] obtain gs where b: "b = FArr gs" by (cases b) (auto split: if_splits)
  have "fs = gs \<and> r = s"
  proof (rule join_free [where tx = form_text and c = "CHR '']''"])
    show "f = g \<and> r' = s'" if "f \<in> set fs" "g \<in> set gs" "ends r'" "ends s'" "form_text f @ r' = form_text g @ s'" for f g r' s'
      using FArr.IH [OF that(1)] FArr.prems(1,2) that by (auto simp: b list_all_iff)
    show "opens (form_text f)" if "f \<in> set fs \<union> set gs" for f
      using FArr.prems(1,2) that by (auto simp: b list_all_iff form_opens)
  qed (use FArr.prems(5) in \<open>simp_all add: b\<close>)
  then show ?case by (simp add: b)
next
  case (FObj fs)
  from same_kind [OF FObj.prems(1,2,5)] obtain gs where b: "b = FObj gs" by (cases b) (auto split: if_splits)
  define tx where "tx = (\<lambda>(k, f). json_quote k @ '':'' @ form_text f)"
  have "fs = gs \<and> r = s"
  proof (rule join_free [where tx = tx and c = "CHR ''}''"])
    fix x y r' s'
    assume xy: "x \<in> set fs" "y \<in> set gs" "ends r'" "ends s'" "tx x @ r' = tx y @ s'"
    obtain k f l g where kf: "x = (k, f)" "y = (l, g)" by fastforce
    with xy(5) have "json_quote k @ '':'' @ form_text f @ r' = json_quote l @ '':'' @ form_text g @ s'" by (simp add: tx_def)
    from quote_free [OF this] have "k = l" "form_text f @ r' = form_text g @ s'" by simp_all
    moreover have "form_ok f" "form_ok g" using FObj.prems(1,2) xy(1,2) by (auto simp: b kf list_all_iff)
    ultimately show "x = y \<and> r' = s'" using FObj.IH [of x f] xy by (auto simp: kf)
  next
    fix x
    show "opens (tx x)" by (auto simp: tx_def json_quote_def opens_def closing_def split: prod.split)
  qed (use FObj.prems(5) in \<open>simp_all add: b tx_def\<close>)
  then show ?case by (simp add: b)
qed

lemma canonical_text_inj: "canonical_proposal v = canonical_proposal w \<longleftrightarrow> form_of v = form_of w"
proof
  assume "canonical_proposal v = canonical_proposal w"
  then have "form_text (form_of v) @ [] = form_text (form_of w) @ []" by (simp add: canonical_form_text)
  from form_free [OF form_of_ok form_of_ok _ _ this] show "form_of v = form_of w" by (simp add: ends_def)
qed (simp add: canonical_form_text)

text \<open>C13: two values have the same canonical text exactly when they agree up to the order of their properties,
  properties that are undefined, and what JSON prints as null: the text that is hashed determines the proposal.\<close>

theorem canonical_text_determines_value: "canonical_proposal v = canonical_proposal w \<longleftrightarrow> form_of v = form_of w"
  by (rule canonical_text_inj)

end
