(* ===== verification/Referral.thy ===== *)
theory Referral
  imports ReferralProposal Traces
begin

text \<open>
  Underwriting referrals, \<open>server/src/services/uw-referral.service.ts\<close>: the gate a referred transaction has to
  pass, the decision of an underwriter, and the use of an approval by the transaction it was given for
  (\<open>quote-bind.service.ts\<close>, \<open>lifecycle.service.ts\<close>). The table \<open>underwriting_referrals\<close> is a list of rows; what the
  database makes of a date text is the argument \<open>cast_date\<close> (\<open>None\<close> when it rejects it). A gate, a decision and the
  last step of a bind each run under a lock (the policy row, the referral row, the quote row, or an advisory
  lock of the quote), so that each is one step.
\<close>

datatype referral_status = ROpen | RApproved | RDeclined | RInfoRequested | RWithdrawn

record referral_comment =
  by_user :: "string option"
  comment_text :: string
  comment_at :: int
  comment_decision :: "referral_status option"

record referral =
  rf_id :: nat
  rf_tenant :: string
  rf_quote :: "string option"
  rf_policy :: "string option"
  rf_txn :: "nat option"
  rf_version :: "nat option"
  rf_product :: "string option"
  rf_agency :: "string option"
  rf_insured :: "string option"
  rf_effective :: "string option"
  rf_type :: string
  rf_status :: referral_status
  rf_reasons :: "string list"
  rf_assigned :: "string option"
  rf_comments :: "referral_comment list"
  rf_decision :: "referral_status option"
  rf_decided_by :: "string option"
  rf_decided_at :: "int option"
  rf_decision_reason :: "string option"
  rf_created_by :: "string option"
  rf_created :: int
  rf_hash :: "string option"
  rf_snapshot :: jsval

datatype referral_error =
    DateRejected
  | ReferralNotFound
  | DecisionForbidden
  | NotDecidable referral_status
  | OverrideRequired
  | ReasonRequired
  | CommentRequired

record gate_context = proposal_context +
  gc_txn :: "nat option"
  gc_version :: "nat option"
  gc_override_required :: bool
  gc_created_by :: "string option"
  gc_retained :: "evidence option" \<comment> \<open>\<open>RETAINED_EVIDENCE\<close>\<close>

definition authority_reason :: "string \<Rightarrow> bool" where
  "authority_reason r = starts_with r ''AUTHORITY_''"

definition with_override_reason :: "gate_context \<Rightarrow> gate_context" where
  "with_override_reason c =
     (if gc_override_required c \<and> \<not> list_ex authority_reason (pc_reasons c)
      then c\<lparr>pc_reasons := pc_reasons c @ [''AUTHORITY_OVERRIDE_REQUIRED'']\<rparr> else c)"

definition newest_referral :: "referral \<Rightarrow> referral \<Rightarrow> int" where
  "newest_referral a b =
     (if rf_created a = rf_created b then int (rf_id b) - int (rf_id a) else rf_created b - rf_created a)"

definition latest_of :: "referral list \<Rightarrow> referral option" where
  "latest_of rows = (case sort_by newest_referral rows of [] \<Rightarrow> None | r # _ \<Rightarrow> Some r)"

definition find_existing_referral ::
  "string \<Rightarrow> gate_context \<Rightarrow> string option \<Rightarrow> referral list \<Rightarrow> referral option" where
  "find_existing_referral tenant c hash rows =
     (let same = (\<lambda>r. rf_tenant r = tenant \<and> (hash = None \<or> rf_hash r = hash))
      in case or_null (pc_quote c) of
           Some q \<Rightarrow> latest_of (filter (\<lambda>r. same r \<and> rf_quote r = Some q) rows)
         | None \<Rightarrow>
             (case or_null (pc_policy c) of
                Some p \<Rightarrow> latest_of (filter (\<lambda>r. same r \<and> rf_policy r = Some p \<and> rf_type r = pc_type c) rows)
              | None \<Rightarrow> None))"

definition date_of :: "host \<Rightarrow> string option \<Rightarrow> string option" where
  "date_of h v = (case v of None \<Rightarrow> None | Some s \<Rightarrow> as_date_only h (JStr s))"

text \<open>A row that answers an attempt: of exactly its proposal, for its date and all its reasons, not used yet.\<close>

definition reusable :: "host \<Rightarrow> gate_context \<Rightarrow> string option \<Rightarrow> referral \<Rightarrow> bool" where
  "reusable h c hash r \<longleftrightarrow>
     hash \<noteq> None \<and> hash \<noteq> Some [] \<and> rf_hash r = hash
     \<and> date_of h (rf_effective r) = date_of h (pc_effective c)
     \<and> list_all (\<lambda>x. x \<in> set (rf_reasons r)) (pc_reasons c) \<and> rf_txn r = None \<and> rf_version r = None"

definition new_referral :: "string \<Rightarrow> int \<Rightarrow> nat \<Rightarrow> gate_context \<Rightarrow> evidence \<Rightarrow> string option \<Rightarrow> referral" where
  "new_referral tenant now i c ev eff =
     \<lparr>rf_id = i, rf_tenant = tenant, rf_quote = or_null (pc_quote c), rf_policy = or_null (pc_policy c),
      rf_txn = gc_txn c, rf_version = gc_version c, rf_product = or_null (pc_product c), rf_agency = or_null (pc_agency c),
      rf_insured = or_null (pc_insured c), rf_effective = eff, rf_type = pc_type c, rf_status = ROpen,
      rf_reasons = pc_reasons c, rf_assigned = None, rf_comments = [], rf_decision = None, rf_decided_by = None,
      rf_decided_at = None, rf_decision_reason = None, rf_created_by = or_null (gc_created_by c), rf_created = now,
      rf_hash = ev_hash ev, rf_snapshot = ev_snapshot ev\<rparr>"

definition cast_column :: "(string \<Rightarrow> string option) \<Rightarrow> string option \<Rightarrow> (referral_error, string option) outcome" where
  "cast_column cast_date v =
     (case or_null v of None \<Rightarrow> Inr None
      | Some s \<Rightarrow> (case cast_date s of None \<Rightarrow> Inl DateRejected | Some d \<Rightarrow> Inr (Some d)))"

definition gate_evidence :: "(string \<Rightarrow> string) \<Rightarrow> host \<Rightarrow> string \<Rightarrow> gate_context \<Rightarrow> evidence" where
  "gate_evidence digest h tenant c =
     (case gc_retained c of Some ev \<Rightarrow> ev | None \<Rightarrow> referral_proposal_evidence digest h tenant c)"

text \<open>The answer of the gate: whether it blocks, the referral, and the table.\<close>

definition resolve_referral_gate ::
  "(string \<Rightarrow> string) \<Rightarrow> host \<Rightarrow> (string \<Rightarrow> string option) \<Rightarrow> string \<Rightarrow> int \<Rightarrow> nat \<Rightarrow> gate_context \<Rightarrow> referral list
   \<Rightarrow> (referral_error, bool \<times> referral \<times> referral list) outcome" where
  "resolve_referral_gate digest h cast_date tenant now new_id ctx rows =
     (let c = with_override_reason ctx;
          ev = gate_evidence digest h tenant c;
          fresh = outcome_bind (cast_column cast_date (pc_effective c)) (\<lambda>eff.
                    let r = new_referral tenant now new_id c ev eff in Inr (True, r, rows @ [r]))
      in case find_existing_referral tenant c (ev_hash ev) rows of
           None \<Rightarrow> fresh
         | Some r \<Rightarrow>
             if \<not> reusable h c (ev_hash ev) r then fresh
             else if rf_status r = RApproved then Inr (False, r, rows)
             else if rf_status r = ROpen \<or> rf_status r = RInfoRequested then Inr (True, r, rows)
             else fresh)"

text \<open>The context a rejected policy transaction carries over its rollback.\<close>

definition retained_context :: "referral \<Rightarrow> gate_context" where
  "retained_context r =
     \<lparr>pc_quote = None, pc_policy = rf_policy r, pc_type = rf_type r, pc_product = rf_product r, pc_agency = rf_agency r,
      pc_insured = rf_insured r, pc_effective = rf_effective r, pc_reasons = rf_reasons r, pc_proposal = None,
      gc_txn = None, gc_version = None, gc_override_required = False, gc_created_by = rf_created_by r,
      gc_retained = Some \<lparr>ev_hash = rf_hash r, ev_snapshot = rf_snapshot r\<rparr>\<rparr>"

subsection \<open>Decisions\<close>

datatype decision = Approve | Decline | RequestInfo

fun decided_status :: "decision \<Rightarrow> referral_status" where
  "decided_status Approve = RApproved" | "decided_status Decline = RDeclined" | "decided_status RequestInfo = RInfoRequested"

record decision_input =
  di_decision :: decision
  di_reason :: string
  di_by :: "string option"
  di_underwriter :: bool
  di_can_override :: bool

definition find_referral :: "string \<Rightarrow> nat \<Rightarrow> referral list \<Rightarrow> referral option" where
  "find_referral tenant i rows = find_first (\<lambda>r. rf_tenant r = tenant \<and> rf_id r = i) rows"

definition update_referral :: "string \<Rightarrow> nat \<Rightarrow> (referral \<Rightarrow> referral) \<Rightarrow> referral list \<Rightarrow> referral list" where
  "update_referral tenant i f rows = map (\<lambda>r. if rf_tenant r = tenant \<and> rf_id r = i then f r else r) rows"

definition decision_comment :: "int \<Rightarrow> decision_input \<Rightarrow> referral_comment list" where
  "decision_comment now input =
     (if trim (di_reason input) = [] then []
      else [\<lparr>by_user = di_by input, comment_text = trim (di_reason input), comment_at = now,
             comment_decision = Some (decided_status (di_decision input))\<rparr>])"

definition record_decision :: "int \<Rightarrow> decision_input \<Rightarrow> referral \<Rightarrow> referral" where
  "record_decision now input r =
     r\<lparr>rf_status := decided_status (di_decision input), rf_decision := Some (decided_status (di_decision input)),
       rf_decided_by := di_by input, rf_decided_at := Some now, rf_decision_reason := or_null (Some (trim (di_reason input))),
       rf_comments := rf_comments r @ decision_comment now input\<rparr>"

definition decide_referral ::
  "string \<Rightarrow> int \<Rightarrow> nat \<Rightarrow> decision_input \<Rightarrow> referral list \<Rightarrow> (referral_error, referral list) outcome" where
  "decide_referral tenant now i input rows =
     (if \<not> di_underwriter input then Inl DecisionForbidden
      else case find_referral tenant i rows of
             None \<Rightarrow> Inl ReferralNotFound
           | Some r \<Rightarrow>
               let reason = trim (di_reason input)
               in if \<not> (rf_status r = ROpen \<or> rf_status r = RInfoRequested) then Inl (NotDecidable (rf_status r))
                  else if di_decision input = Approve \<and> list_ex authority_reason (rf_reasons r)
                          \<and> (\<not> di_can_override input \<or> reason = []) then Inl OverrideRequired
                  else if (di_decision input = Approve \<or> di_decision input = Decline) \<and> reason = [] then Inl ReasonRequired
                  else Inr (update_referral tenant i (record_decision now input) rows))"

definition assign_referral :: "string \<Rightarrow> nat \<Rightarrow> string \<Rightarrow> referral list \<Rightarrow> (referral_error, referral list) outcome" where
  "assign_referral tenant i who rows =
     (if find_referral tenant i rows = None then Inl ReferralNotFound
      else Inr (update_referral tenant i (\<lambda>r. r\<lparr>rf_assigned := Some who\<rparr>) rows))"

definition add_referral_comment ::
  "string \<Rightarrow> int \<Rightarrow> nat \<Rightarrow> string \<Rightarrow> string \<Rightarrow> referral list \<Rightarrow> (referral_error, referral list) outcome" where
  "add_referral_comment tenant now i who body rows =
     (if trim body = [] then Inl CommentRequired
      else if find_referral tenant i rows = None then Inl ReferralNotFound
      else Inr (update_referral tenant i (\<lambda>r. r\<lparr>rf_comments := rf_comments r
             @ [\<lparr>by_user = Some who, comment_text = trim body, comment_at = now, comment_decision = None\<rparr>]\<rparr>) rows))"

text \<open>What a transaction does with its approval: the check a bind repeats under its locks, and the mark of its use.\<close>

definition approval_available :: "string \<Rightarrow> nat \<Rightarrow> referral list \<Rightarrow> bool" where
  "approval_available tenant i rows =
     (case find_referral tenant i rows of None \<Rightarrow> False
      | Some r \<Rightarrow> rf_status r = RApproved \<and> rf_txn r = None \<and> rf_version r = None)"

definition use_approval :: "string \<Rightarrow> nat \<Rightarrow> string option \<Rightarrow> nat \<Rightarrow> nat \<Rightarrow> referral list \<Rightarrow> referral list" where
  "use_approval tenant i policy txn ver rows =
     update_referral tenant i (\<lambda>r. r\<lparr>rf_policy := (if policy = None then rf_policy r else policy),
       rf_txn := Some txn, rf_version := Some ver\<rparr>) rows"

subsection \<open>Histories\<close>

text \<open>
  The table, the supply of ids, the binds under way that have passed the gate, and the rejected policy
  transactions whose context is still to be recorded after the rollback.
\<close>

record referral_state =
  rs_rows :: "referral list"
  rs_next :: nat
  rs_binds :: "(nat \<times> gate_context) list"
  rs_rejected :: "gate_context list"

text \<open>
  What a history shows: an approval with the snapshot, the reason and whether the underwriter may override
  authority; and a transaction carried out on a referral, with the snapshot of its own proposal and whether
  it exceeds the authority of its actor.
\<close>

datatype referral_event =
    Approval nat jsval string bool
  | Carried nat jsval bool

definition attempt_snapshot :: "(string \<Rightarrow> string) \<Rightarrow> host \<Rightarrow> string \<Rightarrow> gate_context \<Rightarrow> jsval" where
  "attempt_snapshot digest h tenant c = ev_snapshot (gate_evidence digest h tenant (with_override_reason c))"

definition approvals_of :: "referral \<Rightarrow> decision_input \<Rightarrow> referral_event list" where
  "approvals_of r input =
     (if di_decision input = Approve then [Approval (rf_id r) (rf_snapshot r) (trim (di_reason input)) (di_can_override input)]
      else [])"

inductive referral_step ::
  "(string \<Rightarrow> string) \<Rightarrow> host \<Rightarrow> (string \<Rightarrow> string option) \<Rightarrow> string \<Rightarrow> referral_state \<Rightarrow> referral_event list \<Rightarrow> referral_state \<Rightarrow> bool"
  for digest h cast_date tenant
where
  bind_referred: "resolve_referral_gate digest h cast_date tenant now (rs_next s) c (rs_rows s) = Inr (True, r, rows)
    \<Longrightarrow> gc_retained c = None \<Longrightarrow> gc_txn c = None \<Longrightarrow> gc_version c = None
    \<Longrightarrow> referral_step digest h cast_date tenant s [] (s\<lparr>rs_rows := rows, rs_next := Suc (rs_next s)\<rparr>)"
| bind_passes: "resolve_referral_gate digest h cast_date tenant now (rs_next s) c (rs_rows s) = Inr (False, r, rows)
    \<Longrightarrow> gc_retained c = None
    \<Longrightarrow> referral_step digest h cast_date tenant s [] (s\<lparr>rs_binds := (rf_id r, c) # rs_binds s\<rparr>)"
| bind_done: "(i, c) \<in> set (rs_binds s) \<Longrightarrow> approval_available tenant i (rs_rows s)
    \<Longrightarrow> referral_step digest h cast_date tenant s [Carried i (attempt_snapshot digest h tenant c) (gc_override_required c)]
          (s\<lparr>rs_rows := use_approval tenant i policy txn ver (rs_rows s), rs_binds := remove1 (i, c) (rs_binds s)\<rparr>)"
| bind_fails: "referral_step digest h cast_date tenant s [] (s\<lparr>rs_binds := remove1 b (rs_binds s)\<rparr>)"
| policy_passes: "resolve_referral_gate digest h cast_date tenant now (rs_next s) c (rs_rows s) = Inr (False, r, rows)
    \<Longrightarrow> gc_retained c = None
    \<Longrightarrow> referral_step digest h cast_date tenant s [Carried (rf_id r) (attempt_snapshot digest h tenant c) (gc_override_required c)]
          (s\<lparr>rs_rows := use_approval tenant (rf_id r) None txn ver (rs_rows s)\<rparr>)"
| policy_rejected: "resolve_referral_gate digest h cast_date tenant now (rs_next s) c (rs_rows s) = Inr (True, r, rows)
    \<Longrightarrow> gc_retained c = None
    \<Longrightarrow> referral_step digest h cast_date tenant s [] (s\<lparr>rs_rejected := retained_context r # rs_rejected s\<rparr>)"
| rejection_kept: "c \<in> set (rs_rejected s)
    \<Longrightarrow> resolve_referral_gate digest h cast_date tenant now (rs_next s) c (rs_rows s) = Inr (blocked, r, rows)
    \<Longrightarrow> referral_step digest h cast_date tenant s []
          (s\<lparr>rs_rows := rows, rs_next := Suc (rs_next s), rs_rejected := remove1 c (rs_rejected s)\<rparr>)"
| decided: "find_referral tenant i (rs_rows s) = Some r \<Longrightarrow> decide_referral tenant now i input (rs_rows s) = Inr rows
    \<Longrightarrow> referral_step digest h cast_date tenant s (approvals_of r input) (s\<lparr>rs_rows := rows\<rparr>)"
| assigned: "assign_referral tenant i who (rs_rows s) = Inr rows
    \<Longrightarrow> referral_step digest h cast_date tenant s [] (s\<lparr>rs_rows := rows\<rparr>)"
| commented: "add_referral_comment tenant now i who body (rs_rows s) = Inr rows
    \<Longrightarrow> referral_step digest h cast_date tenant s [] (s\<lparr>rs_rows := rows\<rparr>)"

definition no_referrals :: "referral_state \<Rightarrow> bool" where
  "no_referrals s \<longleftrightarrow> rs_rows s = [] \<and> rs_binds s = [] \<and> rs_rejected s = []"

subsection \<open>What holds in every history\<close>

fun carried_ids :: "referral_event list \<Rightarrow> nat list" where
  "carried_ids [] = []"
| "carried_ids (Carried i v over # es) = i # carried_ids es"
| "carried_ids (Approval i v reason ok # es) = carried_ids es"

lemma carried_ids_append [simp]: "carried_ids (xs @ ys) = carried_ids xs @ carried_ids ys"
  by (induction xs rule: carried_ids.induct) simp_all

text \<open>The hash of a row or a retained context is the digest of its snapshot.\<close>

definition sealed :: "(string \<Rightarrow> string) \<Rightarrow> string option \<Rightarrow> jsval \<Rightarrow> bool" where
  "sealed digest hash v \<longleftrightarrow> (case hash of None \<Rightarrow> True | Some x \<Rightarrow> x = digest (canonical_proposal v))"

definition approved_in :: "referral_event list \<Rightarrow> referral \<Rightarrow> bool" where
  "approved_in es r \<longleftrightarrow>
     (\<exists>reason ok. Approval (rf_id r) (rf_snapshot r) reason ok \<in> set es \<and> reason \<noteq> []
        \<and> (list_ex authority_reason (rf_reasons r) \<longrightarrow> ok))"

text \<open>A row that has been approved for the proposal of an attempt.\<close>

definition approves :: "(string \<Rightarrow> string) \<Rightarrow> host \<Rightarrow> string \<Rightarrow> gate_context \<Rightarrow> referral \<Rightarrow> bool" where
  "approves digest h tenant c r \<longleftrightarrow>
     rf_status r = RApproved \<and> rf_hash r = Some (digest (canonical_proposal (attempt_snapshot digest h tenant c)))
     \<and> (gc_override_required c \<longrightarrow> list_ex authority_reason (rf_reasons r))"

definition row_ok :: "(string \<Rightarrow> string) \<Rightarrow> nat \<Rightarrow> referral_event list \<Rightarrow> referral \<Rightarrow> bool" where
  "row_ok digest n es r \<longleftrightarrow>
     rf_id r < n \<and> sealed digest (rf_hash r) (rf_snapshot r) \<and> (rf_status r = RApproved \<longrightarrow> approved_in es r)
     \<and> (rf_id r \<in> set (carried_ids es) \<longrightarrow> rf_txn r \<noteq> None)"

text \<open>Every carried transaction follows an approval of its proposal.\<close>

definition answered :: "(string \<Rightarrow> string) \<Rightarrow> referral_event list \<Rightarrow> referral_event \<Rightarrow> bool" where
  "answered digest es e =
     (case e of Approval _ _ _ _ \<Rightarrow> True
      | Carried i v over \<Rightarrow> \<exists>w reason ok. Approval i w reason ok \<in> set es \<and> reason \<noteq> [] \<and> (over \<longrightarrow> ok)
          \<and> digest (canonical_proposal w) = digest (canonical_proposal v))"

abbreviation all_answered :: "(string \<Rightarrow> string) \<Rightarrow> referral_event list \<Rightarrow> bool" where
  "all_answered digest \<equiv> each_after (answered digest)"

definition history_ok :: "(string \<Rightarrow> string) \<Rightarrow> host \<Rightarrow> string \<Rightarrow> referral_event list \<Rightarrow> referral_state \<Rightarrow> bool" where
  "history_ok digest h tenant es s \<longleftrightarrow>
     distinct (map rf_id (rs_rows s)) \<and> list_all (row_ok digest (rs_next s) es) (rs_rows s)
     \<and> (\<forall>(i, c) \<in> set (rs_binds s). \<exists>r \<in> set (rs_rows s). rf_id r = i \<and> approves digest h tenant c r)
     \<and> (\<forall>c \<in> set (rs_rejected s). case gc_retained c of None \<Rightarrow> False | Some ev \<Rightarrow> sealed digest (ev_hash ev) (ev_snapshot ev))
     \<and> all_answered digest es \<and> distinct (carried_ids es) \<and> set (carried_ids es) \<subseteq> rf_id ` set (rs_rows s)"

lemma ids_update: "(\<And>r. r \<in> set rows \<Longrightarrow> rf_id (f r) = rf_id r) \<Longrightarrow> map rf_id (update_referral tenant i f rows) = map rf_id rows"
  by (simp add: update_referral_def)

lemma same_row: "distinct (map rf_id rows) \<Longrightarrow> a \<in> set rows \<Longrightarrow> b \<in> set rows \<Longrightarrow> rf_id a = rf_id b \<Longrightarrow> a = b"
  by (auto simp: distinct_map dest: inj_onD)

lemma find_referralD: "find_referral tenant i rows = Some r \<Longrightarrow> r \<in> set rows \<and> rf_tenant r = tenant \<and> rf_id r = i"
  unfolding find_referral_def by (auto dest: find_first_Some)

lemma approved_in_more: "approved_in es r \<Longrightarrow> approved_in (es @ fs) r"
  by (auto simp: approved_in_def)

text \<open>A change of one row that keeps its evidence, and does not take back an approval or the mark of its use.\<close>

lemma history_update:
  assumes ok: "history_ok digest h tenant es s"
    and f: "\<And>r. r \<in> set (rs_rows s) \<Longrightarrow> rf_tenant r = tenant \<Longrightarrow> rf_id r = i \<Longrightarrow>
        rf_id (f r) = rf_id r \<and> rf_snapshot (f r) = rf_snapshot r \<and> rf_hash (f r) = rf_hash r \<and> rf_reasons (f r) = rf_reasons r"
    and txn: "\<And>r. r \<in> set (rs_rows s) \<Longrightarrow> rf_tenant r = tenant \<Longrightarrow> rf_id r = i \<Longrightarrow>
        rf_txn r \<noteq> None \<or> carried_ids fs \<noteq> [] \<Longrightarrow> rf_txn (f r) \<noteq> None"
    and status: "\<And>r. r \<in> set (rs_rows s) \<Longrightarrow> rf_tenant r = tenant \<Longrightarrow> rf_id r = i \<Longrightarrow>
        (rf_status r = RApproved \<longrightarrow> rf_status (f r) = RApproved) \<and> (rf_status (f r) = RApproved \<longrightarrow> approved_in (es @ fs) r)"
    and carried: "carried_ids fs = [] \<or> carried_ids fs = [i] \<and> i \<notin> set (carried_ids es)
        \<and> (\<exists>r \<in> set (rs_rows s). rf_id r = i \<and> rf_tenant r = tenant)"
    and answers: "all_answered digest (es @ fs)"
  shows "history_ok digest h tenant (es @ fs) (s\<lparr>rs_rows := update_referral tenant i f (rs_rows s)\<rparr>)"
proof -
  let ?g = "\<lambda>r. if rf_tenant r = tenant \<and> rf_id r = i then f r else r"
  have rows: "update_referral tenant i f (rs_rows s) = map ?g (rs_rows s)" by (simp add: update_referral_def)
  have ids: "rf_id (?g r) = rf_id r" if "r \<in> set (rs_rows s)" for r using f [OF that] by simp
  have dist: "distinct (map rf_id (rs_rows s))" using ok by (simp add: history_ok_def)
  have M: "map rf_id (map ?g (rs_rows s)) = map rf_id (rs_rows s)" unfolding map_map comp_def using ids by (intro map_cong refl)
  then have 1: "distinct (map rf_id (map ?g (rs_rows s)))" using dist by (simp only:)
  have 2: "row_ok digest (rs_next s) (es @ fs) (?g r)" if r: "r \<in> set (rs_rows s)" for r
  proof -
    from ok r have rk: "row_ok digest (rs_next s) es r" by (auto simp: history_ok_def list_all_iff)
    show ?thesis
    proof (cases "rf_tenant r = tenant \<and> rf_id r = i")
      case True
      with f [OF r] txn [OF r] status [OF r] rk carried show ?thesis
        by (auto simp: row_ok_def approved_in_def)
    next
      case False
      have "rf_id r \<notin> set (carried_ids fs)" using carried False same_row [OF dist _ r] by fastforce
      with False rk show ?thesis by (auto simp: row_ok_def intro: approved_in_more)
    qed
  qed
  have 3: "\<exists>q \<in> set (map ?g (rs_rows s)). rf_id q = j \<and> approves digest h tenant c q" if "(j, c) \<in> set (rs_binds s)" for j c
  proof -
    from ok that obtain r where r: "r \<in> set (rs_rows s)" "rf_id r = j" "approves digest h tenant c r"
      by (auto simp: history_ok_def)
    with f [OF r(1)] status [OF r(1)] have "rf_id (?g r) = j \<and> approves digest h tenant c (?g r)"
      by (auto simp: approves_def)
    moreover from r(1) have "?g r \<in> set (map ?g (rs_rows s))" unfolding set_map by (rule imageI)
    ultimately show ?thesis by blast
  qed
  have 4: "set (carried_ids (es @ fs)) \<subseteq> rf_id ` set (map ?g (rs_rows s))"
  proof -
    have "rf_id ` set (map ?g (rs_rows s)) = rf_id ` set (rs_rows s)" using arg_cong [OF M, of set] by (simp only: set_map)
    moreover have "set (carried_ids (es @ fs)) \<subseteq> rf_id ` set (rs_rows s)" using ok carried by (auto simp: history_ok_def)
    ultimately show ?thesis by (simp only:)
  qed
  have 5: "distinct (carried_ids (es @ fs))" using ok carried by (auto simp: history_ok_def)
  have 2: "list_all (row_ok digest (rs_next s) (es @ fs)) (map ?g (rs_rows s))"
    unfolding list_all_iff set_map using 2 by blast
  define rows' where "rows' = map ?g (rs_rows s)"
  have "\<forall>(j, c) \<in> set (rs_binds s). \<exists>q \<in> set rows'. rf_id q = j \<and> approves digest h tenant c q"
    using 3 unfolding rows'_def by blast
  moreover have "\<forall>c \<in> set (rs_rejected s). case gc_retained c of None \<Rightarrow> False | Some ev \<Rightarrow> sealed digest (ev_hash ev) (ev_snapshot ev)"
    using ok by (simp add: history_ok_def)
  ultimately have "history_ok digest h tenant (es @ fs) (s\<lparr>rs_rows := rows'\<rparr>)"
    using 1 2 4 5 answers unfolding rows'_def [symmetric] history_ok_def by simp
  then show ?thesis unfolding rows rows'_def .
qed

subsection \<open>The gate\<close>

lemma latest_of_in: "latest_of rows = Some r \<Longrightarrow> r \<in> set rows"
  unfolding latest_of_def by (auto split: list.splits) (metis list.set_intros(1) set_sort_by)

lemma existing_in: "find_existing_referral tenant c hash rows = Some r \<Longrightarrow> r \<in> set rows \<and> rf_tenant r = tenant"
  unfolding find_existing_referral_def by (auto simp: Let_def split: option.splits dest!: latest_of_in)

lemma evidence_sealed: "sealed digest (ev_hash (referral_proposal_evidence digest h tenant c)) (ev_snapshot (referral_proposal_evidence digest h tenant c))"
  by (simp add: sealed_def referral_proposal_evidence_def Let_def split: option.split)

text \<open>Every answer of the gate: an existing row and the table as it was, or a new open row at its end.\<close>

lemma gate_answer:
  assumes "resolve_referral_gate digest h cast_date tenant now i c rows = Inr (blocked, r, rows')"
  shows "rows' = rows \<and> r \<in> set rows \<and> (blocked \<or> rf_status r = RApproved
        \<and> reusable h (with_override_reason c) (ev_hash (gate_evidence digest h tenant (with_override_reason c))) r \<and> rf_tenant r = tenant)
    \<or> blocked \<and> rows' = rows @ [r] \<and> (\<exists>eff. r = new_referral tenant now i (with_override_reason c)
        (gate_evidence digest h tenant (with_override_reason c)) eff)"
proof -
  define ev where "ev = gate_evidence digest h tenant (with_override_reason c)"
  have fresh: "blocked \<and> rows' = rows @ [r] \<and> (\<exists>eff. r = new_referral tenant now i (with_override_reason c) ev eff)"
    if "outcome_bind (cast_column cast_date (pc_effective (with_override_reason c)))
          (\<lambda>eff. Inr (True, new_referral tenant now i (with_override_reason c) ev eff,
             rows @ [new_referral tenant now i (with_override_reason c) ev eff])) = Inr (blocked, r, rows')"
    using that by auto
  show ?thesis
  proof (cases "find_existing_referral tenant (with_override_reason c) (ev_hash ev) rows")
    case None
    with assms fresh show ?thesis by (simp add: resolve_referral_gate_def Let_def ev_def)
  next
    case (Some q)
    from existing_in [OF this] Some assms fresh show ?thesis
      by (auto simp: resolve_referral_gate_def Let_def ev_def [symmetric] split: if_splits)
  qed
qed

lemma override_reasons: "gc_override_required c \<Longrightarrow> list_ex authority_reason (pc_reasons (with_override_reason c))"
  by (auto simp: with_override_reason_def authority_reason_def)

lemma override_retained [simp]: "gc_retained (with_override_reason c) = gc_retained c"
  by (simp add: with_override_reason_def)

lemma gate_passes:
  assumes "resolve_referral_gate digest h cast_date tenant now i c rows = Inr (False, r, rows')" "gc_retained c = None"
  shows "r \<in> set rows \<and> rf_tenant r = tenant \<and> rf_txn r = None \<and> approves digest h tenant c r"
proof -
  let ?c = "with_override_reason c"
  from gate_answer [OF assms(1)] have r: "r \<in> set rows" "rf_status r = RApproved" "rf_tenant r = tenant"
    "reusable h ?c (ev_hash (gate_evidence digest h tenant ?c)) r" by auto
  then have "rf_hash r = Some (digest (canonical_proposal (attempt_snapshot digest h tenant c)))"
    using evidence_sealed [of digest h tenant ?c] assms(2)
    by (auto simp: reusable_def gate_evidence_def attempt_snapshot_def sealed_def)
  moreover have "gc_override_required c \<longrightarrow> list_ex authority_reason (rf_reasons r)"
    using r(4) override_reasons [of c] by (auto simp: reusable_def list_all_iff list_ex_iff)
  ultimately show ?thesis using r by (simp add: approves_def reusable_def)
qed

lemma gate_evidence_sealed:
  "(case gc_retained c of None \<Rightarrow> True | Some ev \<Rightarrow> sealed digest (ev_hash ev) (ev_snapshot ev))
   \<Longrightarrow> sealed digest (ev_hash (gate_evidence digest h tenant (with_override_reason c)))
         (ev_snapshot (gate_evidence digest h tenant (with_override_reason c)))"
  using evidence_sealed by (simp add: gate_evidence_def split: option.splits)

text \<open>The table after a gate that may have added a row.\<close>

lemma history_gate:
  assumes ok: "history_ok digest h tenant es s"
    and gate: "resolve_referral_gate digest h cast_date tenant now (rs_next s) c (rs_rows s) = Inr (blocked, r, rows)"
    and ev: "case gc_retained c of None \<Rightarrow> True | Some ev \<Rightarrow> sealed digest (ev_hash ev) (ev_snapshot ev)"
  shows "history_ok digest h tenant es (s\<lparr>rs_rows := rows, rs_next := Suc (rs_next s)\<rparr>)"
    and "sealed digest (rf_hash r) (rf_snapshot r)"
proof -
  note seal = gate_evidence_sealed [OF ev]
  have later: "row_ok digest (Suc (rs_next s)) es q" if "q \<in> set (rs_rows s)" for q
    using ok that by (auto simp: history_ok_def list_all_iff row_ok_def)
  from gate_answer [OF gate] consider (same) "rows = rs_rows s" "r \<in> set (rs_rows s)"
    | (new) eff where "rows = rs_rows s @ [r]" "r = new_referral tenant now (rs_next s) (with_override_reason c)
        (gate_evidence digest h tenant (with_override_reason c)) eff" by blast
  then have "history_ok digest h tenant es (s\<lparr>rs_rows := rows, rs_next := Suc (rs_next s)\<rparr>)
    \<and> sealed digest (rf_hash r) (rf_snapshot r)"
  proof cases
    case same
    with ok later show ?thesis by (auto simp: history_ok_def list_all_iff row_ok_def)
  next
    case new
    have id: "rf_id r = rs_next s" "rf_status r = ROpen" "sealed digest (rf_hash r) (rf_snapshot r)"
      using seal by (simp_all add: new(2) new_referral_def)
    have "rs_next s \<notin> rf_id ` set (rs_rows s)" using ok by (auto simp: history_ok_def list_all_iff row_ok_def)
    moreover from this have "row_ok digest (Suc (rs_next s)) es r"
      using ok id by (auto simp: row_ok_def history_ok_def)
    moreover have "distinct (map rf_id (rs_rows s @ [r]))" using ok id(1) calculation(1) by (simp add: history_ok_def)
    moreover have "\<forall>(i, c) \<in> set (rs_binds s). \<exists>q \<in> set (rs_rows s @ [r]). rf_id q = i \<and> approves digest h tenant c q"
      using ok by (auto simp: history_ok_def)
    ultimately show ?thesis using ok later id(3) unfolding new(1) history_ok_def by (simp add: list_all_iff) blast
  qed
  then show "history_ok digest h tenant es (s\<lparr>rs_rows := rows, rs_next := Suc (rs_next s)\<rparr>)"
    "sealed digest (rf_hash r) (rf_snapshot r)" by blast+
qed

text \<open>The use of an approval that an attempt was given.\<close>

lemma history_carried:
  assumes ok: "history_ok digest h tenant es s"
    and r: "r \<in> set (rs_rows s)" "rf_tenant r = tenant" "rf_txn r = None" "approves digest h tenant c r"
  shows "history_ok digest h tenant (es @ [Carried (rf_id r) (attempt_snapshot digest h tenant c) (gc_override_required c)])
    (s\<lparr>rs_rows := use_approval tenant (rf_id r) policy txn ver (rs_rows s)\<rparr>)"
  unfolding use_approval_def
proof (rule history_update [OF ok])
  let ?e = "Carried (rf_id r) (attempt_snapshot digest h tenant c) (gc_override_required c)"
  from ok r(1) have rk: "row_ok digest (rs_next s) es r" by (auto simp: history_ok_def list_all_iff)
  show "carried_ids [?e] = [] \<or> carried_ids [?e] = [rf_id r] \<and> rf_id r \<notin> set (carried_ids es)
      \<and> (\<exists>q \<in> set (rs_rows s). rf_id q = rf_id r \<and> rf_tenant q = tenant)"
    using rk r by (auto simp: row_ok_def)
  from rk r(4) obtain reason allowed where "Approval (rf_id r) (rf_snapshot r) reason allowed \<in> set es" "reason \<noteq> []"
    "gc_override_required c \<longrightarrow> allowed"
    by (auto simp: row_ok_def approves_def approved_in_def)
  moreover have "digest (canonical_proposal (rf_snapshot r)) = digest (canonical_proposal (attempt_snapshot digest h tenant c))"
    using rk r(4) by (simp add: row_ok_def approves_def sealed_def)
  ultimately have "answered digest es ?e" unfolding answered_def by auto
  then show "all_answered digest (es @ [?e])" using ok by (intro each_after_snoc) (simp_all add: history_ok_def)
  fix q
  assume "q \<in> set (rs_rows s)" "rf_id q = rf_id r"
  then have "row_ok digest (rs_next s) es q" using ok by (auto simp: history_ok_def list_all_iff)
  then show "(rf_status q = RApproved \<longrightarrow> rf_status (q\<lparr>rf_policy := if policy = None then rf_policy q else policy,
      rf_txn := Some txn, rf_version := Some ver\<rparr>) = RApproved)
    \<and> (rf_status (q\<lparr>rf_policy := if policy = None then rf_policy q else policy, rf_txn := Some txn, rf_version := Some ver\<rparr>) = RApproved
        \<longrightarrow> approved_in (es @ [?e]) q)"
    by (simp add: row_ok_def approved_in_more)
qed simp_all

text \<open>A decision.\<close>

lemma history_decided:
  assumes ok: "history_ok digest h tenant es s" and r: "find_referral tenant i (rs_rows s) = Some r"
    and dec: "decide_referral tenant now i input (rs_rows s) = Inr rows"
  shows "history_ok digest h tenant (es @ approvals_of r input) (s\<lparr>rs_rows := rows\<rparr>)"
proof -
  from find_referralD [OF r] have r': "r \<in> set (rs_rows s)" "rf_tenant r = tenant" "rf_id r = i" by simp_all
  have rows: "rows = update_referral tenant i (record_decision now input) (rs_rows s)" "rf_status r \<noteq> RApproved"
    "di_decision input = Approve \<Longrightarrow> trim (di_reason input) \<noteq> [] \<and> (list_ex authority_reason (rf_reasons r) \<longrightarrow> di_can_override input)"
    using dec r by (auto simp: decide_referral_def Let_def split: if_splits)
  have "all_answered digest (es @ approvals_of r input)"
    using ok by (auto simp: approvals_of_def history_ok_def answered_def intro: each_after_snoc)
  moreover have "carried_ids (approvals_of r input) = []" by (simp add: approvals_of_def)
  moreover have one: "q = r" if "q \<in> set (rs_rows s)" "rf_id q = i" for q
    using same_row [OF _ that(1) r'(1)] that(2) r'(3) ok by (simp add: history_ok_def)
  moreover have "approved_in (es @ approvals_of r input) r" if "di_decision input = Approve"
    using rows(3) [OF that] that by (auto simp: approved_in_def approvals_of_def)
  moreover have "di_decision input = Approve" if "decided_status (di_decision input) = RApproved"
    using that by (cases "di_decision input") simp_all
  ultimately show ?thesis unfolding rows(1) using rows(2)
    by (intro history_update [OF ok]) (auto simp: record_decision_def)
qed

lemma history_touched:
  assumes "history_ok digest h tenant es s"
    and "\<And>r. rf_id (f r) = rf_id r \<and> rf_snapshot (f r) = rf_snapshot r \<and> rf_hash (f r) = rf_hash r \<and> rf_reasons (f r) = rf_reasons r
        \<and> rf_txn (f r) = rf_txn r \<and> rf_status (f r) = rf_status r"
  shows "history_ok digest h tenant es (s\<lparr>rs_rows := update_referral tenant i f (rs_rows s)\<rparr>)"
proof -
  have "approved_in es r" if "r \<in> set (rs_rows s)" "rf_status r = RApproved" for r
    using assms(1) that by (auto simp: history_ok_def list_all_iff row_ok_def)
  then have "history_ok digest h tenant (es @ []) (s\<lparr>rs_rows := update_referral tenant i f (rs_rows s)\<rparr>)"
    using assms by (intro history_update [OF assms(1)]) (auto simp: history_ok_def)
  then show ?thesis by simp
qed

lemma history_rest:
  assumes "history_ok digest h tenant es s"
    and "\<forall>(i, c) \<in> set binds. (i, c) \<in> set (rs_binds s) \<or> (\<exists>r \<in> set (rs_rows s). rf_id r = i \<and> approves digest h tenant c r)"
    and "\<forall>c \<in> set rejected. c \<in> set (rs_rejected s)
      \<or> (case gc_retained c of None \<Rightarrow> False | Some ev \<Rightarrow> sealed digest (ev_hash ev) (ev_snapshot ev))"
  shows "history_ok digest h tenant es (s\<lparr>rs_binds := binds, rs_rejected := rejected\<rparr>)"
  using assms unfolding history_ok_def by fastforce

lemma history_step:
  assumes "referral_step digest h cast_date tenant s fs s'" "history_ok digest h tenant es s"
  shows "history_ok digest h tenant (es @ fs) s'"
  using assms(1)
proof cases
  case (bind_referred now c r rows)
  with history_gate(1) [OF assms(2) bind_referred(3)] show ?thesis by simp
next
  case (bind_passes now c r rows)
  have "history_ok digest h tenant es (s\<lparr>rs_binds := (rf_id r, c) # rs_binds s, rs_rejected := rs_rejected s\<rparr>)"
    using gate_passes [OF bind_passes(3,4)] by (intro history_rest [OF assms(2)]) auto
  then show ?thesis by (simp add: bind_passes)
next
  case (bind_done i c policy txn ver)
  from assms(2) bind_done(3) obtain q where q: "q \<in> set (rs_rows s)" "rf_id q = i" "approves digest h tenant c q"
    by (auto simp: history_ok_def)
  from bind_done(4) obtain r where r: "find_referral tenant i (rs_rows s) = Some r" "rf_txn r = None"
    by (auto simp: approval_available_def split: option.splits)
  with find_referralD [OF r(1)] q same_row [of "rs_rows s" q r] assms(2) have "q = r" by (simp add: history_ok_def)
  with history_carried [OF assms(2) q(1) _ _ q(3), of policy txn ver] r find_referralD [OF r(1)] q(2)
  have *: "history_ok digest h tenant (es @ [Carried i (attempt_snapshot digest h tenant c) (gc_override_required c)])
      (s\<lparr>rs_rows := use_approval tenant i policy txn ver (rs_rows s)\<rparr>)" by simp
  have "history_ok digest h tenant (es @ [Carried i (attempt_snapshot digest h tenant c) (gc_override_required c)])
      (s\<lparr>rs_rows := use_approval tenant i policy txn ver (rs_rows s), rs_binds := remove1 (i, c) (rs_binds s), rs_rejected := rs_rejected s\<rparr>)"
    using history_rest [OF *, of "remove1 (i, c) (rs_binds s)" "rs_rejected s"] set_remove1_subset [of "(i, c)" "rs_binds s"] by fastforce
  then show ?thesis by (simp add: bind_done)
next
  case (bind_fails b)
  have "history_ok digest h tenant es (s\<lparr>rs_binds := remove1 b (rs_binds s), rs_rejected := rs_rejected s\<rparr>)"
    by (intro history_rest [OF assms(2)]) (auto dest: notin_set_remove1)
  then show ?thesis by (simp add: bind_fails)
next
  case (policy_passes now c r rows txn ver)
  from gate_passes [OF policy_passes(3,4)] history_carried [OF assms(2), of r c None txn ver] policy_passes(1,2)
  show ?thesis by simp
next
  case (policy_rejected now c r rows)
  from history_gate(2) [OF assms(2) policy_rejected(3)] policy_rejected(4)
  have "history_ok digest h tenant es (s\<lparr>rs_binds := rs_binds s, rs_rejected := retained_context r # rs_rejected s\<rparr>)"
    by (intro history_rest [OF assms(2)]) (auto simp: retained_context_def)
  then show ?thesis by (simp add: policy_rejected)
next
  case (rejection_kept c now blocked r rows)
  from rejection_kept(3) assms(2) have "case gc_retained c of None \<Rightarrow> True | Some ev \<Rightarrow> sealed digest (ev_hash ev) (ev_snapshot ev)"
    by (fastforce simp: history_ok_def split: option.splits)
  from history_gate(1) [OF assms(2) rejection_kept(4) this]
  have *: "history_ok digest h tenant es (s\<lparr>rs_rows := rows, rs_next := Suc (rs_next s)\<rparr>)" .
  have "history_ok digest h tenant es (s\<lparr>rs_rows := rows, rs_next := Suc (rs_next s), rs_binds := rs_binds s, rs_rejected := remove1 c (rs_rejected s)\<rparr>)"
    using history_rest [OF *, of "rs_binds s" "remove1 c (rs_rejected s)"] set_remove1_subset [of c "rs_rejected s"] by fastforce
  then show ?thesis by (simp add: rejection_kept)
next
  case (decided i r now input rows)
  with history_decided [OF assms(2) decided(3,4)] show ?thesis by simp
next
  case (assigned i who rows)
  then show ?thesis using history_touched [OF assms(2), of "\<lambda>r. r\<lparr>rf_assigned := Some who\<rparr>" i]
    by (auto simp: assign_referral_def split: if_splits)
next
  case (commented now i who body rows)
  then show ?thesis using history_touched [OF assms(2), of "\<lambda>r. r\<lparr>rf_comments := rf_comments r
      @ [\<lparr>by_user = Some who, comment_text = trim body, comment_at = now, comment_decision = None\<rparr>]\<rparr>" i]
    by (auto simp: add_referral_comment_def split: if_splits)
qed

interpretation referrals: history_invariant "referral_step digest h cast_date tenant" "history_ok digest h tenant"
  for digest h cast_date tenant
  by unfold_locales (rule history_step)

text \<open>C11: every transaction that needed a referral and was carried out follows the approval, by an underwriter who
  gave a reason, of exactly the proposal it carries out (the same canonical form), by one who may override
  authority where the transaction exceeds the actor's; and no approval carries two transactions. This holds
  in every history of attempts, rejections, decisions and binds, given that SHA-256 keeps proposals apart.\<close>

theorem referred_work_was_approved:
  assumes "trace (referral_step digest h cast_date tenant) s0 es s" "no_referrals s0" "inj digest"
    and "es = before @ Carried i v over # after"
  shows "(\<exists>w reason allowed. Approval i w reason allowed \<in> set before \<and> form_of w = form_of v \<and> reason \<noteq> [] \<and> (over \<longrightarrow> allowed))
    \<and> i \<notin> set (carried_ids (before @ after))"
proof -
  have "history_ok digest h tenant [] s0" using assms(2) by (simp add: history_ok_def no_referrals_def)
  from referrals.ok_trace [OF assms(1) this] have "all_answered digest es" "distinct (carried_ids es)" by (simp_all add: history_ok_def)
  with assms(4) have a: "answered digest before (Carried i v over)" and "i \<notin> set (carried_ids (before @ after))"
    by (auto dest: each_afterD)
  moreover from a obtain w reason allowed where "Approval i w reason allowed \<in> set before" "reason \<noteq> []" "over \<longrightarrow> allowed"
    "digest (canonical_proposal w) = digest (canonical_proposal v)" by (auto simp: answered_def)
  moreover from this(4) assms(3) have "form_of w = form_of v" by (simp add: inj_eq canonical_text_inj)
  ultimately show ?thesis by blast
qed

subsection \<open>An example\<close>

definition quiet_host :: host where
  "quiet_host = \<lparr>today_str = ''2026-01-15'', date_parse = (\<lambda>_. None), local_ymd = (\<lambda>_. (2026, 1, 15))\<rparr>"

definition example_attempt :: gate_context where
  "example_attempt =
     \<lparr>pc_quote = Some ''q'', pc_policy = None, pc_type = ''NewBusiness'', pc_product = None, pc_agency = None,
      pc_insured = None, pc_effective = None, pc_reasons = [''AUTHORITY_LIMIT''],
      pc_proposal = Some \<lparr>p_payload = JObj [(''token'', JStr ''x'')], p_premium = JNull, p_base = JNull,
        p_underwriting = JNull, p_authority = JNull\<rparr>,
      gc_txn = None, gc_version = None, gc_override_required = True, gc_created_by = None, gc_retained = None\<rparr>"

definition example_decision :: decision_input where
  "example_decision = \<lparr>di_decision = Approve, di_reason = ''fine'', di_by = Some ''u'', di_underwriter = True, di_can_override = True\<rparr>"

definition example_start :: referral_state where
  "example_start = \<lparr>rs_rows = [], rs_next = 0, rs_binds = [], rs_rejected = []\<rparr>"

definition example_open :: referral where
  "example_open = new_referral ''t'' 5 0 example_attempt (referral_proposal_evidence (\<lambda>x. x) quiet_host ''t'' example_attempt) None"

definition example_approved :: referral where
  "example_approved = record_decision 6 example_decision example_open"

abbreviation example_step :: "referral_state \<Rightarrow> referral_event list \<Rightarrow> referral_state \<Rightarrow> bool" where
  "example_step \<equiv> referral_step (\<lambda>x. x) quiet_host Some ''t''"

definition example_events :: "referral_event list" where
  "example_events = [Carried 0 (attempt_snapshot (\<lambda>x. x) quiet_host ''t'' example_attempt) True]"

lemma example_referral_history:
  "\<exists>s. trace example_step example_start ([Approval 0 (rf_snapshot example_open) ''fine'' True] @ example_events) s"
proof -
  let ?gate = "resolve_referral_gate (\<lambda>x. x) quiet_host Some ''t''"
  have start: "?gate 5 (rs_next example_start) example_attempt (rs_rows example_start) = Inr (True, example_open, [example_open])"
    by code_simp
  have none: "gc_retained example_attempt = None" "gc_txn example_attempt = None" "gc_version example_attempt = None"
    "gc_override_required example_attempt" by code_simp+
  define s1 where "s1 = example_start\<lparr>rs_rows := [example_open], rs_next := Suc (rs_next example_start)\<rparr>"
  define s2 where "s2 = s1\<lparr>rs_rows := [example_approved]\<rparr>"
  define s3 where "s3 = s2\<lparr>rs_binds := (rf_id example_approved, example_attempt) # rs_binds s2\<rparr>"
  have 1: "example_step example_start [] s1" unfolding s1_def by (rule bind_referred [OF start none(1-3)])
  have "find_referral ''t'' 0 [example_open] = Some example_open"
    "decide_referral ''t'' 6 0 example_decision [example_open] = Inr [example_approved]" by code_simp+
  then have "example_step s1 (approvals_of example_open example_decision) s2"
    unfolding s2_def by (intro decided) (simp_all add: s1_def)
  moreover have "approvals_of example_open example_decision = [Approval 0 (rf_snapshot example_open) ''fine'' True]" by code_simp
  ultimately have 2: "example_step s1 [Approval 0 (rf_snapshot example_open) ''fine'' True] s2" by simp
  have "?gate 7 (rs_next s2) example_attempt (rs_rows s2) = Inr (False, example_approved, [example_approved])"
    unfolding s2_def s1_def by code_simp
  from bind_passes [OF this none(1)] have 3: "example_step s2 [] s3" by (simp add: s3_def)
  have id: "rf_id example_approved = 0" and av: "approval_available ''t'' 0 [example_approved]" by code_simp+
  have "(0, example_attempt) \<in> set (rs_binds s3)" by (simp add: s3_def id)
  moreover have "approval_available ''t'' 0 (rs_rows s3)" using av by (simp add: s3_def s2_def)
  ultimately obtain s4 where 4: "example_step s3 example_events s4"
    using bind_done [of 0 example_attempt s3 "''t''" "\<lambda>x. x" quiet_host Some] none(4) by (auto simp: example_events_def)
  note traces = 1 [THEN trace_single [where step = example_step]] 2 [THEN trace_single [where step = example_step]]
    3 [THEN trace_single [where step = example_step]] 4 [THEN trace_single [where step = example_step]]
  from trace_append [OF traces(1) trace_append [OF traces(2) trace_append [OF traces(3,4)]]] show ?thesis by auto
qed

theorem referred_work_was_approved_witness:
  "0 \<notin> set (carried_ids ([Approval 0 (rf_snapshot example_open) ''fine'' True] @ []))
   \<and> form_of (rf_snapshot example_open) = form_of (attempt_snapshot (\<lambda>x. x) quiet_host ''t'' example_attempt)"
proof -
  from example_referral_history obtain s where t: "trace example_step example_start
      ([Approval 0 (rf_snapshot example_open) ''fine'' True] @ example_events) s" by blast
  have "no_referrals example_start" by code_simp
  moreover have "inj (\<lambda>x :: string. x)" by simp
  ultimately show ?thesis
    using referred_work_was_approved [OF t, of "[Approval 0 (rf_snapshot example_open) ''fine'' True]" 0
      "attempt_snapshot (\<lambda>x. x) quiet_host ''t'' example_attempt" True "[]"] by (auto simp: example_events_def)
qed

end
