(* ===== verification/CommercialPlacement.thy ===== *)
theory CommercialPlacement
  imports JsValue Traces
begin

text \<open>
  Commercial placements, \<open>server/src/services/placement.service.ts\<close>: the workflow of a subscription placement, the
  markets that subscribe to it, its subjectivities and its documents. The tables are lists of rows. An
  operation that first reads and then writes is defined as these two parts, since nothing locks the row between
  them: other requests can come between. The column \<open>subscription_percent\<close> is \<open>numeric(5, 2)\<close>: what the database
  makes of a number is the argument \<open>hundredths\<close> (\<open>None\<close> when it overflows or breaks the check of the column).
\<close>

datatype placement_status = Submission | Indication | PQuoted | BindOrder | PBound | PIssued | PDeclined | PWithdrawn

datatype subjectivity_status = SOpen | Satisfied | Waived

datatype placement_error =
    InsuredNameRequired
  | PlacementNotFound
  | MarketNameRequired
  | InvalidSubscriptionPercent
  | Oversubscribed
  | SubjectivityDescriptionRequired
  | InvalidSubjectivityStatus
  | SubjectivityNotFound
  | DocumentNameRequired
  | InvalidTransition placement_status placement_status
  | ColumnRejected

fun ALLOWED_TRANSITIONS :: "placement_status \<Rightarrow> placement_status list" where
  "ALLOWED_TRANSITIONS Submission = [Indication, PDeclined, PWithdrawn]"
| "ALLOWED_TRANSITIONS Indication = [PQuoted, PDeclined, PWithdrawn]"
| "ALLOWED_TRANSITIONS PQuoted = [BindOrder, PDeclined, PWithdrawn]"
| "ALLOWED_TRANSITIONS BindOrder = [PBound, PDeclined, PWithdrawn]"
| "ALLOWED_TRANSITIONS PBound = [PIssued]"
| "ALLOWED_TRANSITIONS PIssued = []"
| "ALLOWED_TRANSITIONS PDeclined = []"
| "ALLOWED_TRANSITIONS PWithdrawn = []"

record history_entry =
  he_from :: "placement_status option"
  he_to :: placement_status
  he_at :: int
  he_by :: "string option"
  he_reason :: "string option"

record document_entry =
  de_id :: "string option"
  de_name :: string
  de_uri :: "string option"
  de_by :: "string option"
  de_at :: int

record commercial_placement =
  cp_id :: nat
  cp_tenant :: string
  cp_quote :: "string option"
  cp_policy :: "string option"
  cp_product :: "string option"
  cp_insured :: string
  cp_effective :: "string option"
  cp_facility :: "string option"
  cp_status :: placement_status
  cp_terms :: "string list"
  cp_documents :: "document_entry list"
  cp_history :: "history_entry list"
  cp_by :: "string option"
  cp_created :: int
  cp_updated :: int

record market_participant =
  mp_id :: nat
  mp_tenant :: string
  mp_placement :: nat
  mp_market :: string
  mp_role :: string
  mp_percent :: rat
  mp_security :: string
  mp_broker :: "string option"
  mp_created :: int

record subjectivity =
  sj_id :: nat
  sj_tenant :: string
  sj_placement :: nat
  sj_description :: string
  sj_status :: subjectivity_status
  sj_due :: "string option"
  sj_by :: "string option"
  sj_at :: "int option"
  sj_created :: int

record placement_db =
  pd_placements :: "commercial_placement list"
  pd_markets :: "market_participant list"
  pd_subjectivities :: "subjectivity list"
  pd_next :: nat

definition text_or_null :: "string option \<Rightarrow> string option" where
  "text_or_null v = (if v = Some [] then None else v)"

record create_input =
  ci_quote :: "string option"
  ci_product :: "string option"
  ci_insured :: string
  ci_effective :: "string option"
  ci_facility :: "string option"
  ci_terms :: "string list"
  ci_by :: "string option"

definition create_placement ::
  "string \<Rightarrow> int \<Rightarrow> create_input \<Rightarrow> placement_db \<Rightarrow> (placement_error, placement_db) outcome" where
  "create_placement tenant now input db =
     (let insured = trim (ci_insured input)
      in if insured = [] then Inl InsuredNameRequired
         else Inr (db\<lparr>pd_placements := pd_placements db
           @ [\<lparr>cp_id = pd_next db, cp_tenant = tenant, cp_quote = text_or_null (ci_quote input), cp_policy = None,
               cp_product = text_or_null (ci_product input), cp_insured = insured,
               cp_effective = text_or_null (ci_effective input), cp_facility = text_or_null (ci_facility input),
               cp_status = Submission, cp_terms = ci_terms input, cp_documents = [],
               cp_history = [\<lparr>he_from = None, he_to = Submission, he_at = now, he_by = text_or_null (ci_by input), he_reason = None\<rparr>],
               cp_by = text_or_null (ci_by input), cp_created = now, cp_updated = now\<rparr>],
             pd_next := Suc (pd_next db)\<rparr>))"

definition find_placement :: "string \<Rightarrow> nat \<Rightarrow> placement_db \<Rightarrow> commercial_placement option" where
  "find_placement tenant i db = find_first (\<lambda>p. cp_tenant p = tenant \<and> cp_id p = i) (pd_placements db)"

definition update_placement ::
  "string \<Rightarrow> nat \<Rightarrow> (commercial_placement \<Rightarrow> commercial_placement) \<Rightarrow> placement_db \<Rightarrow> placement_db" where
  "update_placement tenant i f db =
     db\<lparr>pd_placements := map (\<lambda>p. if cp_tenant p = tenant \<and> cp_id p = i then f p else p) (pd_placements db)\<rparr>"

definition markets_of :: "string \<Rightarrow> nat \<Rightarrow> placement_db \<Rightarrow> market_participant list" where
  "markets_of tenant i db = filter (\<lambda>m. mp_tenant m = tenant \<and> mp_placement m = i) (pd_markets db)"

definition subjectivities_of :: "string \<Rightarrow> nat \<Rightarrow> placement_db \<Rightarrow> subjectivity list" where
  "subjectivities_of tenant i db = filter (\<lambda>s. sj_tenant s = tenant \<and> sj_placement s = i) (pd_subjectivities db)"

definition get_placement ::
  "string \<Rightarrow> nat \<Rightarrow> placement_db
   \<Rightarrow> (placement_error, commercial_placement \<times> market_participant list \<times> subjectivity list) outcome" where
  "get_placement tenant i db =
     (case find_placement tenant i db of
        None \<Rightarrow> Inl PlacementNotFound
      | Some p \<Rightarrow> Inr (p, sort_by (\<lambda>a b. mp_created a - mp_created b) (markets_of tenant i db),
                       sort_by (\<lambda>a b. sj_created a - sj_created b) (subjectivities_of tenant i db)))"

definition page_size_of :: "int \<Rightarrow> nat" where
  "page_size_of n = nat (max 1 (min 100 n))"

definition list_placements ::
  "string \<Rightarrow> placement_status option \<Rightarrow> int \<Rightarrow> int \<Rightarrow> placement_db \<Rightarrow> commercial_placement list \<times> nat" where
  "list_placements tenant status page page_size db =
     (let rows = sort_by (\<lambda>a b. cp_created b - cp_created a)
            (filter (\<lambda>p. cp_tenant p = tenant \<and> (status = None \<or> status = Some (cp_status p))) (pd_placements db));
          n = page_size_of page_size
      in (take n (drop (nat (max 1 page - 1) * n) rows), length rows))"

subsection \<open>Markets\<close>

record market_input =
  mi_market :: string
  mi_role :: "string option"
  mi_percent :: jsval
  mi_security :: "string option"
  mi_broker :: "string option"

text \<open>The part of \<open>addMarketParticipant\<close> that reads: the share and the checks against the sum of the rows so far.\<close>

definition subscribed :: "string \<Rightarrow> nat \<Rightarrow> placement_db \<Rightarrow> rat" where
  "subscribed tenant i db = sum_list (map mp_percent (markets_of tenant i db))"

definition check_market :: "string \<Rightarrow> nat \<Rightarrow> market_input \<Rightarrow> placement_db \<Rightarrow> (placement_error, rat) outcome" where
  "check_market tenant i input db =
     (if find_placement tenant i db = None then Inl PlacementNotFound
      else if trim (mi_market input) = [] then Inl MarketNameRequired
      else case to_num (mi_percent input) of
             Fin share \<Rightarrow>
               if share \<le> 0 \<or> 100 < share then Inl InvalidSubscriptionPercent
               else if jlt (fl (1000001 / 10000)) (jadd (fl (subscribed tenant i db)) (Fin share)) then Inl Oversubscribed
               else Inr share
           | _ \<Rightarrow> Inl InvalidSubscriptionPercent)"

definition or_text :: "string option \<Rightarrow> string \<Rightarrow> string" where
  "or_text v d = (case v of None \<Rightarrow> d | Some s \<Rightarrow> if s = [] then d else s)"

text \<open>The part that writes.\<close>

definition insert_market ::
  "(rat \<Rightarrow> rat option) \<Rightarrow> string \<Rightarrow> int \<Rightarrow> nat \<Rightarrow> market_input \<Rightarrow> rat \<Rightarrow> placement_db
   \<Rightarrow> (placement_error, placement_db) outcome" where
  "insert_market hundredths tenant now i input share db =
     (let role = or_text (mi_role input) ''Following''; security = or_text (mi_security input) ''Provisional''
      in if role \<notin> {''Lead'', ''Following''} \<or> security \<notin> {''Provisional'', ''Confirmed'', ''Withdrawn''} then Inl ColumnRejected
         else case hundredths share of
           None \<Rightarrow> Inl ColumnRejected
         | Some pct \<Rightarrow>
             if pct \<le> 0 \<or> 100 < pct then Inl ColumnRejected
             else Inr (db\<lparr>pd_markets := pd_markets db
                 @ [\<lparr>mp_id = pd_next db, mp_tenant = tenant, mp_placement = i, mp_market = trim (mi_market input),
                     mp_role = role, mp_percent = pct, mp_security = security, mp_broker = text_or_null (mi_broker input),
                     mp_created = now\<rparr>],
               pd_next := Suc (pd_next db)\<rparr>))"

definition add_market_participant ::
  "(rat \<Rightarrow> rat option) \<Rightarrow> string \<Rightarrow> int \<Rightarrow> nat \<Rightarrow> market_input \<Rightarrow> placement_db \<Rightarrow> (placement_error, placement_db) outcome" where
  "add_market_participant hundredths tenant now i input db =
     outcome_bind (check_market tenant i input db) (\<lambda>share. insert_market hundredths tenant now i input share db)"

subsection \<open>Subjectivities and documents\<close>

definition add_subjectivity ::
  "string \<Rightarrow> int \<Rightarrow> nat \<Rightarrow> string \<Rightarrow> string option \<Rightarrow> placement_db \<Rightarrow> (placement_error, placement_db) outcome" where
  "add_subjectivity tenant now i description due db =
     (if find_placement tenant i db = None then Inl PlacementNotFound
      else if trim description = [] then Inl SubjectivityDescriptionRequired
      else Inr (db\<lparr>pd_subjectivities := pd_subjectivities db
        @ [\<lparr>sj_id = pd_next db, sj_tenant = tenant, sj_placement = i, sj_description = trim description,
            sj_status = SOpen, sj_due = text_or_null due, sj_by = None, sj_at = None, sj_created = now\<rparr>],
          pd_next := Suc (pd_next db)\<rparr>))"

definition resolves :: "string \<Rightarrow> nat \<Rightarrow> nat \<Rightarrow> subjectivity \<Rightarrow> bool" where
  "resolves tenant i j s \<longleftrightarrow> sj_tenant s = tenant \<and> sj_placement s = i \<and> sj_id s = j \<and> sj_status s = SOpen"

definition resolve_subjectivity ::
  "string \<Rightarrow> int \<Rightarrow> nat \<Rightarrow> nat \<Rightarrow> subjectivity_status \<Rightarrow> string option \<Rightarrow> placement_db \<Rightarrow> (placement_error, placement_db) outcome" where
  "resolve_subjectivity tenant now i j status who db =
     (if status \<noteq> Satisfied \<and> status \<noteq> Waived then Inl InvalidSubjectivityStatus
      else if \<not> list_ex (resolves tenant i j) (pd_subjectivities db) then Inl SubjectivityNotFound
      else Inr (db\<lparr>pd_subjectivities := map (\<lambda>s. if resolves tenant i j s
             then s\<lparr>sj_status := status, sj_by := text_or_null who, sj_at := Some now\<rparr> else s) (pd_subjectivities db)\<rparr>))"

definition add_placement_document ::
  "string \<Rightarrow> int \<Rightarrow> nat \<Rightarrow> string option \<Rightarrow> string \<Rightarrow> string option \<Rightarrow> string option \<Rightarrow> placement_db
   \<Rightarrow> (placement_error, placement_db) outcome" where
  "add_placement_document tenant now i doc name uri who db =
     (if trim name = [] then Inl DocumentNameRequired
      else if find_placement tenant i db = None then Inl PlacementNotFound
      else Inr (update_placement tenant i (\<lambda>p. p\<lparr>cp_documents := cp_documents p
             @ [\<lparr>de_id = text_or_null doc, de_name = trim name, de_uri = text_or_null uri, de_by = text_or_null who, de_at = now\<rparr>],
           cp_updated := now\<rparr>) db))"

subsection \<open>The workflow\<close>

record transition_input =
  ti_to :: placement_status
  ti_reason :: "string option"
  ti_by :: "string option"
  ti_policy :: "string option"

text \<open>The part of \<open>transitionPlacementStatus\<close> that reads, with the status it has seen.\<close>

definition check_transition :: "string \<Rightarrow> nat \<Rightarrow> transition_input \<Rightarrow> placement_db \<Rightarrow> (placement_error, placement_status) outcome" where
  "check_transition tenant i input db =
     (case find_placement tenant i db of
        None \<Rightarrow> Inl PlacementNotFound
      | Some p \<Rightarrow>
          if ti_to input \<notin> set (ALLOWED_TRANSITIONS (cp_status p)) then Inl (InvalidTransition (cp_status p) (ti_to input))
          else Inr (cp_status p))"

text \<open>The part that writes: no condition on the status.\<close>

definition write_transition :: "string \<Rightarrow> int \<Rightarrow> nat \<Rightarrow> transition_input \<Rightarrow> placement_status \<Rightarrow> placement_db \<Rightarrow> placement_db" where
  "write_transition tenant now i input seen =
     (let policy = (if ti_to input = PBound then text_or_null (ti_policy input) else None)
      in update_placement tenant i (\<lambda>p. p\<lparr>cp_status := ti_to input,
           cp_history := cp_history p @ [\<lparr>he_from = Some seen, he_to = ti_to input, he_at = now,
             he_by = text_or_null (ti_by input), he_reason = text_or_null (ti_reason input)\<rparr>],
           cp_updated := now, cp_policy := (if policy = None then cp_policy p else policy)\<rparr>))"

definition transition_placement_status ::
  "string \<Rightarrow> int \<Rightarrow> nat \<Rightarrow> transition_input \<Rightarrow> placement_db \<Rightarrow> (placement_error, placement_db) outcome" where
  "transition_placement_status tenant now i input db =
     outcome_bind (check_transition tenant i input db) (\<lambda>seen. Inr (write_transition tenant now i input seen db))"

subsection \<open>Room for a share\<close>

lemma fl_dyadic: "0 < m \<Longrightarrow> m < 2 ^ 53 \<Longrightarrow> fl (of_int m / 4096) = Fin (of_int m / 4096)"
proof -
  assume m: "0 < m" "m < 2 ^ 53"
  have q: "(of_int m / 4096 :: rat) = of_int m * exp2 (- 12)" by (simp add: exp2_def)
  have "(of_int m :: rat) < of_int (2 ^ 53)" using m(2) by (simp only: of_int_less_iff)
  then have "(of_int m / 4096 :: rat) < 2 ^ 1024" by simp
  moreover have "round53 (of_int m / 4096) = of_int m / 4096" using q m by (rule round53_exact) simp
  ultimately show ?thesis using m(1) by (intro round53_lt_overflow) simp_all
qed

text \<open>
  What \<open>numeric(5, 2)\<close> makes of a number: whole hundredths, the nearest ones to the decimal digits that are
  sent, which differ from the number by less than a ten-thousandth.
\<close>

definition casts_hundredths :: "(rat \<Rightarrow> rat option) \<Rightarrow> bool" where
  "casts_hundredths f \<longleftrightarrow> (\<forall>x q. f x = Some q \<longrightarrow> (\<exists>k. q = of_int k / 100) \<and> \<bar>q - x\<bar> \<le> 51 / 10000)"

lemma share_fits:
  assumes S: "S = of_int k / 100" "0 \<le> S" "S \<le> 100" and q: "q = of_int m / 100" "\<bar>q - x\<bar> \<le> 51 / 10000" "x \<le> 100"
    and room: "\<not> jlt (fl (1000001 / 10000)) (jadd (fl S) (Fin x))"
  shows "S + q \<le> 100"
proof (rule ccontr)
  assume "\<not> S + q \<le> 100"
  then have "of_int 10000 < (of_int (k + m) :: rat)" using S(1) q(1) by simp
  then have "10001 \<le> k + m" by (simp only: of_int_less_iff)
  then have "(of_int 10001 :: rat) \<le> of_int (k + m)" by (simp only: of_int_le_iff)
  then have over: "10001 / 100 \<le> S + q" using S(1) q(1) by simp
  have five: "fl 5 = Fin 5" "fl 100 = Fin 100" by simp_all
  define d where "d = \<lfloor>S * 4096\<rfloor>"
  have d: "of_int d \<le> S * 4096" "S * 4096 < of_int d + 1" unfolding d_def by linarith+
  have "0 \<le> d" using S(2) by (simp add: d_def)
  have "(of_int d :: rat) \<le> of_int 409600" using d(1) S(3) by simp
  then have dmax: "d \<le> 409600" by (simp only: of_int_le_iff)
  have "jle (Fin (of_int d / 4096)) (fl S)"
  proof (cases "d = 0")
    case True
    then show ?thesis using fl_mono [OF S(2)] by simp
  next
    case False
    then have "fl (of_int d / 4096) = Fin (of_int d / 4096)" using \<open>0 \<le> d\<close> dmax by (intro fl_dyadic) simp_all
    moreover have "of_int d / 4096 \<le> S" using d(1) by simp
    ultimately show ?thesis using fl_mono [of "of_int d / 4096" S] by simp
  qed
  moreover have "jle (fl S) (Fin 100)" using fl_mono [OF S(3)] five(2) by simp
  ultimately obtain y where y: "fl S = Fin y" "of_int d / 4096 \<le> y" by (cases "fl S") (auto simp: jle_def jeq_def)
  have "409616 / 4096 \<le> y + x" using y(2) d(2) over q(2) by (simp add: abs_if split: if_splits)
  then have "jle (fl (409616 / 4096)) (fl (y + x))" by (rule fl_mono)
  moreover have "fl (409616 / 4096) = Fin (409616 / 4096)" using fl_dyadic [of 409616] by simp
  ultimately have big: "jle (Fin (409616 / 4096)) (jadd (fl S) (Fin x))" by (simp add: y(1))
  have "jle (fl (1000001 / 10000)) (fl (409601 / 4096))" by (rule fl_mono) simp
  moreover have "fl (409601 / 4096) = Fin (409601 / 4096)" using fl_dyadic [of 409601] by simp
  ultimately have small: "jle (fl (1000001 / 10000)) (Fin (409601 / 4096))" by simp
  have "jle (fl (1 :: rat)) (fl (1000001 / 10000))" by (rule fl_mono) simp
  with small obtain z where "fl (1000001 / 10000) = Fin z" "z \<le> 409601 / 4096"
    by (cases "fl (1000001 / 10000)") (auto simp: jle_def jeq_def)
  with big room show False by (cases "jadd (fl S) (Fin x)") (auto simp: jle_def jeq_def)
qed

subsection \<open>Histories of whole requests\<close>

inductive placement_step :: "(rat \<Rightarrow> rat option) \<Rightarrow> placement_db \<Rightarrow> unit list \<Rightarrow> placement_db \<Rightarrow> bool" for hundredths where
  created: "create_placement tenant now ci db = Inr db' \<Longrightarrow> placement_step hundredths db [] db'"
| market_added: "add_market_participant hundredths tenant now i mi db = Inr db' \<Longrightarrow> placement_step hundredths db [] db'"
| subjectivity_added: "add_subjectivity tenant now i d due db = Inr db' \<Longrightarrow> placement_step hundredths db [] db'"
| subjectivity_resolved: "resolve_subjectivity tenant now i j st who db = Inr db' \<Longrightarrow> placement_step hundredths db [] db'"
| document_added: "add_placement_document tenant now i doc name uri who db = Inr db' \<Longrightarrow> placement_step hundredths db [] db'"
| transitioned: "transition_placement_status tenant now i ti db = Inr db' \<Longrightarrow> placement_step hundredths db [] db'"

text \<open>A history of a workflow: it starts with the submission, each entry goes on from the one before, and the last is the status.\<close>

definition follows_on :: "history_entry \<Rightarrow> history_entry \<Rightarrow> bool" where
  "follows_on a b \<longleftrightarrow> he_from b = Some (he_to a) \<and> he_to b \<in> set (ALLOWED_TRANSITIONS (he_to a))"

definition workflow_path :: "history_entry list \<Rightarrow> placement_status \<Rightarrow> bool" where
  "workflow_path hs st \<longleftrightarrow> hs \<noteq> [] \<and> he_from (hd hs) = None \<and> he_to (hd hs) = Submission \<and> he_to (last hs) = st
     \<and> successively follows_on hs"

lemma workflow_start: "he_from e = None \<Longrightarrow> he_to e = Submission \<Longrightarrow> workflow_path [e] Submission"
  by (simp add: workflow_path_def)

lemma workflow_next:
  "workflow_path hs st \<Longrightarrow> he_from e = Some st \<Longrightarrow> he_to e \<in> set (ALLOWED_TRANSITIONS st) \<Longrightarrow> workflow_path (hs @ [e]) (he_to e)"
  by (auto simp: workflow_path_def follows_on_def successively_append_iff hd_append)

definition placement_ok :: "nat \<Rightarrow> commercial_placement \<Rightarrow> bool" where
  "placement_ok n p \<longleftrightarrow> cp_id p < n \<and> workflow_path (cp_history p) (cp_status p)"

definition market_ok :: "market_participant \<Rightarrow> bool" where
  "market_ok m \<longleftrightarrow> 0 < mp_percent m \<and> (\<exists>k. mp_percent m = of_int k / 100)"

definition placements_ok :: "placement_db \<Rightarrow> bool" where
  "placements_ok db \<longleftrightarrow>
     distinct (map cp_id (pd_placements db)) \<and> list_all (placement_ok (pd_next db)) (pd_placements db)
     \<and> list_all market_ok (pd_markets db) \<and> (\<forall>tenant i. subscribed tenant i db \<le> 100)"

lemma subscribed_hundredths:
  assumes "list_all market_ok (pd_markets db)"
  shows "0 \<le> subscribed tenant i db \<and> (\<exists>k. subscribed tenant i db = of_int k / 100)"
proof -
  have "0 \<le> sum_list (map mp_percent ms) \<and> (\<exists>k. sum_list (map mp_percent ms) = of_int k / 100)"
    if "list_all market_ok ms" for ms
    using that
  proof (induction ms)
    case Nil
    then show ?case by (auto intro: exI [of _ 0])
  next
    case (Cons m ms)
    then obtain a b where "mp_percent m = of_int a / 100" "sum_list (map mp_percent ms) = of_int b / 100"
      by (auto simp: market_ok_def)
    then have "mp_percent m + sum_list (map mp_percent ms) = of_int (a + b) / 100" by (simp add: add_divide_distrib)
    then have "\<exists>k. mp_percent m + sum_list (map mp_percent ms) = of_int k / 100" by blast
    with Cons show ?case by (simp add: market_ok_def add_nonneg_nonneg less_imp_le)
  qed
  moreover have "list_all market_ok (markets_of tenant i db)" using assms by (auto simp: markets_of_def list_all_iff)
  ultimately show ?thesis by (simp add: subscribed_def)
qed

lemma find_placementD: "find_placement tenant i db = Some p \<Longrightarrow> p \<in> set (pd_placements db) \<and> cp_tenant p = tenant \<and> cp_id p = i"
  unfolding find_placement_def by (auto dest: find_first_Some)

lemma subscribed_same: "pd_markets db' = pd_markets db \<Longrightarrow> subscribed tenant i db' = subscribed tenant i db"
  by (simp add: subscribed_def markets_of_def)

lemma update_ok:
  assumes "placements_ok db"
    and "\<And>p. p \<in> set (pd_placements db) \<Longrightarrow> cp_tenant p = tenant \<Longrightarrow> cp_id p = i \<Longrightarrow>
      cp_id (f p) = cp_id p \<and> workflow_path (cp_history (f p)) (cp_status (f p))"
  shows "placements_ok (update_placement tenant i f db)"
proof -
  let ?g = "\<lambda>p. if cp_tenant p = tenant \<and> cp_id p = i then f p else p"
  have "map cp_id (map ?g (pd_placements db)) = map cp_id (pd_placements db)"
    unfolding map_map comp_def using assms(2) by (intro map_cong refl) simp
  moreover have "list_all (placement_ok (pd_next db)) (map ?g (pd_placements db))"
    using assms by (auto simp: list_all_iff placement_ok_def placements_ok_def)
  moreover define rows where "rows = map ?g (pd_placements db)"
  ultimately have "map cp_id rows = map cp_id (pd_placements db)" "list_all (placement_ok (pd_next db)) rows" by simp_all
  then have "placements_ok (db\<lparr>pd_placements := rows\<rparr>)"
    using assms(1) by (simp add: placements_ok_def subscribed_def markets_of_def)
  then show ?thesis by (simp add: update_placement_def rows_def)
qed

lemma insert_market_row:
  assumes "insert_market hundredths tenant now i input share db = Inr db'"
  shows "\<exists>pct m. hundredths share = Some pct \<and> 0 < pct \<and> mp_tenant m = tenant \<and> mp_placement m = i \<and> mp_percent m = pct
    \<and> db' = db\<lparr>pd_markets := pd_markets db @ [m], pd_next := Suc (pd_next db)\<rparr>"
proof (cases "hundredths share")
  case (Some pct)
  define role where "role = or_text (mi_role input) ''Following''"
  define security where "security = or_text (mi_security input) ''Provisional''"
  show ?thesis
    by (rule exI [of _ pct], rule exI [of _ "\<lparr>mp_id = pd_next db, mp_tenant = tenant, mp_placement = i,
        mp_market = trim (mi_market input), mp_role = role, mp_percent = pct, mp_security = security,
        mp_broker = text_or_null (mi_broker input), mp_created = now\<rparr>"])
      (use assms Some in \<open>simp add: insert_market_def Let_def role_def [symmetric] security_def [symmetric] split: if_splits\<close>)
qed (use assms in \<open>simp add: insert_market_def Let_def split: if_splits\<close>)

lemma market_keeps:
  assumes ok: "placements_ok db" and c: "casts_hundredths hundredths"
    and add: "add_market_participant hundredths tenant now i input db = Inr db'"
  shows "placements_ok db'"
proof -
  from add obtain share where share: "check_market tenant i input db = Inr share"
    and ins: "insert_market hundredths tenant now i input share db = Inr db'" by (auto simp: add_market_participant_def)
  from share have room: "share \<le> 100" "\<not> jlt (fl (1000001 / 10000)) (jadd (fl (subscribed tenant i db)) (Fin share))"
    by (auto simp: check_market_def split: if_splits jnum.splits)
  from ins obtain pct m where pct: "hundredths share = Some pct" "0 < pct" and m: "mp_tenant m = tenant" "mp_placement m = i" "mp_percent m = pct"
    and db': "db' = db\<lparr>pd_markets := pd_markets db @ [m], pd_next := Suc (pd_next db)\<rparr>"
    using insert_market_row by blast
  from c pct(1) obtain l where l: "pct = of_int l / 100" "\<bar>pct - share\<bar> \<le> 51 / 10000" unfolding casts_hundredths_def by blast
  from ok have marks: "list_all market_ok (pd_markets db)" and all: "\<And>t j. subscribed t j db \<le> 100" by (auto simp: placements_ok_def)
  from subscribed_hundredths [OF marks] obtain k where k: "subscribed tenant i db = of_int k / 100" "0 \<le> subscribed tenant i db" by blast
  have "subscribed tenant i db + pct \<le> 100" by (rule share_fits [OF k(1,2) all l room])
  moreover have "subscribed t j db' = (if t = tenant \<and> j = i then subscribed tenant i db + pct else subscribed t j db)" for t j
    using m by (simp add: subscribed_def markets_of_def db')
  ultimately have "\<forall>t j. subscribed t j db' \<le> 100" using all by simp
  moreover have "market_ok m" using pct(2) l(1) m(3) by (auto simp: market_ok_def)
  moreover have "list_all (placement_ok (Suc (pd_next db))) (pd_placements db)"
    using ok by (auto simp: placements_ok_def list_all_iff placement_ok_def)
  ultimately show ?thesis using ok by (simp add: placements_ok_def db')
qed

lemma placement_step_keeps:
  assumes "placement_step hundredths db es db'" "placements_ok db \<and> casts_hundredths hundredths"
  shows "placements_ok db' \<and> casts_hundredths hundredths"
  using assms(1)
proof cases
  case (created tenant now ci)
  define p where "p = \<lparr>cp_id = pd_next db, cp_tenant = tenant, cp_quote = text_or_null (ci_quote ci), cp_policy = None,
     cp_product = text_or_null (ci_product ci), cp_insured = trim (ci_insured ci), cp_effective = text_or_null (ci_effective ci),
     cp_facility = text_or_null (ci_facility ci), cp_status = Submission, cp_terms = ci_terms ci, cp_documents = [],
     cp_history = [\<lparr>he_from = None, he_to = Submission, he_at = now, he_by = text_or_null (ci_by ci), he_reason = None\<rparr>],
     cp_by = text_or_null (ci_by ci), cp_created = now, cp_updated = now\<rparr>"
  have p: "cp_id p = pd_next db" "workflow_path (cp_history p) (cp_status p)" by (simp_all add: p_def workflow_start)
  have db': "db' = db\<lparr>pd_placements := pd_placements db @ [p], pd_next := Suc (pd_next db)\<rparr>"
    using created by (simp add: create_placement_def Let_def p_def split: if_splits)
  have "pd_next db \<notin> cp_id ` set (pd_placements db)" "list_all (placement_ok (Suc (pd_next db))) (pd_placements db)"
    using assms(2) by (auto simp: placements_ok_def list_all_iff placement_ok_def)
  with p assms(2) show ?thesis
    by (simp add: db' placements_ok_def placement_ok_def subscribed_def markets_of_def)
next
  case (market_added tenant now i mi)
  then show ?thesis using market_keeps assms(2) by blast
next
  case (subjectivity_added tenant now i d due)
  have "list_all (placement_ok (Suc (pd_next db))) (pd_placements db)"
    using assms(2) by (auto simp: placements_ok_def list_all_iff placement_ok_def intro: less_SucI)
  with subjectivity_added show ?thesis using assms(2)
    by (auto simp: add_subjectivity_def placements_ok_def subscribed_def markets_of_def split: if_splits)
next
  case (subjectivity_resolved tenant now i j st who)
  then show ?thesis using assms(2)
    by (auto simp: resolve_subjectivity_def placements_ok_def subscribed_def markets_of_def split: if_splits)
next
  case (document_added tenant now i doc name uri who)
  have "placements_ok (update_placement tenant i (\<lambda>p. p\<lparr>cp_documents := ds p, cp_updated := now\<rparr>) db)" for ds
    using assms(2) by (intro update_ok) (auto simp: placements_ok_def placement_ok_def list_all_iff)
  with document_added assms(2) show ?thesis by (auto simp: add_placement_document_def split: if_splits)
next
  case (transitioned tenant now i ti)
  then obtain p where p: "find_placement tenant i db = Some p" "ti_to ti \<in> set (ALLOWED_TRANSITIONS (cp_status p))"
    and db': "db' = write_transition tenant now i ti (cp_status p) db"
    by (auto simp: transition_placement_status_def check_transition_def split: option.splits if_splits)
  have one: "q = p" if "q \<in> set (pd_placements db)" "cp_id q = i" for q
    using find_placementD [OF p(1)] that assms(2) by (auto simp: placements_ok_def distinct_map dest: inj_onD)
  have path: "workflow_path (cp_history p) (cp_status p)"
    using find_placementD [OF p(1)] assms(2) by (auto simp: placements_ok_def placement_ok_def list_all_iff)
  define e where "e = \<lparr>he_from = Some (cp_status p), he_to = ti_to ti, he_at = now, he_by = text_or_null (ti_by ti),
      he_reason = text_or_null (ti_reason ti)\<rparr>"
  have "workflow_path (cp_history p @ [e]) (he_to e)" using path p(2) by (intro workflow_next) (simp_all add: e_def)
  then have "placements_ok db'" unfolding db' write_transition_def Let_def e_def [symmetric]
    using assms(2) one by (intro update_ok) (auto simp: e_def)
  with assms(2) show ?thesis by simp
qed

interpretation placements: step_invariant "placement_step hundredths" "\<lambda>db. placements_ok db \<and> casts_hundredths hundredths" for hundredths
  by unfold_locales (rule placement_step_keeps)

definition no_placements :: "placement_db \<Rightarrow> bool" where
  "no_placements db \<longleftrightarrow> pd_placements db = [] \<and> pd_markets db = []"

lemma history_placements_ok:
  assumes "trace (placement_step hundredths) db0 es db" "no_placements db0" "casts_hundredths hundredths"
  shows "placements_ok db"
proof -
  have "placements_ok db0" using assms(2) by (simp add: placements_ok_def no_placements_def subscribed_def markets_of_def)
  with placements.inv_trace [OF assms(1)] assms(3) show ?thesis by simp
qed

text \<open>C14: while requests run one after another the markets of a placement never subscribe more than 100 percent, in
  spite of the tolerance of the check and the rounding of the column, and the history of every placement is a
  path of the workflow from the submission to its status.\<close>

theorem placement_rules_hold:
  assumes "trace (placement_step hundredths) db0 es db" "no_placements db0" "casts_hundredths hundredths"
  shows "subscribed tenant i db \<le> 100
    \<and> (p \<in> set (pd_placements db) \<longrightarrow> workflow_path (cp_history p) (cp_status p))"
  using history_placements_ok [OF assms] by (auto simp: placements_ok_def placement_ok_def list_all_iff)

text \<open>A subjectivity is resolved at most once, also by requests that overlap: the update has the status in its condition.\<close>

lemma resolved_once:
  "resolve_subjectivity tenant now i j st who db = Inr db' \<Longrightarrow>
   \<exists>err. resolve_subjectivity tenant later i j st2 who2 db' = Inl err"
  by (auto simp: resolve_subjectivity_def list_ex_iff resolves_def split: if_splits)

lemma insert_market_later:
  assumes "insert_market hundredths tenant now i input share db = Inr db'"
  shows "\<exists>db2. insert_market hundredths tenant now i input share db1 = Inr db2
    \<and> subscribed tenant i db2 = subscribed tenant i db1 + (subscribed tenant i db' - subscribed tenant i db)"
proof -
  have "\<exists>db2. insert_market hundredths tenant now i input share db1 = Inr db2"
    using assms unfolding insert_market_def Let_def by (auto split: if_splits option.splits)
  then obtain db2 where db2: "insert_market hundredths tenant now i input share db1 = Inr db2" by blast
  from insert_market_row [OF assms] insert_market_row [OF db2] show ?thesis
    using db2 by (auto simp: subscribed_def markets_of_def)
qed

text \<open>C39: neither rule holds when two requests overlap. Two markets, each accepted on its own, whose shares do not
  fit together: when the second request has checked before the first one writes, its write is accepted as well
  and the markets subscribe more than 100 percent. And of a placement with a bind order one request makes a bound
  one and another, checked before that, declines it, which leaves a declined placement with a policy, although no
  bound placement can be declined.\<close>

theorem overlapping_placement_requests:
  assumes "add_market_participant hundredths tenant now i m1 db = Inr a1" "add_market_participant hundredths tenant now2 i m2 db = Inr a2"
    and "100 < subscribed tenant i a1 + subscribed tenant i a2 - subscribed tenant i db"
    and "find_placement tenant i db = Some p" "cp_status p = BindOrder"
    and "ti_to bind = PBound" "ti_policy bind = Some pol" "pol \<noteq> []" "ti_to decline = PDeclined"
  shows "(\<exists>share db2. check_market tenant i m2 db = Inr share \<and> insert_market hundredths tenant now2 i m2 share a1 = Inr db2
      \<and> 100 < subscribed tenant i db2)
    \<and> check_transition tenant i bind db = Inr BindOrder \<and> check_transition tenant i decline db = Inr BindOrder
    \<and> (\<exists>p'. find_placement tenant i (write_transition tenant now2 i decline BindOrder (write_transition tenant now i bind BindOrder db)) = Some p'
          \<and> cp_status p' = PDeclined \<and> cp_policy p' = Some pol \<and> \<not> workflow_path (cp_history p') (cp_status p'))"
proof -
  from assms(2) obtain share where share: "check_market tenant i m2 db = Inr share"
      "insert_market hundredths tenant now2 i m2 share db = Inr a2"
    by (auto simp: add_market_participant_def)
  from insert_market_later [OF share(2), of a1] assms(3) share(1)
  have over: "\<exists>share db2. check_market tenant i m2 db = Inr share \<and> insert_market hundredths tenant now2 i m2 share a1 = Inr db2
      \<and> 100 < subscribed tenant i db2" by auto
  have found: "find_placement tenant i (update_placement tenant i f d) = map_option f (find_placement tenant i d)"
    if "\<And>q. cp_tenant (f q) = cp_tenant q \<and> cp_id (f q) = cp_id q" for f d
  proof -
    have "find_first (\<lambda>p. cp_tenant p = tenant \<and> cp_id p = i) (map (\<lambda>p. if cp_tenant p = tenant \<and> cp_id p = i then f p else p) ps)
        = map_option f (find_first (\<lambda>p. cp_tenant p = tenant \<and> cp_id p = i) ps)" for ps
      by (induction ps) (use that in auto)
    then show ?thesis by (simp add: find_placement_def update_placement_def)
  qed
  have "text_or_null (Some pol) = Some pol" using assms(8) by (simp add: text_or_null_def)
  with assms(4-9) over show ?thesis
    by (simp add: check_transition_def write_transition_def Let_def found workflow_path_def successively_append_iff follows_on_def)
qed

subsection \<open>Examples\<close>

definition nearest_hundredth :: "rat \<Rightarrow> rat option" where
  "nearest_hundredth x = Some (of_int \<lfloor>x * 100 + 1 / 2\<rfloor> / 100)"

lemma nearest_hundredth_casts: "casts_hundredths nearest_hundredth"
proof -
  have "\<bar>of_int \<lfloor>x * 100 + 1 / 2\<rfloor> / 100 - x\<bar> \<le> 51 / 10000" for x :: rat
  proof -
    define n where "n = \<lfloor>x * 100 + 1 / 2\<rfloor>"
    have "of_int n \<le> x * 100 + 1 / 2" "x * 100 + 1 / 2 < of_int n + 1" unfolding n_def by linarith+
    then have "\<bar>of_int n / 100 - x\<bar> \<le> 51 / 10000" by (intro abs_leI) linarith+
    then show ?thesis by (simp only: n_def)
  qed
  then show ?thesis unfolding casts_hundredths_def nearest_hundredth_def by blast
qed

definition example_create :: create_input where
  "example_create = \<lparr>ci_quote = None, ci_product = None, ci_insured = ''Acme'', ci_effective = None, ci_facility = None,
     ci_terms = [], ci_by = None\<rparr>"

definition example_market :: market_input where
  "example_market = \<lparr>mi_market = ''A'', mi_role = None, mi_percent = JNum (Fin 60), mi_security = None, mi_broker = None\<rparr>"

definition example_transition :: "placement_status \<Rightarrow> transition_input" where
  "example_transition st = \<lparr>ti_to = st, ti_reason = None, ti_by = None, ti_policy = Some ''P-1''\<rparr>"

definition empty_placements :: placement_db where
  "empty_placements = \<lparr>pd_placements = [], pd_markets = [], pd_subjectivities = [], pd_next = 0\<rparr>"

definition example_placement :: commercial_placement where
  "example_placement = \<lparr>cp_id = 0, cp_tenant = ''t'', cp_quote = None, cp_policy = None, cp_product = None, cp_insured = ''Acme'',
     cp_effective = None, cp_facility = None, cp_status = Submission, cp_terms = [], cp_documents = [],
     cp_history = [\<lparr>he_from = None, he_to = Submission, he_at = 1, he_by = None, he_reason = None\<rparr>], cp_by = None,
     cp_created = 1, cp_updated = 1\<rparr>"

theorem placement_rules_hold_witness:
  "subscribed ''t'' 0 (empty_placements\<lparr>pd_placements := [example_placement], pd_next := 1\<rparr>) \<le> 100
   \<and> workflow_path (cp_history example_placement) Submission"
proof -
  let ?db = "empty_placements\<lparr>pd_placements := [example_placement], pd_next := 1\<rparr>"
  have "create_placement ''t'' 1 example_create empty_placements = Inr ?db" by code_simp
  from trace_single [where step = "placement_step nearest_hundredth", OF created [OF this]]
  have t: "trace (placement_step nearest_hundredth) empty_placements [] ?db" .
  have "no_placements empty_placements" by code_simp
  from placement_rules_hold [OF t this nearest_hundredth_casts, of "''t''" 0 example_placement] show ?thesis
    by (simp add: example_placement_def)
qed

theorem overlapping_placement_requests_witness:
  "\<exists>db a1 share db2 p. db = empty_placements\<lparr>pd_placements := [example_placement\<lparr>cp_status := BindOrder\<rparr>], pd_next := 1\<rparr>
     \<and> add_market_participant nearest_hundredth ''t'' 2 0 example_market db = Inr a1
     \<and> check_market ''t'' 0 example_market db = Inr share
     \<and> insert_market nearest_hundredth ''t'' 3 0 example_market share a1 = Inr db2 \<and> 100 < subscribed ''t'' 0 db2
     \<and> check_transition ''t'' 0 (example_transition PBound) db = Inr BindOrder
     \<and> check_transition ''t'' 0 (example_transition PDeclined) db = Inr BindOrder
     \<and> find_placement ''t'' 0 (write_transition ''t'' 3 0 (example_transition PDeclined) BindOrder
          (write_transition ''t'' 2 0 (example_transition PBound) BindOrder db)) = Some p
     \<and> cp_status p = PDeclined \<and> cp_policy p = Some ''P-1''"
proof -
  let ?db = "empty_placements\<lparr>pd_placements := [example_placement\<lparr>cp_status := BindOrder\<rparr>], pd_next := 1\<rparr>"
  have five: "fl 0 = Fin 0" "fl 60 = Fin 60" by simp_all
  have "jle (fl (1 :: rat)) (fl (1000001 / 10000))" by (rule fl_mono) simp
  moreover have "jle (fl 100) (fl (1000001 / 10000))" by (rule fl_mono) simp
  ultimately have room: "\<not> jlt (fl (1000001 / 10000)) (Fin 60)"
    by (cases "fl (1000001 / 10000)") (auto simp: jle_def jeq_def)
  have find: "find_placement ''t'' 0 ?db = Some (example_placement\<lparr>cp_status := BindOrder\<rparr>)" by code_simp
  have none: "subscribed ''t'' 0 ?db = 0" by (simp add: subscribed_def markets_of_def empty_placements_def)
  moreover have "trim ''A'' \<noteq> []" by code_simp
  ultimately have check: "check_market ''t'' 0 example_market ?db = Inr 60"
    using find room by (simp add: check_market_def example_market_def)
  have "\<lfloor>60 * 100 + 1 / 2 :: rat\<rfloor> = 6000" by linarith
  then have near: "nearest_hundredth 60 = Some 60" unfolding nearest_hundredth_def by simp
  have "\<exists>db'. insert_market nearest_hundredth ''t'' n 0 example_market 60 ?db = Inr db'" for n
    by (simp add: insert_market_def Let_def example_market_def or_text_def near)
  then have add: "\<exists>db'. add_market_participant nearest_hundredth ''t'' n 0 example_market ?db = Inr db' \<and> subscribed ''t'' 0 db' = 60" for n
    using check none near by (fastforce simp: add_market_participant_def subscribed_def markets_of_def dest: insert_market_row)
  from add obtain a1 a2 where 1: "add_market_participant nearest_hundredth ''t'' 2 0 example_market ?db = Inr a1" "subscribed ''t'' 0 a1 = 60"
    and 2: "add_market_participant nearest_hundredth ''t'' 3 0 example_market ?db = Inr a2" "subscribed ''t'' 0 a2 = 60" by metis
  have "100 < subscribed ''t'' 0 a1 + subscribed ''t'' 0 a2 - subscribed ''t'' 0 ?db" using 1(2) 2(2) none by simp
  from overlapping_placement_requests [OF 1(1) 2(1) this find, of "example_transition PBound" "''P-1''" "example_transition PDeclined"]
  obtain share db2 p where res: "check_market ''t'' 0 example_market ?db = Inr share"
      "insert_market nearest_hundredth ''t'' 3 0 example_market share a1 = Inr db2" "100 < subscribed ''t'' 0 db2"
      "check_transition ''t'' 0 (example_transition PBound) ?db = Inr BindOrder"
      "check_transition ''t'' 0 (example_transition PDeclined) ?db = Inr BindOrder"
      "find_placement ''t'' 0 (write_transition ''t'' 3 0 (example_transition PDeclined) BindOrder
         (write_transition ''t'' 2 0 (example_transition PBound) BindOrder ?db)) = Some p" "cp_status p = PDeclined" "cp_policy p = Some ''P-1''"
    by (auto simp: example_transition_def)
  then show ?thesis using 1(1) by (intro exI conjI) (rule refl | assumption)+
qed

end
