(* ===== verification/QuoteRating.thy ===== *)
theory QuoteRating
  imports ReferralProposal Traces
begin

text \<open>
  The rating of a quote and what binds it: the fingerprint of the rated risk (\<open>server/src/lib/rating-fingerprint.ts\<close>),
  drafts, ratings and copies (\<open>server/src/services/quote.service.ts\<close>, \<open>quote.utils.ts\<close>) and the checks of a bind under
  its lock (\<open>quote-bind.service.ts\<close>). The quotes of one tenant are a list of rows. What the rater and the
  underwriting rules make of a payload are arguments of a rating, the SHA-256 digest is an argument, and the
  record \<open>host\<close> is the clock. The stored values are the ones that were given (the JSON columns keep all that the
  canonical text shows).
\<close>

subsection \<open>The audit history of a quote\<close>

record audit_entry =
  ae_value :: jsval \<comment> \<open>a number or a text\<close>
  ae_at :: string
  ae_by :: string

fun is_number :: "jsval \<Rightarrow> bool" where
  "is_number (JNum _) = True" | "is_number _ = False"

definition text_field :: "jsval \<Rightarrow> string \<Rightarrow> string \<Rightarrow> string" where
  "text_field v k d = (case get v k of JStr s \<Rightarrow> if s = [] then d else s | _ \<Rightarrow> d)"

definition normalize_quote_audit_history :: "string \<Rightarrow> jsval \<Rightarrow> audit_entry list" where
  "normalize_quote_audit_history now_iso raw =
     map (\<lambda>e. \<lparr>ae_value = (if is_number (get e ''value'') then get e ''value'' else JStr (to_str (get e ''value''))),
                ae_at = text_field e ''updatedAt'' now_iso, ae_by = text_field e ''updatedBy'' ''system''\<rparr>)
       (filter (\<lambda>e. js_truthy e \<and> \<not> nullish (get e ''value'')) (items raw))"

definition entry_key :: "jsval \<Rightarrow> string" where
  "entry_key v = (if is_number v then to_str v else to_str (js_or v (JStr [])))"

fun put_entry :: "audit_entry \<Rightarrow> audit_entry list \<Rightarrow> audit_entry list" where
  "put_entry e [] = [e]"
| "put_entry e (x # xs) = (if entry_key (ae_value x) = entry_key (ae_value e) then e # xs else x # put_entry e xs)"

definition upsert_quote_audit_history :: "string \<Rightarrow> jsval \<Rightarrow> jsval \<Rightarrow> string \<Rightarrow> string \<Rightarrow> audit_entry list" where
  "upsert_quote_audit_history now_iso raw v updated_at updated_by =
     put_entry \<lparr>ae_value = v, ae_at = updated_at, ae_by = updated_by\<rparr> (normalize_quote_audit_history now_iso raw)"

definition audit_json :: "audit_entry list \<Rightarrow> jsval" where
  "audit_json es = JArr (map (\<lambda>e. JObj [(''value'', ae_value e), (''updatedAt'', JStr (ae_at e)), (''updatedBy'', JStr (ae_by e))]) es)"

definition clamp_step :: "jsval \<Rightarrow> jnum" where
  "clamp_step v = (let n = to_num v in if \<not> is_finite n then Fin 1 else jmax (Fin 1) (jmin (Fin 7) (jround n)))"

subsection \<open>The rated risk\<close>

text \<open>\<open>v && typeof v === 'object' ? { ...v } : {}\<close>.\<close>

fun object_fields :: "jsval \<Rightarrow> fields" where
  "object_fields (JObj kvs) = kvs"
| "object_fields (JArr vs) = map (\<lambda>(i, v). (nat_str i, v)) (enumerate 0 vs)"
| "object_fields _ = []"

text \<open>\<open>{ ...v }\<close> of any value: the characters of a text become properties.\<close>

fun spread_fields :: "jsval \<Rightarrow> fields" where
  "spread_fields (JStr s) = map (\<lambda>(i, c). (nat_str i, JStr [c])) (enumerate 0 s)"
| "spread_fields v = object_fields v"

definition normalize_quote_payload :: "host \<Rightarrow> jsval \<Rightarrow> jsval \<Rightarrow> fields" where
  "normalize_quote_payload h raw fallback =
     (let p = object_fields raw;
          d = JStr (coerce_date_only h (js_or (js_or (get (JObj p) ''effectiveDate'') (get (JObj p) ''transactionEffectiveDate'')) fallback)
                 (Some (today_str h)))
      in aput (aput p ''effectiveDate'' d) ''transactionEffectiveDate'' d)"

definition NON_RATING_FIELDS :: "string list" where
  "NON_RATING_FIELDS = [''billingMethod'', ''paymentPlan'']"

definition PRODUCT_PIN_FIELDS :: "string list" where
  "PRODUCT_PIN_FIELDS = [''productVersion'', ''governanceLineage'', ''productSnapshot'']"

definition SERVER_OWNED_FIELDS :: "string list" where
  "SERVER_OWNED_FIELDS = ''quoteId'' # PRODUCT_PIN_FIELDS"

definition delete_fields :: "string list \<Rightarrow> fields \<Rightarrow> fields" where
  "delete_fields ks p = foldl adel p ks"

definition rated_risk :: "host \<Rightarrow> jsval \<Rightarrow> jsval" where
  "rated_risk h payload =
     JObj (delete_fields (NON_RATING_FIELDS @ SERVER_OWNED_FIELDS) (normalize_quote_payload h payload JUndef))"

definition rating_fingerprint :: "(string \<Rightarrow> string) \<Rightarrow> host \<Rightarrow> jsval \<Rightarrow> string" where
  "rating_fingerprint digest h payload = digest (canonical_proposal (rated_risk h payload))"

definition without_server_owned_fields :: "fields \<Rightarrow> fields" where
  "without_server_owned_fields p = delete_fields PRODUCT_PIN_FIELDS p"

definition with_server_owned_fields_from :: "fields \<Rightarrow> jsval \<Rightarrow> fields" where
  "with_server_owned_fields_from next_fields stored =
     foldl (\<lambda>acc k. let v = get (JObj (object_fields stored)) k in if v = JUndef then acc else aput acc k v)
       (without_server_owned_fields next_fields) PRODUCT_PIN_FIELDS"

definition stored_rating_fingerprint :: "jsval \<Rightarrow> string option" where
  "stored_rating_fingerprint uw =
     (case get (JObj (object_fields uw)) ''ratedFingerprint'' of JStr s \<Rightarrow> if s = [] then None else Some s | _ \<Rightarrow> None)"

subsection \<open>Quotes\<close>

record quote =
  qt_id :: nat
  qt_payload :: jsval
  qt_underwriting :: jsval \<comment> \<open>null when not rated\<close>
  qt_premium :: jsval
  qt_status :: "string option"
  qt_step :: jnum
  qt_status_history :: jsval
  qt_step_history :: jsval
  qt_policy :: "nat option" \<comment> \<open>\<open>converted_policy_id\<close>\<close>
  qt_updated :: string
  qt_by :: string

datatype quote_error =
    InvalidStatus
  | QuoteNotFound
  | QuoteAlreadyBound
  | RerateRequired
  | QuoteChanged

record draft_body =
  db_payload :: jsval \<comment> \<open>\<open>body.payload || {}\<close>\<close>
  db_effective :: jsval
  db_status :: jsval
  db_step :: jsval

definition find_quote :: "nat \<Rightarrow> quote list \<Rightarrow> quote option" where
  "find_quote i qs = find_first (\<lambda>q. qt_id q = i) qs"

definition update_quote :: "nat \<Rightarrow> (quote \<Rightarrow> quote) \<Rightarrow> quote list \<Rightarrow> quote list" where
  "update_quote i f qs = map (\<lambda>q. if qt_id q = i then f q else q) qs"

definition new_quote :: "string \<Rightarrow> string \<Rightarrow> nat \<Rightarrow> jsval \<Rightarrow> jnum \<Rightarrow> quote" where
  "new_quote now_iso who i payload step =
     \<lparr>qt_id = i, qt_payload = payload, qt_underwriting = JNull, qt_premium = JNull, qt_status = Some ''Draft'', qt_step = step,
      qt_status_history = audit_json (upsert_quote_audit_history now_iso (JArr []) (JStr ''Draft'') now_iso who),
      qt_step_history = audit_json (upsert_quote_audit_history now_iso (JArr []) (JNum step) now_iso who),
      qt_policy = None, qt_updated = now_iso, qt_by = who\<rparr>"

definition insert_draft_quote ::
  "host \<Rightarrow> string \<Rightarrow> string \<Rightarrow> nat \<Rightarrow> draft_body \<Rightarrow> quote list \<Rightarrow> (quote_error, quote list) outcome" where
  "insert_draft_quote h now_iso who i body qs =
     (if \<not> nullish (db_status body) \<and> db_status body \<noteq> JStr ''Draft'' then Inl InvalidStatus
      else Inr (qs @ [new_quote now_iso who i
             (JObj (normalize_quote_payload h (JObj (without_server_owned_fields (spread_fields (db_payload body)))) (db_effective body)))
             (clamp_step (db_step body))]))"

definition copy_quote :: "host \<Rightarrow> string \<Rightarrow> string \<Rightarrow> nat \<Rightarrow> nat \<Rightarrow> jsval \<Rightarrow> quote list \<Rightarrow> (quote_error, quote list) outcome" where
  "copy_quote h now_iso who i new_id effective qs =
     (case find_quote i qs of
        None \<Rightarrow> Inl QuoteNotFound
      | Some q \<Rightarrow> Inr (qs @ [new_quote now_iso who new_id
             (JObj (normalize_quote_payload h (JObj (without_server_owned_fields (spread_fields (qt_payload q)))) effective)) (Fin 1)]))"

text \<open>
  The end of \<open>createOrRateQuote\<close>: the body is pinned and checked, \<open>premium\<close> and \<open>uw\<close> are what the rater and the
  underwriting rules answered for it. The row is found by its id only.
\<close>

definition stored_underwriting :: "(string \<Rightarrow> string) \<Rightarrow> host \<Rightarrow> jsval \<Rightarrow> jsval \<Rightarrow> jsval" where
  "stored_underwriting digest h body uw =
     JObj (aput (object_fields uw) ''ratedFingerprint'' (JStr (rating_fingerprint digest h body)))"

definition rate_quote ::
  "(string \<Rightarrow> string) \<Rightarrow> host \<Rightarrow> string \<Rightarrow> string \<Rightarrow> nat \<Rightarrow> nat option \<Rightarrow> jsval \<Rightarrow> jsval \<Rightarrow> jsval \<Rightarrow> quote list
   \<Rightarrow> (quote_error, quote list) outcome" where
  "rate_quote digest h now_iso who new_id requested body premium uw qs =
     (let rated = (\<lambda>q. q\<lparr>qt_payload := body, qt_underwriting := stored_underwriting digest h body uw, qt_premium := premium,
            qt_status := Some ''Rated'', qt_step := Fin 5,
            qt_status_history := audit_json (upsert_quote_audit_history now_iso (qt_status_history q) (JStr ''Rated'') now_iso who),
            qt_step_history := audit_json (upsert_quote_audit_history now_iso (qt_step_history q) (JNum (Fin 5)) now_iso who),
            qt_updated := now_iso, qt_by := who\<rparr>)
      in case requested of
           None \<Rightarrow> Inr (qs @ [rated ((new_quote now_iso who new_id body (Fin 5))
                      \<lparr>qt_status_history := JArr [], qt_step_history := JArr []\<rparr>)])
         | Some i \<Rightarrow> if find_quote i qs = None then Inl QuoteNotFound else Inr (update_quote i rated qs))"

text \<open>A draft save, under the lock of the row.\<close>

fun has_keys :: "jsval \<Rightarrow> bool" where
  "has_keys (JStr s) = (s \<noteq> [])"
| "has_keys v = (object_fields v \<noteq> [])"

definition next_payload :: "host \<Rightarrow> draft_body \<Rightarrow> quote \<Rightarrow> jsval option" where
  "next_payload h body q =
     (if \<not> has_keys (db_payload body) then None
      else let p = normalize_quote_payload h (db_payload body) (db_effective body);
               same = (let v = get (JObj p) ''productCode'' in strict_eq v (get (qt_payload q) ''productCode''))
           in Some (JObj (if same then with_server_owned_fields_from p (qt_payload q) else without_server_owned_fields p)))"

definition rating_reset :: "(string \<Rightarrow> string) \<Rightarrow> host \<Rightarrow> jsval option \<Rightarrow> quote \<Rightarrow> bool" where
  "rating_reset digest h payload q =
     (qt_status q \<noteq> Some ''Converted'' \<and> qt_status q \<noteq> Some ''Issued'' \<and> \<not> nullish (qt_underwriting q)
      \<and> (case payload of
           None \<Rightarrow> False
         | Some p \<Rightarrow> (case stored_rating_fingerprint (qt_underwriting q) of
             Some f \<Rightarrow> rating_fingerprint digest h p \<noteq> f
           | None \<Rightarrow> rating_fingerprint digest h p \<noteq> rating_fingerprint digest h (qt_payload q))))"

definition next_status :: "bool \<Rightarrow> jsval \<Rightarrow> quote \<Rightarrow> string" where
  "next_status reset status q =
     (if reset then ''Draft'' else if status = JStr ''Issued'' then ''Issued''
      else case qt_status q of None \<Rightarrow> ''Draft'' | Some s \<Rightarrow> if s = [] then ''Draft'' else s)"

definition save_draft :: "(string \<Rightarrow> string) \<Rightarrow> host \<Rightarrow> string \<Rightarrow> string \<Rightarrow> draft_body \<Rightarrow> quote \<Rightarrow> quote" where
  "save_draft digest h now_iso who body q =
     (let p = next_payload h body q; reset = rating_reset digest h p q; st = next_status reset (db_status body) q;
          step = (if \<not> nullish (db_step body) then clamp_step (db_step body) else if qt_step q = Fin 0 then Fin 1 else qt_step q)
      in q\<lparr>qt_payload := (case p of None \<Rightarrow> qt_payload q | Some v \<Rightarrow> v), qt_status := Some st, qt_step := step,
           qt_underwriting := (if reset then JNull else qt_underwriting q), qt_premium := (if reset then JNull else qt_premium q),
           qt_status_history := audit_json (upsert_quote_audit_history now_iso (qt_status_history q) (JStr st) now_iso who),
           qt_step_history := audit_json (upsert_quote_audit_history now_iso (qt_step_history q) (JNum step) now_iso who),
           qt_updated := now_iso, qt_by := who\<rparr>)"

definition update_draft_quote ::
  "(string \<Rightarrow> string) \<Rightarrow> host \<Rightarrow> string \<Rightarrow> string \<Rightarrow> nat \<Rightarrow> draft_body \<Rightarrow> quote list \<Rightarrow> (quote_error, quote list) outcome" where
  "update_draft_quote digest h now_iso who i body qs =
     (if \<not> nullish (db_status body) \<and> db_status body \<noteq> JStr ''Draft'' \<and> db_status body \<noteq> JStr ''Issued'' then Inl InvalidStatus
      else if find_quote i qs = None then Inl QuoteNotFound
      else Inr (update_quote i (save_draft digest h now_iso who body) qs))"

subsection \<open>Binding\<close>

definition assert_bindable_rating :: "(string \<Rightarrow> string) \<Rightarrow> host \<Rightarrow> jsval \<Rightarrow> jsval \<Rightarrow> jsval \<Rightarrow> (quote_error, unit) outcome" where
  "assert_bindable_rating digest h payload uw premium =
     (if \<not> js_truthy uw \<or> \<not> js_truthy premium
         \<or> (case stored_rating_fingerprint uw of None \<Rightarrow> False | Some f \<Rightarrow> rating_fingerprint digest h payload \<noteq> f)
      then Inl RerateRequired else Inr ())"

text \<open>The quote as it was evaluated, compared by its canonical text.\<close>

definition evaluated_text :: "jsval \<Rightarrow> jsval \<Rightarrow> jsval \<Rightarrow> string" where
  "evaluated_text payload uw premium = canonical_proposal (JObj [(''payload'', payload), (''uw'', uw), (''premium'', premium)])"

definition check_bind :: "(string \<Rightarrow> string) \<Rightarrow> host \<Rightarrow> quote \<Rightarrow> nat \<Rightarrow> quote list \<Rightarrow> (quote_error, quote) outcome" where
  "check_bind digest h evaluated i qs =
     (case find_quote i qs of
        None \<Rightarrow> Inl QuoteNotFound
      | Some q \<Rightarrow>
          if qt_policy q \<noteq> None \<or> qt_status q = Some ''Converted'' \<or> qt_status q = Some ''Issued'' then Inl QuoteAlreadyBound
          else outcome_bind (assert_bindable_rating digest h (qt_payload q) (qt_underwriting q) (qt_premium q)) (\<lambda>_.
            if evaluated_text (qt_payload q) (qt_underwriting q) (qt_premium q)
               \<noteq> evaluated_text (qt_payload evaluated) (qt_underwriting evaluated) (qt_premium evaluated)
            then Inl QuoteChanged else Inr q))"

definition convert_quote :: "string \<Rightarrow> string \<Rightarrow> quote \<Rightarrow> nat \<Rightarrow> quote \<Rightarrow> quote" where
  "convert_quote now_iso who evaluated policy q =
     q\<lparr>qt_status := Some ''Converted'', qt_step := Fin 5, qt_policy := Some policy, qt_updated := now_iso, qt_by := who,
       qt_status_history := audit_json (upsert_quote_audit_history now_iso (qt_status_history evaluated) (JStr ''Converted'') now_iso who),
       qt_step_history := audit_json (upsert_quote_audit_history now_iso (qt_step_history evaluated) (JNum (Fin 5)) now_iso who)\<rparr>"

definition bind_quote ::
  "(string \<Rightarrow> string) \<Rightarrow> host \<Rightarrow> string \<Rightarrow> string \<Rightarrow> quote \<Rightarrow> nat \<Rightarrow> nat \<Rightarrow> quote list \<Rightarrow> (quote_error, quote list) outcome" where
  "bind_quote digest h now_iso who evaluated policy i qs =
     outcome_bind (check_bind digest h evaluated i qs) (\<lambda>_. Inr (update_quote i (convert_quote now_iso who evaluated policy) qs))"

subsection \<open>Histories\<close>

text \<open>What a history shows: a rating and a bind, each with the risk and the premium.\<close>

datatype quote_event =
    RatedEvent nat jsval jsval
  | BoundEvent nat jsval jsval

record quote_table =
  tb_quotes :: "quote list"
  tb_next :: nat

inductive quote_step :: "(string \<Rightarrow> string) \<Rightarrow> quote_table \<Rightarrow> quote_event list \<Rightarrow> quote_table \<Rightarrow> bool" for digest where
  draft_inserted: "insert_draft_quote h now_iso who (tb_next s) body (tb_quotes s) = Inr qs
    \<Longrightarrow> quote_step digest s [] \<lparr>tb_quotes = qs, tb_next = Suc (tb_next s)\<rparr>"
| quote_copied: "copy_quote h now_iso who i (tb_next s) effective (tb_quotes s) = Inr qs
    \<Longrightarrow> quote_step digest s [] \<lparr>tb_quotes = qs, tb_next = Suc (tb_next s)\<rparr>"
| quote_rated: "rate_quote digest h now_iso who (tb_next s) requested body premium uw (tb_quotes s) = Inr qs
    \<Longrightarrow> quote_step digest s [RatedEvent (case requested of None \<Rightarrow> tb_next s | Some i \<Rightarrow> i) (rated_risk h body) premium]
          \<lparr>tb_quotes = qs, tb_next = Suc (tb_next s)\<rparr>"
| draft_saved: "update_draft_quote digest h now_iso who i body (tb_quotes s) = Inr qs
    \<Longrightarrow> quote_step digest s [] (s\<lparr>tb_quotes := qs\<rparr>)"
| quote_bound: "find_quote i (tb_quotes s) = Some q \<Longrightarrow> bind_quote digest h now_iso who evaluated policy i (tb_quotes s) = Inr qs
    \<Longrightarrow> quote_step digest s [BoundEvent i (rated_risk h (qt_payload q)) (qt_premium q)] (s\<lparr>tb_quotes := qs\<rparr>)"

fun bound_ids :: "quote_event list \<Rightarrow> nat list" where
  "bound_ids [] = []"
| "bound_ids (BoundEvent i r p # es) = i # bound_ids es"
| "bound_ids (RatedEvent i r p # es) = bound_ids es"

lemma bound_ids_append [simp]: "bound_ids (xs @ ys) = bound_ids xs @ bound_ids ys"
  by (induction xs rule: bound_ids.induct) simp_all

text \<open>The rating a row holds is the fingerprint of a risk that was rated, with the premium of that rating.\<close>

definition holds_rating :: "(string \<Rightarrow> string) \<Rightarrow> quote_event list \<Rightarrow> nat \<Rightarrow> jsval \<Rightarrow> jsval \<Rightarrow> bool" where
  "holds_rating digest es i uw premium \<longleftrightarrow>
     (\<exists>risk. RatedEvent i risk premium \<in> set es \<and> stored_rating_fingerprint uw = Some (digest (canonical_proposal risk)))"

definition quote_ok :: "(string \<Rightarrow> string) \<Rightarrow> quote_event list \<Rightarrow> quote \<Rightarrow> bool" where
  "quote_ok digest es q \<longleftrightarrow>
     (qt_underwriting q = JNull \<or> holds_rating digest es (qt_id q) (qt_underwriting q) (qt_premium q))
     \<and> (qt_id q \<in> set (bound_ids es) \<longrightarrow> qt_policy q \<noteq> None)"

definition rated_before :: "(string \<Rightarrow> string) \<Rightarrow> quote_event list \<Rightarrow> quote_event \<Rightarrow> bool" where
  "rated_before digest es e =
     (case e of RatedEvent _ _ _ \<Rightarrow> True
      | BoundEvent i risk premium \<Rightarrow> \<exists>r. RatedEvent i r premium \<in> set es
          \<and> digest (canonical_proposal r) = digest (canonical_proposal risk))"

definition quotes_ok :: "(string \<Rightarrow> string) \<Rightarrow> quote_event list \<Rightarrow> quote_table \<Rightarrow> bool" where
  "quotes_ok digest es s \<longleftrightarrow>
     distinct (map qt_id (tb_quotes s)) \<and> (\<forall>q \<in> set (tb_quotes s). qt_id q < tb_next s \<and> quote_ok digest es q)
     \<and> each_after (rated_before digest) es
     \<and> distinct (bound_ids es) \<and> (\<forall>i \<in> set (bound_ids es). i < tb_next s)"

lemma quote_ok_more: "quote_ok digest es q \<Longrightarrow> qt_id q \<notin> set (bound_ids fs) \<Longrightarrow> quote_ok digest (es @ fs) q"
  by (auto simp: quote_ok_def holds_rating_def)

lemma find_quoteD: "find_quote i qs = Some q \<Longrightarrow> q \<in> set qs \<and> qt_id q = i"
  unfolding find_quote_def by (auto dest: find_first_Some)

text \<open>A row added, and a row changed.\<close>

lemma quotes_added:
  assumes ok: "quotes_ok digest es s" and q: "qt_id q = tb_next s"
    and rated: "qt_underwriting q = JNull \<or> holds_rating digest (es @ fs) (tb_next s) (qt_underwriting q) (qt_premium q)"
    and fs: "fs = [] \<or> (\<exists>i r p. fs = [RatedEvent i r p])"
  shows "quotes_ok digest (es @ fs) \<lparr>tb_quotes = tb_quotes s @ [q], tb_next = Suc (tb_next s)\<rparr>"
proof -
  have none: "bound_ids fs = []" using fs by auto
  have fresh: "tb_next s \<notin> qt_id ` set (tb_quotes s)" "tb_next s \<notin> set (bound_ids es)" using ok by (auto simp: quotes_ok_def)
  have "each_after (rated_before digest) (es @ fs)"
    using ok fs by (auto simp: quotes_ok_def rated_before_def intro: each_after_snoc)
  moreover have "quote_ok digest (es @ fs) q" using rated fresh q none by (simp add: quote_ok_def)
  moreover have "quote_ok digest (es @ fs) x \<and> qt_id x < Suc (tb_next s)" if "x \<in> set (tb_quotes s)" for x
    using ok that none quote_ok_more [of digest es x fs] by (auto simp: quotes_ok_def)
  ultimately show ?thesis using ok fresh none q by (auto simp: quotes_ok_def less_Suc_eq)
qed

lemma quotes_changed:
  assumes ok: "quotes_ok digest es s"
    and f: "\<And>q. q \<in> set (tb_quotes s) \<Longrightarrow> qt_id q = i \<Longrightarrow> qt_id (f q) = i \<and> quote_ok digest (es @ fs) (f q)"
    and fs: "\<And>x. x \<in> set (bound_ids fs) \<Longrightarrow> x = i" "distinct (bound_ids fs)"
      "i \<in> set (bound_ids fs) \<Longrightarrow> i \<notin> set (bound_ids es) \<and> i < tb_next s"
    and before: "each_after (rated_before digest) (es @ fs)" and n: "tb_next s \<le> n"
  shows "quotes_ok digest (es @ fs) \<lparr>tb_quotes = update_quote i f (tb_quotes s), tb_next = n\<rparr>"
proof -
  let ?g = "\<lambda>q. if qt_id q = i then f q else q"
  have ids: "map qt_id (map ?g (tb_quotes s)) = map qt_id (tb_quotes s)"
    unfolding map_map comp_def using f by (intro map_cong refl) simp
  have each: "qt_id (?g q) < n \<and> quote_ok digest (es @ fs) (?g q)" if "q \<in> set (tb_quotes s)" for q
  proof -
    from ok that have "qt_id q < n" "quote_ok digest es q" using n by (auto simp: quotes_ok_def)
    moreover have "quote_ok digest (es @ fs) q" if "qt_id q \<noteq> i"
      using quote_ok_more [OF \<open>quote_ok digest es q\<close>] fs(1) that by blast
    ultimately show ?thesis using f [OF that] by simp
  qed
  define rows where "rows = map ?g (tb_quotes s)"
  have "distinct (map qt_id rows)" using ok unfolding rows_def ids by (simp add: quotes_ok_def)
  moreover have "\<forall>q \<in> set rows. qt_id q < n \<and> quote_ok digest (es @ fs) q"
    unfolding rows_def set_map using each by blast
  moreover have "distinct (bound_ids (es @ fs))"
  proof -
    have "distinct (bound_ids es)" using ok by (simp add: quotes_ok_def)
    moreover have "set (bound_ids es) \<inter> set (bound_ids fs) = {}" using fs(1,3) by blast
    ultimately show ?thesis using fs(2) by simp
  qed
  moreover have "\<forall>x \<in> set (bound_ids (es @ fs)). x < n"
  proof
    fix x
    assume "x \<in> set (bound_ids (es @ fs))"
    then consider "x \<in> set (bound_ids es)" | "x \<in> set (bound_ids fs)" by auto
    then have "x < tb_next s"
    proof cases
      case 1
      moreover have "\<forall>x \<in> set (bound_ids es). x < tb_next s" using ok by (simp add: quotes_ok_def)
      ultimately show ?thesis by blast
    next
      case 2
      with fs(1,3) show ?thesis by blast
    qed
    with n show "x < n" by simp
  qed
  ultimately have "quotes_ok digest (es @ fs) \<lparr>tb_quotes = rows, tb_next = n\<rparr>"
    using before by (simp add: quotes_ok_def)
  then show ?thesis by (simp add: rows_def update_quote_def)
qed

subsection \<open>Every step keeps the histories sound\<close>

lemma fingerprint_stored:
  "digest (canonical_proposal (rated_risk h body)) \<noteq> []
   \<Longrightarrow> stored_rating_fingerprint (stored_underwriting digest h body uw) = Some (digest (canonical_proposal (rated_risk h body)))"
  by (simp add: stored_rating_fingerprint_def stored_underwriting_def rating_fingerprint_def get_def)

lemma new_quote_unrated [simp]: "qt_underwriting (new_quote now who i p st) = JNull" "qt_id (new_quote now who i p st) = i"
  by (simp_all add: new_quote_def)

lemma save_keeps:
  "qt_id (save_draft digest h now who body q) = qt_id q" "qt_policy (save_draft digest h now who body q) = qt_policy q"
  "qt_underwriting (save_draft digest h now who body q) = JNull
   \<or> qt_underwriting (save_draft digest h now who body q) = qt_underwriting q \<and> qt_premium (save_draft digest h now who body q) = qt_premium q"
  by (simp_all add: save_draft_def Let_def)

lemma rate_step_keeps:
  assumes ok: "quotes_ok digest es s" and d: "\<And>x. digest x \<noteq> []"
    and rate: "rate_quote digest h now who (tb_next s) requested body premium uw (tb_quotes s) = Inr qs"
  shows "quotes_ok digest (es @ [RatedEvent (case requested of None \<Rightarrow> tb_next s | Some i \<Rightarrow> i) (rated_risk h body) premium])
    \<lparr>tb_quotes = qs, tb_next = Suc (tb_next s)\<rparr>"
proof (cases requested)
  case None
  with rate obtain q where q: "qs = tb_quotes s @ [q]" "qt_id q = tb_next s" "qt_premium q = premium"
      "qt_underwriting q = stored_underwriting digest h body uw"
    by (auto simp: rate_quote_def Let_def)
  have "holds_rating digest (es @ [RatedEvent (tb_next s) (rated_risk h body) premium]) (tb_next s) (qt_underwriting q) (qt_premium q)"
    using fingerprint_stored [of digest h body uw] d by (auto simp: holds_rating_def q)
  with q None show ?thesis by (simp add: quotes_added [OF ok])
next
  case (Some i)
  with rate obtain f where f: "qs = update_quote i f (tb_quotes s)"
      "\<And>q. qt_id (f q) = qt_id q \<and> qt_premium (f q) = premium \<and> qt_underwriting (f q) = stored_underwriting digest h body uw
        \<and> qt_policy (f q) = qt_policy q"
    by (auto simp: rate_quote_def Let_def split: if_splits)
  have "qt_id (f q) = i \<and> quote_ok digest (es @ [RatedEvent i (rated_risk h body) premium]) (f q)"
    if "q \<in> set (tb_quotes s)" "qt_id q = i" for q
    using ok that f(2) [of q] fingerprint_stored [of digest h body uw] d by (auto simp: quotes_ok_def quote_ok_def holds_rating_def)
  moreover have "each_after (rated_before digest) (es @ [RatedEvent i (rated_risk h body) premium])"
    using ok by (auto simp: quotes_ok_def rated_before_def intro: each_after_snoc)
  ultimately show ?thesis unfolding f(1) Some option.case by (intro quotes_changed [OF ok]) simp_all
qed

lemma bind_step_keeps:
  assumes ok: "quotes_ok digest es s" and q: "find_quote i (tb_quotes s) = Some q"
    and bind: "bind_quote digest h now who evaluated policy i (tb_quotes s) = Inr qs"
  shows "quotes_ok digest (es @ [BoundEvent i (rated_risk h (qt_payload q)) (qt_premium q)]) (s\<lparr>tb_quotes := qs\<rparr>)"
proof -
  let ?e = "BoundEvent i (rated_risk h (qt_payload q)) (qt_premium q)"
  from bind q have qs: "qs = update_quote i (convert_quote now who evaluated policy) (tb_quotes s)" and free: "qt_policy q = None"
    and rated: "assert_bindable_rating digest h (qt_payload q) (qt_underwriting q) (qt_premium q) = Inr ()"
    by (auto simp: bind_quote_def check_bind_def split: if_splits)
  from ok find_quoteD [OF q] have qok: "quote_ok digest es q" "qt_id q = i" "i < tb_next s" by (auto simp: quotes_ok_def)
  from rated have "qt_underwriting q \<noteq> JNull" by (auto simp: assert_bindable_rating_def)
  with qok rated have "rated_before digest es ?e"
    by (auto simp: quote_ok_def holds_rating_def rated_before_def assert_bindable_rating_def rating_fingerprint_def split: if_splits)
  then have before: "each_after (rated_before digest) (es @ [?e])" using ok by (intro each_after_snoc) (simp_all add: quotes_ok_def)
  have "i \<notin> set (bound_ids es)" using qok free by (auto simp: quote_ok_def)
  moreover have "qt_id (convert_quote now who evaluated policy x) = i \<and> quote_ok digest (es @ [?e]) (convert_quote now who evaluated policy x)"
    if "x \<in> set (tb_quotes s)" "qt_id x = i" for x
    using ok that by (auto simp: quotes_ok_def quote_ok_def holds_rating_def convert_quote_def)
  ultimately have "quotes_ok digest (es @ [?e]) \<lparr>tb_quotes = qs, tb_next = tb_next s\<rparr>"
    unfolding qs using before qok(3) by (intro quotes_changed [OF ok]) simp_all
  then show ?thesis by (cases s) simp
qed

lemma quote_step_keeps:
  assumes "quote_step digest s fs s'" "quotes_ok digest es s \<and> (\<forall>x. digest x \<noteq> [])"
  shows "quotes_ok digest (es @ fs) s' \<and> (\<forall>x. digest x \<noteq> [])"
  using assms(1)
proof cases
  case (draft_inserted h now_iso who body qs)
  then show ?thesis using assms(2) quotes_added [of digest es s _ "[]"]
    by (auto simp: insert_draft_quote_def split: if_splits)
next
  case (quote_copied h now_iso who i effective qs)
  then show ?thesis using assms(2) quotes_added [of digest es s _ "[]"]
    by (auto simp: copy_quote_def split: option.splits)
next
  case (quote_rated h now_iso who requested body premium uw qs)
  then show ?thesis using assms(2) rate_step_keeps by simp
next
  case (draft_saved h now_iso who i body qs)
  then have qs: "qs = update_quote i (save_draft digest h now_iso who body) (tb_quotes s)"
    by (auto simp: update_draft_quote_def split: if_splits)
  have "quote_ok digest es (save_draft digest h now_iso who body q)" if "q \<in> set (tb_quotes s)" for q
    using assms(2) that save_keeps [of digest h now_iso who body q] by (auto simp: quotes_ok_def quote_ok_def)
  then have "quotes_ok digest (es @ []) \<lparr>tb_quotes = qs, tb_next = tb_next s\<rparr>"
    unfolding qs using assms(2) by (intro quotes_changed) (auto simp: save_keeps quotes_ok_def)
  with draft_saved assms(2) show ?thesis by (cases s) simp
next
  case (quote_bound h i q now_iso who evaluated policy qs)
  then show ?thesis using assms(2) bind_step_keeps by blast
qed

interpretation quotes: history_invariant "quote_step digest" "\<lambda>es s. quotes_ok digest es s \<and> (\<forall>x. digest x \<noteq> [])" for digest
  by unfold_locales (rule quote_step_keeps)

text \<open>C12: a quote is bound only on a risk and a premium that were rated together: in every history of drafts,
  ratings, draft saves, copies and binds, each bind of a quote follows a rating of it with the same premium and
  the same risk data up to the canonical form (payment fields and the product pin apart), and no quote is bound
  twice; given that the digest keeps texts apart and is never empty, as SHA-256 does.\<close>

theorem bound_on_the_risk_rated:
  assumes "trace (quote_step digest) s0 es s" "tb_quotes s0 = []" "inj digest" "\<forall>x. digest x \<noteq> []"
    and "es = before @ BoundEvent i risk premium # after"
  shows "(\<exists>r. RatedEvent i r premium \<in> set before \<and> form_of r = form_of risk) \<and> i \<notin> set (bound_ids (before @ after))"
proof -
  have "quotes_ok digest [] s0 \<and> (\<forall>x. digest x \<noteq> [])" using assms(2,4) by (simp add: quotes_ok_def)
  from quotes.ok_trace [OF assms(1) this] have "each_after (rated_before digest) es" "distinct (bound_ids es)"
    by (simp_all add: quotes_ok_def)
  with assms(5) have "rated_before digest before (BoundEvent i risk premium)" "i \<notin> set (bound_ids (before @ after))"
    by (auto dest: each_afterD)
  then show ?thesis using assms(3) by (auto simp: rated_before_def inj_eq canonical_text_inj)
qed

lemma find_update_quote: "(\<And>x. qt_id (f x) = qt_id x) \<Longrightarrow> find_quote i (update_quote i f qs) = map_option f (find_quote i qs)"
  unfolding find_quote_def update_quote_def by (induction qs) auto

lemma check_bind_self:
  "find_quote i qs = Some q \<Longrightarrow> qt_policy q = None \<Longrightarrow> qt_status q = Some ''Rated''
   \<Longrightarrow> assert_bindable_rating digest h (qt_payload q) (qt_underwriting q) (qt_premium q) = Inr ()
   \<Longrightarrow> check_bind digest h q i qs = Inr q"
  by (simp add: check_bind_def)

lemma fresh_rating_bindable:
  assumes "js_truthy premium" "digest (canonical_proposal (rated_risk h body)) \<noteq> []"
  shows "assert_bindable_rating digest h body (stored_underwriting digest h body uw) premium = Inr ()"
  using fingerprint_stored [of digest h body uw] assms
  by (simp add: assert_bindable_rating_def rating_fingerprint_def) (simp add: stored_underwriting_def)

lemma rating_updates:
  assumes "find_quote i qs = Some q"
  shows "\<exists>qs' q'. rate_quote digest h now_iso who n (Some i) body premium uw qs = Inr qs' \<and> find_quote i qs' = Some q'
    \<and> qt_policy q' = qt_policy q \<and> qt_status q' = Some ''Rated'' \<and> qt_payload q' = body \<and> qt_premium q' = premium
    \<and> qt_underwriting q' = stored_underwriting digest h body uw"
  using assms by (simp add: rate_quote_def Let_def find_update_quote)

text \<open>C38: A quote marked issued that has no policy of its own (an update of a quote can mark it so) refuses to
  be bound, but a rating of it, which asks nothing of its status, makes it bindable again. A quote
  converted to a policy keeps its policy in a rating and stays bound.\<close>

theorem rating_reopens_issued_quote:
  assumes "find_quote i qs = Some q" "qt_status q = Some ''Issued''" "qt_policy q = None"
    and "js_truthy premium" "digest (canonical_proposal (rated_risk h body)) \<noteq> []"
  shows "check_bind digest h evaluated i qs = Inl QuoteAlreadyBound
    \<and> (\<exists>qs' q'. rate_quote digest h now_iso who n (Some i) body premium uw qs = Inr qs' \<and> check_bind digest h q' i qs' = Inr q')"
proof -
  obtain qs' q' where "rate_quote digest h now_iso who n (Some i) body premium uw qs = Inr qs'" "find_quote i qs' = Some q'"
      "qt_policy q' = None" "qt_status q' = Some ''Rated''" "qt_payload q' = body" "qt_premium q' = premium"
      "qt_underwriting q' = stored_underwriting digest h body uw"
    using rating_updates [OF assms(1), of digest h now_iso who n body premium uw] assms(3) by auto
  moreover from this have "check_bind digest h q' i qs' = Inr q'"
    using fresh_rating_bindable [of premium digest h body uw] assms(4,5) by (intro check_bind_self) simp_all
  moreover have "check_bind digest h evaluated i qs = Inl QuoteAlreadyBound" using assms(1-3) by (simp add: check_bind_def)
  ultimately show ?thesis by blast
qed

text \<open>A quote rated, then bound; and an issued one.\<close>

definition prefixed :: "string \<Rightarrow> string" where
  "prefixed s = CHR ''h'' # s"

definition example_clock :: host where
  "example_clock = \<lparr>today_str = ''2025-01-01'', date_parse = (\<lambda>_. None), local_ymd = (\<lambda>_. (2025, 1, 1))\<rparr>"

definition example_body :: jsval where
  "example_body = JObj [(''effectiveDate'', JStr ''2025-01-01''), (''limit'', JNum (Fin 5)), (''paymentPlan'', JStr ''full'')]"

definition example_issued :: quote where
  "example_issued = (new_quote ''t'' ''u'' 0 example_body (Fin 1))\<lparr>qt_status := Some ''Issued''\<rparr>"

lemma example_issued_fields:
  "qt_id example_issued = 0" "qt_status example_issued = Some ''Issued''" "qt_policy example_issued = None"
  by (simp_all add: example_issued_def new_quote_def)

lemma prefixed_inj: "inj prefixed" "prefixed x \<noteq> []"
  by (simp_all add: inj_def prefixed_def)

definition example_quote_history :: "quote_event list" where
  "example_quote_history = [RatedEvent 0 (rated_risk example_clock example_body) (JNum (Fin 9))]"

lemma example_bound:
  "\<exists>s. trace (quote_step prefixed) \<lparr>tb_quotes = [], tb_next = 0\<rparr>
      (example_quote_history @ BoundEvent 0 (rated_risk example_clock example_body) (JNum (Fin 9)) # []) s"
proof -
  let ?rate = "rate_quote prefixed example_clock ''t'' ''u'' 0 None example_body (JNum (Fin 9)) (JObj []) []"
  obtain q where q: "?rate = Inr [q]" "qt_id q = 0" "qt_policy q = None" "qt_status q = Some ''Rated''"
      "qt_payload q = example_body" "qt_premium q = JNum (Fin 9)"
      "qt_underwriting q = stored_underwriting prefixed example_clock example_body (JObj [])"
    by (simp add: rate_quote_def new_quote_def)
  have "assert_bindable_rating prefixed example_clock example_body (stored_underwriting prefixed example_clock example_body (JObj []))
      (JNum (Fin 9)) = Inr ()"
    by (rule fresh_rating_bindable) (simp_all add: prefixed_inj)
  with q have check: "check_bind prefixed example_clock q 0 [q] = Inr q"
    by (intro check_bind_self) (simp_all add: find_quote_def)
  define s1 where "s1 = \<lparr>tb_quotes = [q], tb_next = Suc 0\<rparr>"
  have 1: "quote_step prefixed \<lparr>tb_quotes = [], tb_next = 0\<rparr> example_quote_history s1"
    using quote_rated [of prefixed example_clock "''t''" "''u''" "\<lparr>tb_quotes = [], tb_next = 0\<rparr>" None example_body "JNum (Fin 9)" "JObj []" "[q]"] q(1)
    by (simp add: s1_def example_quote_history_def)
  have "quote_step prefixed s1 [BoundEvent 0 (rated_risk example_clock example_body) (JNum (Fin 9))]
      (s1\<lparr>tb_quotes := update_quote 0 (convert_quote ''t'' ''u'' q 7) [q]\<rparr>)"
    using quote_bound [of 0 s1 q prefixed example_clock "''t''" "''u''" q 7 "update_quote 0 (convert_quote ''t'' ''u'' q 7) [q]"] q check
    by (simp add: s1_def find_quote_def bind_quote_def)
  note steps = 1 [THEN trace_single [where step = "quote_step prefixed"]] this [THEN trace_single [where step = "quote_step prefixed"]]
  from trace_append [OF steps] show ?thesis by auto
qed

theorem bound_on_the_risk_rated_witness:
  "(\<exists>r. RatedEvent 0 r (JNum (Fin 9)) \<in> set example_quote_history \<and> form_of r = form_of (rated_risk example_clock example_body))
   \<and> 0 \<notin> set (bound_ids (example_quote_history @ []))"
proof -
  obtain s where "trace (quote_step prefixed) \<lparr>tb_quotes = [], tb_next = 0\<rparr>
      (example_quote_history @ BoundEvent 0 (rated_risk example_clock example_body) (JNum (Fin 9)) # []) s"
    using example_bound by blast
  then show ?thesis by (rule bound_on_the_risk_rated) (simp_all add: prefixed_inj)
qed

theorem rating_reopens_issued_quote_witness:
  "check_bind prefixed example_clock example_issued 0 [example_issued] = Inl QuoteAlreadyBound
   \<and> (\<exists>qs' q'. rate_quote prefixed example_clock ''t'' ''u'' 1 (Some 0) example_body (JNum (Fin 9)) (JObj []) [example_issued] = Inr qs'
        \<and> check_bind prefixed example_clock q' 0 qs' = Inr q')"
  by (rule rating_reopens_issued_quote [of _ _ example_issued]) (simp_all add: find_quote_def prefixed_inj example_issued_fields)

end
