(* ===== verification/Underwriting.thy ===== *)
theory Underwriting
  imports JsValue DateUtils Traces
begin

text \<open>
  Underwriting decisions, \<open>server/src/services/uw.service.ts\<close>: the rules an administrator configures
  (\<open>underwriting-rule-fields.ts\<close> and the part of \<open>server/src/routes/uw.routes.ts\<close> that writes them) and the
  built-in checks of the five products. The table \<open>underwriting_rules\<close> is a list of rows; its casts of a
  date, a boolean and a text are arguments (\<open>None\<close> when the database rejects the value), as are today's date,
  whether the package requires rules, and the overrides of the tenant's configuration. The query names no
  order: the rows decide in the order of the list.
\<close>

datatype uw_decision = Eligible | Refer | Decline

type_synonym uw_result = "uw_decision \<times> string list"

fun severity :: "uw_decision \<Rightarrow> nat" where
  "severity Eligible = 0" | "severity Refer = 1" | "severity Decline = 2"

definition max_decision :: "uw_decision \<Rightarrow> uw_decision \<Rightarrow> uw_decision" where
  "max_decision cur next_decision = (if severity cur < severity next_decision then next_decision else cur)"

subsection \<open>The catalog of fields\<close>

datatype uw_type = UwNumber | UwString | UwBoolean

record uw_field =
  uf_path :: string
  uf_type :: uw_type
  uf_operators :: "string list"

definition NUMBER_OPERATORS :: "string list" where
  "NUMBER_OPERATORS = [''equals'', ''not_equals'', ''greater_than'', ''greater_than_or_equal'', ''less_than'',
     ''less_than_or_equal'', ''in'', ''not_in'']"

definition STRING_OPERATORS :: "string list" where
  "STRING_OPERATORS = [''equals'', ''not_equals'', ''in'', ''not_in'']"

definition BOOLEAN_OPERATORS :: "string list" where
  "BOOLEAN_OPERATORS = [''is_true'', ''is_false'']"

definition number_field :: "string \<Rightarrow> uw_field" where
  "number_field p = \<lparr>uf_path = p, uf_type = UwNumber, uf_operators = NUMBER_OPERATORS\<rparr>"

definition string_field :: "string \<Rightarrow> uw_field" where
  "string_field p = \<lparr>uf_path = p, uf_type = UwString, uf_operators = STRING_OPERATORS\<rparr>"

definition boolean_field :: "string \<Rightarrow> uw_field" where
  "boolean_field p = \<lparr>uf_path = p, uf_type = UwBoolean, uf_operators = BOOLEAN_OPERATORS\<rparr>"

definition UW_FIELD_CATALOG :: "(string \<times> uw_field list) list" where
  "UW_FIELD_CATALOG =
    [(''personal-auto'',
       [number_field ''uwAnswers.driverAge'', number_field ''risks[0].driverAge'', string_field ''risks[0].garagingZip'',
        number_field ''risks[0].annualMiles'', string_field ''risks[0].usage'', string_field ''risks[0].symbol'']),
     (''commercial-auto'',
       [number_field ''risks[0].vehicleCount'', number_field ''risks[0].driverCount'', string_field ''risks[0].garagingZip'',
        string_field ''risks[0].radiusClass'', string_field ''risks[0].vehicleType'', string_field ''risks[0].gvwClass'',
        number_field ''risks[0].annualMileage'', number_field ''risks[0].yearsInBusiness'', number_field ''risks[0].priorLossesCount'']),
     (''homeowners'', [number_field ''risks[0].roofAgeYears'', number_field ''risks[0].protectionClass'']),
     (''cyber'',
       [string_field ''risks[0].industry'', number_field ''risks[0].annualRevenue'', number_field ''risks[0].employeeCount'',
        number_field ''risks[0].recordsCount'', number_field ''risks[0].priorIncidents'', boolean_field ''risks[0].mfaEnabled'',
        boolean_field ''risks[0].endpointProtection'', string_field ''risks[0].backups'', number_field ''risks[0].publicFacingApps'']),
     (''professional-liability'',
       [string_field ''risks[0].industry'', number_field ''risks[0].annualRevenue'', number_field ''risks[0].employeeCount'',
        number_field ''risks[0].yearsInBusiness'', number_field ''risks[0].largestContractValue'',
        number_field ''risks[0].subcontractorPct'', boolean_field ''risks[0].writtenContracts'', string_field ''risks[0].qualityControl'',
        number_field ''risks[0].retroactiveYears'', number_field ''risks[0].priorClaimsCount''])]"

definition list_uw_fields_for_product :: "string \<Rightarrow> uw_field list" where
  "list_uw_fields_for_product product_code = (case aget UW_FIELD_CATALOG product_code of None \<Rightarrow> [] | Some fs \<Rightarrow> fs)"

definition find_uw_field_catalog_entry :: "string \<Rightarrow> string \<Rightarrow> uw_field option" where
  "find_uw_field_catalog_entry product_code path = find_first (\<lambda>f. uf_path f = path) (list_uw_fields_for_product product_code)"

subsection \<open>The value at a path\<close>

datatype path_token = PName string | PIndex nat

definition name_char :: "char \<Rightarrow> bool" where
  "name_char c = (c \<noteq> CHR ''.'' \<and> c \<noteq> CHR ''['' \<and> c \<noteq> CHR '']'')"

definition scan_index :: "string \<Rightarrow> (nat \<times> string) option" where
  "scan_index s =
     (let ds = takeWhile is_digit s
      in case dropWhile is_digit s of
           [] \<Rightarrow> None
         | c # rest \<Rightarrow> if ds \<noteq> [] \<and> c = CHR '']'' then Some (nat (int_of_digits ds), rest) else None)"

lemma scan_index_shorter: "scan_index s = Some (i, rest) \<Longrightarrow> length rest < length s"
proof -
  assume "scan_index s = Some (i, rest)"
  then obtain c where "dropWhile is_digit s = c # rest" by (auto simp: scan_index_def Let_def split: list.splits if_splits)
  then have "length (c # rest) \<le> length s" by (metis length_dropWhile_le)
  then show ?thesis by simp
qed

function path_tokens :: "string \<Rightarrow> path_token list" where
  "path_tokens [] = []"
| "path_tokens (c # s) =
     (if name_char c then PName (c # takeWhile name_char s) # path_tokens (dropWhile name_char s)
      else case (if c = CHR ''['' then scan_index s else None) of
             Some (i, rest) \<Rightarrow> PIndex i # path_tokens rest
           | None \<Rightarrow> path_tokens s)"
  by pat_completeness auto
termination
proof (relation "measure length", goal_cases)
  case (2 c s)
  then show ?case by (simp add: less_Suc_eq_le length_dropWhile_le)
next
  case (4 c s x i rest)
  then show ?case by (auto dest!: scan_index_shorter split: if_splits)
qed auto

fun follow_path :: "jsval \<Rightarrow> path_token list \<Rightarrow> jsval" where
  "follow_path v [] = v"
| "follow_path v (PIndex i # ts) = (case v of JArr vs \<Rightarrow> follow_path (if i < length vs then vs ! i else JUndef) ts | _ \<Rightarrow> JUndef)"
| "follow_path v (PName k # ts) = (if is_objlike v then follow_path (get v k) ts else JUndef)"

definition resolve_field_value :: "jsval \<Rightarrow> string \<Rightarrow> jsval" where
  "resolve_field_value payload path =
     (if nullish payload \<or> trim path = [] \<or> path_tokens path = [] then JUndef else follow_path payload (path_tokens path))"

subsection \<open>Conditions\<close>

definition coerce_boolean :: "jsval \<Rightarrow> bool option" where
  "coerce_boolean v =
     (case v of
        JBool b \<Rightarrow> Some b
      | JNum n \<Rightarrow> if n = Fin 1 then Some True else if n = Fin 0 then Some False else None
      | JStr s \<Rightarrow>
          let t = lower (trim s)
          in if t = ''true'' \<or> t = ''yes'' \<or> t = ''1'' then Some True
             else if t = ''false'' \<or> t = ''no'' \<or> t = ''0'' \<or> t = [] then Some False else None
      | _ \<Rightarrow> None)"

definition normalize_comparable :: "jsval \<Rightarrow> jsval" where
  "normalize_comparable v =
     (if nullish v then JNull
      else case v of JNum n \<Rightarrow> JNum n | JBool b \<Rightarrow> JStr (if b then ''true'' else ''false'') | _ \<Rightarrow> JStr (lower (trim (to_str v))))"

definition comparably_equal :: "jsval \<Rightarrow> jsval \<Rightarrow> bool" where
  "comparably_equal a b =
     (let x = normalize_comparable a; y = normalize_comparable b in x \<noteq> JNull \<and> y \<noteq> JNull \<and> strict_eq x y)"

definition one_of :: "jsval \<Rightarrow> jsval \<Rightarrow> bool" where
  "one_of a list_value =
     (let x = normalize_comparable a
      in x \<noteq> JNull \<and> list_ex (\<lambda>item. strict_eq (normalize_comparable item) x)
           (case list_value of JArr vs \<Rightarrow> vs | v \<Rightarrow> [v]))"

definition apply_operator :: "jsval \<Rightarrow> string \<Rightarrow> jsval \<Rightarrow> bool" where
  "apply_operator field operator comparison =
     (if field = JUndef then operator = ''is_false''
      else if operator = ''is_true'' then coerce_boolean field = Some True
      else if operator = ''is_false'' then coerce_boolean field \<noteq> Some True
      else if operator = ''equals'' then comparably_equal field comparison
      else if operator = ''not_equals'' then \<not> comparably_equal field comparison
      else if operator = ''in'' then one_of field comparison
      else if operator = ''not_in'' then \<not> one_of field comparison
      else if operator \<in> {''greater_than'', ''greater_than_or_equal'', ''less_than'', ''less_than_or_equal''} then
        (let a = to_num field; b = to_num comparison
         in if a = NaN \<or> b = NaN then False
            else if operator = ''greater_than'' then jlt b a
            else if operator = ''greater_than_or_equal'' then jle b a
            else if operator = ''less_than'' then jlt a b
            else jle a b)
      else False)"

subsection \<open>Configured rules\<close>

record uw_rule =
  ur_id :: nat
  ur_tenant :: string
  ur_product :: string
  ur_state :: "string option"
  ur_path :: string
  ur_operator :: string
  ur_comparison :: jsval
  ur_outcome :: uw_decision
  ur_code :: string
  ur_reason :: string
  ur_active :: bool
  ur_effective :: string
  ur_expiration :: "string option"

datatype uw_store = NoDatabase | NoRuleTable | RuleTable "uw_rule list"

datatype uw_error =
    DateCastFailed
  | UnderwritingNotConfigured
  | UwInvalidInput
  | UwInvalidOutcome
  | UnknownFieldPath
  | UnsupportedOperator
  | RuleNotFound
  | ConstraintViolated

record uw_casts =
  cast_to_date :: "jsval \<Rightarrow> string option"
  cast_to_bool :: "jsval \<Rightarrow> bool option"
  cast_to_text :: "jsval \<Rightarrow> string option"

definition normalize_state_code :: "jsval \<Rightarrow> string option" where
  "normalize_state_code v = (let s = upper (trim (str_or_empty v)) in if length s = 2 then Some s else None)"

definition normalize_effective_date :: "string \<Rightarrow> jsval \<Rightarrow> string" where
  "normalize_effective_date today v = (let c = trim (str_or_empty v) in if date_only c then c else today)"

definition rule_applies :: "string \<Rightarrow> string \<Rightarrow> string option \<Rightarrow> string \<Rightarrow> uw_rule \<Rightarrow> bool" where
  "rule_applies tenant product_code state day r \<longleftrightarrow>
     ur_tenant r = tenant \<and> ur_product r = product_code \<and> ur_active r
     \<and> (ur_state r = None \<or> ur_state r = state) \<and> ur_effective r \<le> day
     \<and> (case ur_expiration r of None \<Rightarrow> True | Some e \<Rightarrow> day \<le> e)"

definition evaluate_rule_condition :: "jsval \<Rightarrow> uw_rule \<Rightarrow> bool" where
  "evaluate_rule_condition payload r = apply_operator (resolve_field_value payload (ur_path r)) (ur_operator r) (ur_comparison r)"

definition add_finding :: "uw_result \<Rightarrow> string \<times> uw_decision \<Rightarrow> uw_result" where
  "add_finding res f = (max_decision (fst res) (snd f), snd res @ [fst f])"

definition evaluate_uw_rules ::
  "uw_casts \<Rightarrow> string \<Rightarrow> uw_store \<Rightarrow> string \<Rightarrow> jsval \<Rightarrow> jsval \<Rightarrow> (uw_error, uw_result option) outcome" where
  "evaluate_uw_rules casts today store tenant product_code payload =
     (if tenant = [] \<or> \<not> js_truthy product_code then Inr None
      else case store of
             NoDatabase \<Rightarrow> Inr None
           | NoRuleTable \<Rightarrow> Inr None
           | RuleTable rules \<Rightarrow>
               (case cast_to_date casts (JStr (normalize_effective_date today (get payload ''effectiveDate''))) of
                  None \<Rightarrow> Inl DateCastFailed
                | Some day \<Rightarrow>
                    let rows = filter (rule_applies tenant (to_str product_code) (normalize_state_code (get payload ''state'')) day) rules
                    in if rows = [] then Inr None
                       else Inr (Some (foldl (\<lambda>res r. if evaluate_rule_condition payload r then add_finding res (ur_reason r, ur_outcome r) else res)
                              (Eligible, []) rows))))"

subsection \<open>The built-in checks\<close>

text \<open>What a check that fires adds: its reason and its outcome. An outcome of \<open>Decline\<close> is assigned, the others escalate.\<close>

definition found :: "string \<Rightarrow> uw_decision \<Rightarrow> (string \<times> uw_decision) list" where
  "found reason outcome = [(reason, outcome)]"

definition known :: "jnum \<Rightarrow> bool" where
  "known n = (n \<noteq> NaN)"

definition optional_risk :: "jsval \<Rightarrow> jsval" where
  "optional_risk payload = get (get payload ''risks'') ''0''"

definition risk_object :: "jsval \<Rightarrow> jsval" where
  "risk_object payload =
     (case get payload ''risks'' of JArr vs \<Rightarrow> js_or (get (JArr vs) ''0'') (JObj []) | _ \<Rightarrow> JObj [])"

definition lower_text :: "jsval \<Rightarrow> string" where
  "lower_text v = lower (str_or_empty v)"

definition personal_auto_checks :: "jsval \<Rightarrow> (string \<times> uw_decision) list" where
  "personal_auto_checks payload =
     (let risk = optional_risk payload;
          age = to_num (js_nc (get (get payload ''uwAnswers'') ''driverAge'') (get risk ''driverAge''));
          zip = get risk ''garagingZip''; miles = to_num (get risk ''annualMiles'');
          usage = lower_text (get risk ''usage''); symbol = upper (str_or_empty (get risk ''symbol''))
      in (if known age then
            if jlt age (Fin 16) then found ''Driver age under 16 (decline)'' Decline
            else if jlt age (Fin 18) then found ''Driver age under 18 (refer)'' Refer else []
          else [])
         @ (if \<not> js_truthy zip \<or> length (to_str zip) \<noteq> 5 then found ''Invalid garaging ZIP (refer)'' Refer else [])
         @ (if known miles \<and> jlt (Fin 35000) miles then found ''Annual miles > 35k (refer)'' Refer else [])
         @ (if usage = ''rideshare'' \<or> usage = ''commercial'' then found ''Commercial/rideshare use (refer)'' Refer else [])
         @ (if list_ex (has_substring symbol) [''EXOTIC'', ''PERF'', ''SUPER''] then found ''High-performance symbol (refer)'' Refer else []))"

definition five_digits :: "string \<Rightarrow> bool" where
  "five_digits s = (length s = 5 \<and> list_all is_digit s)"

definition commercial_auto_checks :: "jsval \<Rightarrow> (string \<times> uw_decision) list" where
  "commercial_auto_checks payload =
     (let risk = risk_object payload;
          vehicles = to_num (get risk ''vehicleCount''); drivers = to_num (get risk ''driverCount'');
          mileage = to_num (get risk ''annualMileage''); years = to_num (get risk ''yearsInBusiness'');
          losses = to_num (get risk ''priorLossesCount''); radius = lower_text (get risk ''radiusClass'');
          vehicle = lower_text (get risk ''vehicleType''); gvw = lower_text (get risk ''gvwClass'')
      in (if \<not> five_digits (str_or_empty (get risk ''garagingZip'')) then found ''Invalid primary garaging ZIP (refer)'' Refer else [])
         @ (if known vehicles \<and> jlt (Fin 150) vehicles then found ''Fleet size > 150 vehicles (decline)'' Decline
            else if known vehicles \<and> jlt (Fin 50) vehicles then found ''Fleet size > 50 vehicles (refer)'' Refer else [])
         @ (if known drivers \<and> known vehicles \<and> jlt (Fin 0) vehicles \<and> jlt (Fin 4) (jdiv drivers vehicles)
            then found ''High driver-to-vehicle ratio (refer)'' Refer else [])
         @ (if radius = ''long-haul'' then found ''Long-haul operations (refer)'' Refer else [])
         @ (if vehicle = ''tractor-trailer'' then found ''Tractor-trailer exposure requires underwriting review (refer)'' Refer else [])
         @ (if vehicle = ''dump-truck'' \<or> gvw = ''heavy'' then found ''Heavy commercial vehicle exposure (refer)'' Refer else [])
         @ (if known mileage \<and> jlt (Fin 100000) mileage then found ''Average annual mileage > 100,000 (refer)'' Refer else [])
         @ (if known losses \<and> jle (Fin 6) losses then found ''6+ prior commercial auto losses (decline)'' Decline
            else if known losses \<and> jle (Fin 3) losses then found ''Multiple prior commercial auto losses (refer)'' Refer else [])
         @ (if known years \<and> jlt years (Fin 1) then found ''New venture < 1 year in business (refer)'' Refer else []))"

definition homeowners_checks :: "jsval \<Rightarrow> (string \<times> uw_decision) list" where
  "homeowners_checks payload =
     (let roof = to_num (get (optional_risk payload) ''roofAgeYears''); pc = to_num (get (optional_risk payload) ''protectionClass'')
      in (if known roof \<and> jlt (Fin 30) roof then found ''Roof age > 30 (decline)'' Decline
          else if known roof \<and> jle (Fin 20) roof then found ''Roof age 20-30 (refer)'' Refer else [])
         @ (if known pc \<and> jle (Fin 9) pc then found ''Protection class 9-10 (decline)'' Decline
            else if known pc \<and> jle (Fin 7) pc then found ''Protection class 7-8 (refer)'' Refer else []))"

definition affirmed :: "jsval \<Rightarrow> bool" where
  "affirmed v = (lower_text v = ''true'' \<or> lower_text v = ''yes'' \<or> lower_text v = ''1'')"

definition cyber_checks :: "jsval \<Rightarrow> (string \<times> uw_decision) list" where
  "cyber_checks payload =
     (let risk = risk_object payload;
          revenue = to_num (get risk ''annualRevenue''); employees = to_num (get risk ''employeeCount'');
          records = to_num (get risk ''recordsCount''); incidents = to_num (get risk ''priorIncidents'');
          backups = lower_text (get risk ''backups'')
      in (if known incidents \<and> jle (Fin 3) incidents then found ''3+ prior cyber incidents (decline)'' Decline
          else if known incidents \<and> jlt (Fin 0) incidents then found ''Prior cyber incident history (refer)'' Refer else [])
         @ (if \<not> affirmed (get risk ''mfaEnabled'') then found ''MFA not fully enabled (refer)'' Refer else [])
         @ (if backups = ''none'' then found ''No backup controls declared (decline)'' Decline
            else if backups = ''monthly'' then found ''Infrequent backup controls (refer)'' Refer else [])
         @ (if known revenue \<and> jlt (Fin 100000000) revenue then found ''Large revenue profile > $100M (refer)'' Refer else [])
         @ (if known employees \<and> jlt (Fin 5000) employees then found ''Large workforce > 5,000 (refer)'' Refer else [])
         @ (if known records \<and> jlt (Fin 5000000) records then found ''Very high sensitive records count (refer)'' Refer else []))"

definition professional_liability_checks :: "jsval \<Rightarrow> (string \<times> uw_decision) list" where
  "professional_liability_checks payload =
     (let risk = risk_object payload;
          claims = to_num (get risk ''priorClaimsCount''); years = to_num (get risk ''yearsInBusiness'');
          revenue = to_num (get risk ''annualRevenue''); subcontracted = to_num (get risk ''subcontractorPct'');
          retro = to_num (get risk ''retroactiveYears''); largest = to_num (get risk ''largestContractValue'')
      in (if known claims \<and> jle (Fin 4) claims then found ''4+ prior professional liability claims (decline)'' Decline
          else if known claims \<and> jle (Fin 2) claims then found ''Multiple prior professional liability claims (refer)'' Refer else [])
         @ (if known years \<and> jlt years (Fin 1) then found ''Startup or new venture with less than 1 year operations (refer)'' Refer else [])
         @ (if known revenue \<and> jlt (Fin 50000000) revenue then found ''Revenue profile > $50M (refer)'' Refer else [])
         @ (if known subcontracted \<and> jlt (Fin 75) subcontracted then found ''Subcontracted work exceeds 75% of revenue (refer)'' Refer else [])
         @ (if \<not> affirmed (get risk ''writtenContracts'')
            then found ''Written engagement contracts not consistently used (refer)'' Refer else [])
         @ (if lower_text (get risk ''qualityControl'') = ''limited'' then found ''Limited QA / peer review controls (refer)'' Refer else [])
         @ (if known retro \<and> jlt retro (Fin 1) then found ''No prior acts / retroactive coverage history (refer)'' Refer else [])
         @ (if known largest \<and> known revenue \<and> jlt (Fin 0) revenue \<and> jlt (Fin 40) (jmul (jdiv largest revenue) (Fin 100))
            then found ''High single-client / contract concentration (refer)'' Refer else []))"

definition override_checks :: "jsval \<Rightarrow> jsval \<Rightarrow> jsval \<Rightarrow> (string \<times> uw_decision) list" where
  "override_checks overrides product_code payload =
     concat (map (\<lambda>r. let roof = to_num (get (optional_risk payload) ''roofAgeYears'')
       in if get r ''id'' = JStr ''HO-ROOF-AGE'' \<and> product_code = JStr ''homeowners'' \<and> known roof \<and> jlt (Fin 25) roof
          then found ''Roof age > 25 (refer)'' Refer else []) (items overrides))"

definition builtin_checks :: "jsval \<Rightarrow> jsval \<Rightarrow> (string \<times> uw_decision) list" where
  "builtin_checks product_code payload =
     (if product_code = JStr ''personal-auto'' then personal_auto_checks payload
      else if product_code = JStr ''commercial-auto'' then commercial_auto_checks payload
      else if product_code = JStr ''homeowners'' then homeowners_checks payload
      else if product_code = JStr ''cyber'' then cyber_checks payload
      else if product_code = JStr ''professional-liability'' then professional_liability_checks payload else [])"

definition evaluate_uw_fallback :: "jsval \<Rightarrow> jsval \<Rightarrow> jsval \<Rightarrow> uw_result" where
  "evaluate_uw_fallback overrides product_code payload =
     foldl (\<lambda>res f. if snd f = Decline then (Decline, snd res @ [fst f]) else add_finding res f) (Eligible, [])
       (builtin_checks product_code payload @ override_checks overrides product_code payload)"

definition evaluate_uw ::
  "uw_casts \<Rightarrow> string \<Rightarrow> uw_store \<Rightarrow> bool \<Rightarrow> jsval \<Rightarrow> string \<Rightarrow> jsval \<Rightarrow> (uw_error, uw_result) outcome" where
  "evaluate_uw casts today store rules_required overrides tenant payload =
     outcome_bind (evaluate_uw_rules casts today store tenant (get payload ''productCode'') payload) (\<lambda>configured.
       case configured of
         Some res \<Rightarrow> Inr res
       | None \<Rightarrow>
           if get payload ''productCode'' = JStr ''businessowners'' \<and> rules_required then Inl UnderwritingNotConfigured
           else Inr (evaluate_uw_fallback overrides (get payload ''productCode'') payload))"

subsection \<open>Writing rules\<close>

definition outcome_of :: "string \<Rightarrow> uw_decision option" where
  "outcome_of s = (if s = ''Refer'' then Some Refer else if s = ''Decline'' then Some Decline else None)"

definition check_field :: "string \<Rightarrow> string \<Rightarrow> string \<Rightarrow> (uw_error, unit) outcome" where
  "check_field product_code path operator =
     (case find_uw_field_catalog_entry product_code path of
        None \<Rightarrow> Inl UnknownFieldPath
      | Some f \<Rightarrow> if operator \<in> set (uf_operators f) then Inr () else Inl UnsupportedOperator)"

text \<open>A cast of a column that may be null, and the check of the two dates.\<close>

definition cast_optional :: "uw_casts \<Rightarrow> jsval \<Rightarrow> (uw_error, string option) outcome" where
  "cast_optional casts v =
     (if js_truthy v then case cast_to_date casts v of None \<Rightarrow> Inl DateCastFailed | Some d \<Rightarrow> Inr (Some d) else Inr None)"

definition store_rule :: "uw_rule \<Rightarrow> (uw_error, uw_rule) outcome" where
  "store_rule r =
     (case ur_expiration r of Some e \<Rightarrow> if e < ur_effective r then Inl ConstraintViolated else Inr r | None \<Rightarrow> Inr r)"

definition create_rule :: "uw_casts \<Rightarrow> string \<Rightarrow> string \<Rightarrow> nat \<Rightarrow> jsval \<Rightarrow> uw_rule list \<Rightarrow> (uw_error, uw_rule list) outcome" where
  "create_rule casts today tenant i body rules =
     (let txt = (\<lambda>k. trim (str_or_empty (get body k)))
      in if list_ex (\<lambda>k. txt k = []) [''productCode'', ''fieldPath'', ''operator'', ''outcome'', ''reasonCode'', ''reasonDescription'']
         then Inl UwInvalidInput
         else case outcome_of (txt ''outcome'') of
           None \<Rightarrow> Inl UwInvalidOutcome
         | Some out \<Rightarrow>
             if nullish (get body ''comparisonValue'') then Inl UwInvalidInput
             else outcome_bind (check_field (txt ''productCode'') (txt ''fieldPath'') (txt ''operator'')) (\<lambda>_.
               case cast_to_date casts (js_or (get body ''effectiveDate'') (JStr today)) of
                 None \<Rightarrow> Inl DateCastFailed
               | Some eff \<Rightarrow> outcome_bind (cast_optional casts (get body ''expirationDate'')) (\<lambda>expires.
                   outcome_bind (store_rule
                     \<lparr>ur_id = i, ur_tenant = tenant, ur_product = txt ''productCode'',
                      ur_state = (if nullish (get body ''stateCode'') then None else normalize_state_code (get body ''stateCode'')),
                      ur_path = txt ''fieldPath'', ur_operator = txt ''operator'', ur_comparison = get body ''comparisonValue'',
                      ur_outcome = out, ur_code = txt ''reasonCode'', ur_reason = txt ''reasonDescription'',
                      ur_active = (get body ''active'' \<noteq> JBool False), ur_effective = eff, ur_expiration = expires\<rparr>)
                     (\<lambda>r. Inr (rules @ [r])))))"

definition in_body :: "jsval \<Rightarrow> string \<Rightarrow> bool" where
  "in_body body k = (own body k \<noteq> None)"

definition patch_text :: "uw_casts \<Rightarrow> jsval \<Rightarrow> string \<Rightarrow> string \<Rightarrow> (uw_error, string) outcome" where
  "patch_text casts body k old =
     (if in_body body k then case cast_to_text casts (get body k) of None \<Rightarrow> Inl ConstraintViolated | Some t \<Rightarrow> Inr t else Inr old)"

text \<open>The path and the operator of a patch, checked when either changes.\<close>

definition patch_condition :: "jsval \<Rightarrow> uw_rule \<Rightarrow> (uw_error, string \<times> string) outcome" where
  "patch_condition body r =
     (let path = (if get body ''fieldPath'' \<noteq> JUndef then trim (to_str (get body ''fieldPath'')) else ur_path r);
          operator = (if get body ''operator'' \<noteq> JUndef then trim (to_str (get body ''operator'')) else ur_operator r)
      in if get body ''fieldPath'' \<noteq> JUndef \<or> get body ''operator'' \<noteq> JUndef
         then outcome_bind (check_field (ur_product r) path operator) (\<lambda>_. Inr (path, operator)) else Inr (path, operator))"

definition patch_active :: "uw_casts \<Rightarrow> jsval \<Rightarrow> bool \<Rightarrow> (uw_error, bool) outcome" where
  "patch_active casts body old =
     (if in_body body ''active'' then case cast_to_bool casts (get body ''active'') of None \<Rightarrow> Inl ConstraintViolated | Some b \<Rightarrow> Inr b
      else Inr old)"

definition patch_effective :: "uw_casts \<Rightarrow> jsval \<Rightarrow> string \<Rightarrow> (uw_error, string) outcome" where
  "patch_effective casts body old =
     (if in_body body ''effectiveDate'' then case cast_to_date casts (get body ''effectiveDate'') of None \<Rightarrow> Inl DateCastFailed | Some d \<Rightarrow> Inr d
      else Inr old)"

definition patch_columns :: "uw_casts \<Rightarrow> jsval \<Rightarrow> uw_rule \<Rightarrow> (uw_error, uw_rule) outcome" where
  "patch_columns casts body r =
     outcome_bind (patch_condition body r) (\<lambda>(path, operator).
     outcome_bind (patch_text casts body ''reasonCode'' (ur_code r)) (\<lambda>code.
     outcome_bind (patch_text casts body ''reasonDescription'' (ur_reason r)) (\<lambda>reason.
     outcome_bind (patch_active casts body (ur_active r)) (\<lambda>active.
     outcome_bind (patch_effective casts body (ur_effective r)) (\<lambda>eff.
     outcome_bind (if in_body body ''expirationDate'' then cast_optional casts (get body ''expirationDate'') else Inr (ur_expiration r)) (\<lambda>expires.
       store_rule (r\<lparr>ur_path := path, ur_operator := operator,
         ur_state := (if in_body body ''stateCode'' then normalize_state_code (get body ''stateCode'') else ur_state r),
         ur_comparison := (if in_body body ''comparisonValue'' then get body ''comparisonValue'' else ur_comparison r),
         ur_outcome := (case outcome_of (to_str (get body ''outcome'')) of Some out \<Rightarrow> out | None \<Rightarrow> ur_outcome r),
         ur_code := code, ur_reason := reason, ur_active := active, ur_effective := eff, ur_expiration := expires\<rparr>)))))))"

definition find_rule :: "string \<Rightarrow> nat \<Rightarrow> uw_rule list \<Rightarrow> uw_rule option" where
  "find_rule tenant i rules = find_first (\<lambda>r. ur_tenant r = tenant \<and> ur_id r = i) rules"

definition patch_rule :: "uw_casts \<Rightarrow> string \<Rightarrow> nat \<Rightarrow> jsval \<Rightarrow> uw_rule list \<Rightarrow> (uw_error, uw_rule list) outcome" where
  "patch_rule casts tenant i body rules =
     (if get body ''outcome'' \<noteq> JUndef \<and> (\<not> is_str (get body ''outcome'') \<or> outcome_of (to_str (get body ''outcome'')) = None)
      then Inl UwInvalidOutcome
      else case find_rule tenant i rules of
             None \<Rightarrow> Inl RuleNotFound
           | Some r \<Rightarrow> outcome_bind (patch_columns casts body r) (\<lambda>r'.
               Inr (map (\<lambda>x. if ur_tenant x = tenant \<and> ur_id x = i then r' else x) rules)))"

text \<open>The rules of a tenant, changed by creations and patches; a step shows nothing.\<close>

inductive rule_step :: "uw_casts \<Rightarrow> uw_rule list \<Rightarrow> unit list \<Rightarrow> uw_rule list \<Rightarrow> bool" for casts where
  rule_created: "create_rule casts today tenant i body rules = Inr rules' \<Longrightarrow> rule_step casts rules [] rules'"
| rule_patched: "patch_rule casts tenant i body rules = Inr rules' \<Longrightarrow> rule_step casts rules [] rules'"

subsection \<open>What the decisions mean\<close>

text \<open>A saved rule reads a field of the catalog, by an operator it allows, to refer or to decline.\<close>

definition rule_ok :: "uw_rule \<Rightarrow> bool" where
  "rule_ok r \<longleftrightarrow> ur_outcome r \<noteq> Eligible \<and> check_field (ur_product r) (ur_path r) (ur_operator r) = Inr ()"

abbreviation rules_ok :: "uw_rule list \<Rightarrow> bool" where
  "rules_ok rules \<equiv> list_all rule_ok rules"

lemma outcome_of_not_Eligible: "outcome_of s = Some out \<Longrightarrow> out \<noteq> Eligible"
  by (auto simp: outcome_of_def split: if_splits)

lemma store_rule_Inr: "store_rule r = Inr r' \<Longrightarrow> r' = r"
  by (auto simp: store_rule_def split: option.splits if_splits)

lemma create_rule_ok: "create_rule casts today tenant i body rules = Inr rules' \<Longrightarrow> rules_ok rules \<Longrightarrow> rules_ok rules'"
  by (auto simp: create_rule_def Let_def rule_ok_def split: if_splits option.splits dest!: store_rule_Inr outcome_of_not_Eligible)

lemma patch_condition_ok:
  "patch_condition body r = Inr (path, operator) \<Longrightarrow> rule_ok r \<Longrightarrow> check_field (ur_product r) path operator = Inr ()"
  by (auto simp: patch_condition_def Let_def rule_ok_def split: if_splits)

lemma patch_columns_keep:
  "patch_columns casts body r = Inr r' \<Longrightarrow> patch_condition body r = Inr (ur_path r', ur_operator r') \<and> ur_product r' = ur_product r
   \<and> ur_outcome r' = (case outcome_of (to_str (get body ''outcome'')) of Some out \<Rightarrow> out | None \<Rightarrow> ur_outcome r)"
  by (auto simp: patch_columns_def dest!: store_rule_Inr)

lemma patch_columns_ok:
  assumes "patch_columns casts body r = Inr r'" "rule_ok r"
  shows "rule_ok r'"
proof -
  note kept = patch_columns_keep [OF assms(1)]
  then have "check_field (ur_product r') (ur_path r') (ur_operator r') = Inr ()"
    using patch_condition_ok [OF conjunct1 [OF kept] assms(2)] by simp
  moreover have "ur_outcome r' \<noteq> Eligible"
    using kept assms(2) by (auto simp: rule_ok_def dest: outcome_of_not_Eligible split: option.splits)
  ultimately show ?thesis by (simp add: rule_ok_def)
qed

lemma find_rule_in: "find_rule tenant i rules = Some r \<Longrightarrow> r \<in> set rules"
  unfolding find_rule_def by (auto dest: find_first_Some)

lemma patch_rule_ok:
  assumes "patch_rule casts tenant i body rules = Inr rules'" "rules_ok rules"
  shows "rules_ok rules'"
proof -
  from assms(1) obtain r r' where r: "find_rule tenant i rules = Some r" "patch_columns casts body r = Inr r'"
    and rules': "rules' = map (\<lambda>x. if ur_tenant x = tenant \<and> ur_id x = i then r' else x) rules"
    by (auto simp: patch_rule_def split: if_splits option.splits)
  have "rule_ok r'" using patch_columns_ok [OF r(2)] find_rule_in [OF r(1)] assms(2) by (simp add: list_all_iff)
  with assms(2) show ?thesis unfolding rules' by (auto simp: list_all_iff)
qed

interpretation uw_rules: step_invariant "rule_step casts" rules_ok for casts
  by unfold_locales (auto elim!: rule_step.cases intro: create_rule_ok patch_rule_ok)

text \<open>The decision of a list of findings: the most severe, and every reason in its order.\<close>

definition worst :: "uw_decision list \<Rightarrow> uw_decision" where
  "worst ds = (if Decline \<in> set ds then Decline else if Refer \<in> set ds then Refer else Eligible)"

lemma worst_Cons: "worst (d # ds) = max_decision d (worst ds)"
  by (cases d) (simp_all add: worst_def max_decision_def)

lemma max_decision_assoc: "max_decision (max_decision a b) c = max_decision a (max_decision b c)"
  by (cases a; cases b; cases c) (simp_all add: max_decision_def)

lemma max_decision_simps [simp]: "max_decision Eligible d = d" "max_decision d Eligible = d" "max_decision d Decline = Decline"
  by (cases d; simp add: max_decision_def)+

lemma foldl_findings:
  "foldl add_finding (d, rs) fs = (max_decision d (worst (map snd fs)), rs @ map fst fs)"
proof (induction fs arbitrary: d rs)
  case Nil
  then show ?case by (simp add: worst_def)
next
  case (Cons f fs)
  then show ?case by (simp add: add_finding_def worst_Cons max_decision_assoc)
qed

lemma foldl_rules:
  "foldl (\<lambda>res r. if p r then add_finding res (g r) else res) res rows = foldl add_finding res (map g (filter p rows))"
  by (induction rows arbitrary: res) simp_all

lemma assigned_finding: "snd f = Decline \<Longrightarrow> (Decline, snd res @ [fst f]) = add_finding res f"
  by (simp add: add_finding_def)

lemma fallback_fold:
  "foldl (\<lambda>res f. if snd f = Decline then (Decline, snd res @ [fst f]) else add_finding res f) res fs = foldl add_finding res fs"
  by (induction fs arbitrary: res) (simp_all add: assigned_finding)

text \<open>The rules that decide about a payload on a day.\<close>

definition firing_rules :: "string \<Rightarrow> string \<Rightarrow> jsval \<Rightarrow> uw_rule list \<Rightarrow> uw_rule list" where
  "firing_rules tenant day payload rules =
     filter (evaluate_rule_condition payload)
       (filter (rule_applies tenant (to_str (get payload ''productCode'')) (normalize_state_code (get payload ''state'')) day) rules)"

text \<open>C15: once a rule of the tenant applies to the product, the state and the day, the configured rules are the
  whole decision: the most severe outcome of those that fire, with the reason of each; the built-in checks and
  the overrides of the tenant no longer count.\<close>

theorem configured_rules_decide:
  assumes "tenant \<noteq> []" "js_truthy (get payload ''productCode'')"
    and "cast_to_date casts (JStr (normalize_effective_date today (get payload ''effectiveDate''))) = Some day"
    and "r \<in> set rules"
      "rule_applies tenant (to_str (get payload ''productCode'')) (normalize_state_code (get payload ''state'')) day r"
  shows "evaluate_uw casts today (RuleTable rules) required overrides tenant payload
    = Inr (worst (map ur_outcome (firing_rules tenant day payload rules)), map ur_reason (firing_rules tenant day payload rules))"
proof -
  have "filter (rule_applies tenant (to_str (get payload ''productCode'')) (normalize_state_code (get payload ''state'')) day) rules \<noteq> []"
    using assms(4,5) by (auto simp: filter_empty_conv)
  with assms(1-3) show ?thesis
    by (simp add: evaluate_uw_def evaluate_uw_rules_def foldl_rules foldl_findings firing_rules_def comp_def)
qed

text \<open>No finding is eligible.\<close>

lemma builtin_findings: "Eligible \<notin> snd ` set (builtin_checks c p @ override_checks overrides c p)"
proof -
  have "Eligible \<notin> snd ` set (personal_auto_checks p)"
    by (auto simp: personal_auto_checks_def found_def Let_def split: if_splits)
  moreover have "Eligible \<notin> snd ` set (commercial_auto_checks p)"
    by (auto simp: commercial_auto_checks_def found_def Let_def split: if_splits)
  moreover have "Eligible \<notin> snd ` set (homeowners_checks p)"
    by (auto simp: homeowners_checks_def found_def Let_def split: if_splits)
  moreover have "Eligible \<notin> snd ` set (cyber_checks p)"
    by (auto simp: cyber_checks_def found_def Let_def split: if_splits)
  moreover have "Eligible \<notin> snd ` set (professional_liability_checks p)"
    by (auto simp: professional_liability_checks_def found_def Let_def split: if_splits)
  moreover have "Eligible \<notin> snd ` set (override_checks overrides c p)"
    by (auto simp: override_checks_def found_def Let_def split: if_splits)
  moreover have "P (builtin_checks c p)"
    if "P (personal_auto_checks p)" "P (commercial_auto_checks p)" "P (homeowners_checks p)" "P (cyber_checks p)"
      "P (professional_liability_checks p)" "P []" for P
    using that unfolding builtin_checks_def by presburger
  note this [of "\<lambda>fs. Eligible \<notin> snd ` set fs"]
  ultimately show ?thesis unfolding set_append image_Un by simp
qed

lemma configured_findings:
  assumes "evaluate_uw_rules casts today (RuleTable rules) tenant c payload = Inr (Some res)"
  shows "\<exists>fs. res = foldl add_finding (Eligible, []) fs \<and> set fs \<subseteq> (\<lambda>r. (ur_reason r, ur_outcome r)) ` set rules"
proof -
  from assms obtain day where "res = foldl add_finding (Eligible, []) (map (\<lambda>r. (ur_reason r, ur_outcome r))
      (filter (evaluate_rule_condition payload)
        (filter (rule_applies tenant (to_str c) (normalize_state_code (get payload ''state'')) day) rules)))"
    unfolding evaluate_uw_rules_def foldl_rules Let_def by (auto split: if_splits option.splits)
  then show ?thesis by (intro exI conjI) auto
qed

lemma worst_Eligible: "Eligible \<notin> set ds \<Longrightarrow> worst ds = Eligible \<longleftrightarrow> ds = []"
proof (cases ds)
  case (Cons d ds')
  assume "Eligible \<notin> set ds"
  with Cons show ?thesis by (cases d) (auto simp: worst_def)
qed (simp add: worst_def)

text \<open>C16: after any history of rules created and patched, a risk is eligible exactly when the decision has no
  reason: what is referred or declined always says why, and what says why is never let through. This holds for
  configured rules and for the built-in checks.\<close>

theorem decision_has_reasons:
  assumes "trace (rule_step casts) [] es rules" "evaluate_uw casts today (RuleTable rules) required overrides tenant payload = Inr (d, rs)"
  shows "d = Eligible \<longleftrightarrow> rs = []"
proof -
  have "rules_ok []" by simp
  from uw_rules.inv_trace [OF assms(1) this] have rules: "Eligible \<notin> ur_outcome ` set rules" by (auto simp: list_all_iff rule_ok_def)
  have fold: "fst (foldl add_finding (Eligible, []) fs) = Eligible \<longleftrightarrow> snd (foldl add_finding (Eligible, []) fs) = []"
    if "Eligible \<notin> snd ` set fs" for fs
    using worst_Eligible [of "map snd fs"] that by (simp add: foldl_findings)
  consider fs where "(d, rs) = foldl add_finding (Eligible, []) fs" "Eligible \<notin> snd ` set fs"
  proof (cases "evaluate_uw_rules casts today (RuleTable rules) tenant (get payload ''productCode'') payload")
    case (Inr c)
    show ?thesis
    proof (cases c)
      case None
      with Inr assms(2) have "(d, rs) = foldl add_finding (Eligible, [])
          (builtin_checks (get payload ''productCode'') payload @ override_checks overrides (get payload ''productCode'') payload)"
        by (simp add: evaluate_uw_def evaluate_uw_fallback_def fallback_fold split: if_splits)
      then show ?thesis by (rule that) (rule builtin_findings)
    next
      case (Some res)
      with Inr assms(2) have "evaluate_uw_rules casts today (RuleTable rules) tenant (get payload ''productCode'') payload = Inr (Some (d, rs))"
        by (simp add: evaluate_uw_def)
      from configured_findings [OF this] obtain fs where fs: "(d, rs) = foldl add_finding (Eligible, []) fs"
          "set fs \<subseteq> (\<lambda>r. (ur_reason r, ur_outcome r)) ` set rules"
        by blast
      then have "snd ` set fs \<subseteq> ur_outcome ` set rules" by auto
      with rules fs(1) show ?thesis by (intro that) auto
    qed
  qed (use assms(2) in \<open>simp add: evaluate_uw_def\<close>)
  then show ?thesis by cases (metis fold fst_conv snd_conv)
qed

lemma store_rule_Inr_iff:
  "store_rule x = Inr y \<longleftrightarrow> y = x \<and> \<not> (\<exists>e. ur_expiration x = Some e \<and> e < ur_effective x)"
  by (auto simp: store_rule_def split: option.splits)

lemma create_rule_threshold:
  assumes "create_rule casts today tenant i (JObj kvs) [] = Inr [r]" and "\<not> nullish v"
  shows "create_rule casts today tenant i (JObj (aput kvs ''comparisonValue'' v)) [] = Inr [r\<lparr>ur_comparison := v\<rparr>]"
proof -
  have same: "get (JObj (aput kvs ''comparisonValue'' v)) k = get (JObj kvs) k" if "k \<noteq> ''comparisonValue''" for k
    using that by simp
  have new: "get (JObj (aput kvs ''comparisonValue'' v)) ''comparisonValue'' = v" by simp
  let ?txt = "\<lambda>k. trim (str_or_empty (get (JObj kvs) k))"
  from assms(1) obtain out eff expires where
    "\<not> list_ex (\<lambda>k. ?txt k = []) [''productCode'', ''fieldPath'', ''operator'', ''outcome'', ''reasonCode'', ''reasonDescription'']"
    "outcome_of (?txt ''outcome'') = Some out"
    "check_field (?txt ''productCode'') (?txt ''fieldPath'') (?txt ''operator'') = Inr ()"
    "cast_to_date casts (js_or (get (JObj kvs) ''effectiveDate'') (JStr today)) = Some eff"
    "cast_optional casts (get (JObj kvs) ''expirationDate'') = Inr expires"
    "\<not> (\<exists>e. expires = Some e \<and> e < eff)"
    "r = \<lparr>ur_id = i, ur_tenant = tenant, ur_product = ?txt ''productCode'',
       ur_state = (if nullish (get (JObj kvs) ''stateCode'') then None else normalize_state_code (get (JObj kvs) ''stateCode'')),
       ur_path = ?txt ''fieldPath'', ur_operator = ?txt ''operator'', ur_comparison = get (JObj kvs) ''comparisonValue'',
       ur_outcome = out, ur_code = ?txt ''reasonCode'', ur_reason = ?txt ''reasonDescription'',
       ur_active = (get (JObj kvs) ''active'' \<noteq> JBool False), ur_effective = eff, ur_expiration = expires\<rparr>"
    unfolding create_rule_def Let_def
    by (simp del: get_JObj add: store_rule_Inr_iff split: if_splits option.splits) blast+
  with assms(2) show ?thesis unfolding create_rule_def Let_def new
    by (simp del: get_JObj add: same store_rule_Inr_iff)
qed

text \<open>C40: the check that keeps rules out that never fire lets a threshold through that is no number: when a rule
  that compares with one of the four orders is accepted, the same rule with any text or other value that is no
  number as its threshold is accepted as well. That rule never fires, and alone it is the whole decision: every
  risk it applies to is eligible, whatever the built-in checks would say.\<close>

theorem text_threshold_disables_checks:
  assumes "create_rule casts today tenant i (JObj kvs) [] = Inr [r]"
    and "ur_operator r \<in> {''greater_than'', ''greater_than_or_equal'', ''less_than'', ''less_than_or_equal''}"
    and "\<not> nullish v" "to_num v = NaN" "tenant \<noteq> []" "js_truthy (get payload ''productCode'')"
    and "cast_to_date casts (JStr (normalize_effective_date today (get payload ''effectiveDate''))) = Some day"
    and "rule_applies tenant (to_str (get payload ''productCode'')) (normalize_state_code (get payload ''state'')) day r"
  shows "create_rule casts today tenant i (JObj (aput kvs ''comparisonValue'' v)) [] = Inr [r\<lparr>ur_comparison := v\<rparr>]
    \<and> evaluate_uw casts today (RuleTable [r\<lparr>ur_comparison := v\<rparr>]) required overrides tenant payload = Inr (Eligible, [])"
proof
  let ?r = "r\<lparr>ur_comparison := v\<rparr>"
  have "\<not> evaluate_rule_condition payload ?r"
    using assms(2,4) by (auto simp: evaluate_rule_condition_def apply_operator_def)
  moreover have applies: "rule_applies tenant (to_str (get payload ''productCode'')) (normalize_state_code (get payload ''state'')) day ?r"
    using assms(8) by (simp add: rule_applies_def)
  ultimately have "firing_rules tenant day payload [?r] = []" by (simp add: firing_rules_def)
  then show "evaluate_uw casts today (RuleTable [?r]) required overrides tenant payload = Inr (Eligible, [])"
    using assms(5-7) applies by (simp add: evaluate_uw_def evaluate_uw_rules_def foldl_rules foldl_findings firing_rules_def worst_def)
qed (rule create_rule_threshold [OF assms(1,3)])

text \<open>A field that is null or blank is compared as 0, not as missing.\<close>

lemma blank_field_compared_as_zero:
  "apply_operator JNull ''less_than'' (JNum (Fin 1))" "apply_operator (JStr '' '') ''less_than'' (JNum (Fin 1))"
  "\<not> apply_operator JUndef ''less_than'' (JNum (Fin 1))"
  by code_simp+

text \<open>A house with a roof of 40 years.\<close>

definition text_casts :: uw_casts where
  "text_casts = \<lparr>cast_to_date = (\<lambda>v. case v of JStr s \<Rightarrow> Some s | _ \<Rightarrow> None),
     cast_to_bool = (\<lambda>v. case v of JBool b \<Rightarrow> Some b | _ \<Rightarrow> None), cast_to_text = (\<lambda>v. case v of JStr s \<Rightarrow> Some s | _ \<Rightarrow> None)\<rparr>"

definition old_roof :: jsval where
  "old_roof = JObj [(''productCode'', JStr ''homeowners''), (''state'', JStr ''TX''), (''effectiveDate'', JStr ''2026-01-02''),
     (''risks'', JArr [JObj [(''roofAgeYears'', JNum (Fin 40))]])]"

definition roof_rule :: "jsval \<Rightarrow> jsval" where
  "roof_rule threshold = JObj [(''productCode'', JStr ''homeowners''), (''fieldPath'', JStr ''risks[0].roofAgeYears''),
     (''operator'', JStr ''greater_than''), (''comparisonValue'', threshold), (''outcome'', JStr ''Refer''),
     (''reasonCode'', JStr ''ROOF''), (''reasonDescription'', JStr ''Roof''), (''effectiveDate'', JStr ''2026-01-01'')]"

definition saved_roof_rule :: "jsval \<Rightarrow> uw_rule" where
  "saved_roof_rule threshold = \<lparr>ur_id = 0, ur_tenant = ''t'', ur_product = ''homeowners'', ur_state = None, ur_path = ''risks[0].roofAgeYears'',
     ur_operator = ''greater_than'', ur_comparison = threshold, ur_outcome = Refer, ur_code = ''ROOF'', ur_reason = ''Roof'',
     ur_active = True, ur_effective = ''2026-01-01'', ur_expiration = None\<rparr>"

lemma roof_rules_saved:
  "create_rule text_casts ''2026-01-02'' ''t'' 0 (roof_rule (JNum (Fin 30))) [] = Inr [saved_roof_rule (JNum (Fin 30))]"
  "create_rule text_casts ''2026-01-02'' ''t'' 0 (roof_rule (JStr ''30 years'')) [] = Inr [saved_roof_rule (JStr ''30 years'')]"
  by code_simp+

lemma roof_rules_apply:
  "rule_applies ''t'' (to_str (get old_roof ''productCode'')) (normalize_state_code (get old_roof ''state'')) ''2026-01-02'' (saved_roof_rule v)"
  by (simp add: rule_applies_def saved_roof_rule_def old_roof_def)

lemma old_roof_day:
  "cast_to_date text_casts (JStr (normalize_effective_date ''2026-01-02'' (get old_roof ''effectiveDate''))) = Some ''2026-01-02''"
  "js_truthy (get old_roof ''productCode'')"
  by code_simp+

text \<open>The built-in checks decline it.\<close>

lemma old_roof_declined:
  "evaluate_uw text_casts ''2026-01-02'' (RuleTable []) False JUndef ''t'' old_roof = Inr (Decline, [''Roof age > 30 (decline)''])"
  by code_simp

theorem configured_rules_decide_witness:
  "evaluate_uw text_casts ''2026-01-02'' (RuleTable [saved_roof_rule (JNum (Fin 30))]) False JUndef ''t'' old_roof
   = Inr (worst (map ur_outcome (firing_rules ''t'' ''2026-01-02'' old_roof [saved_roof_rule (JNum (Fin 30))])),
          map ur_reason (firing_rules ''t'' ''2026-01-02'' old_roof [saved_roof_rule (JNum (Fin 30))]))"
  by (rule configured_rules_decide [of _ _ _ _ _ "saved_roof_rule (JNum (Fin 30))"])
     (simp_all add: old_roof_day roof_rules_apply)

theorem text_threshold_disables_checks_witness:
  "\<exists>kvs. JObj kvs = roof_rule (JStr ''30 years'')
     \<and> create_rule text_casts ''2026-01-02'' ''t'' 0 (JObj kvs) [] = Inr [saved_roof_rule (JStr ''30 years'')]
     \<and> evaluate_uw text_casts ''2026-01-02'' (RuleTable [saved_roof_rule (JStr ''30 years'')]) False JUndef ''t'' old_roof = Inr (Eligible, [])"
proof -
  obtain kvs where kvs: "roof_rule (JNum (Fin 30)) = JObj kvs" by (simp add: roof_rule_def)
  then have new: "JObj (aput kvs ''comparisonValue'' (JStr ''30 years'')) = roof_rule (JStr ''30 years'')"
    by (auto simp: roof_rule_def)
  have num: "to_num (JStr ''30 years'') = NaN" by code_simp
  have threshold: "(saved_roof_rule (JNum (Fin 30)))\<lparr>ur_comparison := JStr ''30 years''\<rparr> = saved_roof_rule (JStr ''30 years'')"
    by (simp add: saved_roof_rule_def)
  from text_threshold_disables_checks [OF roof_rules_saved(1) [unfolded kvs] _ _ num _ old_roof_day(2,1) roof_rules_apply, of False JUndef]
  have "create_rule text_casts ''2026-01-02'' ''t'' 0 (JObj (aput kvs ''comparisonValue'' (JStr ''30 years''))) [] =
      Inr [saved_roof_rule (JStr ''30 years'')]
    \<and> evaluate_uw text_casts ''2026-01-02'' (RuleTable [saved_roof_rule (JStr ''30 years'')]) False JUndef ''t'' old_roof = Inr (Eligible, [])"
    unfolding threshold by (simp_all add: saved_roof_rule_def)
  with new show ?thesis by blast
qed

lemma roof_rule_history: "trace (rule_step text_casts) [] [] [saved_roof_rule (JNum (Fin 30))]"
  by (rule trace_single, rule rule_created, rule roof_rules_saved(1))

theorem decision_has_reasons_witness: "(Refer :: uw_decision) = Eligible \<longleftrightarrow> [''Roof''] = ([] :: string list)"
proof (rule decision_has_reasons [OF roof_rule_history])
  show "evaluate_uw text_casts ''2026-01-02'' (RuleTable [saved_roof_rule (JNum (Fin 30))]) False JUndef ''t'' old_roof = Inr (Refer, [''Roof''])"
    by code_simp
qed

end
