(* ===== verification/Spec2Isabelle.thy ===== *)
theory Spec2Isabelle
  imports ValidationRules ScreenRules RatingTable TransactionState PolicyTimeline JobSystem Outbox Idempotency PolicyStatus LoginSecurity Mfa FormTriggers PatchUtils TreatyPlacement
    PolicyCompliance Authority PolicyLock Referral CommercialPlacement QuoteRating
    Underwriting
begin

text \<open>
  LatticePolicy is a platform for property and casualty insurance in TypeScript: an HTTP server over
  PostgreSQL (\<open>server/src\<close>), a React client, and a package of rules both use (\<open>packages/rules\<close>). This
  development models the logic of the rules package and of the server between the wire and the tables:
  what a rule means, what a premium is, when a transaction is allowed, and what the queues, the locks
  and the workflows guarantee while several requests and workers run.

  \<^bold>\<open>How the program is put together, and the theories that model it.\<close>

  The language of the rules. A carrier writes conditions as text. \<open>ExprParser\<close> (tokenizer and recursive
  descent parser) and \<open>ExprEval\<close> (static checks, evaluator, cache of compiled texts) model
  \<open>packages/rules/src/expression.ts\<close>. \<open>ValidationRules\<close> (\<open>validation-rules.ts\<close>), \<open>ScreenRules\<close>
  (\<open>screen-rules.ts\<close>) and \<open>FormTriggers\<close> (\<open>form-attachment.ts\<close>) are its clients: which findings a quote
  has, what a screen shows and refuses, which forms a policy carries. They rest on \<open>JsNumber\<close> (binary64
  numbers as rationals with rounding), \<open>JsText\<close> (numbers from and to text), \<open>JsString\<close>, \<open>JsValue\<close> (JSON
  values and the conversions of the language) and \<open>JsonText\<close> (\<open>JSON.stringify\<close>).

  Quotes, rating and policies. \<open>RatingTable\<close> models \<open>server/src/lib/rating-table.ts\<close>: the premium of a
  quote from the tables of a carrier, and the check of a rates file. \<open>QuoteRating\<close>: drafts, ratings, draft
  saves, copies and binds of quotes with the fingerprint of the rated risk (\<open>services/quote.service.ts\<close>,
  \<open>lib/rating-fingerprint.ts\<close>, \<open>services/quote-bind.service.ts\<close>). \<open>ReferralProposal\<close> and \<open>Referral\<close>: the
  canonical text of a proposal and the referral of what an actor may not decide
  (\<open>lib/referral-proposal.ts\<close>, \<open>services/uw-referral.service.ts\<close>). \<open>Authority\<close>: the grants of an actor
  (\<open>services/underwriting-authority.service.ts\<close>). \<open>Underwriting\<close>: the decision on a risk, by configured
  rules or by the built-in checks (\<open>services/uw.service.ts\<close>, \<open>underwriting-rule-fields.ts\<close>). \<open>TransactionState\<close>: the states of a policy and the
  transactions that move it (\<open>lib/transaction-state.ts\<close>). \<open>PolicyLock\<close>: the version check of a change
  under the lock of its policy (\<open>services/policy-concurrency.service.ts\<close>). \<open>PolicyTimeline\<close>: the segments
  the versions cut the term into (\<open>lib/policy-timeline.ts\<close>). \<open>PolicyCompliance\<close>: sanctions screening,
  eligibility, notice and return premium (\<open>lib/policy-compliance.ts\<close>, \<open>cancelPolicy\<close>). \<open>PolicyStatus\<close>: the
  shown status and its filter (\<open>lib/policy.utils.ts\<close>). \<open>DateUtils\<close> and \<open>PatchUtils\<close>: dates and JSON
  patches (\<open>lib/date.utils.ts\<close>, \<open>lib/patch.utils.ts\<close>).

  Reinsurance and the market. \<open>TreatyVersions\<close> (\<open>routes/reinsurance-admin.routes.ts\<close>) writes treaties as
  chains of superseding rows, \<open>Reinsurance\<close> (\<open>services/reinsurance.service.ts\<close>) reads them when a
  transaction is placed, and \<open>TreatyPlacement\<close> joins the two. \<open>CommercialPlacement\<close> is the subscription
  workflow (\<open>services/placement.service.ts\<close>).

  Queues and requests. \<open>JobQueue\<close>, \<open>JobScheduler\<close> and \<open>JobSystem\<close> model \<open>server/src/jobs\<close>, \<open>Outbox\<close> the
  event outbox (\<open>asyncMessageWorker.ts\<close>, \<open>events/envelope.ts\<close>), \<open>QueueUtils\<close> what both share, and
  \<open>Idempotency\<close> the idempotent requests (\<open>lib/idempotency.ts\<close>) over their two stores. \<open>LoginSecurity\<close> and
  \<open>Mfa\<close>: passwords, lockout and one-time codes (\<open>lib/password-policy.ts\<close>, \<open>auth.ts\<close>, \<open>lib/mfa.ts\<close>).

  \<^bold>\<open>How state and effects correspond.\<close> A table is a list of rows in a record of the component's state;
  a row is a record with the columns the operations read or write. An operation takes the state and
  answers the new one, or an error value where the code throws (\<open>outcome\<close>: \<open>Inl\<close> the error). A statement
  or a transaction under one lock is one step. The step relations (\<open>job_step\<close>, \<open>outbox_step\<close>, \<open>rule_step\<close>,
  \<open>idem_step\<close>, \<open>change_step\<close>, \<open>reins_step\<close>, \<open>placement_step\<close>, \<open>referral_step\<close>, \<open>quote_step\<close>) put the
  operations in any order, with the loss of workers and the passing of time; \<open>Traces\<close> runs them. Where the
  code reads and writes without a lock, the read and the write are two definitions, and the claims about
  overlapping requests run them interleaved. JavaScript values keep their conversions: an absent property
  is \<open>undefined\<close>, numbers round, objects keep the order of insertion. Characters are the code units below
  U+0100.

  \<^bold>\<open>What the lemmas show.\<close> \<open>ExprEval\<close>: an accepted text evaluates without an error of the language, only
  on the variables it names. The rules, screens and forms: a finding, a refusal or a form exists exactly
  when the declarative condition says so. \<open>JobSystem\<close>, \<open>Outbox\<close>: one owner at a time, bounded attempts, what
  is finished stays finished, and what a crash leaves behind. \<open>Idempotency\<close>: a key succeeds once and its
  answer is replayed as long as its handlers end once, both stores of the keys agree, and what happens to
  the key when a connection closes before its handler ends, an answer is not sent by \<open>res.json\<close>, or a
  handler is lost.
  \<open>TransactionState\<close>, \<open>PolicyLock\<close>, \<open>Referral\<close>, \<open>QuoteRating\<close>: the history of a policy stays in the
  table of transitions, no stale change is applied, no referred work goes through without its own
  approval, and no quote is bound on a risk it was not rated for. \<open>ReferralProposal\<close>: the canonical text
  determines the proposal. \<open>Underwriting\<close>: configured rules are the whole decision, and a decision other than
  eligible always has its reasons. \<open>TreatyPlacement\<close>: one current version per treaty, and a placement uses it;
  the search for the first version halts on cycles too. \<open>PolicyTimeline\<close>: the segments tile the term.
  \<open>RatingTable\<close>, \<open>PolicyCompliance\<close>, \<open>CommercialPlacement\<close>: bounds of premiums, refunds and shares, under
  rounding. \<open>PatchUtils\<close>, \<open>Mfa\<close>, \<open>JsText\<close>: round trips. The claims of kind error prove where the code does
  not do what its comments promise.

  \<^bold>\<open>Interfaces.\<close> \<open>subparser\<close> is what a level of the parser promises its callers, interpreted on each
  level. \<open>key_store\<close> is the contract of an idempotency store, interpreted on the table and on the map in
  memory. \<open>step_invariant\<close>, \<open>step_property\<close> and \<open>history_invariant\<close> are the contracts of the invariants,
  interpreted on every step relation. \<open>version_chain\<close> is the table of superseding rows the search for the
  first version walks.

  \<^bold>\<open>Bounds and termination.\<close> All definitions are total. The parser recurses on the tokens that are left
  with the depth budget of the source (\<open>MAX_DEPTH\<close>), and a text is at most \<open>MAX_LENGTH\<close> long, so that no
  other bound is needed. The functions on JSON values recurse on their size. The bounded copy of a form
  context counts nodes and depth as the source does. The search for the first treaty version has the
  superseded rows that are not visited as its measure. The shortest decimal of a number tries up to 17
  digits, which always suffices for binary64. The retry loops end by their own attempt counters.

  \<^bold>\<open>Parameters.\<close> What is no code of the repository is an argument: the clock and free-form dates (record
  \<open>host\<close>), \<open>localeCompare\<close>, SHA-256 and HMAC, the comparison of password hashes, the transports and the
  mailer, the casts of PostgreSQL and of its driver (\<open>cast_date\<close>, \<open>hundredths\<close>, record \<open>driver\<close>), handlers
  of jobs and of requests, and the rating function of a timeline. The claims on fingerprints assume that
  SHA-256 keeps different texts apart.

  \<^bold>\<open>Not modelled.\<close> The React client, the HTTP routes and their schemas, the storage layer, migrations and
  caches: they are wiring. The services that assemble whole policy transactions (bind, endorse, cancel,
  renew) beyond their decisions, forms and documents as stored and rendered, document intake and the
  services around external models, model releases, reports made by SQL aggregation, customers and
  agencies, access tokens and permissions, notifications, data import and the formulas of the built-in
  products: mostly reads and writes around code outside the repository. The manifest lists each part.
\<close>

end
